(* ===== verification/GoPrelude.thy ===== *)
theory GoPrelude
  imports Main "HOL-Library.Char_ord" "HOL-Library.List_Lexorder"
begin

text \<open>
  What every component theory of the development shares: the names of the model's basic types
  (Go's \<open>time.Time\<close> and \<open>time.Duration\<close> as integers that count nanoseconds), the two
  collections of facts the component proofs draw on, and generic lemmas on lists, folds and maps.

  \<^item> \<open>inv_intros\<close> collects the preservation lemmas of the components' operations;
  \<^item> \<open>op_defs\<close> collects the definitions of operations, to open them all at once.
\<close>

named_theorems inv_intros "operations preserve the invariant of their component"
named_theorems op_defs "definitions of a component's operations"

section \<open>Time\<close>

text \<open>
  A \<open>time.Time\<close> is the number of nanoseconds since Go's zero time, so the zero value, the
  one \<open>IsZero\<close> recognises, is 0. \<open>After\<close> and \<open>Before\<close> are the strict orders and
  \<open>Sub\<close> is the difference.
\<close>

type_synonym time = int
type_synonym duration = int

abbreviation IsZero :: "time \<Rightarrow> bool" where
  "IsZero t \<equiv> t = 0"

abbreviation go_second :: duration where
  "go_second \<equiv> 1000000000"

abbreviation go_minute :: duration where
  "go_minute \<equiv> 60000000000"

abbreviation go_hour :: duration where
  "go_hour \<equiv> 3600000000000"

section \<open>Lists and folds\<close>

lemma fold_invariant:
  assumes "P s" and "\<And>x s. x \<in> set xs \<Longrightarrow> P s \<Longrightarrow> P (f x s)"
  shows "P (fold f xs s)"
  using assms by (induction xs arbitrary: s) auto

lemma sum_list_drop_le:
  fixes xs :: "nat list"
  shows "sum_list (drop n xs) \<le> sum_list xs"
  by (metis append_take_drop_id le_add2 sum_list_append)

lemma filter_length_mono:
  assumes "\<And>x. x \<in> set xs \<Longrightarrow> P x \<Longrightarrow> Q x"
  shows "length (filter P xs) \<le> length (filter Q xs)"
  using assms by (induction xs) auto

lemma filter_empty_iff_all: "filter P xs = [] \<longleftrightarrow> (\<forall>x\<in>set xs. \<not> P x)"
  by (induction xs) auto

lemma find_SomeD: "find P xs = Some x \<Longrightarrow> x \<in> set xs \<and> P x"
  by (induction xs) (auto split: if_splits)

lemma find_NoneD: "find P xs = None \<Longrightarrow> x \<in> set xs \<Longrightarrow> \<not> P x"
  by (simp add: find_None_iff)

section \<open>Maps\<close>

lemma map_upd_other [simp]: "k' \<noteq> k \<Longrightarrow> (m(k \<mapsto> v)) k' = m k'"
  by simp

lemma dom_restrict_subset: "dom (m |` A) \<subseteq> dom m"
  by (auto simp: restrict_map_def split: if_splits)

end
