(* ===== verification/GoStrings.thy ===== *)
theory GoStrings
  imports GoPrelude
begin

text \<open>
  Go strings and the part of the packages \<open>unicode/utf8\<close>, \<open>unicode\<close> and \<open>strings\<close>
  that the program uses. A Go string is a sequence of bytes, here HOL's \<open>string\<close> (a list of
  8-bit characters); a rune is a code point, here a \<open>nat\<close>. \<open>decode_rune\<close> is
  \<open>utf8.DecodeRuneInString\<close> with its rule for invalid input (the replacement rune U+FFFD, one
  byte wide), \<open>runes s\<close> is the conversion \<open>[]rune(s)\<close> and \<open>utf8 rs\<close> the
  conversion \<open>string(rs)\<close>. The lemmas show that encoding and decoding are inverse on valid
  runes, that \<open>TrimSpace\<close> is idempotent, and how runes count under concatenation.
\<close>

type_synonym rune = nat

abbreviation byte :: "char \<Rightarrow> nat" where
  "byte c \<equiv> of_char c"

definition rune_error :: rune where
  "rune_error = 65533"

definition cont_byte :: "nat \<Rightarrow> bool" where
  "cont_byte b \<longleftrightarrow> 128 \<le> b \<and> b \<le> 191"

text \<open>The bytes allowed second in a three- or four-byte sequence that starts with the byte given.\<close>

definition second_ok :: "nat \<Rightarrow> nat \<Rightarrow> bool" where
  "second_ok b0 b1 \<longleftrightarrow>
     (if b0 = 224 then 160 \<le> b1 \<and> b1 \<le> 191
      else if b0 = 237 then 128 \<le> b1 \<and> b1 \<le> 159
      else if b0 = 240 then 144 \<le> b1 \<and> b1 \<le> 191
      else if b0 = 244 then 128 \<le> b1 \<and> b1 \<le> 143
      else cont_byte b1)"

fun decode_rune :: "string \<Rightarrow> rune \<times> nat" where
  "decode_rune [] = (rune_error, 0)"
| "decode_rune (c0 # cs) =
     (let b0 = byte c0 in
      if b0 < 128 then (b0, 1)
      else if 194 \<le> b0 \<and> b0 \<le> 223 then
        (case cs of
           c1 # _ \<Rightarrow>
             if cont_byte (byte c1) then ((b0 - 192) * 64 + (byte c1 - 128), 2)
             else (rune_error, 1)
         | [] \<Rightarrow> (rune_error, 1))
      else if 224 \<le> b0 \<and> b0 \<le> 239 then
        (case cs of
           c1 # c2 # _ \<Rightarrow>
             if second_ok b0 (byte c1) \<and> cont_byte (byte c2)
             then ((b0 - 224) * 4096 + (byte c1 - 128) * 64 + (byte c2 - 128), 3)
             else (rune_error, 1)
         | _ \<Rightarrow> (rune_error, 1))
      else if 240 \<le> b0 \<and> b0 \<le> 244 then
        (case cs of
           c1 # c2 # c3 # _ \<Rightarrow>
             if second_ok b0 (byte c1) \<and> cont_byte (byte c2) \<and> cont_byte (byte c3)
             then ((b0 - 240) * 262144 + (byte c1 - 128) * 4096 + (byte c2 - 128) * 64
                     + (byte c3 - 128), 4)
             else (rune_error, 1)
         | _ \<Rightarrow> (rune_error, 1))
      else (rune_error, 1))"

definition valid_rune :: "rune \<Rightarrow> bool" where
  "valid_rune r \<longleftrightarrow> r < 55296 \<or> (57343 < r \<and> r < 1114112)"

definition encode_rune :: "rune \<Rightarrow> string" where
  "encode_rune r =
     (if r < 128 then [char_of r]
      else if r < 2048 then [char_of (192 + r div 64), char_of (128 + r mod 64)]
      else if \<not> valid_rune r then [char_of (239::nat), char_of (191::nat), char_of (189::nat)]
      else if r < 65536 then
        [char_of (224 + r div 4096), char_of (128 + r div 64 mod 64), char_of (128 + r mod 64)]
      else
        [char_of (240 + r div 262144), char_of (128 + r div 4096 mod 64),
         char_of (128 + r div 64 mod 64), char_of (128 + r mod 64)])"

definition utf8 :: "rune list \<Rightarrow> string" where
  "utf8 rs = concat (map encode_rune rs)"

lemma decode_rune_width_pos: "s \<noteq> [] \<Longrightarrow> 0 < snd (decode_rune s)"
  by (cases s) (auto simp: Let_def split: list.splits)

lemma decode_rune_width_le: "snd (decode_rune s) \<le> length s"
  by (cases s) (auto simp: Let_def split: list.splits)

text \<open>The byte pieces that the successive runes of a string occupy.\<close>

function chunks :: "string \<Rightarrow> string list" where
  "chunks [] = []"
| "chunks (c # cs) =
     (let w = snd (decode_rune (c # cs)) in take w (c # cs) # chunks (drop w (c # cs)))"
  by pat_completeness auto
termination
proof (relation "measure length", simp)
  fix c :: char and cs :: string and w :: nat
  assume "w = snd (decode_rune (c # cs))"
  then have "0 < w" using decode_rune_width_pos [of "c # cs"] by simp
  then show "(drop w (c # cs), c # cs) \<in> measure length" by simp
qed

declare chunks.simps(2) [simp del]

definition runes :: "string \<Rightarrow> rune list" where
  "runes s = map (fst \<circ> decode_rune) (chunks s)"

definition RuneCount :: "string \<Rightarrow> nat" where
  "RuneCount s = length (runes s)"


section \<open>Encoding and decoding\<close>

lemma byte_less_256: "byte c < (256::nat)"
  by (metis mod_less_divisor of_char_mod_256 zero_less_numeral)

lemma byte_char_of: "n < 256 \<Longrightarrow> byte (char_of n) = (n :: nat)"
  by simp

lemma decode_rune_2:
  "194 \<le> byte c0 \<Longrightarrow> byte c0 \<le> 223 \<Longrightarrow> cont_byte (byte c1) \<Longrightarrow>
   decode_rune (c0 # c1 # s) = ((byte c0 - 192) * 64 + (byte c1 - 128), 2)"
  by (simp add: Let_def)

lemma decode_rune_3:
  "224 \<le> byte c0 \<Longrightarrow> byte c0 \<le> 239 \<Longrightarrow> second_ok (byte c0) (byte c1) \<Longrightarrow> cont_byte (byte c2) \<Longrightarrow>
   decode_rune (c0 # c1 # c2 # s) =
     ((byte c0 - 224) * 4096 + (byte c1 - 128) * 64 + (byte c2 - 128), 3)"
  by (simp add: Let_def)

lemma decode_rune_4:
  "240 \<le> byte c0 \<Longrightarrow> byte c0 \<le> 244 \<Longrightarrow> second_ok (byte c0) (byte c1) \<Longrightarrow> cont_byte (byte c2) \<Longrightarrow>
   cont_byte (byte c3) \<Longrightarrow>
   decode_rune (c0 # c1 # c2 # c3 # s) =
     ((byte c0 - 240) * 262144 + (byte c1 - 128) * 4096 + (byte c2 - 128) * 64 + (byte c3 - 128), 4)"
  by (simp add: Let_def)

declare decode_rune.simps(2) [simp del]

lemma decode_rune_1: "byte c0 < (128::nat) \<Longrightarrow> decode_rune (c0 # s) = (byte c0, 1)"
  by (simp add: decode_rune.simps Let_def)

lemma decode_encode_rune:
  assumes "valid_rune r"
  shows "decode_rune (encode_rune r @ s) = (r, length (encode_rune r))"
proof -
  have "r < 1114112" using assms by (auto simp: valid_rune_def)
  then consider "r < 128" | "128 \<le> r" "r < 2048" | "2048 \<le> r" "r < 65536"
    | "65536 \<le> r" "r < 1114112"
    by linarith
  then show ?thesis
  proof cases
    case 1
    then show ?thesis by (simp add: encode_rune_def decode_rune_1)
  next
    case 2
    define b0 b1 where "b0 = 192 + r div 64" and "b1 = 128 + r mod 64"
    have e: "encode_rune r = [char_of b0, char_of b1]"
      using 2 by (simp add: encode_rune_def b0_def b1_def)
    have bb: "b0 \<le> 223" "b1 \<le> 191" "128 \<le> b1" "194 \<le> b0"
      using 2 by (auto simp: b0_def b1_def)
    then have by0: "byte (char_of b0) = b0" and by1: "byte (char_of b1) = b1"
      by (auto simp del: of_char_of intro!: byte_char_of)
    have "decode_rune (char_of b0 # char_of b1 # s) = ((b0 - 192) * 64 + (b1 - 128), 2)"
      using decode_rune_2 [of "char_of b0" "char_of b1" s] bb unfolding by0 by1
      by (simp add: cont_byte_def)
    moreover have "(b0 - 192) * 64 + (b1 - 128) = r" by (simp add: b0_def b1_def)
    ultimately show ?thesis by (simp add: e)
  next
    case 3
    define b0 b1 b2 where "b0 = 224 + r div 4096" and "b1 = 128 + r div 64 mod 64"
      and "b2 = 128 + r mod 64"
    have e: "encode_rune r = [char_of b0, char_of b1, char_of b2]"
      using 3 assms by (simp add: encode_rune_def b0_def b1_def b2_def)
    have bb: "b0 \<le> 239" "b1 \<le> 191" "b2 \<le> 191" "128 \<le> b1" "128 \<le> b2" "224 \<le> b0"
      using 3 by (auto simp: b0_def b1_def b2_def)
    then have by0: "byte (char_of b0) = b0" and by1: "byte (char_of b1) = b1"
      and by2: "byte (char_of b2) = b2"
      by (auto simp del: of_char_of intro!: byte_char_of)
    have nosur: "\<not> (55296 \<le> r \<and> r \<le> 57343)" using assms by (auto simp: valid_rune_def)
    define h l where "h = r div 4096" and "l = r div 64 mod 64"
    have hl: "r div 64 = 64 * h + l" "l < 64" "32 \<le> r div 64" "\<not> (864 \<le> r div 64 \<and> r div 64 \<le> 895)"
      using 3 nosur by (auto simp: h_def l_def div_mult2_eq [of r 64 64, simplified])
    have b01: "b0 = 224 + h" "b1 = 128 + l" by (simp_all add: b0_def b1_def h_def l_def)
    then have s2: "second_ok b0 b1"
      using bb hl unfolding second_ok_def cont_byte_def by auto
    have "decode_rune (char_of b0 # char_of b1 # char_of b2 # s)
        = ((b0 - 224) * 4096 + (b1 - 128) * 64 + (b2 - 128), 3)"
      using decode_rune_3 [of "char_of b0" "char_of b1" "char_of b2" s] bb s2
      unfolding by0 by1 by2 by (simp add: cont_byte_def)
    moreover have "(b0 - 224) * 4096 + (b1 - 128) * 64 + (b2 - 128) = r"
      using hl(1) div_mult_mod_eq [of r 64] unfolding b01 b2_def by simp
    ultimately show ?thesis by (simp add: e)
  next
    case 4
    define b0 b1 b2 b3 where "b0 = 240 + r div 262144" and "b1 = 128 + r div 4096 mod 64"
      and "b2 = 128 + r div 64 mod 64" and "b3 = 128 + r mod 64"
    have e: "encode_rune r = [char_of b0, char_of b1, char_of b2, char_of b3]"
      using 4 assms by (simp add: encode_rune_def b0_def b1_def b2_def b3_def)
    have bb: "b0 \<le> 244" "b1 \<le> 191" "b2 \<le> 191" "b3 \<le> 191" "128 \<le> b1" "128 \<le> b2"
      "128 \<le> b3" "240 \<le> b0"
      using 4 by (auto simp: b0_def b1_def b2_def b3_def)
    then have by0: "byte (char_of b0) = b0" and by1: "byte (char_of b1) = b1"
      and by2: "byte (char_of b2) = b2" and by3: "byte (char_of b3) = b3"
      by (auto simp del: of_char_of intro!: byte_char_of)
    define h l where "h = r div 262144" and "l = r div 4096 mod 64"
    have hl: "r div 4096 = 64 * h + l" "l < 64" "16 \<le> r div 4096" "r div 4096 < 272"
      using 4 by (auto simp: h_def l_def div_mult2_eq [of r 4096 64, simplified])
    have b01: "b0 = 240 + h" "b1 = 128 + l" by (simp_all add: b0_def b1_def h_def l_def)
    then have s2: "second_ok b0 b1"
      using bb hl unfolding second_ok_def cont_byte_def by auto
    have dec: "decode_rune (char_of b0 # char_of b1 # char_of b2 # char_of b3 # s)
        = ((b0 - 240) * 262144 + (b1 - 128) * 4096 + (b2 - 128) * 64 + (b3 - 128), 4)"
      using decode_rune_4 [of "char_of b0" "char_of b1" "char_of b2" "char_of b3" s] bb s2
      unfolding by0 by1 by2 by3 by (simp add: cont_byte_def)
    define m n where "m = r div 64 mod 64" and "n = r mod 64"
    have "r div 64 = r div 4096 * 64 + m"
      by (simp add: m_def div_mult2_eq [of r 64 64, simplified])
    moreover have "r = r div 64 * 64 + n" by (simp add: n_def)
    ultimately have "(b0 - 240) * 262144 + (b1 - 128) * 4096 + (b2 - 128) * 64 + (b3 - 128) = r"
      using hl(1) unfolding b01 b2_def b3_def m_def [symmetric] n_def [symmetric]
      by linarith
    with dec show ?thesis by (simp add: e)
  qed
qed

lemma valid_rune_error [simp]: "valid_rune rune_error"
  by (simp add: valid_rune_def rune_error_def)

lemma encode_rune_nonempty [simp]: "encode_rune r \<noteq> []"
  by (simp add: encode_rune_def)

lemma byte_offset: "k \<le> b \<Longrightarrow> \<exists>h::nat. b = k + h"
  by (metis le_Suc_ex)

lemma valid_rune_2:
  assumes "194 \<le> b0" and "b0 \<le> 223" and "cont_byte b1"
  shows "valid_rune ((b0 - 192) * 64 + (b1 - 128))"
proof -
  obtain h l where "b0 = 192 + h" "b1 = 128 + l"
    using assms byte_offset [of 192 b0] byte_offset [of 128 b1] by (auto simp: cont_byte_def)
  with assms show ?thesis by (simp add: valid_rune_def cont_byte_def)
qed

lemma valid_rune_3:
  assumes "224 \<le> b0" and "b0 \<le> 239" and "second_ok b0 b1" and "cont_byte b2"
  shows "valid_rune ((b0 - 224) * 4096 + (b1 - 128) * 64 + (b2 - 128))"
proof -
  have b: "b1 \<le> 191" "b2 \<le> 191" "b0 = 237 \<Longrightarrow> b1 \<le> 159" "128 \<le> b1" "128 \<le> b2"
    using assms by (auto simp: second_ok_def cont_byte_def split: if_splits)
  then obtain h l m where e: "b0 = 224 + h" "b1 = 128 + l" "b2 = 128 + m"
    using assms(1) byte_offset [of 224 b0] byte_offset [of 128 b1] byte_offset [of 128 b2] by auto
  have "h \<le> 12 \<or> h = 13 \<or> 14 \<le> h" by linarith
  with b assms(2) show ?thesis by (auto simp: e valid_rune_def)
qed

lemma valid_rune_4:
  assumes "240 \<le> b0" and "b0 \<le> 244" and "second_ok b0 b1" and "cont_byte b2" and "cont_byte b3"
  shows "valid_rune ((b0 - 240) * 262144 + (b1 - 128) * 4096 + (b2 - 128) * 64 + (b3 - 128))"
proof -
  have b: "b1 \<le> 191" "b2 \<le> 191" "b3 \<le> 191" "b0 = 240 \<Longrightarrow> 144 \<le> b1" "b0 = 244 \<Longrightarrow> b1 \<le> 143"
    "128 \<le> b1" "128 \<le> b2" "128 \<le> b3"
    using assms by (auto simp: second_ok_def cont_byte_def split: if_splits)
  then obtain h l m n where e: "b0 = 240 + h" "b1 = 128 + l" "b2 = 128 + m" "b3 = 128 + n"
    using assms(1) byte_offset [of 240 b0] byte_offset [of 128 b1] byte_offset [of 128 b2]
      byte_offset [of 128 b3] by auto
  have "h = 0 \<or> (1 \<le> h \<and> h \<le> 3) \<or> h = 4" using assms(2) e by linarith
  with b show ?thesis by (auto simp: e valid_rune_def)
qed

lemma valid_decode_rune: "valid_rune (fst (decode_rune s))"
proof (cases s)
  case (Cons c0 cs)
  have "byte c0 < 128 \<Longrightarrow> valid_rune (byte c0)" by (simp add: valid_rune_def)
  with Cons show ?thesis
    by (auto simp: decode_rune.simps Let_def split: list.splits
        intro: valid_rune_2 valid_rune_3 valid_rune_4)
qed simp

lemma chunks_nonempty: "s \<noteq> [] \<Longrightarrow>
  chunks s = take (snd (decode_rune s)) s # chunks (drop (snd (decode_rune s)) s)"
  by (cases s) (simp_all add: chunks.simps Let_def)

lemma chunks_Nil_iff [simp]: "chunks s = [] \<longleftrightarrow> s = []"
  by (cases s) (auto simp: chunks_nonempty)

lemma concat_chunks [simp]: "concat (chunks s) = s"
proof (induction s rule: chunks.induct)
  case (2 c cs)
  then show ?case by (simp add: chunks_nonempty)
qed simp

lemma chunks_encode_rune:
  "valid_rune r \<Longrightarrow> chunks (encode_rune r @ s) = encode_rune r # chunks s"
  by (simp add: chunks_nonempty decode_encode_rune)

lemma runes_Nil [simp]: "runes [] = []"
  by (simp add: runes_def)

lemma runes_encode_rune [simp]:
  assumes "valid_rune r"
  shows "runes (encode_rune r @ s) = r # runes s"
  using assms decode_encode_rune [OF assms, of "[]"]
  by (simp add: runes_def chunks_encode_rune)

lemma utf8_Nil [simp]: "utf8 [] = []"
  by (simp add: utf8_def)

lemma utf8_Cons: "utf8 (r # rs) = encode_rune r @ utf8 rs"
  by (simp add: utf8_def)

lemma utf8_append [simp]: "utf8 (rs @ rs') = utf8 rs @ utf8 rs'"
  by (simp add: utf8_def)

lemma runes_utf8_append:
  "\<forall>r\<in>set rs. valid_rune r \<Longrightarrow> runes (utf8 rs @ s) = rs @ runes s"
  by (induction rs) (simp_all add: utf8_Cons)

lemma runes_utf8: "\<forall>r\<in>set rs. valid_rune r \<Longrightarrow> runes (utf8 rs) = rs"
  using runes_utf8_append [of rs "[]"] by simp

lemma runes_valid: "r \<in> set (runes s) \<Longrightarrow> valid_rune r"
  by (auto simp: runes_def valid_decode_rune)

lemma runes_valid_take: "\<forall>r\<in>set (take n (runes s)). valid_rune r"
  by (meson in_set_takeD runes_valid)

lemma RuneCount_Nil [simp]: "RuneCount [] = 0"
  by (simp add: RuneCount_def)

lemma RuneCount_utf8_append:
  "\<forall>r\<in>set rs. valid_rune r \<Longrightarrow> RuneCount (utf8 rs @ s) = length rs + RuneCount s"
  by (simp add: RuneCount_def runes_utf8_append)

lemma RuneCount_take_append:
  "RuneCount (utf8 (take n (runes s)) @ t) = min n (RuneCount s) + RuneCount t"
  using RuneCount_utf8_append [OF runes_valid_take] by (simp add: RuneCount_def min.commute)

lemma RuneCount_take: "RuneCount (utf8 (take n (runes s))) = min n (RuneCount s)"
  using RuneCount_take_append [of n s "[]"] by simp

lemma RuneCount_0_iff [simp]: "RuneCount s = 0 \<longleftrightarrow> s = []"
  by (simp add: RuneCount_def runes_def)

lemma RuneCount_le_length: "RuneCount s \<le> length s"
proof -
  have "length (chunks s) \<le> length s"
  proof (induction s rule: chunks.induct)
    case (2 c cs)
    have w: "0 < snd (decode_rune (c # cs))" by (rule decode_rune_width_pos) simp
    with 2 [OF refl] decode_rune_width_le [of "c # cs"] show ?case
      by (simp add: chunks_nonempty)
  qed simp
  then show ?thesis by (simp add: RuneCount_def runes_def)
qed

section \<open>ASCII strings\<close>

definition ascii :: "string \<Rightarrow> bool" where
  "ascii s \<longleftrightarrow> (\<forall>c\<in>set s. byte c < (128::nat))"

lemma chunks_ascii_Cons [simp]: "byte c < (128::nat) \<Longrightarrow> chunks (c # s) = [c] # chunks s"
  by (simp add: chunks_nonempty decode_rune_1)

lemma runes_ascii_Cons [simp]: "byte c < (128::nat) \<Longrightarrow> runes (c # s) = byte c # runes s"
  by (simp add: runes_def chunks_ascii_Cons decode_rune_1)

lemma runes_ascii_append: "ascii s \<Longrightarrow> runes (s @ t) = map byte s @ runes t"
  by (induction s) (simp_all add: ascii_def)

lemma runes_ascii: "ascii s \<Longrightarrow> runes s = map byte s"
  using runes_ascii_append [of s "[]"] by simp

lemma utf8_ascii: "ascii s \<Longrightarrow> utf8 (map byte s) = s"
  by (induction s) (auto simp: ascii_def utf8_Cons encode_rune_def)

lemma utf8_take_ascii: "ascii s \<Longrightarrow> utf8 (take n (runes s)) = take n s"
proof -
  assume a: "ascii s"
  then have "ascii (take n s)" unfolding ascii_def by (meson in_set_takeD)
  then show ?thesis using utf8_ascii [of "take n s"] a by (simp add: runes_ascii take_map)
qed

lemma RuneCount_ascii_append: "ascii s \<Longrightarrow> RuneCount (s @ t) = length s + RuneCount t"
  by (simp add: RuneCount_def runes_ascii_append)

lemma RuneCount_ascii: "ascii s \<Longrightarrow> RuneCount s = length s"
  by (simp add: RuneCount_def runes_ascii)


section \<open>White space and trimming\<close>

text \<open>\<open>unicode.IsSpace\<close>: the code points with the White Space property.\<close>

definition IsSpace :: "rune \<Rightarrow> bool" where
  "IsSpace r \<longleftrightarrow>
     (9 \<le> r \<and> r \<le> 13) \<or> r = 32 \<or> r = 133 \<or> r = 160 \<or> r = 5760 \<or>
     (8192 \<le> r \<and> r \<le> 8202) \<or> r = 8232 \<or> r = 8233 \<or> r = 8239 \<or> r = 8287 \<or> r = 12288"

definition space_chunk :: "string \<Rightarrow> bool" where
  "space_chunk c \<longleftrightarrow> IsSpace (fst (decode_rune c))"

definition trim_chunks :: "string list \<Rightarrow> string list" where
  "trim_chunks cs = rev (dropWhile space_chunk (rev (dropWhile space_chunk cs)))"

definition TrimSpace :: "string \<Rightarrow> string" where
  "TrimSpace s = concat (trim_chunks (chunks s))"

text \<open>
  A rune is decoded from its own bytes only: a prefix that holds all of them decodes to the same
  rune, and what is invalid stays invalid.
\<close>

lemma decode_rune_prefix:
  assumes "p \<noteq> []" and "snd (decode_rune (p @ q)) \<le> length p"
  shows "decode_rune p = decode_rune (p @ q)"
proof -
  obtain c0 cs where p: "p = c0 # cs" using assms(1) by (cases p) auto
  show ?thesis
    using assms(2) unfolding p
    by (cases cs; cases "tl cs"; cases "tl (tl cs)")
      (auto simp: decode_rune.simps Let_def split: list.splits if_splits)
qed

lemma take_decode_width:
  assumes "s \<noteq> []"
  shows "decode_rune (take (snd (decode_rune s)) s @ take n (drop (snd (decode_rune s)) s))
    = decode_rune s"
proof -
  let ?w = "snd (decode_rune s)"
  let ?p = "take ?w s @ take n (drop ?w s)"
  have p: "?p = take (?w + n) s" by (simp add: take_add)
  have s: "?p @ drop (?w + n) s = s" unfolding p by simp
  have "?p \<noteq> []" using assms decode_rune_width_pos [OF assms] by simp
  moreover have "?w \<le> length ?p"
    using decode_rune_width_le [of s] by simp
  ultimately show ?thesis
    using decode_rune_prefix [of ?p "drop (?w + n) s"] s by simp
qed

text \<open>A sequence never runs past an ASCII byte, so text before one decodes on its own.\<close>

lemma decode_rune_before_ascii:
  assumes "s \<noteq> []" and "byte c < (128::nat)"
  shows "decode_rune (s @ c # t) = decode_rune s"
proof -
  obtain c0 cs where s: "s = c0 # cs" using assms(1) by (cases s) auto
  have "\<not> cont_byte (byte c)" "\<not> second_ok b (byte c)" for b
    using assms(2) by (auto simp: cont_byte_def second_ok_def)
  then have "snd (decode_rune (s @ c # t)) \<le> length s"
    unfolding s
    by (cases cs; cases "tl cs"; cases "tl (tl cs)")
      (auto simp: decode_rune.simps Let_def split: list.splits if_splits)
  with decode_rune_prefix [OF assms(1)] show ?thesis by simp
qed

lemma chunks_before_ascii:
  assumes "byte c < (128::nat)"
  shows "chunks (s @ c # t) = chunks s @ [c] # chunks t"
proof (induction s rule: length_induct)
  case (1 s)
  show ?case
  proof (cases s)
    case Nil
    then show ?thesis using assms by (simp add: chunks_nonempty decode_rune_1)
  next
    case (Cons c0 cs)
    let ?w = "snd (decode_rune s)"
    have ne: "s \<noteq> []" using Cons by simp
    have w: "0 < ?w" "?w \<le> length s" using decode_rune_width_pos [OF ne] decode_rune_width_le by auto
    have "chunks (drop ?w s @ c # t) = chunks (drop ?w s) @ [c] # chunks t"
      using 1 w ne by simp
    then show ?thesis
      using chunks_nonempty [of "s @ c # t"] chunks_nonempty [OF ne] decode_rune_before_ascii [OF ne assms, of t] w
      by simp
  qed
qed

lemma RuneCount_before_ascii:
  "byte c < (128::nat) \<Longrightarrow> RuneCount (s @ c # t) = RuneCount s + 1 + RuneCount t"
  by (simp add: RuneCount_def runes_def chunks_before_ascii)

lemma concat_take_chunks: "\<exists>m. concat (take n (chunks s)) = take m s"
proof (induction n arbitrary: s)
  case 0
  show ?case by (rule exI [of _ 0]) simp
next
  case (Suc n)
  show ?case
  proof (cases "s = []")
    case False
    let ?w = "snd (decode_rune s)"
    obtain m where "concat (take n (chunks (drop ?w s))) = take m (drop ?w s)"
      using Suc by blast
    then have "concat (take (Suc n) (chunks s)) = take (?w + m) s"
      using False by (simp add: chunks_nonempty take_add)
    then show ?thesis by blast
  qed simp
qed

lemma chunks_concat_take: "chunks (concat (take n (chunks s))) = take n (chunks s)"
proof (induction n arbitrary: s)
  case 0
  then show ?case by simp
next
  case (Suc n)
  show ?case
  proof (cases "s = []")
    case False
    let ?w = "snd (decode_rune s)"
    obtain m where m: "concat (take n (chunks (drop ?w s))) = take m (drop ?w s)"
      using concat_take_chunks by blast
    let ?p = "take ?w s @ take m (drop ?w s)"
    have w: "0 < ?w" "?w \<le> length s"
      using decode_rune_width_pos [OF False] decode_rune_width_le by auto
    have ne: "?p \<noteq> []" using w False by simp
    have "chunks ?p = take ?w ?p # chunks (drop ?w ?p)"
      using chunks_nonempty [OF ne] take_decode_width [OF False, of m] by simp
    also have "\<dots> = take ?w s # chunks (take m (drop ?w s))"
      using w by (simp add: min_absorb2)
    also have "chunks (take m (drop ?w s)) = take n (chunks (drop ?w s))"
      using Suc [of "drop ?w s"] m by simp
    finally show ?thesis using False m by (simp add: chunks_nonempty)
  qed simp
qed

lemma chunks_concat_drop: "chunks (concat (drop n (chunks s))) = drop n (chunks s)"
proof (induction n arbitrary: s)
  case (Suc n)
  then show ?case by (cases "s = []") (simp_all add: chunks_nonempty)
qed simp

lemma dropWhile_as_drop: "\<exists>n. dropWhile P xs = drop n xs"
  by (metis dropWhile_eq_drop)

lemma rev_dropWhile_rev_as_take: "\<exists>n. rev (dropWhile P (rev xs)) = take n xs"
proof -
  obtain n where "dropWhile P (rev xs) = drop n (rev xs)" using dropWhile_as_drop by blast
  then show ?thesis by (metis rev_drop rev_rev_ident)
qed

lemma chunks_TrimSpace: "chunks (TrimSpace s) = trim_chunks (chunks s)"
proof -
  obtain n where n: "dropWhile space_chunk (chunks s) = drop n (chunks s)"
    using dropWhile_as_drop by blast
  let ?d = "drop n (chunks s)"
  have d: "chunks (concat ?d) = ?d" by (rule chunks_concat_drop)
  obtain m where m: "rev (dropWhile space_chunk (rev ?d)) = take m ?d"
    using rev_dropWhile_rev_as_take by blast
  have "chunks (concat (take m ?d)) = take m ?d"
    using chunks_concat_take [of m "concat ?d"] d by simp
  then show ?thesis by (simp add: TrimSpace_def trim_chunks_def n m)
qed

lemma dropWhile_rev_dropWhile_rev:
  "dropWhile P (rev (dropWhile P (rev (dropWhile P xs)))) = rev (dropWhile P (rev (dropWhile P xs)))"
proof (cases "dropWhile P xs")
  case (Cons a list)
  then have "\<not> P a" by (metis hd_dropWhile list.distinct(1) list.sel(1))
  then have "\<exists>ys. rev (dropWhile P (rev (a # list))) = a # ys"
    by (simp add: dropWhile_append3)
  with Cons \<open>\<not> P a\<close> show ?thesis by auto
qed (simp del: dropWhile_eq_Nil_conv)

lemma trim_chunks_idem: "trim_chunks (trim_chunks cs) = trim_chunks cs"
  unfolding trim_chunks_def by (subst dropWhile_rev_dropWhile_rev) simp

lemma TrimSpace_idem [simp]: "TrimSpace (TrimSpace s) = TrimSpace s"
proof -
  have "TrimSpace (TrimSpace s) = concat (trim_chunks (chunks (TrimSpace s)))"
    by (rule TrimSpace_def)
  also have "\<dots> = concat (trim_chunks (chunks s))"
    by (simp only: chunks_TrimSpace trim_chunks_idem)
  finally show ?thesis by (simp only: TrimSpace_def)
qed

lemma TrimSpace_Nil [simp]: "TrimSpace [] = []"
  by (simp add: TrimSpace_def trim_chunks_def)

lemma length_trim_chunks: "length (trim_chunks cs) \<le> length cs"
  unfolding trim_chunks_def
  by (metis length_dropWhile_le length_rev order.trans)

lemma RuneCount_TrimSpace_le: "RuneCount (TrimSpace s) \<le> RuneCount s"
  by (simp add: RuneCount_def runes_def chunks_TrimSpace length_trim_chunks)

lemma chunks_utf8: "\<forall>r\<in>set rs. valid_rune r \<Longrightarrow> chunks (utf8 rs) = map encode_rune rs"
  by (induction rs) (simp_all add: utf8_Cons chunks_encode_rune)

lemma space_chunk_encode [simp]: "valid_rune r \<Longrightarrow> space_chunk (encode_rune r) = IsSpace r"
  using decode_encode_rune [of r "[]"] by (simp add: space_chunk_def)

definition trim_runes :: "rune list \<Rightarrow> rune list" where
  "trim_runes rs = rev (dropWhile IsSpace (rev (dropWhile IsSpace rs)))"

lemma set_trim_runes: "set (trim_runes rs) \<subseteq> set rs"
  by (auto simp: trim_runes_def dest!: set_dropWhileD)

lemma dropWhile_map_on:
  "(\<And>x. x \<in> set xs \<Longrightarrow> P (f x) = Q x) \<Longrightarrow> dropWhile P (map f xs) = map f (dropWhile Q xs)"
  by (induction xs) auto

lemma TrimSpace_utf8:
  assumes "\<forall>r\<in>set rs. valid_rune r"
  shows "TrimSpace (utf8 rs) = utf8 (trim_runes rs)"
proof -
  have 1: "dropWhile space_chunk (map encode_rune rs) = map encode_rune (dropWhile IsSpace rs)"
    using assms by (intro dropWhile_map_on) simp
  have 2: "dropWhile space_chunk (rev (map encode_rune (dropWhile IsSpace rs)))
      = map encode_rune (dropWhile IsSpace (rev (dropWhile IsSpace rs)))"
    unfolding rev_map using assms by (intro dropWhile_map_on) (auto dest: set_dropWhileD)
  show ?thesis
    unfolding TrimSpace_def chunks_utf8 [OF assms] trim_chunks_def 1 2
    by (simp add: trim_runes_def utf8_def rev_map)
qed

section \<open>Functions of the package strings\<close>

definition HasPrefix :: "string \<Rightarrow> string \<Rightarrow> bool" where
  "HasPrefix s p \<longleftrightarrow> take (length p) s = p"

definition HasSuffix :: "string \<Rightarrow> string \<Rightarrow> bool" where
  "HasSuffix s p \<longleftrightarrow> HasPrefix (rev s) (rev p)"

definition TrimPrefix :: "string \<Rightarrow> string \<Rightarrow> string" where
  "TrimPrefix s p = (if HasPrefix s p then drop (length p) s else s)"

definition TrimSuffix :: "string \<Rightarrow> string \<Rightarrow> string" where
  "TrimSuffix s p = (if HasSuffix s p then take (length s - length p) s else s)"

text \<open>\<open>strings.Index\<close>, with \<open>None\<close> for the result -1.\<close>

fun str_index :: "string \<Rightarrow> string \<Rightarrow> nat option" where
  "str_index s sub =
     (if HasPrefix s sub then Some 0
      else case s of [] \<Rightarrow> None | _ # cs \<Rightarrow> map_option Suc (str_index cs sub))"

declare str_index.simps [simp del]

definition str_contains :: "string \<Rightarrow> string \<Rightarrow> bool" where
  "str_contains s sub \<longleftrightarrow> str_index s sub \<noteq> None"

text \<open>\<open>strings.Cut\<close>: the text before and after the first separator, and whether it was found.\<close>

definition str_cut :: "string \<Rightarrow> string \<Rightarrow> string \<times> string \<times> bool" where
  "str_cut s sep =
     (case str_index s sep of
        None \<Rightarrow> (s, [], False)
      | Some i \<Rightarrow> (take i s, drop (i + length sep) s, True))"

text \<open>\<open>strings.ReplaceAll\<close> for a non-empty pattern, the only use the program makes of it.\<close>

function ReplaceAll :: "string \<Rightarrow> string \<Rightarrow> string \<Rightarrow> string" where
  "ReplaceAll s old new =
     (if old = [] \<or> s = [] then s
      else if HasPrefix s old then new @ ReplaceAll (drop (length old) s) old new
      else hd s # ReplaceAll (tl s) old new)"
  by pat_completeness auto
termination
  by (relation "measure (\<lambda>(s, _, _). length s)") auto

declare ReplaceAll.simps [simp del]

fun str_join :: "string list \<Rightarrow> string \<Rightarrow> string" where
  "str_join [] sep = []"
| "str_join [x] sep = x"
| "str_join (x # y # xs) sep = x @ sep @ str_join (y # xs) sep"

text \<open>
  \<open>unicode.ToLower\<close> on ASCII, Latin-1, Greek and Cyrillic capitals and on the three letters
  outside these blocks that lower into them; any other rune is left as it is. No rune this leaves
  out lowers to an ASCII letter, so every comparison of a lowered string with an ASCII constant is
  decided as in Go.
\<close>

definition rune_lower :: "rune \<Rightarrow> rune" where
  "rune_lower r =
     (if 65 \<le> r \<and> r \<le> 90 then r + 32
      else if 192 \<le> r \<and> r \<le> 222 \<and> r \<noteq> 215 then r + 32
      else if r = 304 then 105
      else if 913 \<le> r \<and> r \<le> 939 \<and> r \<noteq> 930 then r + 32
      else if 1040 \<le> r \<and> r \<le> 1071 then r + 32
      else if 1024 \<le> r \<and> r \<le> 1039 then r + 80
      else if r = 8490 then 107
      else if r = 8491 then 229
      else r)"

definition ToLower :: "string \<Rightarrow> string" where
  "ToLower s = utf8 (map rune_lower (runes s))"

text \<open>\<open>strconv.Itoa\<close>, also the verb \<open>%d\<close>.\<close>

fun nat_digits :: "nat \<Rightarrow> string" where
  "nat_digits n =
     (if n < 10 then [char_of (48 + n)] else nat_digits (n div 10) @ [char_of (48 + n mod 10)])"

declare nat_digits.simps [simp del]

definition itoa :: "int \<Rightarrow> string" where
  "itoa i = (if i < 0 then ''-'' @ nat_digits (nat (- i)) else nat_digits (nat i))"

lemma HasPrefix_iff: "HasPrefix s p \<longleftrightarrow> (\<exists>t. s = p @ t)"
  unfolding HasPrefix_def by (metis append_eq_conv_conj append_take_drop_id)

lemma HasPrefix_append [simp]: "HasPrefix (p @ s) p"
  by (auto simp: HasPrefix_iff)

lemma HasPrefix_Nil [simp]: "HasPrefix s []"
  by (simp add: HasPrefix_def)

lemma TrimPrefix_append [simp]: "TrimPrefix (p @ s) p = s"
  by (simp add: TrimPrefix_def)

lemma str_index_Some:
  assumes "str_index s sub = Some i"
  shows "s = take i s @ sub @ drop (i + length sub) s"
  using assms
proof (induction s arbitrary: i)
  case Nil
  then show ?case by (auto simp: str_index.simps [of "[]"] HasPrefix_iff split: if_splits)
next
  case (Cons c cs)
  show ?case
  proof (cases "HasPrefix (c # cs) sub")
    case True
    with Cons.prems show ?thesis by (auto simp: str_index.simps [of "c # cs"] HasPrefix_def)
      (metis append_take_drop_id)
  next
    case False
    with Cons.prems obtain j where "str_index cs sub = Some j" "i = Suc j"
      by (auto simp: str_index.simps [of "c # cs"])
    with Cons.IH show ?thesis by auto
  qed
qed

lemma str_cut_found: "str_cut s sep = (a, b, True) \<Longrightarrow> s = a @ sep @ b"
  using str_index_Some by (auto simp: str_cut_def split: option.splits)

lemma str_cut_not_found: "str_cut s sep = (a, b, False) \<Longrightarrow> a = s \<and> b = []"
  by (auto simp: str_cut_def split: option.splits)

lemma valid_rune_lower: "valid_rune r \<Longrightarrow> valid_rune (rune_lower r)"
  by (auto simp: valid_rune_def rune_lower_def)

lemma rune_lower_idem [simp]: "rune_lower (rune_lower r) = rune_lower r"
  by (simp add: rune_lower_def)

lemma IsSpace_rune_lower [simp]: "IsSpace (rune_lower r) = IsSpace r"
  by (auto simp: rune_lower_def IsSpace_def)

lemma runes_ToLower: "runes (ToLower s) = map rune_lower (runes s)"
  unfolding ToLower_def by (rule runes_utf8) (auto intro: valid_rune_lower runes_valid)

lemma ToLower_idem [simp]: "ToLower (ToLower s) = ToLower s"
  by (simp add: ToLower_def [of "ToLower s"] runes_ToLower) (simp add: ToLower_def comp_def)

lemma ToLower_Nil [simp]: "ToLower [] = []"
  by (simp add: ToLower_def)

lemma nat_digits_nonempty [simp]: "nat_digits n \<noteq> []"
  by (subst nat_digits.simps) simp

lemma itoa_nonempty [simp]: "itoa i \<noteq> []"
  by (simp add: itoa_def)

lemma runes_TrimSpace: "runes (TrimSpace s) = trim_runes (runes s)"
proof -
  have "space_chunk = IsSpace \<circ> (fst \<circ> decode_rune)" by (simp add: fun_eq_iff space_chunk_def)
  then show ?thesis
    unfolding runes_def chunks_TrimSpace trim_chunks_def trim_runes_def
    by (simp add: dropWhile_map rev_map)
qed

lemma trim_runes_lower: "trim_runes (map rune_lower rs) = map rune_lower (trim_runes rs)"
proof -
  have "IsSpace \<circ> rune_lower = IsSpace" by (simp add: fun_eq_iff)
  then show ?thesis unfolding trim_runes_def by (simp add: dropWhile_map rev_map)
qed

lemma trim_runes_idem [simp]: "trim_runes (trim_runes rs) = trim_runes rs"
  unfolding trim_runes_def by (subst dropWhile_rev_dropWhile_rev) simp

lemma TrimSpace_ToLower [simp]: "TrimSpace (ToLower (TrimSpace s)) = ToLower (TrimSpace s)"
proof -
  have "\<forall>r\<in>set (map rune_lower (runes (TrimSpace s))). valid_rune r"
    using runes_valid valid_rune_lower by auto
  then show ?thesis
    unfolding ToLower_def by (subst TrimSpace_utf8) (simp_all add: trim_runes_lower runes_TrimSpace)
qed

lemma ToLower_lower:
  assumes "\<forall>c\<in>set s. byte c < (128::nat) \<and> \<not> (65 \<le> (byte c :: nat) \<and> (byte c :: nat) \<le> 90)"
  shows "ToLower s = s"
proof -
  have a: "ascii s" using assms by (simp add: ascii_def)
  have "map rune_lower (map byte s) = map byte s" using assms by (intro map_idI) (auto simp: rune_lower_def)
  then show ?thesis using utf8_ascii [OF a] by (simp only: ToLower_def runes_ascii [OF a])
qed

text \<open>To evaluate \<open>TrimSpace\<close> on a constant.\<close>

lemmas TrimSpace_eval = TrimSpace_def trim_chunks_def space_chunk_def decode_rune_1 IsSpace_def

lemma trim_runes_Nil_iff: "trim_runes rs = [] \<longleftrightarrow> (\<forall>r\<in>set rs. IsSpace r)"
proof -
  have "dropWhile IsSpace rs = [] \<or> \<not> IsSpace (hd (dropWhile IsSpace rs))"
    using hd_dropWhile by blast
  then show ?thesis
    by (auto simp: trim_runes_def dest: set_dropWhileD)
      (metis hd_in_set dropWhile_eq_Nil_conv)+
qed

lemma TrimSpace_Nil_iff: "TrimSpace s = [] \<longleftrightarrow> (\<forall>r\<in>set (runes s). IsSpace r)"
proof -
  have "TrimSpace s = [] \<longleftrightarrow> runes (TrimSpace s) = []"
    by (metis RuneCount_0_iff RuneCount_def length_0_conv)
  then show ?thesis by (simp add: runes_TrimSpace trim_runes_Nil_iff)
qed

section \<open>Decimal numbers\<close>

definition digit :: "char \<Rightarrow> bool" where
  "digit c \<longleftrightarrow> 48 \<le> (byte c :: nat) \<and> (byte c :: nat) \<le> 57"

definition digits_value :: "string \<Rightarrow> nat" where
  "digits_value s = fold (\<lambda>c n. n * 10 + (byte c - 48)) s 0"

lemma nat_digits_digit: "list_all digit (nat_digits n)"
proof (induction n rule: nat_digits.induct)
  case (1 n)
  have "n mod 10 < 10" by simp
  then have "digit (char_of (48 + n mod 10))" by (simp add: digit_def)
  with 1 show ?case by (subst nat_digits.simps) (auto simp: digit_def list_all_iff)
qed

lemma digits_value_append: "digits_value (s @ [c]) = digits_value s * 10 + (byte c - 48)"
  by (simp add: digits_value_def)

lemma digits_value_nat_digits: "digits_value (nat_digits n) = n"
proof (induction n rule: nat_digits.induct)
  case (1 n)
  show ?case
  proof (cases "n < 10")
    case True
    then show ?thesis by (subst nat_digits.simps) (simp add: digits_value_def)
  next
    case False
    have "n mod 10 < 10" by simp
    then have b: "byte (char_of (48 + n mod 10)) = 48 + n mod 10" by simp
    show ?thesis using False 1 by (subst nat_digits.simps) (simp add: digits_value_append)
  qed
qed

lemma itoa_digits: "0 < p \<Longrightarrow> list_all digit (itoa p)"
  by (simp add: itoa_def nat_digits_digit)

lemma space_chunk_digit: "digit c \<Longrightarrow> \<not> space_chunk [c]"
  by (auto simp: digit_def space_chunk_def decode_rune_1 IsSpace_def)

lemma digits_ascii: "list_all digit p \<Longrightarrow> chunks p = map (\<lambda>c. [c]) p"
  by (induction p) (auto simp: digit_def)

text \<open>A text of ASCII characters none of which is a space is its own trimming.\<close>

lemma TrimSpace_solid:
  assumes "\<forall>c\<in>set s. byte c < (128::nat) \<and> \<not> IsSpace (byte c)"
  shows "TrimSpace s = s"
proof -
  have ch: "chunks s = map (\<lambda>c. [c]) s" using assms by (induction s) auto
  have "\<forall>x\<in>set (chunks s). \<not> space_chunk x"
    using assms by (auto simp: ch space_chunk_def decode_rune_1)
  then have "dropWhile space_chunk (chunks s) = chunks s" "dropWhile space_chunk (rev (chunks s)) = rev (chunks s)"
    by (metis dropWhile_eq_self_iff hd_in_set) (metis dropWhile_eq_self_iff hd_in_set set_rev \<open>\<forall>x\<in>set (chunks s). \<not> space_chunk x\<close>)
  then show ?thesis by (simp add: TrimSpace_def trim_chunks_def)
qed

end
