(* ===== verification/Interfaces.thy ===== *)
theory Interfaces
  imports GoPrelude
begin

text \<open>
  The contracts the components rely on, as locales, with the facts every client gets from them:
  \<^item> \<open>keyed_cells\<close>: a store of independent cells, one per key; an operation on a key touches
    that cell only, and reads no other. Any interleaving of operations then acts on each cell as
    the operations on its own key do, in their order.
  \<^item> \<open>slot_pool\<close>: a counting semaphore; a client that brackets its work between a successful
    acquire and a release leaves the number of slots in flight as it found it.
  \<^item> \<open>bounded_cache\<close>: a cache of at most a fixed number of entries with insertion-order
    eviction.
  \<^item> \<open>cost_model\<close>: an additive cost of a list of items, for the loops that drop the oldest
    items until the rest fits a budget.
\<close>

section \<open>Independent cells\<close>

locale keyed_cells =
  fixes step :: "'op \<Rightarrow> 'k \<Rightarrow> 's \<Rightarrow> 's"
    and view :: "'s \<Rightarrow> 'k \<Rightarrow> 'v"
  assumes step_other: "k' \<noteq> k \<Longrightarrow> view (step op k s) k' = view s k'"
    and step_local: "view s k = view s' k \<Longrightarrow> view (step op k s) k = view (step op k s') k"
begin

lemma run_other:
  assumes "\<forall>e\<in>set es. snd e \<noteq> k"
  shows "view (fold (\<lambda>(op, k). step op k) es s) k = view s k"
  using assms by (induction es arbitrary: s) (auto simp: step_other)

lemma run_local:
  assumes "view s k = view s' k"
  shows "view (fold (\<lambda>(op, k). step op k) es s) k
    = view (fold (\<lambda>(op, k). step op k) (filter (\<lambda>e. snd e = k) es) s') k"
  using assms
proof (induction es arbitrary: s s')
  case (Cons e es)
  obtain op k' where e: "e = (op, k')" by (cases e)
  show ?case
  proof (cases "k' = k")
    case True
    have "view (step op k s) k = view (step op k s') k" using Cons.prems by (rule step_local)
    from Cons.IH [OF this] True e show ?thesis by simp
  next
    case False
    with Cons.prems have "view (step op k' s) k = view s' k" by (simp add: step_other)
    with Cons.IH False e show ?thesis by simp
  qed
qed simp

text \<open>What a key sees of a run is what its own operations do.\<close>

lemma run_projection:
  "view (fold (\<lambda>(op, k). step op k) es s) k
   = view (fold (\<lambda>op. step op k) (map fst (filter (\<lambda>e. snd e = k) es)) s) k"
proof -
  have "fold (\<lambda>(op, k). step op k) (filter (\<lambda>e. snd e = k) es) s
      = fold (\<lambda>op. step op k) (map fst (filter (\<lambda>e. snd e = k) es)) s"
    by (induction es arbitrary: s) auto
  then show ?thesis using run_local [of s k s es] by simp
qed

end

section \<open>A pool of slots\<close>

locale slot_pool =
  fixes acquire :: "'q \<Rightarrow> 'q option"
    and release :: "'q \<Rightarrow> 'q"
    and inflight :: "'q \<Rightarrow> nat"
    and capacity :: "'q \<Rightarrow> nat"
    and invar :: "'q \<Rightarrow> bool"
  assumes acquire_Some: "invar q \<Longrightarrow> acquire q = Some q' \<Longrightarrow>
      invar q' \<and> inflight q' = Suc (inflight q) \<and> capacity q' = capacity q"
    and acquire_None: "invar q \<Longrightarrow> acquire q = None \<longleftrightarrow> capacity q \<le> inflight q"
    and release_ok: "invar q \<Longrightarrow>
      invar (release q) \<and> inflight (release q) = inflight q - 1 \<and> capacity (release q) = capacity q"
    and within: "invar q \<Longrightarrow> inflight q \<le> capacity q"
begin

lemma acquire_within: "invar q \<Longrightarrow> acquire q = Some q' \<Longrightarrow> inflight q' \<le> capacity q"
  using acquire_Some within by force

text \<open>A bracketed use gives its slot back.\<close>

lemma bracket:
  assumes "invar q" and "acquire q = Some q'"
  shows "invar (release q') \<and> inflight (release q') = inflight q \<and> capacity (release q') = capacity q"
  using assms acquire_Some release_ok by fastforce

lemma full_blocks: "invar q \<Longrightarrow> inflight q = capacity q \<Longrightarrow> acquire q = None"
  by (simp add: acquire_None)

lemma release_unblocks:
  assumes "invar q" and "0 < capacity q"
  shows "acquire (release q) \<noteq> None"
  using assms release_ok [OF assms(1)] within [OF assms(1)] acquire_None [of "release q"] by auto

end

section \<open>A bounded cache\<close>

locale bounded_cache =
  fixes get :: "'c \<Rightarrow> 'k \<Rightarrow> 'v option"
    and put :: "'k \<Rightarrow> 'v \<Rightarrow> 'c \<Rightarrow> 'c"
    and order :: "'c \<Rightarrow> 'k list"
    and bound :: "'c \<Rightarrow> nat"
    and good :: "'k \<Rightarrow> 'v \<Rightarrow> bool"
    and invar :: "'c \<Rightarrow> bool"
  assumes invar_put: "invar c \<Longrightarrow> invar (put k v c)"
    and bound_put: "bound (put k v c) = bound c"
    and order_bound: "invar c \<Longrightarrow> length (order c) \<le> bound c"
    and order_distinct: "invar c \<Longrightarrow> distinct (order c)"
    and get_order: "invar c \<Longrightarrow> get c k \<noteq> None \<longleftrightarrow> k \<in> set (order c)"
    and order_put: "invar c \<Longrightarrow> good k v \<Longrightarrow> order (put k v c) =
      (if k \<in> set (order c) then order c
       else drop (length (order c) + 1 - bound c) (order c) @ [k])"
    and put_bad: "\<not> good k v \<Longrightarrow> put k v c = c"
    and get_put_same: "invar c \<Longrightarrow> good k v \<Longrightarrow> get (put k v c) k = Some v"
    and get_put_other: "invar c \<Longrightarrow> k' \<noteq> k \<Longrightarrow> get (put k v c) k' \<noteq> None \<Longrightarrow>
      get (put k v c) k' = get c k'"
begin

lemma invar_run: "invar c \<Longrightarrow> invar (fold (\<lambda>(k, v). put k v) kvs c)"
  by (rule fold_invariant [where P = invar]) (auto simp: invar_put)

lemma run_size:
  assumes "invar c"
  shows "length (order (fold (\<lambda>(k, v). put k v) kvs c)) \<le> bound c"
proof -
  have "bound (fold (\<lambda>(k, v). put k v) kvs c) = bound c"
    by (rule fold_invariant [where P = "\<lambda>c'. bound c' = bound c"]) (auto simp: bound_put)
  then show ?thesis using order_bound [OF invar_run [OF assms, of kvs]] by simp
qed

text \<open>The key put last is never the one evicted.\<close>

lemma put_then_get: "invar c \<Longrightarrow> good k v \<Longrightarrow> get (put k v c) k = Some v"
  by (rule get_put_same)

text \<open>Below the bound nothing is evicted.\<close>

lemma put_keeps:
  assumes "invar c" and "good k v" and "length (order c) < bound c" and "k' \<noteq> k"
    and "get c k' = Some w"
  shows "get (put k v c) k' = Some w"
proof -
  have "k' \<in> set (order c)" using get_order [OF assms(1)] assms(5) by (metis option.discI)
  then have "k' \<in> set (order (put k v c))"
    using order_put [OF assms(1,2)] assms(3) by auto
  then have "get (put k v c) k' \<noteq> None" using get_order [OF invar_put [OF assms(1)]] by blast
  then show ?thesis using get_put_other [OF assms(1,4)] assms(5) by simp
qed

text \<open>A hit is never stale: it returns the last good value put under the key.\<close>

lemma hit_is_last:
  assumes "invar c" and "get (fold (\<lambda>(k, v). put k v) kvs c) k = Some v"
  shows "map_of (rev (filter (\<lambda>(k, v). good k v) kvs)) k = Some v \<or>
    k \<notin> fst ` set (filter (\<lambda>(k, v). good k v) kvs) \<and> get c k = Some v"
  using assms(2)
proof (induction kvs arbitrary: v rule: rev_induct)
  case (snoc a kvs)
  obtain k1 v1 where a: "a = (k1, v1)" by (cases a)
  let ?c = "fold (\<lambda>(k, v). put k v) kvs c"
  have i: "invar ?c" by (rule invar_run [OF assms(1)])
  show ?case
  proof (cases "good k1 v1 \<and> k1 = k")
    case True
    then show ?thesis using snoc.prems get_put_same [OF i] a by auto
  next
    case False
    have "get ?c k = Some v"
    proof (cases "good k1 v1")
      case True
      then have ne: "k \<noteq> k1" using False by blast
      have "get (put k1 v1 ?c) k = Some v" using snoc.prems a by simp
      then show ?thesis using get_put_other [OF i ne, of v1] by simp
    next
      case bad: False
      then show ?thesis using snoc.prems a put_bad [OF bad, of ?c] by simp
    qed
    with snoc.IH False a show ?thesis by auto
  qed
qed simp

text \<open>A key stays while fewer puts follow it than the cache is large.\<close>

lemma run_keeps_recent:
  assumes "invar c" and "order c = as @ k # bs" and "length bs + length kvs < bound c"
  shows "k \<in> set (order (fold (\<lambda>(k, v). put k v) kvs c))"
  using assms
proof (induction kvs arbitrary: c as bs)
  case (Cons a kvs)
  obtain x v where a: "a = (x, v)" by (cases a)
  have "\<exists>as' bs'. order (put x v c) = as' @ k # bs' \<and> length bs' \<le> length bs + 1"
  proof (cases "good x v \<and> x \<notin> set (order c)")
    case True
    have "order (put x v c) = drop (length (order c) + 1 - bound c) as @ k # (bs @ [x])"
      using order_put [OF Cons.prems(1)] True Cons.prems(2,3) by simp
    then show ?thesis by (intro exI conjI) (assumption, simp)
  next
    case False
    then have "order (put x v c) = order c" using order_put [OF Cons.prems(1)] put_bad by metis
    with Cons.prems(2) have "order (put x v c) = as @ k # bs" by simp
    then show ?thesis by (intro exI conjI) (assumption, simp)
  qed
  then obtain as' bs' where "order (put x v c) = as' @ k # bs'" "length bs' \<le> length bs + 1" by blast
  with Cons.IH [of "put x v c" as' bs'] Cons.prems a show ?case by (simp add: invar_put bound_put)
qed simp

text \<open>At the bound a new key evicts the oldest one.\<close>

lemma put_evicts_oldest:
  assumes "invar c" and "good k v" and "order c = k0 # ks" and "length (order c) = bound c"
    and "k \<notin> set (order c)"
  shows "order (put k v c) = ks @ [k] \<and> get (put k v c) k0 = None"
proof -
  have o: "order (put k v c) = ks @ [k]" using order_put [OF assms(1,2)] assms by simp
  have "k0 \<notin> set (ks @ [k])" using order_distinct [OF assms(1)] assms(3,5) by auto
  then show ?thesis using o get_order [OF invar_put [OF assms(1)]] by metis
qed

end

section \<open>Additive costs\<close>

locale cost_model =
  fixes cost :: "'m \<Rightarrow> nat"
    and total :: "'m list \<Rightarrow> nat"
  assumes total_Nil: "total [] = 0"
    and total_Cons: "total (m # ms) = cost m + total ms"
begin

lemma total_append: "total (xs @ ys) = total xs + total ys"
  by (induction xs) (simp_all add: total_Nil total_Cons)

lemma total_drop_le: "total (drop n xs) \<le> total xs"
proof -
  have "total xs = total (take n xs) + total (drop n xs)"
    using total_append [of "take n xs" "drop n xs"] by simp
  then show ?thesis by simp
qed

lemma total_sum_list: "total xs = sum_list (map cost xs)"
  by (induction xs) (simp_all add: total_Nil total_Cons)

end

end
