(* ===== verification/CircuitBreaker.thy ===== *)
theory CircuitBreaker
  imports Interfaces
begin

text \<open>
  The circuit breaker of \<open>pkg/circuitbreaker/breaker.go\<close>: per runner address a count of
  failures and the time until which the circuit is open. A nil breaker is \<open>None\<close>; the mutex
  makes every method one step; \<open>time.Now()\<close> is an argument, one per call. The abstract circuit
  of one address (\<open>circuit\<close>, with \<open>circuit_step\<close>) is what the breaker promises, and
  \<open>breaker_refines_circuit\<close> shows that every run of the breaker, whatever the interleaving of
  addresses, acts on each address as that circuit.
\<close>

section \<open>The breaker\<close>

record circuitState =
  failures :: int
  openUntil :: time
  lastFailure :: time

record Breaker =
  states :: "string \<rightharpoonup> circuitState"
  maxFailures :: int
  cooldown :: duration

definition breaker_New :: "int \<Rightarrow> duration \<Rightarrow> Breaker" where
  "breaker_New maxF cool =
     \<lparr>states = Map.empty,
      maxFailures = (if maxF \<le> 0 then 3 else maxF),
      cooldown = (if cool \<le> 0 then 30 * go_second else cool)\<rparr>"

definition breaker_Allow :: "time \<Rightarrow> string \<Rightarrow> Breaker option \<Rightarrow> bool \<times> Breaker option" where
  "breaker_Allow now addr cb =
     (case cb of
        None \<Rightarrow> (True, cb)
      | Some b \<Rightarrow>
          if addr = [] then (True, cb)
          else (case states b addr of
                  None \<Rightarrow> (True, cb)
                | Some st \<Rightarrow>
                    if IsZero (openUntil st) then (True, cb)
                    else if openUntil st < now then
                      (True, Some (b\<lparr>states := (states b)(addr \<mapsto> st\<lparr>openUntil := 0, failures := 0\<rparr>)\<rparr>))
                    else (False, cb)))"

definition breaker_RecordSuccess :: "string \<Rightarrow> Breaker option \<Rightarrow> Breaker option" where
  "breaker_RecordSuccess addr cb =
     (case cb of
        None \<Rightarrow> None
      | Some b \<Rightarrow>
          if addr = [] then cb
          else (case states b addr of
                  None \<Rightarrow> cb
                | Some st \<Rightarrow>
                    Some (b\<lparr>states := (states b)(addr \<mapsto> st\<lparr>failures := 0, openUntil := 0\<rparr>)\<rparr>)))"

text \<open>\<open>RecordFailure\<close> reads the clock twice, for the failure's time and for the deadline.\<close>

definition breaker_RecordFailure :: "time \<Rightarrow> time \<Rightarrow> string \<Rightarrow> Breaker option \<Rightarrow> Breaker option" where
  "breaker_RecordFailure now1 now2 addr cb =
     (case cb of
        None \<Rightarrow> None
      | Some b \<Rightarrow>
          if addr = [] then cb
          else
            let st0 = (case states b addr of
                         Some st \<Rightarrow> st
                       | None \<Rightarrow> \<lparr>failures = 0, openUntil = 0, lastFailure = 0\<rparr>);
                st1 = st0\<lparr>failures := failures st0 + 1, lastFailure := now1\<rparr>;
                st2 = (if maxFailures b \<le> failures st1
                       then st1\<lparr>openUntil := now2 + cooldown b\<rparr> else st1)
            in Some (b\<lparr>states := (states b)(addr \<mapsto> st2)\<rparr>))"

definition breaker_Snapshot :: "time \<Rightarrow> Breaker option \<Rightarrow> (string \<rightharpoonup> string)" where
  "breaker_Snapshot now cb =
     (case cb of
        None \<Rightarrow> Map.empty
      | Some b \<Rightarrow>
          (\<lambda>addr. map_option
             (\<lambda>st. if \<not> IsZero (openUntil st) \<and> now < openUntil st then ''open''
                   else if failures st > 0 then ''degraded'' else ''ok'')
             (states b addr)))"

text \<open>The operations as steps, for runs.\<close>

datatype breaker_op = OpAllow time | OpSuccess | OpFailure time time

fun breaker_step :: "breaker_op \<Rightarrow> string \<Rightarrow> Breaker option \<Rightarrow> Breaker option" where
  "breaker_step (OpAllow now) addr cb = snd (breaker_Allow now addr cb)"
| "breaker_step OpSuccess addr cb = breaker_RecordSuccess addr cb"
| "breaker_step (OpFailure now1 now2) addr cb = breaker_RecordFailure now1 now2 addr cb"

definition breaker_view :: "Breaker option \<Rightarrow> string \<Rightarrow> (circuitState option \<times> int \<times> duration) option" where
  "breaker_view cb addr =
     map_option (\<lambda>b. (states b addr, maxFailures b, cooldown b)) cb"

abbreviation breaker_run :: "(breaker_op \<times> string) list \<Rightarrow> Breaker option \<Rightarrow> Breaker option" where
  "breaker_run es \<equiv> fold (\<lambda>(op, addr). breaker_step op addr) es"

lemmas breaker_ops = breaker_Allow_def breaker_RecordSuccess_def breaker_RecordFailure_def

interpretation breaker_cells: keyed_cells breaker_step breaker_view
proof unfold_locales
  show "view' \<noteq> k \<Longrightarrow> breaker_view (breaker_step op k s) view' = breaker_view s view'"
    for view' k op s
    by (cases op) (auto simp: breaker_ops breaker_view_def Let_def split: option.splits)
  show "breaker_view s k = breaker_view s' k \<Longrightarrow>
      breaker_view (breaker_step op k s) k = breaker_view (breaker_step op k s') k"
    for s k s' op
    by (cases op; cases s; cases s')
      (auto simp: breaker_ops breaker_view_def Let_def split: option.splits)
qed

section \<open>The circuit of one address\<close>

text \<open>Closed with some failures counted, or open until a time.\<close>

datatype circuit = Closed int | OpenTill time

fun circuit_step :: "int \<Rightarrow> duration \<Rightarrow> breaker_op \<Rightarrow> circuit \<Rightarrow> circuit" where
  "circuit_step mf cool (OpAllow now) (OpenTill u) = (if u < now then Closed 0 else OpenTill u)"
| "circuit_step mf cool (OpAllow now) (Closed n) = Closed n"
| "circuit_step mf cool OpSuccess c = Closed 0"
| "circuit_step mf cool (OpFailure now1 now2) (Closed n) =
     (if mf \<le> n + 1 then OpenTill (now2 + cool) else Closed (n + 1))"
| "circuit_step mf cool (OpFailure now1 now2) (OpenTill u) = OpenTill (now2 + cool)"

fun circuit_allows :: "time \<Rightarrow> circuit \<Rightarrow> bool" where
  "circuit_allows now (Closed n) = True"
| "circuit_allows now (OpenTill u) = (u < now)"

definition abs_circuit :: "circuitState option \<Rightarrow> circuit" where
  "abs_circuit c =
     (case c of
        None \<Rightarrow> Closed 0
      | Some st \<Rightarrow> if IsZero (openUntil st) then Closed (failures st) else OpenTill (openUntil st))"

text \<open>An open circuit has reached the limit, a closed one has not, and the limits are positive.\<close>

definition cell_ok :: "int \<Rightarrow> circuitState \<Rightarrow> bool" where
  "cell_ok mf st \<longleftrightarrow> 0 \<le> failures st \<and> (if IsZero (openUntil st) then failures st < mf else mf \<le> failures st)"

definition breaker_inv :: "Breaker option \<Rightarrow> bool" where
  "breaker_inv cb \<longleftrightarrow>
     (\<forall>b. cb = Some b \<longrightarrow> 0 < maxFailures b \<and> 0 < cooldown b \<and>
        (\<forall>addr st. states b addr = Some st \<longrightarrow> cell_ok (maxFailures b) st))"

fun op_after_zero :: "breaker_op \<Rightarrow> bool" where
  "op_after_zero (OpFailure now1 now2) = (0 \<le> now1 \<and> 0 \<le> now2)"
| "op_after_zero _ = True"

lemma breaker_inv_New: "breaker_inv (Some (breaker_New mf cool))"
  by (simp add: breaker_inv_def breaker_New_def)

lemma breaker_inv_step [inv_intros]:
  assumes "breaker_inv cb" and "op_after_zero op"
  shows "breaker_inv (breaker_step op addr cb)"
proof (cases cb)
  case None
  then show ?thesis by (cases op) (simp_all add: breaker_inv_def breaker_ops)
next
  case (Some b)
  have upd: "breaker_inv (Some (b\<lparr>states := (states b)(addr \<mapsto> st)\<rparr>))"
    if "cell_ok (maxFailures b) st" for st
    using assms(1) that unfolding Some by (simp add: breaker_inv_def)
  have old: "cell_ok (maxFailures b) st" if "states b addr = Some st" for st
    using assms(1) that unfolding Some by (simp add: breaker_inv_def)
  have lim: "0 < maxFailures b" "0 < cooldown b" using assms(1) Some by (auto simp: breaker_inv_def)
  show ?thesis
  proof (cases op)
    case (OpAllow now)
    with Some assms(1) lim show ?thesis
      by (auto simp: breaker_Allow_def cell_ok_def intro!: upd split: option.splits)
  next
    case OpSuccess
    with Some assms(1) lim show ?thesis
      by (auto simp: breaker_RecordSuccess_def cell_ok_def intro!: upd split: option.splits)
  next
    case (OpFailure now1 now2)
    with Some assms lim show ?thesis
      by (auto simp: breaker_RecordFailure_def cell_ok_def Let_def intro!: upd
          split: option.splits if_splits dest!: old)
  qed
qed

lemma breaker_inv_run:
  assumes "breaker_inv cb" and "\<forall>e\<in>set es. op_after_zero (fst e)"
  shows "breaker_inv (breaker_run es cb)"
  by (rule fold_invariant [where P = breaker_inv]) (use assms in \<open>fastforce intro: breaker_inv_step\<close>)+

definition circuit_of :: "Breaker option \<Rightarrow> string \<Rightarrow> circuit" where
  "circuit_of cb addr = (case cb of None \<Rightarrow> Closed 0 | Some b \<Rightarrow> abs_circuit (states b addr))"

lemma breaker_step_limits:
  "\<exists>b'. breaker_step op addr (Some b) = Some b' \<and> maxFailures b' = maxFailures b \<and> cooldown b' = cooldown b"
  by (cases op) (auto simp: breaker_ops Let_def split: option.splits)

lemma breaker_run_Some: "\<exists>b'. breaker_run es (Some b) = Some b'"
proof (induction es arbitrary: b)
  case (Cons e es)
  obtain b' where "breaker_step (fst e) (snd e) (Some b) = Some b'"
    using breaker_step_limits by blast
  with Cons show ?case by (cases e) simp
qed simp

lemma circuit_of_step:
  assumes "breaker_inv (Some b)" and "op_after_zero op" and "addr \<noteq> []"
  shows "circuit_of (breaker_step op addr (Some b)) addr
    = circuit_step (maxFailures b) (cooldown b) op (circuit_of (Some b) addr)"
  using assms
  by (cases op)
    (force simp: breaker_ops circuit_of_def abs_circuit_def breaker_inv_def cell_ok_def Let_def
      split: option.splits if_splits)+

lemma circuit_of_run_own:
  assumes "breaker_inv (Some b)" and "\<forall>op\<in>set ops. op_after_zero op" and "addr \<noteq> []"
  shows "circuit_of (fold (\<lambda>op. breaker_step op addr) ops (Some b)) addr
    = fold (circuit_step (maxFailures b) (cooldown b)) ops (circuit_of (Some b) addr)"
  using assms
proof (induction ops arbitrary: b)
  case (Cons op ops)
  obtain b' where b': "breaker_step op addr (Some b) = Some b'" "maxFailures b' = maxFailures b"
      "cooldown b' = cooldown b"
    using breaker_step_limits by blast
  have "breaker_inv (Some b')" using breaker_inv_step [OF Cons.prems(1), of op addr] Cons.prems(2) b' by simp
  with Cons circuit_of_step [OF Cons.prems(1) _ Cons.prems(3), of op] b' show ?case by simp
qed simp

lemma circuit_of_view: "breaker_view cb addr = breaker_view cb' addr \<Longrightarrow> circuit_of cb addr = circuit_of cb' addr"
  by (cases cb; cases cb') (auto simp: breaker_view_def circuit_of_def)

lemma Allow_circuit:
  "breaker_inv (Some b) \<Longrightarrow> addr \<noteq> [] \<Longrightarrow>
   fst (breaker_Allow now addr (Some b)) = circuit_allows now (circuit_of (Some b) addr)"
  by (auto simp: breaker_Allow_def circuit_of_def abs_circuit_def split: option.splits)

text \<open>Failures alone: the circuit opens at the limit and each further failure extends it.\<close>

lemma circuit_failures:
  assumes "n < mf"
  shows "fold (circuit_step mf cool) (map (\<lambda>(t, u). OpFailure t u) tus) (Closed n)
    = (if n + int (length tus) < mf then Closed (n + int (length tus))
       else OpenTill (snd (last tus) + cool))"
proof (induction tus rule: rev_induct)
  case Nil
  with assms show ?case by simp
next
  case (snoc tu tus)
  show ?case
  proof (cases "n + int (length tus) < mf")
    case True
    with snoc show ?thesis by (auto split: prod.splits)
  next
    case False
    with snoc show ?thesis by (auto split: prod.splits)
  qed
qed

section \<open>Properties\<close>

text \<open>
  C15: In every run of the breaker, over any addresses in any interleaving, what the breaker holds
  for an address is what the abstract circuit of that address reaches by the operations on that
  address alone, in their order: addresses do not influence one another, the circuit opens at the
  limit of failures, stays open until its deadline, and a success or the first request after the
  deadline closes it.
\<close>

theorem breaker_refines_circuit:
  assumes "breaker_inv (Some b)" and "\<forall>e\<in>set es. op_after_zero (fst e)" and "addr \<noteq> []"
  shows "circuit_of (breaker_run es (Some b)) addr
    = fold (circuit_step (maxFailures b) (cooldown b)) (map fst (filter (\<lambda>e. snd e = addr) es))
        (circuit_of (Some b) addr)"
proof -
  let ?own = "map fst (filter (\<lambda>e. snd e = addr) es)"
  have "circuit_of (breaker_run es (Some b)) addr
      = circuit_of (fold (\<lambda>op. breaker_step op addr) ?own (Some b)) addr"
    by (rule circuit_of_view) (rule breaker_cells.run_projection)
  also have "\<dots> = fold (circuit_step (maxFailures b) (cooldown b)) ?own (circuit_of (Some b) addr)"
    using assms by (intro circuit_of_run_own) auto
  finally show ?thesis .
qed

theorem breaker_refines_circuit_witness:
  "circuit_of (breaker_run [(OpFailure 1 1, ''a''), (OpSuccess, ''b''), (OpFailure 2 3, ''a'')]
      (Some (breaker_New 2 10))) ''a'' = OpenTill 13"
  by (subst breaker_refines_circuit [OF breaker_inv_New])
    (simp_all add: breaker_New_def circuit_of_def abs_circuit_def)



text \<open>
  The health view agrees with the gate: an address is shown as open at a time exactly when
  the breaker would refuse it at that time and the deadline is not that very instant (at the
  instant of the deadline the gate still refuses, but the view no longer says open).
\<close>

theorem breaker_Snapshot_open:
  assumes "addr \<noteq> []"
  shows "breaker_Snapshot now (Some b) addr = Some ''open''
    \<longleftrightarrow> \<not> fst (breaker_Allow now addr (Some b)) \<and> map_option openUntil (states b addr) \<noteq> Some now"
proof (cases "states b addr")
  case None
  then show ?thesis using assms by (simp add: breaker_Snapshot_def breaker_Allow_def)
next
  case (Some st)
  then have "breaker_Snapshot now (Some b) addr = Some ''open'' \<longleftrightarrow> openUntil st \<noteq> 0 \<and> now < openUntil st"
    by (simp add: breaker_Snapshot_def)
  moreover have "fst (breaker_Allow now addr (Some b)) \<longleftrightarrow> openUntil st = 0 \<or> openUntil st < now"
    using assms Some by (simp add: breaker_Allow_def)
  ultimately show ?thesis using Some by auto
qed

theorem breaker_Snapshot_open_witness:
  "breaker_Snapshot 5 (breaker_run [(OpFailure 1 1, ''a'')] (Some (breaker_New 1 10))) ''a''
   = Some ''open''"
proof -
  let ?b = "\<lparr>states = [''a'' \<mapsto> \<lparr>failures = 1, openUntil = 11, lastFailure = 1\<rparr>],
             maxFailures = 1, cooldown = 10\<rparr>"
  have "breaker_run [(OpFailure 1 1, ''a'')] (Some (breaker_New 1 10)) = Some ?b"
    by (simp add: breaker_New_def breaker_RecordFailure_def Let_def)
  moreover have "breaker_Snapshot 5 (Some ?b) ''a'' = Some ''open''"
    by (subst breaker_Snapshot_open) (simp_all add: breaker_Allow_def)
  ultimately show ?thesis by simp
qed

end
