(* ===== verification/RequestQueue.thy ===== *)
theory RequestQueue
  imports Interfaces
begin

text \<open>
  The concurrency limit of \<open>pkg/requestqueue/queue.go\<close>: a channel of capacity
  \<open>sem_cap\<close> that holds one token per request in flight. \<open>Acquire\<close> is a \<open>select\<close>
  between the send and the end of the waiting context; its environment is the state of the caller's
  context, the time waited so far and, where both branches are ready, the scheduler's choice. A
  queue that is full while the context lives is blocked. A nil queue is \<open>None\<close>.
\<close>

record Queue =
  sem_len :: nat
  sem_cap :: nat
  maxWait :: duration

datatype ctx_state = CtxLive | CtxDeadline | CtxCanceled

record wait_env =
  parent_ctx :: ctx_state
  waited :: duration
  pick_slot :: bool

datatype 'q acquire_result = Acquired 'q | ErrQueueTimeout | ErrCanceled | Blocked

definition queue_New :: "int \<Rightarrow> duration \<Rightarrow> Queue" where
  "queue_New maxConcurrent wait =
     \<lparr>sem_len = 0, sem_cap = nat (if maxConcurrent \<le> 0 then 8 else maxConcurrent), maxWait = wait\<rparr>"

text \<open>The state of \<open>waitCtx\<close>: the caller's, with the queue's own deadline when it has one.\<close>

definition wait_ctx :: "wait_env \<Rightarrow> Queue \<Rightarrow> ctx_state" where
  "wait_ctx env q =
     (if parent_ctx env \<noteq> CtxLive then parent_ctx env
      else if 0 < maxWait q \<and> maxWait q \<le> waited env then CtxDeadline
      else CtxLive)"

definition queue_Acquire :: "wait_env \<Rightarrow> Queue option \<Rightarrow> Queue option acquire_result" where
  "queue_Acquire env q =
     (case q of
        None \<Rightarrow> Acquired None
      | Some qu \<Rightarrow>
          if sem_len qu < sem_cap qu \<and> (wait_ctx env qu = CtxLive \<or> pick_slot env)
          then Acquired (Some (qu\<lparr>sem_len := sem_len qu + 1\<rparr>))
          else (case wait_ctx env qu of
                  CtxDeadline \<Rightarrow> ErrQueueTimeout
                | CtxCanceled \<Rightarrow> ErrCanceled
                | CtxLive \<Rightarrow> Blocked))"

definition queue_Release :: "Queue option \<Rightarrow> Queue option" where
  "queue_Release q =
     (case q of
        None \<Rightarrow> None
      | Some qu \<Rightarrow> if 0 < sem_len qu then Some (qu\<lparr>sem_len := sem_len qu - 1\<rparr>) else q)"

definition queue_InFlight :: "Queue option \<Rightarrow> nat" where
  "queue_InFlight q = (case q of None \<Rightarrow> 0 | Some qu \<Rightarrow> sem_len qu)"

definition queue_Capacity :: "Queue option \<Rightarrow> nat" where
  "queue_Capacity q = (case q of None \<Rightarrow> 0 | Some qu \<Rightarrow> sem_cap qu)"

section \<open>The queue as a pool of slots\<close>

definition queue_inv :: "Queue \<Rightarrow> bool" where
  "queue_inv q \<longleftrightarrow> sem_len q \<le> sem_cap q"

definition live_env :: wait_env where
  "live_env = \<lparr>parent_ctx = CtxLive, waited = 0, pick_slot = True\<rparr>"

text \<open>An attempt that takes a slot if there is one and does not wait.\<close>

definition queue_try :: "Queue \<Rightarrow> Queue option" where
  "queue_try q = (case queue_Acquire live_env (Some q) of Acquired q' \<Rightarrow> q' | _ \<Rightarrow> None)"

definition queue_put_back :: "Queue \<Rightarrow> Queue" where
  "queue_put_back q = (case queue_Release (Some q) of Some q' \<Rightarrow> q' | None \<Rightarrow> q)"

lemma wait_ctx_live [simp]: "wait_ctx live_env q = CtxLive"
  by (auto simp: wait_ctx_def live_env_def)

lemma queue_try_eq:
  "queue_try q = (if sem_len q < sem_cap q then Some (q\<lparr>sem_len := sem_len q + 1\<rparr>) else None)"
  by (simp add: queue_try_def queue_Acquire_def)

lemma queue_put_back_eq: "queue_put_back q = q\<lparr>sem_len := sem_len q - 1\<rparr>"
  by (cases "0 < sem_len q") (simp_all add: queue_put_back_def queue_Release_def)

interpretation queue_slots: slot_pool queue_try queue_put_back sem_len sem_cap queue_inv
  by unfold_locales (auto simp: queue_try_eq queue_put_back_eq queue_inv_def split: if_splits)

lemma queue_inv_New: "queue_inv (queue_New n w)"
  by (simp add: queue_inv_def queue_New_def)

lemma queue_Release_put_back: "queue_Release (Some q) = Some (queue_put_back q)"
  by (simp add: queue_put_back_def queue_Release_def)

lemma queue_Acquire_Acquired:
  "queue_Acquire env (Some q) = Acquired r \<Longrightarrow> \<exists>q'. r = Some q' \<and> queue_try q = Some q'"
  by (auto simp: queue_Acquire_def queue_try_eq split: if_splits ctx_state.splits)

section \<open>Runs of many requests\<close>

datatype queue_op = QAcquire wait_env | QRelease

fun queue_step :: "queue_op \<Rightarrow> Queue \<Rightarrow> Queue" where
  "queue_step (QAcquire env) q =
     (case queue_Acquire env (Some q) of Acquired (Some q') \<Rightarrow> q' | _ \<Rightarrow> q)"
| "queue_step QRelease q = queue_put_back q"

lemma queue_step_inv [inv_intros]:
  assumes "queue_inv q"
  shows "queue_inv (queue_step op q) \<and> sem_cap (queue_step op q) = sem_cap q"
proof (cases op)
  case (QAcquire env)
  show ?thesis
  proof (cases "queue_Acquire env (Some q)")
    case (Acquired r)
    then obtain q' where "r = Some q'" "queue_try q = Some q'" using queue_Acquire_Acquired by blast
    with Acquired QAcquire queue_slots.acquire_Some [OF assms] show ?thesis by simp
  qed (use QAcquire assms in simp_all)
next
  case QRelease
  with queue_slots.release_ok [OF assms] show ?thesis by simp
qed


text \<open>
  \<open>Acquire\<close> on a full queue never takes a slot: it reports the time-out when the queue's
  own limit or the caller's deadline has passed, the cancellation when the caller gave up, and
  otherwise it waits; with no limit configured and a live caller it waits for ever.
\<close>

theorem queue_Acquire_full:
  assumes "queue_inv q" and "sem_len q = sem_cap q"
  shows "queue_Acquire env (Some q) =
    (case parent_ctx env of
       CtxDeadline \<Rightarrow> ErrQueueTimeout
     | CtxCanceled \<Rightarrow> ErrCanceled
     | CtxLive \<Rightarrow> if 0 < maxWait q \<and> maxWait q \<le> waited env then ErrQueueTimeout else Blocked)"
  using assms(2) by (auto simp: queue_Acquire_def wait_ctx_def split: ctx_state.splits)

theorem queue_Acquire_full_witness:
  "queue_Acquire \<lparr>parent_ctx = CtxLive, waited = 30, pick_slot = True\<rparr>
     (Some \<lparr>sem_len = 2, sem_cap = 2, maxWait = 30\<rparr>) = ErrQueueTimeout
   \<and> queue_Acquire \<lparr>parent_ctx = CtxLive, waited = 30, pick_slot = True\<rparr>
     (Some \<lparr>sem_len = 2, sem_cap = 2, maxWait = 0\<rparr>) = Blocked"
  by (subst (1 2) queue_Acquire_full) (simp_all add: queue_inv_def)

end
