(* ===== verification/TokenQuota.thy ===== *)
theory TokenQuota
  imports GoPrelude "HOL-Library.Word"
begin

text \<open>
  The daily token quota of \<open>pkg/quota/quota.go\<close>. The counters are Go's \<open>int64\<close>, here
  64-bit words read with \<open>sint\<close>, since the admission test adds before it compares. The start
  of a day is computed in a zone with the fixed offset \<open>off\<close> from UTC (the zero time is a
  midnight). A nil quota (no limit configured) is \<open>None\<close>.
\<close>

type_synonym int64 = "64 word"

abbreviation day :: duration where
  "day \<equiv> 24 * go_hour"

record Quota =
  maxPerDay :: int64
  usedToday :: int64
  dayStart :: time

definition startOfDay :: "int \<Rightarrow> time \<Rightarrow> time" where
  "startOfDay off t = t - (t + off) mod day"

definition quota_New :: "int \<Rightarrow> time \<Rightarrow> int64 \<Rightarrow> Quota option" where
  "quota_New off now maxTok =
     (if sint maxTok \<le> 0 then None
      else Some \<lparr>maxPerDay = maxTok, usedToday = 0, dayStart = startOfDay off now\<rparr>)"

definition quota_WouldAllow :: "int \<Rightarrow> time \<Rightarrow> int64 \<Rightarrow> Quota option \<Rightarrow> bool \<times> Quota option" where
  "quota_WouldAllow off now add q =
     (case q of
        None \<Rightarrow> (True, None)
      | Some qt \<Rightarrow>
          if sint add \<le> 0 then (True, q)
          else
            let qt' = (if day \<le> now - dayStart qt
                       then qt\<lparr>usedToday := 0, dayStart := startOfDay off now\<rparr> else qt)
            in (sint (usedToday qt' + add) \<le> sint (maxPerDay qt'), Some qt'))"

definition quota_Record :: "int \<Rightarrow> time \<Rightarrow> int64 \<Rightarrow> Quota option \<Rightarrow> Quota option" where
  "quota_Record off now add q =
     (case q of
        None \<Rightarrow> None
      | Some qt \<Rightarrow>
          if sint add \<le> 0 then q
          else
            let qt' = (if day \<le> now - dayStart qt
                       then qt\<lparr>usedToday := 0, dayStart := startOfDay off now\<rparr> else qt)
            in Some (qt'\<lparr>usedToday := usedToday qt' + add\<rparr>))"

text \<open>\<open>Allow\<close> takes the lock twice; the two readings of the clock are arguments.\<close>

definition quota_Allow :: "int \<Rightarrow> time \<Rightarrow> time \<Rightarrow> int64 \<Rightarrow> Quota option \<Rightarrow> bool \<times> Quota option" where
  "quota_Allow off now1 now2 add q =
     (let (ok, q1) = quota_WouldAllow off now1 add q
      in if \<not> ok then (False, q1) else (True, quota_Record off now2 add q1))"

definition quota_Snapshot :: "Quota option \<Rightarrow> int64 \<times> int64" where
  "quota_Snapshot q = (case q of None \<Rightarrow> (0, 0) | Some qt \<Rightarrow> (usedToday qt, maxPerDay qt))"

section \<open>Lemmas\<close>

lemmas quota_defs = quota_WouldAllow_def quota_Record_def quota_Allow_def

lemma startOfDay_bounds: "startOfDay off t \<le> t" and startOfDay_near: "t - startOfDay off t < day"
  by (simp_all add: startOfDay_def)

lemma startOfDay_idem: "startOfDay off (startOfDay off t) = startOfDay off t"
proof -
  have "startOfDay off t + off = (t + off) - (t + off) mod day" by (simp add: startOfDay_def)
  also have "\<dots> mod day = 0" by (simp add: minus_mod_eq_mult_div)
  finally have "(startOfDay off t + off) mod day = 0" .
  then show ?thesis by (simp add: startOfDay_def [of off "startOfDay off t"])
qed

lemma sint_add_no_overflow:
  fixes a b :: int64
  assumes "- (2 ^ 63) \<le> sint a + sint b" and "sint a + sint b < 2 ^ 63"
  shows "sint (a + b) = sint a + sint b"
proof -
  have "sint (a + b) = signed_take_bit 63 (sint a + sint b)"
    by (simp add: sint_word_ariths)
  also have "\<dots> = sint a + sint b"
    using assms by (simp add: signed_take_bit_int_eq_self)
  finally show ?thesis .
qed

text \<open>What is in use at a time: nothing, once a day has passed since the day's start.\<close>

definition used_at :: "time \<Rightarrow> Quota \<Rightarrow> int" where
  "used_at now qt = (if day \<le> now - dayStart qt then 0 else sint (usedToday qt))"

definition quota_inv :: "Quota \<Rightarrow> bool" where
  "quota_inv qt \<longleftrightarrow> 0 < sint (maxPerDay qt) \<and> 0 \<le> sint (usedToday qt) \<and> sint (usedToday qt) \<le> sint (maxPerDay qt)"

lemma sint_max64: "sint (w :: int64) < 2 ^ 63"
  using sint_lt [of w] by simp

lemma quota_WouldAllow_iff:
  assumes "quota_inv qt" and "0 < sint add" and "used_at now qt + sint add < 2 ^ 63"
  shows "fst (quota_WouldAllow off now add (Some qt)) \<longleftrightarrow> used_at now qt + sint add \<le> sint (maxPerDay qt)"
  using assms
  by (auto simp: quota_WouldAllow_def Let_def used_at_def quota_inv_def sint_add_no_overflow)

lemma quota_Allow_state:
  assumes "quota_inv qt" and "0 < sint add" and "used_at now qt + sint add \<le> sint (maxPerDay qt)"
  shows "\<exists>qt'. snd (quota_Allow off now now add (Some qt)) = Some qt' \<and> quota_inv qt'
    \<and> sint (usedToday qt') = used_at now qt + sint add \<and> maxPerDay qt' = maxPerDay qt"
proof -
  have lim: "used_at now qt + sint add < 2 ^ 63" using assms(3) sint_max64 [of "maxPerDay qt"] by linarith
  have ok: "fst (quota_WouldAllow off now add (Some qt))"
    using quota_WouldAllow_iff [OF assms(1,2) lim] assms(3) by simp
  have near: "\<not> day \<le> now - startOfDay off now" using startOfDay_near [of now off] by simp
  show ?thesis
  proof (cases "day \<le> now - dayStart qt")
    case True
    with ok near assms show ?thesis
      by (auto simp: quota_defs Let_def used_at_def quota_inv_def case_prod_beta)
  next
    case False
    then have "sint (usedToday qt + add) = sint (usedToday qt) + sint add"
      using assms lim by (intro sint_add_no_overflow) (auto simp: used_at_def quota_inv_def)
    with False ok assms show ?thesis
      by (auto simp: quota_defs Let_def used_at_def quota_inv_def case_prod_beta)
  qed
qed

section \<open>Properties\<close>



text \<open>
  The admission test adds in \<open>int64\<close> before it compares, so a charge large enough to
  wrap the sum around is admitted by a quota that is already in use, whatever its limit.
\<close>

theorem quota_overflow_admits:
  assumes "0 < sint (usedToday qt)" and "0 < sint (maxPerDay qt)" and "now - dayStart qt < day"
  shows "fst (quota_WouldAllow off now (2 ^ 63 - 1) (Some qt))"
proof -
  let ?m = "2 ^ 63 - 1 :: int64"
  have m: "sint ?m = 2 ^ 63 - 1" by simp
  have "sint (usedToday qt + ?m) = signed_take_bit 63 (sint (usedToday qt) + (2 ^ 63 - 1))"
    by (simp add: sint_word_ariths)
  also have "\<dots> = (sint (usedToday qt) + (2 ^ 63 - 1) + 2 ^ 63) mod 2 ^ 64 - 2 ^ 63"
    by (simp only: signed_take_bit_eq_take_bit_shift take_bit_eq_mod) simp
  also have "\<dots> = sint (usedToday qt) - 1 - 2 ^ 63"
  proof -
    have "(sint (usedToday qt) + (2 ^ 63 - 1) + 2 ^ 63) mod 2 ^ 64 = (sint (usedToday qt) - 1 + 2 ^ 64) mod 2 ^ 64"
      by simp
    also have "\<dots> = sint (usedToday qt) - 1"
      using assms(1) sint_max64 [of "usedToday qt"] by (subst mod_add_self2) (rule mod_pos_pos_trivial; simp)
    finally show ?thesis by simp
  qed
  also have "\<dots> < 0" using sint_max64 [of "usedToday qt"] by simp
  finally show ?thesis using assms(2,3) m by (simp add: quota_WouldAllow_def Let_def)
qed

theorem quota_overflow_admits_witness:
  "fst (quota_WouldAllow 0 5 (2 ^ 63 - 1) (Some \<lparr>maxPerDay = 100, usedToday = 60, dayStart = 0\<rparr>))"
  by (rule quota_overflow_admits) simp_all

end
