(* ===== verification/IdempotencyStore.thy ===== *)
theory IdempotencyStore
  imports Interfaces
begin

text \<open>
  The store of finished responses of \<open>pkg/idempotency/idempotency.go\<close>: a request that
  carries a known id gets the recorded status and body again, until the entry expires. A nil store
  is \<open>None\<close>; \<open>idem_cleanup\<close> is what the background loop runs once a minute. The
  lemmas show that the clean-up is invisible to readers and that an entry is replayed exactly until
  its expiry.
\<close>

record idempotencyEntry =
  ie_status :: int
  ie_body :: string
  ie_expires :: time

record IdempotencyStore =
  ie_entries :: "string \<rightharpoonup> idempotencyEntry"
  ie_ttl :: duration

definition idem_New :: "duration \<Rightarrow> IdempotencyStore" where
  "idem_New ttl = \<lparr>ie_entries = Map.empty, ie_ttl = (if ttl \<le> 0 then 5 * go_minute else ttl)\<rparr>"

definition idem_Get :: "time \<Rightarrow> string \<Rightarrow> IdempotencyStore option \<Rightarrow> int \<times> string \<times> bool" where
  "idem_Get now key s =
     (case s of
        None \<Rightarrow> (0, [], False)
      | Some st \<Rightarrow>
          if key = [] then (0, [], False)
          else (case ie_entries st key of
                  None \<Rightarrow> (0, [], False)
                | Some e \<Rightarrow>
                    if ie_expires e < now then (0, [], False) else (ie_status e, ie_body e, True)))"

definition idem_Put :: "time \<Rightarrow> string \<Rightarrow> int \<Rightarrow> string \<Rightarrow> IdempotencyStore option \<Rightarrow> IdempotencyStore option" where
  "idem_Put now key status body s =
     (case s of
        None \<Rightarrow> None
      | Some st \<Rightarrow>
          if key = [] then s
          else Some (st\<lparr>ie_entries := (ie_entries st)
            (key \<mapsto> \<lparr>ie_status = status, ie_body = body, ie_expires = now + ie_ttl st\<rparr>)\<rparr>))"

definition idem_cleanup :: "time \<Rightarrow> IdempotencyStore option \<Rightarrow> IdempotencyStore option" where
  "idem_cleanup now s =
     map_option
       (\<lambda>st. st\<lparr>ie_entries := (\<lambda>k. case ie_entries st k of
                  None \<Rightarrow> None
                | Some e \<Rightarrow> if ie_expires e < now then None else Some e)\<rparr>) s"

datatype idem_op = IdemPut time string int string | IdemTick time

fun idem_step :: "idem_op \<Rightarrow> IdempotencyStore option \<Rightarrow> IdempotencyStore option" where
  "idem_step (IdemPut now key status body) s = idem_Put now key status body s"
| "idem_step (IdemTick now) s = idem_cleanup now s"

fun idem_op_time :: "idem_op \<Rightarrow> time" where
  "idem_op_time (IdemPut now _ _ _) = now"
| "idem_op_time (IdemTick now) = now"

fun idem_op_key :: "idem_op \<Rightarrow> string option" where
  "idem_op_key (IdemPut _ key _ _) = Some key"
| "idem_op_key (IdemTick _) = None"

lemmas idem_defs = idem_Get_def idem_Put_def idem_cleanup_def

lemma idem_Get_cleanup: "t \<le> now \<Longrightarrow> idem_Get now key (idem_cleanup t s) = idem_Get now key s"
  by (auto simp: idem_defs split: option.splits)

lemma idem_Get_Put_other: "k \<noteq> key \<Longrightarrow> idem_Get now key (idem_Put t k status body s) = idem_Get now key s"
  by (auto simp: idem_defs split: option.splits)

lemma idem_Get_Put_same:
  assumes "key \<noteq> []"
  shows "idem_Get now key (idem_Put t key status body (Some st))
    = (if t + ie_ttl st < now then (0, [], False) else (status, body, True))"
  using assms by (simp add: idem_defs)

lemma idem_Get_run:
  assumes "\<forall>op\<in>set ops. idem_op_time op \<le> now \<and> idem_op_key op \<noteq> Some key"
  shows "idem_Get now key (fold idem_step ops s) = idem_Get now key s"
  using assms
proof (induction ops arbitrary: s)
  case (Cons op ops)
  have "idem_Get now key (idem_step op s) = idem_Get now key s"
    using Cons.prems by (cases op) (auto simp: idem_Get_cleanup idem_Get_Put_other)
  with Cons show ?case by simp
qed simp

text \<open>
  A response stored under a key is replayed, status and body unchanged, at every time up to
  its expiry and at none after it, whatever is stored under other keys and whenever the clean-up
  runs in between.
\<close>

theorem idempotency_replay:
  assumes "key \<noteq> []" and "\<forall>op\<in>set ops. idem_op_time op \<le> now \<and> idem_op_key op \<noteq> Some key"
  shows "idem_Get now key (fold idem_step ops (idem_Put t key status body (Some st)))
    = (if now \<le> t + ie_ttl st then (status, body, True) else (0, [], False))"
  using idem_Get_run [OF assms(2)] idem_Get_Put_same [OF assms(1)] by auto

theorem idempotency_replay_witness:
  "idem_Get 9 ''r1'' (fold idem_step [IdemPut 3 ''r2'' 500 ''x'', IdemTick 8]
     (idem_Put 2 ''r1'' 200 ''ok'' (Some (idem_New 7)))) = (200, ''ok'', True)
   \<and> idem_Get 10 ''r1'' (fold idem_step [IdemPut 3 ''r2'' 500 ''x'', IdemTick 8]
     (idem_Put 2 ''r1'' 200 ''ok'' (Some (idem_New 7)))) = (0, [], False)"
  by (subst (1 2) idempotency_replay) (simp_all add: idem_New_def)

end
