(* ===== verification/UploadLimit.thy ===== *)
theory UploadLimit
  imports Interfaces
begin

text \<open>
  The limit on file uploads of \<open>pkg/sessionupload/ratelimit.go\<close>: per user a window that
  starts with the first upload and lasts a minute, with the bytes and the number of uploads counted
  in it. \<open>upload_prune\<close> is \<open>maybePruneLocked\<close>: once the table is large, expired windows
  are dropped. The lemmas show that dropping expired windows changes no later decision, so each
  user's decisions depend on that user's own uploads only. Sizes and counts are unbounded here: they are
  lengths of files held in memory, so that the sum of a window and one more file stays below
  \<open>2 ^ 63\<close>.
\<close>

abbreviation upload_window :: duration where
  "upload_window \<equiv> go_minute"

definition max_upload_bytes :: int where
  "max_upload_bytes = 48 * 1024 * 1024"

definition max_uploads :: int where
  "max_uploads = 80"

definition prune_entries :: nat where
  "prune_entries = 4096"

record uploadRollingWindow =
  windowStart :: time
  up_bytes :: int
  up_n :: int

type_synonym upload_table = "(int \<times> uploadRollingWindow) list"

datatype upload_error = TooManyUploads | TooManyBytes

definition expired :: "time \<Rightarrow> uploadRollingWindow \<Rightarrow> bool" where
  "expired now w \<longleftrightarrow> upload_window \<le> now - windowStart w"

fun upload_get :: "int \<Rightarrow> upload_table \<Rightarrow> uploadRollingWindow option" where
  "upload_get u [] = None"
| "upload_get u ((v, w) # t) = (if v = u then Some w else upload_get u t)"

fun upload_set :: "int \<Rightarrow> uploadRollingWindow \<Rightarrow> upload_table \<Rightarrow> upload_table" where
  "upload_set u w [] = [(u, w)]"
| "upload_set u w ((v, w') # t) = (if v = u then (u, w) # t else (v, w') # upload_set u w t)"

definition upload_prune :: "time \<Rightarrow> upload_table \<Rightarrow> upload_table" where
  "upload_prune now t =
     (if length t < prune_entries then t else filter (\<lambda>(u, w). \<not> expired now w) t)"

text \<open>\<open>CheckPutSessionFile\<close>: \<open>Inl\<close> the refusal, \<open>Inr\<close> the new table.\<close>

definition upload_check :: "time \<Rightarrow> int \<Rightarrow> int \<Rightarrow> upload_table \<Rightarrow> upload_error + upload_table" where
  "upload_check now userID byteLen t =
     (let b = (if byteLen < 0 then 0 else byteLen);
          fresh = Inr (upload_prune now
            (upload_set userID \<lparr>windowStart = now, up_bytes = b, up_n = 1\<rparr> t))
      in case upload_get userID t of
           None \<Rightarrow> fresh
         | Some w \<Rightarrow>
             if expired now w then fresh
             else if max_uploads \<le> up_n w then Inl TooManyUploads
             else if max_upload_bytes < up_bytes w + b then Inl TooManyBytes
             else Inr (upload_prune now
               (upload_set userID (w\<lparr>up_bytes := up_bytes w + b, up_n := up_n w + 1\<rparr>) t)))"

section \<open>Tables\<close>

lemma upload_get_set: "upload_get u (upload_set v w t) = (if u = v then Some w else upload_get u t)"
  by (induction t) auto

lemma keys_upload_set: "set (map fst (upload_set v w t)) = insert v (set (map fst t))"
  by (induction v w t rule: upload_set.induct) auto

lemma upload_set_distinct: "distinct (map fst t) \<Longrightarrow> distinct (map fst (upload_set v w t))"
  by (induction t) (auto simp: keys_upload_set simp del: set_map)

lemma upload_get_None: "u \<notin> fst ` set t \<Longrightarrow> upload_get u t = None"
  by (induction t) auto

lemma upload_get_filter:
  assumes "distinct (map fst t)"
  shows "upload_get u (filter (\<lambda>(v, w). P w) t) =
    (case upload_get u t of None \<Rightarrow> None | Some w \<Rightarrow> if P w then Some w else None)"
  using assms
proof (induction t)
  case (Cons a t)
  obtain v w where a: "a = (v, w)" by (cases a)
  have "upload_get v (filter (\<lambda>(v, w). P w) t) = None" if "v \<notin> fst ` set t"
    using that by (intro upload_get_None) auto
  with Cons a show ?case by (auto simp: upload_get_None)
qed simp

text \<open>The window that counts at a time: an expired one is as good as none.\<close>

definition live_window :: "time \<Rightarrow> int \<Rightarrow> upload_table \<Rightarrow> uploadRollingWindow option" where
  "live_window now u t =
     (case upload_get u t of None \<Rightarrow> None | Some w \<Rightarrow> if expired now w then None else Some w)"

lemma expired_mono: "now \<le> later \<Longrightarrow> expired now w \<Longrightarrow> expired later w"
  by (simp add: expired_def)

lemma live_window_prune:
  assumes "distinct (map fst t)" and "now \<le> later"
  shows "live_window later u (upload_prune now t) = live_window later u t"
  using assms by (auto simp: live_window_def upload_prune_def upload_get_filter
      dest: expired_mono split: option.splits)

definition upload_inv :: "upload_table \<Rightarrow> bool" where
  "upload_inv t \<longleftrightarrow> distinct (map fst t)"

lemma upload_prune_inv [inv_intros]: "upload_inv t \<Longrightarrow> upload_inv (upload_prune now t)"
  by (auto simp: upload_inv_def upload_prune_def distinct_map filter_is_subset inj_on_subset)

lemma upload_set_inv [inv_intros]: "upload_inv t \<Longrightarrow> upload_inv (upload_set u w t)"
  by (simp add: upload_inv_def upload_set_distinct)

section \<open>One user's window\<close>

text \<open>The decision on one window alone, and the window it leaves.\<close>

fun window_check ::
  "time \<Rightarrow> int \<Rightarrow> uploadRollingWindow option \<Rightarrow> upload_error + uploadRollingWindow" where
  "window_check now b None = Inr \<lparr>windowStart = now, up_bytes = b, up_n = 1\<rparr>"
| "window_check now b (Some w) =
     (if max_uploads \<le> up_n w then Inl TooManyUploads
      else if max_upload_bytes < up_bytes w + b then Inl TooManyBytes
      else Inr (w\<lparr>up_bytes := up_bytes w + b, up_n := up_n w + 1\<rparr>))"

lemma live_window_set:
  assumes "upload_inv t" and "now \<le> later"
  shows "live_window later u (upload_prune now (upload_set v w t)) =
    (if u = v then (if expired later w then None else Some w) else live_window later u t)"
  using live_window_prune [OF upload_set_distinct assms(2), of t u v w] assms(1)
  by (simp add: upload_inv_def live_window_def upload_get_set)

lemma upload_check_window:
  assumes "upload_inv t" and "0 \<le> b"
  shows "case upload_check now u b t of
      Inl e \<Rightarrow> window_check now b (live_window now u t) = Inl e
    | Inr t' \<Rightarrow> upload_inv t' \<and>
        (\<exists>w'. window_check now b (live_window now u t) = Inr w' \<and>
          (\<forall>later v. now \<le> later \<longrightarrow> live_window later v t' =
             (if v = u then (if expired later w' then None else Some w') else live_window later v t)))"
  using assms live_window_set [OF assms(1), of now]
  by (auto simp: upload_check_def Let_def live_window_def split: option.splits
      intro!: inv_intros)

section \<open>Runs\<close>

text \<open>A run over requests (time, user, size); a refused request leaves the table as it is.\<close>

fun upload_step :: "time \<times> int \<times> int \<Rightarrow> upload_table \<Rightarrow> upload_table" where
  "upload_step (now, u, b) t = (case upload_check now u b t of Inl _ \<Rightarrow> t | Inr t' \<Rightarrow> t')"

fun window_step :: "time \<times> int \<Rightarrow> uploadRollingWindow option \<Rightarrow> uploadRollingWindow option" where
  "window_step (now, b) w =
     (let w0 = (case w of None \<Rightarrow> None | Some x \<Rightarrow> if expired now x then None else Some x)
      in case window_check now b w0 of Inl _ \<Rightarrow> w0 | Inr w' \<Rightarrow> Some w')"

fun user_requests :: "int \<Rightarrow> (time \<times> int \<times> int) list \<Rightarrow> (time \<times> int) list" where
  "user_requests u [] = []"
| "user_requests u ((now, v, b) # rs) = (if v = u then (now, b) # user_requests u rs else user_requests u rs)"

definition drop_expired :: "time \<Rightarrow> uploadRollingWindow option \<Rightarrow> uploadRollingWindow option" where
  "drop_expired now w = (case w of None \<Rightarrow> None | Some x \<Rightarrow> if expired now x then None else Some x)"

lemma drop_expired_mono: "now \<le> later \<Longrightarrow> drop_expired later (drop_expired now w) = drop_expired later w"
  by (auto simp: drop_expired_def dest: expired_mono split: option.splits)

lemma window_step_drop: "window_step (now, b) (drop_expired now w) = window_step (now, b) w"
  by (auto simp: drop_expired_def split: option.splits)

lemma upload_step_inv: "upload_inv t \<Longrightarrow> upload_inv (upload_step (now, u, b) t)"
  by (auto simp: upload_check_def Let_def split: option.splits sum.splits intro!: inv_intros)

lemma live_window_step:
  assumes "upload_inv t" and "0 \<le> b" and "now \<le> later"
  shows "live_window later v (upload_step (now, u, b) t) =
    (if v = u then drop_expired later (window_step (now, b) (live_window now u t))
     else live_window later v t)"
proof (cases "upload_check now u b t")
  case (Inl e)
  then have "window_check now b (live_window now u t) = Inl e"
    using upload_check_window [OF assms(1,2), of now u] by simp
  moreover have "drop_expired now (live_window now u t) = live_window now u t"
    by (auto simp: drop_expired_def live_window_def split: option.splits)
  moreover have "live_window later u t = drop_expired later (live_window now u t)"
    using assms(3) by (auto simp: drop_expired_def live_window_def dest: expired_mono split: option.splits)
  ultimately show ?thesis using Inl by (simp add: drop_expired_def [symmetric])
next
  case (Inr t')
  then obtain w' where "window_check now b (live_window now u t) = Inr w'"
    "live_window later v t' = (if v = u then (if expired later w' then None else Some w') else live_window later v t)"
    using upload_check_window [OF assms(1,2), of now u] assms(3) by auto
  moreover have "drop_expired now (live_window now u t) = live_window now u t"
    by (auto simp: drop_expired_def live_window_def split: option.splits)
  ultimately show ?thesis using Inr by (simp add: drop_expired_def [symmetric]) (simp add: drop_expired_def)
qed

lemma upload_run_window:
  assumes "upload_inv t" and "sorted (map fst rs)" and "\<forall>r\<in>set rs. start \<le> fst r \<and> 0 \<le> snd (snd r)"
    and "\<forall>later\<ge>start. live_window later u t = drop_expired later w"
    and "start \<le> later" and "\<forall>r\<in>set rs. fst r \<le> later"
  shows "live_window later u (fold upload_step rs t)
    = drop_expired later (fold window_step (user_requests u rs) w)"
  using assms
proof (induction rs arbitrary: t start w)
  case (Cons r rs)
  obtain now v b where r: "r = (now, v, b)" by (cases r) auto
  let ?t = "upload_step (now, v, b) t" and ?w = "if v = u then window_step (now, b) w else w"
  have b: "0 \<le> b" and st: "start \<le> now" using Cons.prems(3) r by auto
  have step: "live_window l u ?t = drop_expired l ?w" if "now \<le> l" for l
    using live_window_step [OF Cons.prems(1) b that, of u v] Cons.prems(4) st that
      window_step_drop [of now b w]
    by auto
  have "live_window later u (fold upload_step rs ?t)
      = drop_expired later (fold window_step (user_requests u rs) ?w)"
    by (rule Cons.IH [where start = now])
      (use Cons.prems r step upload_step_inv [OF Cons.prems(1), of now v b] in \<open>auto simp del: upload_step.simps\<close>)
  then show ?case using r by (auto simp del: upload_step.simps window_step.simps)
qed simp

definition window_ok :: "uploadRollingWindow \<Rightarrow> bool" where
  "window_ok w \<longleftrightarrow> 1 \<le> up_n w \<and> up_n w \<le> max_uploads \<and> 0 \<le> up_bytes w \<and> up_bytes w \<le> max_upload_bytes"

lemma window_step_ok:
  assumes "\<forall>x. w = Some x \<longrightarrow> window_ok x" and "0 \<le> b" and "b \<le> max_upload_bytes"
  shows "\<forall>x. window_step (now, b) w = Some x \<longrightarrow> window_ok x"
  using assms
  by (auto simp: window_ok_def max_uploads_def Let_def split: option.splits if_splits)

lemma upload_fresh_window:
  assumes "sorted (map fst rs)" and "\<forall>r\<in>set rs. 0 \<le> snd (snd r) \<and> fst r \<le> later"
  shows "live_window later u (fold upload_step rs [])
    = drop_expired later (fold window_step (user_requests u rs) None)"
proof (cases rs)
  case Nil
  then show ?thesis by (simp add: live_window_def drop_expired_def)
next
  case (Cons r rs')
  with assms show ?thesis
    by (intro upload_run_window [where start = "fst r"])
      (auto simp: upload_inv_def live_window_def drop_expired_def)
qed

section \<open>Properties\<close>

text \<open>
  Whatever other users upload and however often the table is pruned, what the limiter holds for
  a user at a time is the window that user's own requests alone build up, in their order; requests
  arrive with a clock that does not go backwards.
\<close>

theorem upload_refines_window:
  assumes "sorted (map fst rs)" and "\<forall>r\<in>set rs. 0 \<le> snd (snd r) \<and> fst r \<le> later"
  shows "live_window later u (fold upload_step rs [])
    = drop_expired later (fold window_step (user_requests u rs) None)"
  using assms by (rule upload_fresh_window)

theorem upload_refines_window_witness:
  "live_window 30 1 (fold upload_step [(0, 1, 10), (5, 2, 7), (20, 1, 5)] [])
   = Some \<lparr>windowStart = 0, up_bytes = 15, up_n = 2\<rparr>"
  by (subst upload_refines_window)
    (simp_all add: drop_expired_def expired_def max_uploads_def max_upload_bytes_def)

text \<open>
  When no single upload is larger than the byte limit, every window holds at most 80 uploads
  and at most 48 MiB.
\<close>

theorem upload_bounds:
  assumes "sorted (map fst rs)"
    and "\<forall>r\<in>set rs. 0 \<le> snd (snd r) \<and> snd (snd r) \<le> max_upload_bytes \<and> fst r \<le> later"
    and "live_window later u (fold upload_step rs []) = Some w"
  shows "up_n w \<le> 80 \<and> up_bytes w \<le> 48 * 1024 * 1024"
proof -
  have "\<forall>r\<in>set (user_requests u rs). 0 \<le> snd r \<and> snd r \<le> max_upload_bytes"
    using assms(2) by (induction u rs rule: user_requests.induct) auto
  then have "\<forall>x. fold window_step (user_requests u rs) None = Some x \<longrightarrow> window_ok x"
    by (intro fold_invariant [where P = "\<lambda>w. \<forall>x. w = Some x \<longrightarrow> window_ok x"])
      (use window_step_ok in force)+
  moreover have "live_window later u (fold upload_step rs [])
      = drop_expired later (fold window_step (user_requests u rs) None)"
    using assms(1,2) by (intro upload_fresh_window) auto
  ultimately show ?thesis
    using assms(3)
    by (auto simp: drop_expired_def window_ok_def max_uploads_def max_upload_bytes_def
        split: option.splits if_splits)
qed

theorem upload_bounds_witness:
  "up_n \<lparr>windowStart = 0, up_bytes = 15, up_n = 2\<rparr> \<le> 80
   \<and> up_bytes \<lparr>windowStart = 0, up_bytes = 15, up_n = 2\<rparr> \<le> 48 * 1024 * 1024"
  by (rule upload_bounds [of "[(0, 1, 10), (5, 2, 7), (20, 1, 5)]" 30 1])
    (simp_all add: upload_check_def Let_def upload_prune_def prune_entries_def live_window_def
      expired_def max_uploads_def max_upload_bytes_def)

text \<open>The first upload of a window is not compared with the byte limit.\<close>

lemma upload_first_unchecked: "\<exists>t'. upload_check now u b [] = Inr t'"
  by (simp add: upload_check_def Let_def)

end
