(* ===== verification/BoundedCaches.thy ===== *)
theory BoundedCaches
  imports Interfaces
begin

text \<open>
  The two caches of bounded size: \<open>SummaryCache\<close> of \<open>pkg/llmhistory/summary_cache.go\<close>,
  which holds the summaries of dropped history, and \<open>PrefixCache\<close> of
  \<open>pkg/contextbuilder/cache.go\<close>, which holds built prompt prefixes. Both drop the key that was
  inserted first; the first makes room before it inserts, the second after. Nil caches are
  \<open>None\<close>. Both are interpretations of the interface \<open>bounded_cache\<close>, from which the
  properties follow. The keys are digests computed elsewhere and are arguments here.
\<close>

section \<open>The summary cache\<close>

record SummaryCache =
  sc_max :: int
  sc_keys :: "string list"
  sc_entries :: "string \<rightharpoonup> string"

definition NewSummaryCache :: "int \<Rightarrow> SummaryCache option" where
  "NewSummaryCache maxEntries =
     (if maxEntries \<le> 0 then None
      else Some \<lparr>sc_max = maxEntries, sc_keys = [], sc_entries = Map.empty\<rparr>)"

definition NormalizeSummaryCacheMax :: "int \<Rightarrow> int" where
  "NormalizeSummaryCacheMax n = (if n < 0 then 0 else if 50000 < n then 50000 else n)"

definition summary_Get :: "string \<Rightarrow> SummaryCache option \<Rightarrow> string option" where
  "summary_Get key h = (case h of None \<Rightarrow> None | Some c \<Rightarrow> sc_entries c key)"

definition summary_EnsureMax :: "int \<Rightarrow> SummaryCache option \<Rightarrow> SummaryCache option" where
  "summary_EnsureMax m h =
     (case h of
        None \<Rightarrow> None
      | Some c \<Rightarrow>
          if m \<le> 0 then h
          else let m' = NormalizeSummaryCacheMax m in
            if m' \<le> 0 then h
            else Some (if sc_max c < m' then c\<lparr>sc_max := m'\<rparr> else c))"

text \<open>
  The loop that makes room. Taking the head of an empty list is not reached: the maximum of a
  cache is at least one.
\<close>

fun summary_evict :: "int \<Rightarrow> string list \<Rightarrow> (string \<rightharpoonup> string) \<Rightarrow> string list \<times> (string \<rightharpoonup> string)" where
  "summary_evict mx [] es = ([], es)"
| "summary_evict mx (k # ks) es =
     (if mx \<le> int (length (k # ks)) then summary_evict mx ks (es(k := None)) else (k # ks, es))"

definition summary_Put :: "string \<Rightarrow> string \<Rightarrow> SummaryCache option \<Rightarrow> SummaryCache option" where
  "summary_Put key summary h =
     (case h of
        None \<Rightarrow> None
      | Some c \<Rightarrow>
          if key = [] \<or> summary = [] then h
          else if sc_entries c key \<noteq> None
          then Some (c\<lparr>sc_entries := (sc_entries c)(key \<mapsto> summary)\<rparr>)
          else let (ks, es) = summary_evict (sc_max c) (sc_keys c) (sc_entries c) in
            Some (c\<lparr>sc_entries := es(key \<mapsto> summary), sc_keys := ks @ [key]\<rparr>))"

section \<open>The prefix cache\<close>

record PrefixCache =
  pc_entries :: "string \<rightharpoonup> string"
  pc_order :: "string list"
  pc_max :: int

definition NewPrefixCache :: "int \<Rightarrow> PrefixCache" where
  "NewPrefixCache maxEntries =
     \<lparr>pc_entries = Map.empty, pc_order = [], pc_max = (if maxEntries \<le> 0 then 256 else maxEntries)\<rparr>"

definition prefix_Get :: "string \<Rightarrow> PrefixCache option \<Rightarrow> string option" where
  "prefix_Get key c =
     (case c of None \<Rightarrow> None | Some pc \<Rightarrow> if key = [] then None else pc_entries pc key)"

fun prefix_evict :: "int \<Rightarrow> string list \<Rightarrow> (string \<rightharpoonup> string) \<Rightarrow> string list \<times> (string \<rightharpoonup> string)" where
  "prefix_evict mx [] es = ([], es)"
| "prefix_evict mx (k # ks) es =
     (if mx < int (length (k # ks)) then prefix_evict mx ks (es(k := None)) else (k # ks, es))"

definition prefix_Put :: "string \<Rightarrow> string \<Rightarrow> PrefixCache option \<Rightarrow> PrefixCache option" where
  "prefix_Put key value c =
     (case c of
        None \<Rightarrow> None
      | Some pc \<Rightarrow>
          if key = [] \<or> value = [] then c
          else
            let ord = (if pc_entries pc key = None then pc_order pc @ [key] else pc_order pc);
                (ks, es) = prefix_evict (pc_max pc) ord ((pc_entries pc)(key \<mapsto> value))
            in Some (pc\<lparr>pc_order := ks, pc_entries := es\<rparr>))"

section \<open>Eviction\<close>

definition remove_keys :: "string list \<Rightarrow> (string \<rightharpoonup> string) \<Rightarrow> (string \<rightharpoonup> string)" where
  "remove_keys ks es = (\<lambda>k. if k \<in> set ks then None else es k)"

lemma remove_keys_Nil [simp]: "remove_keys [] es = es"
  by (simp add: remove_keys_def)

lemma remove_keys_Cons [simp]: "remove_keys ks (es(k := None)) = remove_keys (k # ks) es"
  by (auto simp: remove_keys_def)

lemma remove_keys_upd: "k \<notin> set ks \<Longrightarrow> remove_keys ks (es(k \<mapsto> v)) = (remove_keys ks es)(k \<mapsto> v)"
  by (auto simp: remove_keys_def)

lemma not_in_take: "k \<notin> set ks \<Longrightarrow> k \<notin> set (take n ks)"
  by (meson in_set_takeD)

lemma dom_remove_keys: "dom (remove_keys ks es) = dom es - set ks"
  by (auto simp: remove_keys_def split: if_splits)

lemma remove_keys_Some: "remove_keys ks es k = Some v \<Longrightarrow> es k = Some v"
  by (simp add: remove_keys_def split: if_splits)

lemma set_drop_distinct: "distinct ks \<Longrightarrow> set ks - set (take n ks) = set (drop n ks)"
  by (metis Diff_cancel Un_Diff Diff_triv append_take_drop_id distinct_append inf_commute set_append sup_bot_left)

lemma summary_evict_eq:
  "1 \<le> mx \<Longrightarrow> summary_evict mx ks es =
    (drop (length ks + 1 - nat mx) ks, remove_keys (take (length ks + 1 - nat mx) ks) es)"
  by (induction ks arbitrary: es) (simp_all add: Suc_diff_le nat_le_iff)

lemma prefix_evict_eq:
  "0 \<le> mx \<Longrightarrow> prefix_evict mx ks es =
    (drop (length ks - nat mx) ks, remove_keys (take (length ks - nat mx) ks) es)"
  by (induction ks arbitrary: es) (simp_all add: Suc_diff_le nat_le_iff)

section \<open>The two caches as interpretations of the interface\<close>

definition cache_good :: "string \<Rightarrow> string \<Rightarrow> bool" where
  "cache_good k v \<longleftrightarrow> k \<noteq> [] \<and> v \<noteq> []"

definition summary_inv :: "SummaryCache \<Rightarrow> bool" where
  "summary_inv c \<longleftrightarrow> 1 \<le> sc_max c \<and> distinct (sc_keys c) \<and> int (length (sc_keys c)) \<le> sc_max c \<and>
     dom (sc_entries c) = set (sc_keys c)"

definition summary_get :: "SummaryCache \<Rightarrow> string \<Rightarrow> string option" where
  "summary_get c k = summary_Get k (Some c)"

definition summary_put :: "string \<Rightarrow> string \<Rightarrow> SummaryCache \<Rightarrow> SummaryCache" where
  "summary_put k v c = the (summary_Put k v (Some c))"

definition prefix_inv :: "PrefixCache \<Rightarrow> bool" where
  "prefix_inv c \<longleftrightarrow> 1 \<le> pc_max c \<and> distinct (pc_order c) \<and> int (length (pc_order c)) \<le> pc_max c \<and>
     dom (pc_entries c) = set (pc_order c) \<and> [] \<notin> set (pc_order c)"

definition prefix_get :: "PrefixCache \<Rightarrow> string \<Rightarrow> string option" where
  "prefix_get c k = prefix_Get k (Some c)"

definition prefix_put :: "string \<Rightarrow> string \<Rightarrow> PrefixCache \<Rightarrow> PrefixCache" where
  "prefix_put k v c = the (prefix_Put k v (Some c))"

lemma summary_put_eq:
  assumes "summary_inv c"
  shows "summary_put k v c =
    (if \<not> cache_good k v then c
     else if k \<in> set (sc_keys c) then c\<lparr>sc_entries := (sc_entries c)(k \<mapsto> v)\<rparr>
     else let n = length (sc_keys c) + 1 - nat (sc_max c) in
       c\<lparr>sc_entries := (remove_keys (take n (sc_keys c)) (sc_entries c))(k \<mapsto> v),
         sc_keys := drop n (sc_keys c) @ [k]\<rparr>)"
  using assms
  by (auto simp: summary_put_def summary_Put_def cache_good_def summary_inv_def summary_evict_eq
      Let_def domIff)

lemma prefix_put_eq:
  assumes "prefix_inv c"
  shows "prefix_put k v c =
    (if \<not> cache_good k v then c
     else if k \<in> set (pc_order c) then c\<lparr>pc_entries := (pc_entries c)(k \<mapsto> v)\<rparr>
     else let n = length (pc_order c) + 1 - nat (pc_max c) in
       c\<lparr>pc_order := drop n (pc_order c) @ [k],
         pc_entries := (remove_keys (take n (pc_order c)) (pc_entries c))(k \<mapsto> v)\<rparr>)"
  using assms
  by (auto simp: prefix_put_def prefix_Put_def cache_good_def prefix_inv_def prefix_evict_eq
      Let_def domIff remove_keys_upd not_in_take)

lemma summary_put_inv: "summary_inv c \<Longrightarrow> summary_inv (summary_put k v c)"
  by (auto simp: summary_put_eq Let_def)
    (auto simp: summary_inv_def dom_remove_keys set_drop_distinct dest: in_set_dropD)

lemma prefix_put_inv: "prefix_inv c \<Longrightarrow> prefix_inv (prefix_put k v c)"
  by (auto simp: prefix_put_eq Let_def)
    (auto simp: prefix_inv_def cache_good_def dom_remove_keys set_drop_distinct dest: in_set_dropD)

lemma summary_keys_entries: "summary_inv c \<Longrightarrow> summary_get c k \<noteq> None \<longleftrightarrow> k \<in> set (sc_keys c)"
  by (auto simp: summary_inv_def summary_get_def summary_Get_def)

lemma prefix_keys_entries: "prefix_inv c \<Longrightarrow> prefix_get c k \<noteq> None \<longleftrightarrow> k \<in> set (pc_order c)"
  by (auto simp: prefix_inv_def prefix_get_def prefix_Get_def)

interpretation summary_cache: bounded_cache summary_get summary_put sc_keys "\<lambda>c. nat (sc_max c)"
  cache_good summary_inv
proof unfold_locales
  show "nat (sc_max (summary_put k v c)) = nat (sc_max c)" for k v c
    by (simp add: summary_put_def summary_Put_def Let_def case_prod_beta)
  show "summary_get (summary_put k v c) k' = summary_get c k'"
    if "summary_inv c" "k' \<noteq> k" "summary_get (summary_put k v c) k' \<noteq> None" for c k' k v
    using that by (auto simp: summary_put_eq summary_get_def summary_Get_def Let_def
        remove_keys_def split: if_splits)
  show "summary_inv (summary_put k v c)" if "summary_inv c" for c k v
    using that by (rule summary_put_inv)
  show "length (sc_keys c) \<le> nat (sc_max c)" if "summary_inv c" for c
    using that by (simp add: summary_inv_def le_nat_iff)
  show "distinct (sc_keys c)" if "summary_inv c" for c
    using that by (simp add: summary_inv_def)
  show "summary_get c k \<noteq> None \<longleftrightarrow> k \<in> set (sc_keys c)" if "summary_inv c" for c k
    using that by (rule summary_keys_entries)
  show "summary_put k v c = c" if "\<not> cache_good k v" for c k v
    using that by (auto simp: summary_put_def summary_Put_def cache_good_def)
qed (simp_all add: summary_put_eq Let_def summary_get_def summary_Get_def cache_good_def)

interpretation prefix_cache: bounded_cache prefix_get prefix_put pc_order "\<lambda>c. nat (pc_max c)"
  cache_good prefix_inv
proof unfold_locales
  show "nat (pc_max (prefix_put k v c)) = nat (pc_max c)" for k v c
    by (simp add: prefix_put_def prefix_Put_def Let_def case_prod_beta)
  show "prefix_get (prefix_put k v c) k' = prefix_get c k'"
    if "prefix_inv c" "k' \<noteq> k" "prefix_get (prefix_put k v c) k' \<noteq> None" for c k' k v
    using that by (auto simp: prefix_put_eq prefix_get_def prefix_Get_def Let_def
        remove_keys_def split: if_splits)
  show "prefix_inv (prefix_put k v c)" if "prefix_inv c" for c k v
    using that by (rule prefix_put_inv)
  show "length (pc_order c) \<le> nat (pc_max c)" if "prefix_inv c" for c
    using that by (simp add: prefix_inv_def le_nat_iff)
  show "distinct (pc_order c)" if "prefix_inv c" for c
    using that by (simp add: prefix_inv_def)
  show "prefix_get c k \<noteq> None \<longleftrightarrow> k \<in> set (pc_order c)" if "prefix_inv c" for c k
    using that by (rule prefix_keys_entries)
  show "prefix_put k v c = c" if "\<not> cache_good k v" for c k v
    using that by (auto simp: prefix_put_def prefix_Put_def cache_good_def)
qed (simp_all add: prefix_put_eq Let_def prefix_get_def prefix_Get_def cache_good_def)

section \<open>Runs of the operations\<close>

definition summary_run :: "(string \<times> string) list \<Rightarrow> SummaryCache option \<Rightarrow> SummaryCache option" where
  "summary_run kvs c = fold (\<lambda>(k, v). summary_Put k v) kvs c"

definition prefix_run :: "(string \<times> string) list \<Rightarrow> PrefixCache option \<Rightarrow> PrefixCache option" where
  "prefix_run kvs c = fold (\<lambda>(k, v). prefix_Put k v) kvs c"

lemma summary_Put_Some: "summary_Put k v (Some c) = Some (summary_put k v c)"
  by (simp add: summary_put_def summary_Put_def Let_def case_prod_beta)

lemma prefix_Put_Some: "prefix_Put k v (Some c) = Some (prefix_put k v c)"
  by (simp add: prefix_put_def prefix_Put_def Let_def case_prod_beta)

lemma summary_run_Some: "summary_run kvs (Some c) = Some (fold (\<lambda>(k, v). summary_put k v) kvs c)"
  unfolding summary_run_def by (induction kvs arbitrary: c) (auto simp: summary_Put_Some)

lemma prefix_run_Some: "prefix_run kvs (Some c) = Some (fold (\<lambda>(k, v). prefix_put k v) kvs c)"
  unfolding prefix_run_def by (induction kvs arbitrary: c) (auto simp: prefix_Put_Some)

lemma NewSummaryCache_inv: "NewSummaryCache n = Some c \<Longrightarrow> summary_inv c"
  by (auto simp: NewSummaryCache_def summary_inv_def split: if_splits)

lemma NewPrefixCache_inv: "prefix_inv (NewPrefixCache n)"
  by (simp add: NewPrefixCache_def prefix_inv_def)

lemma summary_EnsureMax_inv:
  "summary_inv c \<Longrightarrow> summary_EnsureMax m (Some c) = Some c' \<Longrightarrow>
   summary_inv c' \<and> sc_max c \<le> sc_max c' \<and> sc_entries c' = sc_entries c \<and> sc_keys c' = sc_keys c"
  by (clarsimp simp: summary_EnsureMax_def summary_inv_def Let_def split: if_splits)

text \<open>Two caches that hold the same entries in the same order.\<close>

definition same_cache :: "SummaryCache \<Rightarrow> PrefixCache \<Rightarrow> bool" where
  "same_cache s p \<longleftrightarrow> sc_max s = pc_max p \<and> sc_keys s = pc_order p \<and> sc_entries s = pc_entries p"

lemma same_cache_put:
  assumes "summary_inv s" and "prefix_inv p" and "same_cache s p"
  shows "same_cache (summary_put k v s) (prefix_put k v p)"
  using assms by (simp add: summary_put_eq prefix_put_eq Let_def same_cache_def)

lemma same_cache_run:
  assumes "summary_inv s" and "prefix_inv p" and "same_cache s p"
  shows "same_cache (fold (\<lambda>(k, v). summary_put k v) kvs s) (fold (\<lambda>(k, v). prefix_put k v) kvs p)"
  using assms
  by (induction kvs arbitrary: s p) (auto simp: same_cache_put summary_put_inv prefix_put_inv)

section \<open>Properties\<close>

text \<open>
  A summary cache never holds more entries than its maximum, and a hit is never stale: it is
  the last non-empty summary stored under the key.
\<close>

theorem summary_cache_sound:
  assumes "NewSummaryCache n = Some c" and "summary_run kvs (Some c) = Some d"
  shows "int (card (dom (sc_entries d))) \<le> n
    \<and> (\<forall>k v. summary_Get k (Some d) = Some v \<longrightarrow>
         map_of (rev (filter (\<lambda>(k, v). cache_good k v) kvs)) k = Some v)"
proof -
  have i: "summary_inv c" and n: "sc_max c = n" "0 < n"
    using assms(1) NewSummaryCache_inv by (auto simp: NewSummaryCache_def split: if_splits)
  have d: "d = fold (\<lambda>(k, v). summary_put k v) kvs c" using assms(2) by (simp add: summary_run_Some)
  have "summary_inv d" unfolding d by (rule summary_cache.invar_run [OF i])
  moreover have "length (sc_keys d) \<le> nat (sc_max c)" unfolding d by (rule summary_cache.run_size [OF i])
  ultimately have "int (card (dom (sc_entries d))) \<le> n"
    using n by (simp add: summary_inv_def distinct_card)
  moreover have "map_of (rev (filter (\<lambda>(k, v). cache_good k v) kvs)) k = Some v"
    if "summary_Get k (Some d) = Some v" for k v
    using summary_cache.hit_is_last [OF i, of kvs k v] that assms(1)
    by (auto simp: d summary_get_def summary_Get_def NewSummaryCache_def split: if_splits)
  ultimately show ?thesis by blast
qed

theorem summary_cache_sound_witness:
  "int (card (dom (sc_entries (the (summary_run [(''a'', ''1''), (''b'', ''2''), (''a'', ''3'')]
     (Some \<lparr>sc_max = 2, sc_keys = [], sc_entries = Map.empty\<rparr>)))))) \<le> 2"
  by (rule summary_cache_sound [of 2 _ "[(''a'', ''1''), (''b'', ''2''), (''a'', ''3'')]", THEN conjunct1])
    (simp_all add: NewSummaryCache_def summary_run_Some)

text \<open>
  A prefix stored under a fresh key can be read back after fewer further stores than the
  cache has places, whatever those are.
\<close>

theorem prefix_cache_keeps_recent:
  assumes "prefix_run kvs (Some (NewPrefixCache n)) = Some c" and "prefix_Get key (Some c) = None"
    and "key \<noteq> []" and "value \<noteq> []" and "int (length kvs') < (if n \<le> 0 then 256 else n)"
  shows "prefix_Get key (prefix_run kvs' (prefix_Put key value (Some c))) \<noteq> None"
proof -
  have c: "c = fold (\<lambda>(k, v). prefix_put k v) kvs (NewPrefixCache n)"
    using assms(1) by (simp add: prefix_run_Some)
  have i: "prefix_inv c" unfolding c by (rule prefix_cache.invar_run [OF NewPrefixCache_inv])
  have b: "nat (pc_max c) = nat (if n \<le> 0 then 256 else n)" unfolding c
    by (rule fold_invariant [where P = "\<lambda>c. nat (pc_max c) = nat (if n \<le> 0 then 256 else n)"])
      (auto simp: prefix_cache.bound_put NewPrefixCache_def)
  have fresh: "key \<notin> set (pc_order c)"
    using prefix_keys_entries [OF i, of key] assms(2) by (simp add: prefix_get_def)
  have "\<exists>as. pc_order (prefix_put key value c) = as @ [key]"
    using prefix_cache.order_put [OF i, of key "value"] assms(3,4) fresh by (auto simp: cache_good_def)
  then obtain as where "pc_order (prefix_put key value c) = as @ key # []" by blast
  then have "key \<in> set (pc_order (fold (\<lambda>(k, v). prefix_put k v) kvs' (prefix_put key value c)))"
    by (rule prefix_cache.run_keeps_recent [OF prefix_put_inv [OF i]])
      (use assms(5) b prefix_cache.bound_put in \<open>auto split: if_splits\<close>)
  moreover have "prefix_inv (fold (\<lambda>(k, v). prefix_put k v) kvs' (prefix_put key value c))"
    by (rule prefix_cache.invar_run [OF prefix_put_inv [OF i]])
  ultimately show ?thesis
    using prefix_keys_entries [of _ key]
    by (simp add: prefix_Put_Some prefix_run_Some prefix_get_def)
qed

theorem prefix_cache_keeps_recent_witness:
  "prefix_Get ''k'' (prefix_run [(''x'', ''1'')] (prefix_Put ''k'' ''v'' (Some (NewPrefixCache 2)))) \<noteq> None"
  by (rule prefix_cache_keeps_recent [of "[]" 2])
    (simp_all add: prefix_run_def NewPrefixCache_def prefix_Get_def)

text \<open>
  The two caches are the same cache: with the same maximum and the same stores they answer
  every lookup alike, although one makes room before it inserts and the other after.
\<close>

theorem caches_agree:
  assumes "0 < n"
  shows "summary_Get key (summary_run kvs (NewSummaryCache n)) =
    prefix_Get key (prefix_run kvs (Some (NewPrefixCache n)))"
proof -
  obtain c where c: "NewSummaryCache n = Some c" using assms by (simp add: NewSummaryCache_def)
  let ?s = "fold (\<lambda>(k, v). summary_put k v) kvs c"
  let ?p = "fold (\<lambda>(k, v). prefix_put k v) kvs (NewPrefixCache n)"
  have "same_cache c (NewPrefixCache n)"
    using c assms by (auto simp: same_cache_def NewSummaryCache_def NewPrefixCache_def)
  then have "same_cache ?s ?p"
    by (rule same_cache_run [OF NewSummaryCache_inv [OF c] NewPrefixCache_inv])
  moreover have "prefix_inv ?p" by (rule prefix_cache.invar_run [OF NewPrefixCache_inv])
  ultimately show ?thesis
    unfolding c summary_run_Some prefix_run_Some
    by (auto simp: same_cache_def summary_Get_def prefix_Get_def prefix_inv_def)
qed

theorem caches_agree_witness:
  "summary_Get ''a'' (summary_run [(''a'', ''1''), (''b'', ''2'')] (NewSummaryCache 1)) =
   prefix_Get ''a'' (prefix_run [(''a'', ''1''), (''b'', ''2'')] (Some (NewPrefixCache 1)))"
  by (rule caches_agree) simp

end
