(* ===== verification/GoRegexp.thy ===== *)
theory GoRegexp
  imports GoStrings
begin

text \<open>
  The part of the package \<open>regexp\<close> that the program uses. A text is the list of the byte
  pieces of its runes (\<open>chunks\<close>), so that invalid bytes count as U+FFFD and survive a
  replacement unchanged. \<open>re_match\<close> lists the positions at which a match from a given position
  may end, in the order of preference of a backtracking matcher; Go's match is the first of them,
  from the leftmost start that has one.
\<close>

datatype regex =
    REmpty
  | RRune "rune \<Rightarrow> bool"
  | RSeq regex regex
  | RAlt regex regex
  | RStar regex
  | RWordBoundary

type_synonym re_pos = "rune option \<times> string list"

definition chunk_rune :: "string \<Rightarrow> rune" where
  "chunk_rune c = fst (decode_rune c)"

definition word_rune :: "rune \<Rightarrow> bool" where
  "word_rune r \<longleftrightarrow> (48 \<le> r \<and> r \<le> 57) \<or> (65 \<le> r \<and> r \<le> 90) \<or> r = 95 \<or> (97 \<le> r \<and> r \<le> 122)"

definition at_word_boundary :: "re_pos \<Rightarrow> bool" where
  "at_word_boundary p \<longleftrightarrow>
     (case fst p of None \<Rightarrow> False | Some r \<Rightarrow> word_rune r) \<noteq>
     (case snd p of [] \<Rightarrow> False | c # _ \<Rightarrow> word_rune (chunk_rune c))"

text \<open>A greedy star: as many rounds as it can first; a round has to consume something.\<close>

fun star_match :: "(re_pos \<Rightarrow> re_pos list) \<Rightarrow> nat \<Rightarrow> re_pos \<Rightarrow> re_pos list" where
  "star_match f 0 p = [p]"
| "star_match f (Suc n) p =
     concat (map (star_match f n) (filter (\<lambda>q. length (snd q) < length (snd p)) (f p))) @ [p]"

primrec re_match :: "regex \<Rightarrow> re_pos \<Rightarrow> re_pos list" where
  "re_match REmpty p = [p]"
| "re_match (RRune c) p =
     (case snd p of [] \<Rightarrow> [] | x # xs \<Rightarrow> if c (chunk_rune x) then [(Some (chunk_rune x), xs)] else [])"
| "re_match (RSeq r s) p = concat (map (re_match s) (re_match r p))"
| "re_match (RAlt r s) p = re_match r p @ re_match s p"
| "re_match (RStar r) p = star_match (re_match r) (length (snd p)) p"
| "re_match RWordBoundary p = (if at_word_boundary p then [p] else [])"

definition re_opt :: "regex \<Rightarrow> regex" where
  "re_opt r = RAlt r REmpty"

definition re_plus :: "regex \<Rightarrow> regex" where
  "re_plus r = RSeq r (RStar r)"

primrec re_repeat :: "nat \<Rightarrow> regex \<Rightarrow> regex" where
  "re_repeat 0 r = REmpty"
| "re_repeat (Suc n) r = RSeq r (re_repeat n r)"

definition re_lit :: "string \<Rightarrow> regex" where
  "re_lit s = foldr (\<lambda>c r. RSeq (RRune (\<lambda>x. x = byte c)) r) s REmpty"

text \<open>
  The flag \<open>(?i)\<close>: a lower-case ASCII letter matches both cases, \<open>k\<close> also the Kelvin sign
  and \<open>s\<close> also the long s.
\<close>

definition fold_eq :: "char \<Rightarrow> rune \<Rightarrow> bool" where
  "fold_eq c x \<longleftrightarrow> x = byte c \<or> (97 \<le> (byte c :: nat) \<and> (byte c :: nat) \<le> 122 \<and> x + 32 = byte c) \<or>
     (c = CHR ''k'' \<and> x = 8490) \<or> (c = CHR ''s'' \<and> x = 383)"

definition re_lit_fold :: "string \<Rightarrow> regex" where
  "re_lit_fold s = foldr (\<lambda>c r. RSeq (RRune (fold_eq c)) r) s REmpty"

definition space_class :: "rune \<Rightarrow> bool" where
  "space_class r \<longleftrightarrow> r \<in> {9, 10, 12, 13, 32}"

fun re_find :: "regex \<Rightarrow> rune option \<Rightarrow> string list \<Rightarrow> bool" where
  "re_find re prev [] = (re_match re (prev, []) \<noteq> [])"
| "re_find re prev (x # xs) = (re_match re (prev, x # xs) \<noteq> [] \<or> re_find re (Some (chunk_rune x)) xs)"

definition MatchString :: "regex \<Rightarrow> string \<Rightarrow> bool" where
  "MatchString re s = re_find re None (chunks s)"

text \<open>
  \<open>ReplaceAllString\<close> for an expression that matches no empty text: leftmost matches that do
  not overlap. A match that consumes nothing is passed over.
\<close>

function re_replace :: "regex \<Rightarrow> string \<Rightarrow> rune option \<Rightarrow> string list \<Rightarrow> string list" where
  "re_replace re new prev [] = []"
| "re_replace re new prev (x # xs) =
     (case re_match re (prev, x # xs) of
        (prev', rest) # _ \<Rightarrow>
          if length rest < length (x # xs) then new # re_replace re new prev' rest
          else x # re_replace re new (Some (chunk_rune x)) xs
      | [] \<Rightarrow> x # re_replace re new (Some (chunk_rune x)) xs)"
  by pat_completeness auto
termination by (relation "measure (\<lambda>(re, new, prev, xs). length xs)") auto

declare re_replace.simps(2) [simp del]

definition ReplaceAllString :: "regex \<Rightarrow> string \<Rightarrow> string \<Rightarrow> string" where
  "ReplaceAllString re s new = concat (re_replace re new None (chunks s))"

lemma re_replace_no_match: "\<not> re_find re prev xs \<Longrightarrow> re_replace re new prev xs = xs"
proof (induction xs arbitrary: prev)
  case (Cons x xs)
  then show ?case by (simp add: re_replace.simps(2))
qed simp

lemma ReplaceAllString_no_match: "\<not> MatchString re s \<Longrightarrow> ReplaceAllString re s new = s"
  by (simp add: MatchString_def ReplaceAllString_def re_replace_no_match)

text \<open>What a replacement keeps: pieces of the text, in their order, and the new text.\<close>

lemma re_match_suffix: "q \<in> set (re_match re p) \<Longrightarrow> \<exists>ys. snd p = ys @ snd q"
proof (induction re arbitrary: p q)
  case (RStar re)
  have "q \<in> set (star_match (re_match re) n p) \<Longrightarrow> \<exists>ys. snd p = ys @ snd q" for n p q
  proof (induction n arbitrary: p)
    case (Suc n)
    show ?case
    proof (cases "q = p")
      case False
      then obtain m where "m \<in> set (re_match re p)" "q \<in> set (star_match (re_match re) n m)"
        using Suc.prems by auto
      then obtain ys zs where "snd p = ys @ snd m" "snd m = zs @ snd q"
        using RStar.IH Suc.IH by blast
      then show ?thesis by simp
    qed simp
  qed simp
  then show ?case using RStar.prems by simp
next
  case (RSeq re1 re2)
  then obtain m where "m \<in> set (re_match re1 p)" "q \<in> set (re_match re2 m)" by auto
  then obtain ys zs where "snd p = ys @ snd m" "snd m = zs @ snd q" using RSeq.IH by blast
  then show ?case by simp
qed (auto split: list.splits if_splits)

end
