(* ===== verification/Security.thy ===== *)
theory Security
  imports GoRegexp
begin

text \<open>
  \<open>pkg/security\<close>: the redaction of secrets (\<open>secrets.go\<close>) and the detection of prompt
  injection (\<open>moderation.go\<close>), with their patterns as terms of \<open>GoRegexp\<close>.
\<close>

abbreviation seqs :: "regex list \<Rightarrow> regex" where
  "seqs rs \<equiv> foldr RSeq rs REmpty"

fun alts :: "regex list \<Rightarrow> regex" where
  "alts [] = REmpty"
| "alts [r] = r"
| "alts (r # rs) = RAlt r (alts rs)"

definition digit_upper :: "rune \<Rightarrow> bool" where
  "digit_upper r \<longleftrightarrow> (48 \<le> r \<and> r \<le> 57) \<or> (65 \<le> r \<and> r \<le> 90)"

definition alnum :: "rune \<Rightarrow> bool" where
  "alnum r \<longleftrightarrow> digit_upper r \<or> (97 \<le> r \<and> r \<le> 122)"

definition re_at_least :: "nat \<Rightarrow> regex \<Rightarrow> regex" where
  "re_at_least n r = RSeq (re_repeat n r) (RStar r)"

definition secretPatterns :: "regex list" where
  "secretPatterns =
     [seqs [alts [seqs [re_lit_fold ''api'', re_opt (RRune (\<lambda>r. r = 95 \<or> r = 45)), re_lit_fold ''key''],
                  re_lit_fold ''secret'', re_lit_fold ''token'', re_lit_fold ''password'', re_lit_fold ''passwd''],
            RStar (RRune space_class), RRune (\<lambda>r. r = 58 \<or> r = 61), RStar (RRune space_class),
            re_plus (RRune (\<lambda>r. \<not> space_class r))],
      seqs [re_lit ''AKIA'', re_repeat 16 (RRune digit_upper)],
      seqs [re_lit ''ghp_'', re_at_least 20 (RRune alnum)],
      seqs [re_lit ''sk-'', re_at_least 20 (RRune alnum)],
      seqs [re_lit ''-----BEGIN '', re_plus (RRune (\<lambda>r. (65 \<le> r \<and> r \<le> 90) \<or> r = 32)),
            re_lit '' PRIVATE KEY-----'']]"

definition redacted :: string where
  "redacted = ''[REDACTED]''"

definition RedactSecrets :: "string \<Rightarrow> string" where
  "RedactSecrets t =
     (if TrimSpace t = [] then t
      else fold (\<lambda>re out. ReplaceAllString re out redacted) secretPatterns t)"

definition ContainsSecrets :: "string \<Rightarrow> bool" where
  "ContainsSecrets t \<longleftrightarrow> list_ex (\<lambda>re. MatchString re t) secretPatterns"

definition jailbreakPatterns :: "regex list" where
  "jailbreakPatterns =
     [seqs [re_lit_fold ''ignore '', re_opt (re_lit_fold ''all ''),
            alts [re_lit_fold ''previous'', re_lit_fold ''prior'', re_lit_fold ''above''],
            re_lit_fold '' instructions''],
      seqs [re_lit_fold ''disregard '', alts [re_lit_fold ''your'', re_lit_fold ''the''], re_lit_fold '' '',
            alts [re_lit_fold ''system'', re_lit_fold ''initial''], re_lit_fold '' prompt''],
      seqs [re_lit_fold ''you are now '', re_opt (re_lit_fold ''in ''), re_lit_fold ''dan'', RWordBoundary],
      re_lit_fold ''jailbreak'',
      seqs [re_lit_fold ''reveal '', alts [re_lit_fold ''your'', re_lit_fold ''the''],
            re_lit_fold '' system prompt'']]"

definition DetectPromptInjection :: "string \<Rightarrow> bool" where
  "DetectPromptInjection t \<longleftrightarrow>
     (let s = TrimSpace t in if s = [] then False else list_ex (\<lambda>re. MatchString re s) jailbreakPatterns)"

definition ScanMessages :: "string list \<Rightarrow> bool" where
  "ScanMessages messages = list_ex DetectPromptInjection messages"

lemma RedactSecrets_fold_clean:
  assumes "\<forall>re\<in>set res. \<not> MatchString re t"
  shows "fold (\<lambda>re out. ReplaceAllString re out redacted) res t = t"
  using assms by (induction res) (auto simp: ReplaceAllString_no_match)

text \<open>
  A text in which no pattern is found is returned unchanged by the redaction, byte for byte.
\<close>

theorem RedactSecrets_clean: "\<not> ContainsSecrets t \<Longrightarrow> RedactSecrets t = t"
  by (simp add: RedactSecrets_def ContainsSecrets_def RedactSecrets_fold_clean list_ex_iff)

theorem RedactSecrets_clean_witness: "RedactSecrets ''ok'' = ''ok''"
  by (rule RedactSecrets_clean) code_simp

lemma ScanMessages_iff: "ScanMessages ms \<longleftrightarrow> (\<exists>t\<in>set ms. DetectPromptInjection t)"
  by (simp add: ScanMessages_def list_ex_iff)

lemma DetectPromptInjection_blank: "TrimSpace t = [] \<Longrightarrow> \<not> DetectPromptInjection t"
  by (simp add: DetectPromptInjection_def)

end
