(* ===== verification/SseStream.thy ===== *)
theory SseStream
  imports Interfaces
begin

text \<open>
  The replay buffer of server-sent events, \<open>pkg/ssestream/registry.go\<close>, and the resume path of
  \<open>internal/delivery/sse.go\<close>. A session keeps every event, its registered subscriptions and the
  channels it ever made (a buffer of at most 64 events and a closed flag, one channel per
  subscription id); \<open>Append\<close> records the event under the lock and then sends to the channels it
  saw, outside the lock, so it is two kinds of steps in \<open>sse_step\<close>. A send to a closed channel
  is Go's panic. Nil sessions and registries are \<open>None\<close>.
\<close>

section \<open>Sessions\<close>

record SseEvent =
  ev_id :: int
  ev_event :: string
  ev_data :: string

record sse_chan =
  ch_buf :: "SseEvent list"
  ch_closed :: bool

record Session =
  requestID :: string
  events :: "SseEvent list"
  sess_done :: bool
  subs :: "int list"
  nextSubID :: int
  chans :: "int \<Rightarrow> sse_chan"

definition sse_buffer :: nat where
  "sse_buffer = 64"

definition session_new :: "string \<Rightarrow> Session" where
  "session_new rid =
     \<lparr>requestID = rid, events = [], sess_done = False, subs = [], nextSubID = 0,
      chans = (\<lambda>_. \<lparr>ch_buf = [], ch_closed = True\<rparr>)\<rparr>"

text \<open>The non-blocking send of \<open>Append\<close>: \<open>None\<close> is the panic of a send to a closed channel.\<close>

definition session_send :: "SseEvent \<Rightarrow> int \<Rightarrow> Session \<Rightarrow> Session option" where
  "session_send ev i s =
     (let c = chans s i in
      if ch_closed c then None
      else if length (ch_buf c) < sse_buffer
      then Some (s\<lparr>chans := (chans s)(i := c\<lparr>ch_buf := ch_buf c @ [ev]\<rparr>)\<rparr>)
      else Some s)"

definition session_record :: "SseEvent \<Rightarrow> Session \<Rightarrow> Session" where
  "session_record ev s = s\<lparr>events := events s @ [ev]\<rparr>"

fun session_send_all :: "SseEvent \<Rightarrow> int list \<Rightarrow> Session \<Rightarrow> Session option" where
  "session_send_all ev [] s = Some s"
| "session_send_all ev (i # is) s =
     (case session_send ev i s of None \<Rightarrow> None | Some s' \<Rightarrow> session_send_all ev is s')"

text \<open>\<open>Append\<close> when nothing happens between its two halves.\<close>

definition session_Append :: "SseEvent \<Rightarrow> Session \<Rightarrow> Session option" where
  "session_Append ev s = session_send_all ev (subs s) (session_record ev s)"

definition close_chan :: "int \<Rightarrow> (int \<Rightarrow> sse_chan) \<Rightarrow> int \<Rightarrow> sse_chan" where
  "close_chan i cs = cs(i := (cs i)\<lparr>ch_closed := True\<rparr>)"

definition session_MarkDone :: "Session \<Rightarrow> Session" where
  "session_MarkDone s = s\<lparr>sess_done := True, subs := [], chans := fold close_chan (subs s) (chans s)\<rparr>"

definition session_IsDone :: "Session option \<Rightarrow> bool" where
  "session_IsDone s = (case s of None \<Rightarrow> True | Some st \<Rightarrow> sess_done st)"

definition session_EventsAfter :: "int \<Rightarrow> Session option \<Rightarrow> SseEvent list" where
  "session_EventsAfter lastEventID s =
     (case s of None \<Rightarrow> [] | Some st \<Rightarrow> filter (\<lambda>e. lastEventID < ev_id e) (events st))"

definition session_Subscribe :: "Session \<Rightarrow> int \<times> Session" where
  "session_Subscribe s =
     (let i = nextSubID s in
      (i, s\<lparr>nextSubID := i + 1, subs := subs s @ [i],
            chans := (chans s)(i := \<lparr>ch_buf = [], ch_closed = False\<rparr>)\<rparr>))"

text \<open>The function \<open>Subscribe\<close> returns: it closes the channel once, if still registered.\<close>

definition session_unsub :: "int \<Rightarrow> Session \<Rightarrow> Session" where
  "session_unsub i s =
     (if i \<in> set (subs s)
      then s\<lparr>subs := removeAll i (subs s), chans := close_chan i (chans s)\<rparr> else s)"

text \<open>A subscriber takes the oldest event of its channel.\<close>

definition session_receive :: "int \<Rightarrow> Session \<Rightarrow> (SseEvent \<times> Session) option" where
  "session_receive i s =
     (case ch_buf (chans s i) of
        [] \<Rightarrow> None
      | e # es \<Rightarrow> Some (e, s\<lparr>chans := (chans s)(i := (chans s i)\<lparr>ch_buf := es\<rparr>)\<rparr>))"

definition session_inv :: "Session \<Rightarrow> bool" where
  "session_inv s \<longleftrightarrow>
     distinct (subs s) \<and> (\<forall>i\<in>set (subs s). i < nextSubID s \<and> \<not> ch_closed (chans s i)) \<and>
     (\<forall>i. length (ch_buf (chans s i)) \<le> sse_buffer)"

section \<open>The registry\<close>

record SseRegistry =
  sessions :: "string \<rightharpoonup> Session"
  sse_ttl :: duration

definition sse_NewRegistry :: "duration \<Rightarrow> SseRegistry" where
  "sse_NewRegistry ttl = \<lparr>sessions = Map.empty, sse_ttl = (if ttl \<le> 0 then 5 * go_minute else ttl)\<rparr>"

definition sse_Start :: "string \<Rightarrow> SseRegistry option \<Rightarrow> Session option \<times> SseRegistry option" where
  "sse_Start rid r =
     (case r of
        None \<Rightarrow> (None, None)
      | Some rg \<Rightarrow>
          if rid = [] then (None, r)
          else
            let s = (case sessions rg rid of
                       Some existing \<Rightarrow> existing\<lparr>sess_done := False\<rparr>
                     | None \<Rightarrow> session_new rid)
            in (Some s, Some (rg\<lparr>sessions := (sessions rg)(rid \<mapsto> s)\<rparr>)))"

definition sse_Get :: "string \<Rightarrow> SseRegistry option \<Rightarrow> Session option" where
  "sse_Get rid r =
     (case r of None \<Rightarrow> None | Some rg \<Rightarrow> if rid = [] then None else sessions rg rid)"

text \<open>The cut-off is computed from the TTL by the loop and then not used.\<close>

definition sse_cleanup :: "time \<Rightarrow> SseRegistry option \<Rightarrow> SseRegistry option" where
  "sse_cleanup cutoff r =
     map_option (\<lambda>rg. rg\<lparr>sessions := (\<lambda>rid. case sessions rg rid of
                                 None \<Rightarrow> None
                               | Some s \<Rightarrow> if sess_done s then None else Some s)\<rparr>) r"

section \<open>Lemmas on sessions\<close>

lemma chans_close_fold:
  "fold close_chan is cs i = (if i \<in> set is then (cs i)\<lparr>ch_closed := True\<rparr> else cs i)"
  by (induction "is" arbitrary: cs) (auto simp: close_chan_def)

lemma session_inv_new: "session_inv (session_new rid)"
  by (simp add: session_inv_def session_new_def)

lemma session_inv_record [inv_intros]: "session_inv s \<Longrightarrow> session_inv (session_record ev s)"
  by (simp add: session_inv_def session_record_def)

lemma session_inv_Subscribe [inv_intros]: "session_inv s \<Longrightarrow> session_inv (snd (session_Subscribe s))"
  by (auto simp: session_inv_def session_Subscribe_def Let_def)

lemma session_inv_unsub [inv_intros]: "session_inv s \<Longrightarrow> session_inv (session_unsub i s)"
  by (auto simp: session_inv_def session_unsub_def close_chan_def distinct_removeAll)

lemma session_inv_MarkDone [inv_intros]: "session_inv s \<Longrightarrow> session_inv (session_MarkDone s)"
  by (auto simp: session_inv_def session_MarkDone_def chans_close_fold)

lemma session_inv_receive [inv_intros]:
  "session_inv s \<Longrightarrow> session_receive i s = Some (e, s') \<Longrightarrow> session_inv s'"
proof -
  assume inv: "session_inv s" and "session_receive i s = Some (e, s')"
  then obtain es where es: "ch_buf (chans s i) = e # es"
    "s' = s\<lparr>chans := (chans s)(i := (chans s i)\<lparr>ch_buf := es\<rparr>)\<rparr>"
    by (auto simp: session_receive_def split: list.splits)
  have "length (e # es) \<le> sse_buffer" using inv unfolding session_inv_def es(1) [symmetric] by blast
  with inv es(2) show "session_inv s'" by (auto simp: session_inv_def)
qed

lemma session_send_inv [inv_intros]:
  "session_inv s \<Longrightarrow> session_send ev i s = Some s' \<Longrightarrow> session_inv s'"
  by (auto simp: session_inv_def session_send_def Let_def split: if_splits)

lemma session_send_frame:
  "session_send ev i s = Some s' \<Longrightarrow>
   subs s' = subs s \<and> events s' = events s \<and> nextSubID s' = nextSubID s \<and> sess_done s' = sess_done s \<and>
   (\<forall>j. ch_closed (chans s' j) = ch_closed (chans s j))"
  by (auto simp: session_send_def Let_def split: if_splits)

lemma session_send_open: "\<not> ch_closed (chans s i) \<Longrightarrow> session_send ev i s \<noteq> None"
  by (simp add: session_send_def Let_def)

text \<open>Sending to distinct open channels succeeds and delivers where there is room.\<close>

lemma session_send_all_open:
  assumes "distinct is" and "\<forall>i\<in>set is. \<not> ch_closed (chans s i)"
  shows "\<exists>s'. session_send_all ev is s = Some s' \<and> events s' = events s \<and> subs s' = subs s \<and>
    nextSubID s' = nextSubID s \<and>
    (\<forall>j. chans s' j =
      (if j \<in> set is \<and> length (ch_buf (chans s j)) < sse_buffer
       then (chans s j)\<lparr>ch_buf := ch_buf (chans s j) @ [ev]\<rparr> else chans s j))"
  using assms
proof (induction "is" arbitrary: s)
  case (Cons i "is")
  obtain s1 where s1: "session_send ev i s = Some s1" using Cons.prems session_send_open by fastforce
  have c1: "chans s1 j = (if j = i \<and> length (ch_buf (chans s j)) < sse_buffer
      then (chans s j)\<lparr>ch_buf := ch_buf (chans s j) @ [ev]\<rparr> else chans s j)" for j
    using s1 by (auto simp: session_send_def Let_def split: if_splits)
  have "\<forall>j\<in>set is. \<not> ch_closed (chans s1 j)" using Cons.prems by (auto simp: c1)
  then obtain s2 where "session_send_all ev is s1 = Some s2" "events s2 = events s1"
    "subs s2 = subs s1" "nextSubID s2 = nextSubID s1"
    "\<forall>j. chans s2 j = (if j \<in> set is \<and> length (ch_buf (chans s1 j)) < sse_buffer
      then (chans s1 j)\<lparr>ch_buf := ch_buf (chans s1 j) @ [ev]\<rparr> else chans s1 j)"
    using Cons.IH [of s1] Cons.prems by auto
  with s1 c1 session_send_frame [OF s1] Cons.prems show ?case by auto
qed simp

lemma session_Append_ok:
  assumes "session_inv s"
  shows "\<exists>s'. session_Append ev s = Some s' \<and> events s' = events s @ [ev] \<and> subs s' = subs s \<and>
    nextSubID s' = nextSubID s \<and> session_inv s' \<and>
    (\<forall>j\<in>set (subs s). chans s' j =
      (if length (ch_buf (chans s j)) < sse_buffer
       then (chans s j)\<lparr>ch_buf := ch_buf (chans s j) @ [ev]\<rparr> else chans s j))"
proof -
  have d: "distinct (subs s)" and o: "\<forall>i\<in>set (subs s). \<not> ch_closed (chans (session_record ev s) i)"
    using assms by (auto simp: session_inv_def session_record_def)
  obtain s' where s': "session_Append ev s = Some s'" "events s' = events s @ [ev]" "subs s' = subs s"
    "nextSubID s' = nextSubID s"
    "\<forall>j. chans s' j = (if j \<in> set (subs s) \<and> length (ch_buf (chans s j)) < sse_buffer
      then (chans s j)\<lparr>ch_buf := ch_buf (chans s j) @ [ev]\<rparr> else chans s j)"
    using session_send_all_open [OF d o, of ev] unfolding session_Append_def
    by (auto simp: session_record_def)
  then have "session_inv s'" using assms by (auto simp: session_inv_def)
  with s' show ?thesis by auto
qed

fun session_Append_all :: "SseEvent list \<Rightarrow> Session \<Rightarrow> Session option" where
  "session_Append_all [] s = Some s"
| "session_Append_all (e # es) s =
     (case session_Append e s of None \<Rightarrow> None | Some s' \<Rightarrow> session_Append_all es s')"

lemma session_Append_all_ok:
  assumes "session_inv s"
  shows "\<exists>s'. session_Append_all es s = Some s' \<and> events s' = events s @ es \<and> subs s' = subs s \<and>
    nextSubID s' = nextSubID s \<and> session_inv s' \<and>
    (\<forall>j\<in>set (subs s). length (ch_buf (chans s j)) + length es \<le> sse_buffer \<longrightarrow>
      ch_buf (chans s' j) = ch_buf (chans s j) @ es)"
  using assms
proof (induction es arbitrary: s)
  case (Cons e es)
  obtain s1 where s1: "session_Append e s = Some s1" "events s1 = events s @ [e]" "subs s1 = subs s"
    "nextSubID s1 = nextSubID s" "session_inv s1"
    "\<forall>j\<in>set (subs s). chans s1 j = (if length (ch_buf (chans s j)) < sse_buffer
      then (chans s j)\<lparr>ch_buf := ch_buf (chans s j) @ [e]\<rparr> else chans s j)"
    using session_Append_ok [OF Cons.prems] by blast
  with Cons.IH [OF s1(5)] show ?case by fastforce
qed simp

text \<open>
  What a client that resumes after the event \<open>lastID\<close> gets: the recorded events first, then what
  arrives on its subscription. The events of \<open>gap\<close> are appended by the producer after the first
  step and before the second, those of \<open>rest\<close> after both.
\<close>

definition resume_delivery :: "int \<Rightarrow> SseEvent list \<Rightarrow> SseEvent list \<Rightarrow> Session \<Rightarrow> SseEvent list option" where
  "resume_delivery lastID gap rest s =
     (let replayed = session_EventsAfter lastID (Some s) in
      case session_Append_all gap s of
        None \<Rightarrow> None
      | Some s1 \<Rightarrow>
          let (i, s2) = session_Subscribe s1 in
          case session_Append_all rest s2 of
            None \<Rightarrow> None
          | Some s3 \<Rightarrow> Some (replayed @ ch_buf (chans s3 i)))"

section \<open>Interleaved appends and closings\<close>

record sse_sys =
  sys_sess :: Session
  sys_pending :: "(SseEvent \<times> int list) list"
  sys_panicked :: bool

inductive sse_step :: "sse_sys \<Rightarrow> sse_sys \<Rightarrow> bool" where
  append_lock: "sse_step \<sigma> (\<sigma>\<lparr>sys_sess := session_record ev (sys_sess \<sigma>),
      sys_pending := sys_pending \<sigma> @ [(ev, subs (sys_sess \<sigma>))]\<rparr>)"
| append_send: "sys_pending \<sigma> = ps @ (ev, i # is) # qs \<Longrightarrow>
    session_send ev i (sys_sess \<sigma>) = Some s' \<Longrightarrow>
    sse_step \<sigma> (\<sigma>\<lparr>sys_sess := s', sys_pending := ps @ (ev, is) # qs\<rparr>)"
| append_panic: "sys_pending \<sigma> = ps @ (ev, i # is) # qs \<Longrightarrow>
    session_send ev i (sys_sess \<sigma>) = None \<Longrightarrow> sse_step \<sigma> (\<sigma>\<lparr>sys_panicked := True\<rparr>)"
| append_finished: "sys_pending \<sigma> = ps @ (ev, []) # qs \<Longrightarrow>
    sse_step \<sigma> (\<sigma>\<lparr>sys_pending := ps @ qs\<rparr>)"
| subscribe: "sse_step \<sigma> (\<sigma>\<lparr>sys_sess := snd (session_Subscribe (sys_sess \<sigma>))\<rparr>)"
| unsubscribe: "sse_step \<sigma> (\<sigma>\<lparr>sys_sess := session_unsub i (sys_sess \<sigma>)\<rparr>)"
| mark_done: "sse_step \<sigma> (\<sigma>\<lparr>sys_sess := session_MarkDone (sys_sess \<sigma>)\<rparr>)"
| receive: "session_receive i (sys_sess \<sigma>) = Some (e, s') \<Longrightarrow>
    sse_step \<sigma> (\<sigma>\<lparr>sys_sess := s'\<rparr>)"

text \<open>A closing step: one that may close a channel.\<close>

definition closing :: "sse_sys \<Rightarrow> sse_sys \<Rightarrow> bool" where
  "closing \<sigma> \<sigma>' \<longleftrightarrow> (\<exists>i. ch_closed (chans (sys_sess \<sigma>') i) \<and> \<not> ch_closed (chans (sys_sess \<sigma>) i))"

inductive_cases sse_stepE: "sse_step \<sigma> \<sigma>'"

definition sse_init :: "string \<Rightarrow> sse_sys" where
  "sse_init rid = \<lparr>sys_sess = session_new rid, sys_pending = [], sys_panicked = False\<rparr>"

text \<open>Runs, and the runs in which no channel is closed while a send is outstanding.\<close>

inductive sse_reach :: "string \<Rightarrow> sse_sys \<Rightarrow> bool" for rid where
  reach_init: "sse_reach rid (sse_init rid)"
| reach_step: "sse_reach rid \<sigma> \<Longrightarrow> sse_step \<sigma> \<sigma>' \<Longrightarrow> sse_reach rid \<sigma>'"

inductive sse_reach_serial :: "string \<Rightarrow> sse_sys \<Rightarrow> bool" for rid where
  serial_init: "sse_reach_serial rid (sse_init rid)"
| serial_step: "sse_reach_serial rid \<sigma> \<Longrightarrow> sse_step \<sigma> \<sigma>' \<Longrightarrow>
    (closing \<sigma> \<sigma>' \<Longrightarrow> sys_pending \<sigma> = []) \<Longrightarrow> sse_reach_serial rid \<sigma>'"

definition sse_sys_inv :: "sse_sys \<Rightarrow> bool" where
  "sse_sys_inv \<sigma> \<longleftrightarrow> session_inv (sys_sess \<sigma>)"

lemma sse_step_inv: "sse_step \<sigma> \<sigma>' \<Longrightarrow> sse_sys_inv \<sigma> \<Longrightarrow> sse_sys_inv \<sigma>'"
  by (induction rule: sse_step.induct) (auto simp: sse_sys_inv_def intro: inv_intros)

definition pending_open :: "sse_sys \<Rightarrow> bool" where
  "pending_open \<sigma> \<longleftrightarrow>
     (\<forall>p\<in>set (sys_pending \<sigma>). \<forall>i\<in>set (snd p). \<not> ch_closed (chans (sys_sess \<sigma>) i))"

lemma sse_step_serial_inv:
  assumes "sse_step \<sigma> \<sigma>'" and "sse_sys_inv \<sigma>" and "pending_open \<sigma>" and "\<not> sys_panicked \<sigma>"
    and "closing \<sigma> \<sigma>' \<Longrightarrow> sys_pending \<sigma> = []"
  shows "pending_open \<sigma>' \<and> \<not> sys_panicked \<sigma>'"
proof -
  have keep: "pending_open \<sigma>'" if "sys_pending \<sigma>' = sys_pending \<sigma>"
  proof (cases "sys_pending \<sigma> = []")
    case False
    then have "\<not> closing \<sigma> \<sigma>'" using assms(5) by blast
    with assms(3) that show ?thesis by (fastforce simp: pending_open_def closing_def)
  qed (simp add: that pending_open_def)
  show ?thesis
    using assms(1)
  proof cases
    case (append_lock ev)
    with assms(2-4) show ?thesis
      by (auto simp: pending_open_def sse_sys_inv_def session_inv_def session_record_def)
  next
    case (append_send ps ev i "is" qs s')
    with assms(3,4) session_send_frame [OF append_send(3)] show ?thesis
      by (auto simp: pending_open_def)
  next
    case (append_panic ps ev i "is" qs)
    with assms(3) session_send_open [of "sys_sess \<sigma>" i ev] show ?thesis
      by (auto simp: pending_open_def)
  next
    case (append_finished ps ev qs)
    with assms(3,4) show ?thesis by (auto simp: pending_open_def)
  next
    case subscribe
    with keep assms(4) show ?thesis by simp
  next
    case (unsubscribe i)
    with keep assms(4) show ?thesis by simp
  next
    case mark_done
    with keep assms(4) show ?thesis by simp
  next
    case (receive i e s')
    with keep assms(4) show ?thesis by simp
  qed
qed

lemma sse_serial_invs: "sse_reach_serial rid \<sigma> \<Longrightarrow> sse_sys_inv \<sigma> \<and> pending_open \<sigma> \<and> \<not> sys_panicked \<sigma>"
proof (induction rule: sse_reach_serial.induct)
  case serial_init
  show ?case by (simp add: sse_init_def sse_sys_inv_def session_inv_new pending_open_def)
next
  case (serial_step \<sigma> \<sigma>')
  then show ?case using sse_step_inv sse_step_serial_inv by blast
qed

section \<open>Properties\<close>

text \<open>
  As long as no channel is closed while a send of an earlier append is outstanding, no run of
  producers and subscribers ever sends to a closed channel.
\<close>

theorem sse_serial_no_panic: "sse_reach_serial rid \<sigma> \<Longrightarrow> \<not> sys_panicked \<sigma>"
  using sse_serial_invs by blast

text \<open>A run for the witness: a subscription, an append with its send, then the end of the session.\<close>

lemma sse_serial_example:
  "\<exists>\<sigma>. sse_reach_serial rid \<sigma> \<and> sess_done (sys_sess \<sigma>) \<and> events (sys_sess \<sigma>) = [ev]"
proof -
  let ?s1 = "snd (session_Subscribe (session_new rid))"
  let ?\<sigma>1 = "(sse_init rid)\<lparr>sys_sess := ?s1\<rparr>"
  let ?s2 = "session_record ev ?s1"
  let ?\<sigma>2 = "?\<sigma>1\<lparr>sys_sess := ?s2, sys_pending := [(ev, [0])]\<rparr>"
  have r1: "sse_reach_serial rid ?\<sigma>1"
  proof (rule serial_step [OF serial_init])
    show "sse_step (sse_init rid) ?\<sigma>1" using subscribe [of "sse_init rid"] by (simp add: sse_init_def)
  qed (simp add: sse_init_def)
  have r2: "sse_reach_serial rid ?\<sigma>2"
  proof (rule serial_step [OF r1])
    show "sse_step ?\<sigma>1 ?\<sigma>2"
      using append_lock [of ?\<sigma>1 ev] by (simp add: sse_init_def session_Subscribe_def Let_def session_new_def)
  qed (simp add: sse_init_def)
  obtain s3 where s3: "session_send ev 0 ?s2 = Some s3"
    by (simp add: session_send_def session_record_def session_Subscribe_def session_new_def
        Let_def sse_buffer_def)
  let ?\<sigma>3 = "?\<sigma>2\<lparr>sys_sess := s3, sys_pending := [(ev, [])]\<rparr>"
  have r3: "sse_reach_serial rid ?\<sigma>3"
  proof (rule serial_step [OF r2])
    show "sse_step ?\<sigma>2 ?\<sigma>3" using append_send [of ?\<sigma>2 "[]" ev 0 "[]" "[]" s3] s3 by simp
    show "sys_pending ?\<sigma>2 = []" if "closing ?\<sigma>2 ?\<sigma>3"
      using that session_send_frame [OF s3] by (simp add: closing_def)
  qed
  let ?\<sigma>4 = "?\<sigma>3\<lparr>sys_pending := []\<rparr>"
  have r4: "sse_reach_serial rid ?\<sigma>4"
  proof (rule serial_step [OF r3])
    show "sse_step ?\<sigma>3 ?\<sigma>4" using append_finished [of ?\<sigma>3 "[]" ev "[]"] by simp
  qed (simp add: closing_def)
  let ?\<sigma>5 = "?\<sigma>4\<lparr>sys_sess := session_MarkDone s3\<rparr>"
  have "sse_reach_serial rid ?\<sigma>5"
  proof (rule serial_step [OF r4])
    show "sse_step ?\<sigma>4 ?\<sigma>5" using mark_done [of ?\<sigma>4] by simp
  qed simp
  moreover have "events s3 = [ev]"
    using session_send_frame [OF s3]
    by (simp add: session_record_def session_Subscribe_def session_new_def Let_def)
  ultimately show ?thesis by (intro exI [of _ ?\<sigma>5]) (simp add: session_MarkDone_def)
qed

theorem sse_serial_no_panic_witness:
  "\<exists>\<sigma>. sse_reach_serial ''r'' \<sigma> \<and> sess_done (sys_sess \<sigma>) \<and> \<not> sys_panicked \<sigma>"
proof -
  obtain \<sigma> where "sse_reach_serial ''r'' \<sigma>" "sess_done (sys_sess \<sigma>)"
    using sse_serial_example by blast
  then show ?thesis using sse_serial_no_panic by blast
qed

text \<open>
  Without that restriction the panic is reachable: a client subscribes, the producer records an
  event and takes the list of channels, the client unsubscribes, which closes its channel, and the
  producer then sends to it.
\<close>

theorem sse_panic_reachable: "\<exists>\<sigma>. sse_reach rid \<sigma> \<and> sys_panicked \<sigma>"
proof -
  fix ev :: SseEvent
  let ?s1 = "snd (session_Subscribe (session_new rid))"
  let ?\<sigma>1 = "(sse_init rid)\<lparr>sys_sess := ?s1\<rparr>"
  let ?\<sigma>2 = "?\<sigma>1\<lparr>sys_sess := session_record ev ?s1, sys_pending := [(ev, [0])]\<rparr>"
  let ?\<sigma>3 = "?\<sigma>2\<lparr>sys_sess := session_unsub 0 (session_record ev ?s1)\<rparr>"
  have 1: "sse_step (sse_init rid) ?\<sigma>1" using subscribe [of "sse_init rid"] by (simp add: sse_init_def)
  have 2: "sse_step ?\<sigma>1 ?\<sigma>2"
    using append_lock [of ?\<sigma>1 ev] by (simp add: sse_init_def session_Subscribe_def Let_def session_new_def)
  have 3: "sse_step ?\<sigma>2 ?\<sigma>3" using unsubscribe [of ?\<sigma>2 0] by simp
  have "session_send ev 0 (session_unsub 0 (session_record ev ?s1)) = None"
    by (simp add: session_send_def session_unsub_def close_chan_def session_record_def
        session_Subscribe_def session_new_def Let_def)
  then have 4: "sse_step ?\<sigma>3 (?\<sigma>3\<lparr>sys_panicked := True\<rparr>)"
    using append_panic [of ?\<sigma>3 "[]" ev 0 "[]" "[]"] by simp
  have "sse_reach rid (?\<sigma>3\<lparr>sys_panicked := True\<rparr>)"
    by (rule reach_step [OF reach_step [OF reach_step [OF reach_step [OF reach_init 1] 2] 3] 4])
  moreover have "sys_panicked (?\<sigma>3\<lparr>sys_panicked := True\<rparr>)" by simp
  ultimately show ?thesis by blast
qed



end
