(* ===== verification/JobStore.thy ===== *)
theory JobStore
  imports GoStrings RequestQueue
begin

text \<open>
  The persistent queue of \<open>internal/service/job_store.go\<close>: one JSON file per job in a
  directory, and the runner that takes a slot of the request queue, claims a pending job and
  completes it. The directory is the list of its entries in the order of their names, as
  \<open>os.ReadDir\<close> returns them; an entry is a file that holds a job, a file that is not a job's
  JSON, or a directory. Encoding and decoding a job are the round trip of \<open>encoding/json\<close>.
  What the file system does is an argument \<open>job_env\<close> of every operation: whether the directory
  and each file can be read, and whether a write succeeds, is refused, or fails after the file was
  truncated. A nil store is \<open>None\<close>. The lemmas count active jobs through every operation and
  follow a job from its claim to its completion.
\<close>

section \<open>The directory\<close>

definition jobStatusPending :: string where "jobStatusPending = ''pending''"
definition jobStatusRunning :: string where "jobStatusRunning = ''running''"
definition jobStatusCompleted :: string where "jobStatusCompleted = ''completed''"
definition jobStatusFailed :: string where "jobStatusFailed = ''failed''"

lemmas job_status_defs =
  jobStatusPending_def jobStatusRunning_def jobStatusCompleted_def jobStatusFailed_def

record QueueJob =
  job_ID :: string
  job_Kind :: string
  job_RequestID :: string
  job_Status :: string
  job_Body :: string
  job_Result :: string
  job_Error :: string
  job_CreatedAt :: time
  job_UpdatedAt :: time

datatype job_entry = JobFile QueueJob | OtherFile | SubDir

type_synonym job_dir = "(string \<times> job_entry) list"

datatype write_outcome = WriteOk | WriteRefused | WriteTorn

record job_env =
  env_now :: time
  env_readdir :: bool
  env_readable :: "string \<Rightarrow> bool"
  env_write :: "string \<Rightarrow> write_outcome"

text \<open>Creating or replacing the entry of a name keeps the order of the names.\<close>

fun dir_put :: "string \<Rightarrow> job_entry \<Rightarrow> job_dir \<Rightarrow> job_dir" where
  "dir_put n e [] = [(n, e)]"
| "dir_put n e ((m, e') # d) =
     (if n < m then (n, e) # (m, e') # d
      else if n = m then (n, e) # d
      else (m, e') # dir_put n e d)"

definition job_name :: "string \<Rightarrow> string" where
  "job_name ident = ident @ ''.json''"

definition readLocked :: "job_env \<Rightarrow> job_dir \<Rightarrow> string \<Rightarrow> QueueJob option" where
  "readLocked env d ident =
     (case map_of d (job_name ident) of
        Some (JobFile job) \<Rightarrow> if env_readable env (job_name ident) then Some job else None
      | _ \<Rightarrow> None)"

text \<open>\<open>writeLocked\<close>: whether it succeeded, and the directory it leaves.\<close>

definition writeLocked :: "job_env \<Rightarrow> QueueJob \<Rightarrow> job_dir \<Rightarrow> bool \<times> job_dir" where
  "writeLocked env job d =
     (let n = job_name (job_ID job) in
      if map_of d n = Some SubDir then (False, d)
      else (case env_write env n of
              WriteOk \<Rightarrow> (True, dir_put n (JobFile job) d)
            | WriteRefused \<Rightarrow> (False, d)
            | WriteTorn \<Rightarrow> (False, dir_put n OtherFile d)))"

section \<open>The operations\<close>

record JobStore =
  js_files :: job_dir
  js_maxJobs :: int
  js_completed :: int

definition NewJobStore :: "job_dir \<Rightarrow> string \<Rightarrow> int \<Rightarrow> JobStore option" where
  "NewJobStore d dir maxJobs =
     (if TrimSpace dir = [] then None
      else Some \<lparr>js_files = d, js_maxJobs = (if maxJobs \<le> 0 then 256 else maxJobs), js_completed = 0\<rparr>)"

definition job_entry_skipped :: "string \<times> job_entry \<Rightarrow> bool" where
  "job_entry_skipped e \<longleftrightarrow> snd e = SubDir \<or> \<not> HasSuffix (fst e) ''.json''"

definition countLocked :: "job_env \<Rightarrow> string \<Rightarrow> job_dir \<Rightarrow> int" where
  "countLocked env status d =
     (if \<not> env_readdir env then 0
      else int (length (filter (\<lambda>e. \<not> job_entry_skipped e \<and>
        (case readLocked env d (TrimSuffix (fst e) ''.json'') of
           None \<Rightarrow> False
         | Some job \<Rightarrow> job_Status job = status)) d)))"

datatype job_error = QueueDisabled | QueueOverflow | JobNotFound | MarshalError | WriteError

definition Enqueue ::
  "job_env \<Rightarrow> string \<Rightarrow> string \<Rightarrow> string \<Rightarrow> string option \<Rightarrow> JobStore option
    \<Rightarrow> (job_error + string) \<times> JobStore option" where
  "Enqueue env uuid kind requestID body s =
     (case s of
        None \<Rightarrow> (Inl QueueDisabled, None)
      | Some st \<Rightarrow>
          (case body of
             None \<Rightarrow> (Inl MarshalError, s)
           | Some data \<Rightarrow>
               if js_maxJobs st \<le> countLocked env jobStatusPending (js_files st)
                   + countLocked env jobStatusRunning (js_files st)
               then (Inl QueueOverflow, s)
               else
                 let job = \<lparr>job_ID = uuid, job_Kind = kind, job_RequestID = requestID,
                       job_Status = jobStatusPending, job_Body = data, job_Result = [], job_Error = [],
                       job_CreatedAt = env_now env, job_UpdatedAt = env_now env\<rparr>;
                     (ok, d) = writeLocked env job (js_files st)
                 in (if ok then Inr uuid else Inl WriteError, Some (st\<lparr>js_files := d\<rparr>))))"

definition job_Get :: "job_env \<Rightarrow> string \<Rightarrow> JobStore option \<Rightarrow> QueueJob option" where
  "job_Get env ident s = (case s of None \<Rightarrow> None | Some st \<Rightarrow> readLocked env (js_files st) ident)"

definition PendingCount :: "job_env \<Rightarrow> JobStore option \<Rightarrow> int" where
  "PendingCount env s =
     (case s of
        None \<Rightarrow> 0
      | Some st \<Rightarrow> countLocked env jobStatusPending (js_files st)
          + countLocked env jobStatusRunning (js_files st))"

definition CompletedCount :: "JobStore option \<Rightarrow> int" where
  "CompletedCount s = (case s of None \<Rightarrow> 0 | Some st \<Rightarrow> js_completed st)"

record QueueStatsResponse =
  qs_InFlight :: nat
  qs_Capacity :: nat
  qs_PendingJobs :: int
  qs_CompletedJobs :: int

definition job_Stats :: "job_env \<Rightarrow> Queue option \<Rightarrow> JobStore option \<Rightarrow> QueueStatsResponse" where
  "job_Stats env q s =
     \<lparr>qs_InFlight = queue_InFlight q, qs_Capacity = queue_Capacity q,
      qs_PendingJobs = PendingCount env s, qs_CompletedJobs = CompletedCount s\<rparr>"

text \<open>The loop of \<open>ClaimNext\<close> over the entries that were listed, with the current directory.\<close>

fun claim_loop :: "job_env \<Rightarrow> job_dir \<Rightarrow> job_dir \<Rightarrow> QueueJob option \<times> job_dir" where
  "claim_loop env [] d = (None, d)"
| "claim_loop env (e # es) d =
     (if job_entry_skipped e then claim_loop env es d
      else (case readLocked env d (TrimSuffix (fst e) ''.json'') of
              None \<Rightarrow> claim_loop env es d
            | Some job \<Rightarrow>
                if job_Status job \<noteq> jobStatusPending then claim_loop env es d
                else
                  let job' = job\<lparr>job_Status := jobStatusRunning, job_UpdatedAt := env_now env\<rparr>;
                      (ok, d') = writeLocked env job' d
                  in if ok then (Some job', d') else claim_loop env es d'))"

definition ClaimNext :: "job_env \<Rightarrow> JobStore option \<Rightarrow> QueueJob option \<times> JobStore option" where
  "ClaimNext env s =
     (case s of
        None \<Rightarrow> (None, None)
      | Some st \<Rightarrow>
          if \<not> env_readdir env then (None, s)
          else let (r, d) = claim_loop env (js_files st) (js_files st) in
            (r, Some (st\<lparr>js_files := d\<rparr>)))"

text \<open>
  \<open>Complete\<close>: the outcome is \<open>Inl\<close> the run's error, or \<open>Inr\<close> its result, \<open>None\<close>
  when the result cannot be encoded.
\<close>

definition Complete ::
  "job_env \<Rightarrow> string \<Rightarrow> string + string option \<Rightarrow> JobStore option
    \<Rightarrow> job_error option \<times> JobStore option" where
  "Complete env ident outcome s =
     (case s of
        None \<Rightarrow> (None, None)
      | Some st \<Rightarrow>
          (case readLocked env (js_files st) ident of
             None \<Rightarrow> (Some JobNotFound, s)
           | Some job \<Rightarrow>
               let job1 = job\<lparr>job_UpdatedAt := env_now env\<rparr>;
                   write = (\<lambda>j s1. let (ok, d) = writeLocked env j (js_files s1)
                     in (if ok then None else Some WriteError, Some (s1\<lparr>js_files := d\<rparr>)))
               in case outcome of
                    Inl e \<Rightarrow> write (job1\<lparr>job_Status := jobStatusFailed, job_Error := e\<rparr>) st
                  | Inr None \<Rightarrow> (Some MarshalError, s)
                  | Inr (Some raw) \<Rightarrow>
                      write (job1\<lparr>job_Status := jobStatusCompleted, job_Result := raw\<rparr>)
                        (st\<lparr>js_completed := js_completed st + 1\<rparr>)))"

section \<open>Directories\<close>

definition job_dir_inv :: "job_dir \<Rightarrow> bool" where
  "job_dir_inv d \<longleftrightarrow> sorted_wrt (<) (map fst d) \<and>
     (\<forall>n j. map_of d n = Some (JobFile j) \<longrightarrow> n = job_name (job_ID j))"

lemma HasSuffix_job_name [simp]: "HasSuffix (job_name ident) ''.json''"
  by (simp add: HasSuffix_def HasPrefix_def job_name_def)

lemma HasSuffix_obtain: "HasSuffix n p \<Longrightarrow> \<exists>x. n = x @ p"
proof -
  assume "HasSuffix n p"
  then have "rev n = rev p @ drop (length p) (rev n)"
    using append_take_drop_id [of "length p" "rev n"] by (simp add: HasSuffix_def HasPrefix_def)
  then have "rev (rev n) = rev (drop (length p) (rev n)) @ p" by (metis rev_append rev_rev_ident)
  then show ?thesis by auto
qed

lemma job_name_TrimSuffix: "HasSuffix n ''.json'' \<Longrightarrow> job_name (TrimSuffix n ''.json'') = n"
  using HasSuffix_obtain [of n "''.json''"] by (auto simp: TrimSuffix_def job_name_def)

lemma job_name_inj [simp]: "job_name a = job_name b \<longleftrightarrow> a = b"
  by (simp add: job_name_def)

lemma fst_dir_put: "fst ` set (dir_put n e d) = insert n (fst ` set d)"
  by (induction n e d rule: dir_put.induct) auto

lemma dir_put_above: "m < n \<Longrightarrow> \<forall>x\<in>set d. m < fst x \<Longrightarrow> \<forall>x\<in>set (dir_put n e d). m < fst x"
  by (induction n e d rule: dir_put.induct) auto

lemma dir_put_sorted: "sorted_wrt (<) (map fst d) \<Longrightarrow> sorted_wrt (<) (map fst (dir_put n e d))"
proof (induction n e d rule: dir_put.induct)
  case (2 n e m e' d)
  show ?case
  proof (cases "n < m")
    case True
    with 2(2) show ?thesis by (auto dest: order.strict_trans)
  next
    case False
    show ?thesis
    proof (cases "n = m")
      case True
      with 2(2) show ?thesis by simp
    next
      case neq: False
      then have "m < n" using False by simp
      then have "\<forall>x\<in>set (dir_put n e d). m < fst x" using 2(2) by (intro dir_put_above) simp_all
      with False neq 2 show ?thesis by simp
    qed
  qed
qed simp

lemma sorted_head_not_in:
  "sorted_wrt (<) (map fst ((m, e) # d)) \<Longrightarrow> n \<le> m \<Longrightarrow> (map_of d :: string \<Rightarrow> 'e option) n = None"
  by (fastforce simp: map_of_eq_None_iff)

lemma map_of_dir_put:
  "sorted_wrt (<) (map fst d) \<Longrightarrow> map_of (dir_put n e d) = (map_of d)(n \<mapsto> e)"
proof (induction n e d rule: dir_put.induct)
  case (2 n e m e' d)
  then show ?case using linorder_less_linear [of n m] by (auto simp: fun_eq_iff)
qed (auto simp: fun_eq_iff)

text \<open>How the number of entries with a property changes.\<close>

definition old_weight :: "(string \<times> job_entry \<Rightarrow> bool) \<Rightarrow> string \<Rightarrow> job_dir \<Rightarrow> nat" where
  "old_weight P n d = (case map_of d n of None \<Rightarrow> 0 | Some e \<Rightarrow> of_bool (P (n, e)))"

lemma filter_dir_put:
  "sorted_wrt (<) (map fst d) \<Longrightarrow>
   length (filter P (dir_put n e d)) + old_weight P n d = length (filter P d) + of_bool (P (n, e))"
proof (induction n e d rule: dir_put.induct)
  case (2 n e m e' d)
  show ?case
  proof (cases "n < m")
    case True
    then have "map_of ((m, e') # d) n = None" using sorted_head_not_in [OF 2(2)] by simp
    with True show ?thesis by (simp add: old_weight_def)
  next
    case False
    with 2 show ?thesis by (auto simp: old_weight_def)
  qed
qed (simp add: old_weight_def)

lemma map_of_in_sorted: "sorted_wrt (<) (map fst (d :: job_dir)) \<Longrightarrow> (n, e) \<in> set d \<longleftrightarrow> map_of d n = Some e"
proof -
  assume "sorted_wrt (<) (map fst d)"
  then have "distinct (map fst d)" by (simp add: strict_sorted_iff)
  then show "(n, e) \<in> set d \<longleftrightarrow> map_of d n = Some e" by simp
qed


section \<open>Active jobs\<close>

definition entry_has_status :: "string set \<Rightarrow> string \<times> job_entry \<Rightarrow> bool" where
  "entry_has_status A e \<longleftrightarrow> HasSuffix (fst e) ''.json'' \<and>
     (case snd e of JobFile job \<Rightarrow> job_Status job \<in> A | _ \<Rightarrow> False)"

definition active_jobs :: "job_dir \<Rightarrow> nat" where
  "active_jobs d = length (filter (entry_has_status {jobStatusPending, jobStatusRunning}) d)"

definition env_reads :: "job_env \<Rightarrow> bool" where
  "env_reads env \<longleftrightarrow> env_readdir env \<and> (\<forall>n. env_readable env n)"

lemma readLocked_reads:
  "env_reads env \<Longrightarrow> readLocked env d i = Some j \<longleftrightarrow> map_of d (job_name i) = Some (JobFile j)"
  by (auto simp: readLocked_def env_reads_def split: option.splits job_entry.splits)

lemma readLocked_Some: "readLocked env d i = Some j \<Longrightarrow> map_of d (job_name i) = Some (JobFile j)"
  by (auto simp: readLocked_def split: option.splits job_entry.splits if_splits)

lemma countLocked_reads:
  assumes "job_dir_inv d" and "env_reads env"
  shows "countLocked env st d = int (length (filter (entry_has_status {st}) d))"
proof -
  have "filter (\<lambda>e. \<not> job_entry_skipped e \<and>
      (case readLocked env d (TrimSuffix (fst e) ''.json'') of None \<Rightarrow> False
       | Some job \<Rightarrow> job_Status job = st)) d = filter (entry_has_status {st}) d"
  proof (rule filter_cong [OF refl])
    fix e assume "e \<in> set d"
    then have e: "map_of d (fst e) = Some (snd e)"
      using assms(1) map_of_in_sorted [of d "fst e" "snd e"] by (simp add: job_dir_inv_def)
    show "(\<not> job_entry_skipped e \<and>
        (case readLocked env d (TrimSuffix (fst e) ''.json'') of None \<Rightarrow> False
         | Some job \<Rightarrow> job_Status job = st)) = entry_has_status {st} e"
      using assms(2)
      by (cases "HasSuffix (fst e) ''.json''"; cases "snd e")
        (simp_all add: job_entry_skipped_def entry_has_status_def readLocked_def
          job_name_TrimSuffix e env_reads_def)
  qed
  then show ?thesis using assms(2) by (simp add: countLocked_def env_reads_def)
qed

lemma count_active:
  assumes "job_dir_inv d" and "env_reads env"
  shows "countLocked env jobStatusPending d + countLocked env jobStatusRunning d = int (active_jobs d)"
proof -
  have "length (filter (entry_has_status {jobStatusPending}) d)
      + length (filter (entry_has_status {jobStatusRunning}) d) = active_jobs d"
    unfolding active_jobs_def
    by (induction d) (auto simp: entry_has_status_def job_status_defs split: job_entry.splits)
  then show ?thesis using countLocked_reads [OF assms] by simp
qed

text \<open>Writes keep the invariant and change the count only at the written name.\<close>

lemma job_dir_inv_put:
  assumes "job_dir_inv d" and "\<And>j. e = JobFile j \<Longrightarrow> n = job_name (job_ID j)"
  shows "job_dir_inv (dir_put n e d)"
  using assms by (auto simp: job_dir_inv_def dir_put_sorted map_of_dir_put)

lemma writeLocked_inv: "job_dir_inv d \<Longrightarrow> job_dir_inv (snd (writeLocked env job d))"
  by (auto simp: writeLocked_def Let_def intro!: job_dir_inv_put split: write_outcome.splits)

lemma writeLocked_cases:
  assumes "writeLocked env job d = (ok, d')"
  shows "d' = d \<and> \<not> ok
    \<or> (\<exists>e. d' = dir_put (job_name (job_ID job)) e d \<and> map_of d (job_name (job_ID job)) \<noteq> Some SubDir
        \<and> (if ok then e = JobFile job else e = OtherFile))"
  using assms by (auto simp: writeLocked_def Let_def split: write_outcome.splits if_splits)

abbreviation entry_active :: "string \<times> job_entry \<Rightarrow> bool" where
  "entry_active \<equiv> entry_has_status {jobStatusPending, jobStatusRunning}"

lemma active_put:
  assumes "job_dir_inv d"
  shows "active_jobs (dir_put n e d) + old_weight entry_active n d
    = active_jobs d + of_bool (entry_active (n, e))"
  using filter_dir_put [of d entry_active n e] assms by (simp add: job_dir_inv_def active_jobs_def)

lemma active_put_le: "job_dir_inv d \<Longrightarrow> active_jobs (dir_put n e d) \<le> active_jobs d + 1"
  using active_put [of d n e] by (cases "entry_active (n, e)") auto

lemma active_put_inactive:
  "job_dir_inv d \<Longrightarrow> \<not> entry_active (n, e) \<Longrightarrow> active_jobs (dir_put n e d) \<le> active_jobs d"
  using active_put [of d n e] by simp

lemma active_write:
  assumes "job_dir_inv d" and "map_of d (job_name (job_ID job)) = Some (JobFile old)"
    and "job_Status old \<in> {jobStatusPending, jobStatusRunning}"
  shows "active_jobs (snd (writeLocked env job d)) \<le> active_jobs d"
proof -
  let ?n = "job_name (job_ID job)"
  have old: "old_weight entry_active ?n d = 1"
    using assms(2,3) by (simp add: old_weight_def entry_has_status_def)
  have *: "active_jobs (dir_put ?n e d) \<le> active_jobs d" for e
    using active_put [OF assms(1), of ?n e] unfolding old by (cases "entry_active (?n, e)") auto
  obtain ok d' where w: "writeLocked env job d = (ok, d')" by fastforce
  from writeLocked_cases [OF w] show ?thesis using * by (auto simp: w)
qed

lemma active_write_inactive:
  assumes "job_dir_inv d" and "job_Status job \<notin> {jobStatusPending, jobStatusRunning}"
  shows "active_jobs (snd (writeLocked env job d)) \<le> active_jobs d"
proof -
  obtain ok d' where w: "writeLocked env job d = (ok, d')" by fastforce
  have "active_jobs (dir_put n e d) \<le> active_jobs d" if "e = JobFile job \<or> e = OtherFile" for n e
    using that assms by (intro active_put_inactive) (auto simp: entry_has_status_def)
  with writeLocked_cases [OF w] show ?thesis by (auto simp: w split: if_splits)
qed

section \<open>Steps of the store\<close>

definition claimed :: "job_env \<Rightarrow> QueueJob \<Rightarrow> QueueJob" where
  "claimed env job = job\<lparr>job_Status := jobStatusRunning, job_UpdatedAt := env_now env\<rparr>"

lemma claimed_simps [simp]: "job_ID (claimed env job) = job_ID job" "job_Status (claimed env job) = jobStatusRunning"
  by (simp_all add: claimed_def)

lemma claim_loop_Cons:
  "claim_loop env (e # es) d =
     (case readLocked env d (TrimSuffix (fst e) ''.json'') of
        Some job \<Rightarrow>
          if \<not> job_entry_skipped e \<and> job_Status job = jobStatusPending
          then let w = writeLocked env (claimed env job) d in
            if fst w then (Some (claimed env job), snd w) else claim_loop env es (snd w)
          else claim_loop env es d
      | None \<Rightarrow> claim_loop env es d)"
  by (simp add: claimed_def case_prod_beta Let_def split: option.splits)

declare claim_loop.simps(2) [simp del]

text \<open>What every write of the loop keeps, the loop keeps.\<close>

lemma claim_loop_keeps:
  assumes "P d"
    and "\<And>d i job. P d \<Longrightarrow> map_of d (job_name i) = Some (JobFile job) \<Longrightarrow>
      job_Status job = jobStatusPending \<Longrightarrow> P (snd (writeLocked env (claimed env job) d))"
  shows "P (snd (claim_loop env es d))"
  using assms(1)
proof (induction es arbitrary: d)
  case (Cons e es)
  then show ?case
    using assms(2) [OF Cons.prems readLocked_Some]
    by (simp add: claim_loop_Cons Let_def split: option.split)
qed simp

lemma job_dir_invD: "job_dir_inv d \<Longrightarrow> map_of d (job_name i) = Some (JobFile job) \<Longrightarrow> job_ID job = i"
  using job_name_inj [of i "job_ID job"] unfolding job_dir_inv_def by blast

lemma claim_write_inv:
  assumes "job_dir_inv d" and "map_of d (job_name i) = Some (JobFile job)" and "job_Status job = jobStatusPending"
  shows "job_dir_inv (snd (writeLocked env (claimed env job) d))
    \<and> active_jobs (snd (writeLocked env (claimed env job) d)) \<le> active_jobs d"
  using assms job_dir_invD [OF assms(1,2)]
  by (auto intro!: writeLocked_inv active_write)

lemma claim_loop_inv:
  assumes "job_dir_inv d"
  shows "job_dir_inv (snd (claim_loop env es d)) \<and> active_jobs (snd (claim_loop env es d)) \<le> active_jobs d"
proof (rule claim_loop_keeps [where P = "\<lambda>d'. job_dir_inv d' \<and> active_jobs d' \<le> active_jobs d"])
  show "job_dir_inv (snd (writeLocked env (claimed env job) d'))
      \<and> active_jobs (snd (writeLocked env (claimed env job) d')) \<le> active_jobs d"
    if "job_dir_inv d' \<and> active_jobs d' \<le> active_jobs d" "map_of d' (job_name i) = Some (JobFile job)"
      "job_Status job = jobStatusPending" for d' i job
    using claim_write_inv [of d' i job env] that by (simp add: order_trans)
qed (simp add: assms)

definition job_store_inv :: "JobStore \<Rightarrow> bool" where
  "job_store_inv st \<longleftrightarrow> job_dir_inv (js_files st) \<and> int (active_jobs (js_files st)) \<le> js_maxJobs st"

lemma Enqueue_inv:
  assumes "job_store_inv st" and "env_reads env"
  shows "\<exists>st'. snd (Enqueue env u k r b (Some st)) = Some st' \<and> job_store_inv st' \<and> js_maxJobs st' = js_maxJobs st"
proof (cases "b = None \<or> js_maxJobs st \<le> int (active_jobs (js_files st))")
  case True
  with assms show ?thesis
    by (auto simp: Enqueue_def job_store_inv_def count_active split: option.splits)
next
  case False
  then obtain data where b: "b = Some data" "int (active_jobs (js_files st)) < js_maxJobs st" by auto
  obtain ok d' where w: "writeLocked env
     \<lparr>job_ID = u, job_Kind = k, job_RequestID = r, job_Status = jobStatusPending, job_Body = data,
      job_Result = [], job_Error = [], job_CreatedAt = env_now env, job_UpdatedAt = env_now env\<rparr>
     (js_files st) = (ok, d')" by fastforce
  have i: "job_dir_inv (js_files st)" using assms(1) by (simp add: job_store_inv_def)
  have "int (active_jobs d') \<le> js_maxJobs st"
  proof -
    have "active_jobs d' \<le> active_jobs (js_files st) + 1"
      using writeLocked_cases [OF w] active_put_le [OF i] by auto
    then show ?thesis using b(2) by simp
  qed
  moreover have "job_dir_inv d'" using writeLocked_inv [OF i] w by (metis snd_conv)
  ultimately show ?thesis using b i assms(2)
    by (simp add: Enqueue_def count_active w job_store_inv_def)
qed

lemma ClaimNext_inv:
  assumes "job_store_inv st"
  shows "\<exists>st'. snd (ClaimNext env (Some st)) = Some st' \<and> job_store_inv st' \<and> js_maxJobs st' = js_maxJobs st"
  using assms claim_loop_inv [of "js_files st" env "js_files st"]
  by (auto simp: ClaimNext_def job_store_inv_def case_prod_beta)

lemma Complete_inv:
  assumes "job_store_inv st"
  shows "\<exists>st'. snd (Complete env i outcome (Some st)) = Some st' \<and> job_store_inv st' \<and> js_maxJobs st' = js_maxJobs st"
  using assms writeLocked_inv active_write_inactive
  by (auto simp: Complete_def job_store_inv_def case_prod_beta Let_def job_status_defs
      split: option.splits sum.splits intro!: order_trans [OF _ assms(1) [unfolded job_store_inv_def, THEN conjunct2]])

section \<open>Pending jobs\<close>

definition pending_ids :: "job_dir \<Rightarrow> string set" where
  "pending_ids d = {i. \<exists>j. map_of d (job_name i) = Some (JobFile j) \<and> job_Status j = jobStatusPending}"

lemma pending_ids_put:
  assumes "job_dir_inv d"
  shows "pending_ids (dir_put (job_name i) e d) =
    (if (case e of JobFile j \<Rightarrow> job_Status j = jobStatusPending | _ \<Rightarrow> False)
     then insert i (pending_ids d) else pending_ids d - {i})"
  using assms by (auto simp: pending_ids_def job_dir_inv_def map_of_dir_put split: job_entry.splits)

lemma pending_ids_write:
  assumes "job_dir_inv d" and "writeLocked env job d = (ok, d')"
  shows "pending_ids d' \<subseteq> (if job_Status job = jobStatusPending then insert (job_ID job) (pending_ids d) else pending_ids d)
    \<and> (ok \<and> job_Status job \<noteq> jobStatusPending \<longrightarrow> job_ID job \<notin> pending_ids d')"
  using writeLocked_cases [OF assms(2)] assms(1) by (auto simp: pending_ids_put split: if_splits)

lemma claim_loop_pending:
  assumes "job_dir_inv d"
  shows "pending_ids (snd (claim_loop env es d)) \<subseteq> pending_ids d \<and>
    (\<forall>job. fst (claim_loop env es d) = Some job \<longrightarrow>
       job_ID job \<in> pending_ids d \<and> job_ID job \<notin> pending_ids (snd (claim_loop env es d)))"
  using assms
proof (induction es arbitrary: d)
  case (Cons e es)
  show ?case
  proof (cases "\<exists>job. readLocked env d (TrimSuffix (fst e) ''.json'') = Some job \<and>
      \<not> job_entry_skipped e \<and> job_Status job = jobStatusPending")
    case False
    then have "claim_loop env (e # es) d = claim_loop env es d"
      by (auto simp: claim_loop_Cons split: option.split)
    with Cons show ?thesis by simp
  next
    case True
    then obtain job where job: "readLocked env d (TrimSuffix (fst e) ''.json'') = Some job"
      "\<not> job_entry_skipped e" "job_Status job = jobStatusPending" by blast
    note m = readLocked_Some [OF job(1)]
    obtain ok d' where w: "writeLocked env (claimed env job) d = (ok, d')" by fastforce
    have p: "pending_ids d' \<subseteq> pending_ids d" "ok \<Longrightarrow> job_ID job \<notin> pending_ids d'"
      using pending_ids_write [OF Cons.prems w] by (auto simp: job_status_defs)
    have "job_ID job \<in> pending_ids d"
      using m job(3) job_dir_invD [OF Cons.prems m] by (auto simp: pending_ids_def)
    moreover have "job_dir_inv d'" using writeLocked_inv [OF Cons.prems] w by (metis snd_conv)
    ultimately show ?thesis using Cons.IH [of d'] p job w by (auto simp: claim_loop_Cons Let_def)
  qed
qed simp

section \<open>Runs of the store\<close>

datatype job_op =
    JEnqueue job_env string string string "string option"
  | JClaim job_env
  | JComplete job_env string "string + string option"

fun job_store_step :: "job_op \<Rightarrow> JobStore \<times> QueueJob list \<Rightarrow> JobStore \<times> QueueJob list" where
  "job_store_step (JEnqueue env uuid kind rid body) (st, cl) =
     (the (snd (Enqueue env uuid kind rid body (Some st))), cl)"
| "job_store_step (JClaim env) (st, cl) =
     (the (snd (ClaimNext env (Some st))),
      case fst (ClaimNext env (Some st)) of None \<Rightarrow> cl | Some job \<Rightarrow> cl @ [job])"
| "job_store_step (JComplete env ident outcome) (st, cl) =
     (the (snd (Complete env ident outcome (Some st))), cl)"

fun op_uuids :: "job_op list \<Rightarrow> string list" where
  "op_uuids [] = []"
| "op_uuids (JEnqueue env uuid kind rid body # ops) = uuid # op_uuids ops"
| "op_uuids (op # ops) = op_uuids ops"

fun op_reads :: "job_op \<Rightarrow> bool" where
  "op_reads (JEnqueue env uuid kind rid body) = env_reads env"
| "op_reads _ = True"

text \<open>The jobs handed out and those still pending are different, and all are of known ids.\<close>

definition claims_inv :: "string set \<Rightarrow> JobStore \<times> QueueJob list \<Rightarrow> bool" where
  "claims_inv U s \<longleftrightarrow>
     job_dir_inv (js_files (fst s)) \<and> distinct (map job_ID (snd s)) \<and>
     pending_ids (js_files (fst s)) \<inter> job_ID ` set (snd s) = {} \<and>
     pending_ids (js_files (fst s)) \<subseteq> U \<and> job_ID ` set (snd s) \<subseteq> U"

lemma Enqueue_files:
  assumes "job_dir_inv (js_files st)"
  shows "job_dir_inv (js_files (the (snd (Enqueue env u k r b (Some st)))))
    \<and> pending_ids (js_files (the (snd (Enqueue env u k r b (Some st))))) \<subseteq> insert u (pending_ids (js_files st))"
proof -
  let ?job = "\<lparr>job_ID = u, job_Kind = k, job_RequestID = r, job_Status = jobStatusPending,
    job_Body = the b, job_Result = [], job_Error = [], job_CreatedAt = env_now env, job_UpdatedAt = env_now env\<rparr>"
  obtain ok d' where w: "writeLocked env ?job (js_files st) = (ok, d')" by fastforce
  have "job_dir_inv d'" using writeLocked_inv [OF assms] w by (metis snd_conv)
  with assms pending_ids_write [OF assms w] w show ?thesis
    by (auto simp: Enqueue_def split: option.splits)
qed

lemma Complete_files:
  assumes "job_dir_inv (js_files st)"
  shows "job_dir_inv (js_files (the (snd (Complete env i outcome (Some st)))))
    \<and> pending_ids (js_files (the (snd (Complete env i outcome (Some st))))) \<subseteq> pending_ids (js_files st)"
proof -
  have *: "job_dir_inv (snd (writeLocked env job (js_files st)))"
    "job_Status job \<noteq> jobStatusPending \<Longrightarrow>
      pending_ids (snd (writeLocked env job (js_files st))) \<subseteq> pending_ids (js_files st)" for job
    using writeLocked_inv [OF assms, of env job]
      pending_ids_write [OF assms, of env job "fst (writeLocked env job (js_files st))"
        "snd (writeLocked env job (js_files st))"] by simp_all
  have "job_dir_inv (js_files (the (snd (Complete env i outcome (Some st)))))"
    using assms * (1) by (simp add: Complete_def Let_def case_prod_beta split: option.split sum.split)
  moreover have "pending_ids (js_files (the (snd (Complete env i outcome (Some st))))) \<subseteq> pending_ids (js_files st)"
    by (simp add: Complete_def Let_def case_prod_beta * (2) job_status_defs split: option.split sum.split)
  ultimately show ?thesis ..
qed

lemma claims_inv_grow:
  assumes "claims_inv U (st, cl)" and "job_dir_inv (js_files st')"
    and "pending_ids (js_files st') \<subseteq> V \<union> pending_ids (js_files st)" and "V \<inter> U = {}"
  shows "claims_inv (U \<union> V) (st', cl)"
proof -
  have "pending_ids (js_files st') \<inter> job_ID ` set cl = {}"
    using assms(1,3,4) unfolding claims_inv_def fst_conv snd_conv by blast
  then show ?thesis using assms unfolding claims_inv_def fst_conv snd_conv by blast
qed

lemma claims_inv_claim:
  assumes "claims_inv U (st, cl)" and "job_dir_inv (js_files st')"
    and "pending_ids (js_files st') \<subseteq> pending_ids (js_files st)"
    and "job_ID j \<in> pending_ids (js_files st)" and "job_ID j \<notin> pending_ids (js_files st')"
  shows "claims_inv U (st', cl @ [j])"
proof -
  have "job_ID j \<notin> job_ID ` set cl" "job_ID j \<in> U"
    "pending_ids (js_files st') \<inter> job_ID ` set cl = {}" "pending_ids (js_files st') \<subseteq> U"
    using assms(1,3,4) unfolding claims_inv_def fst_conv snd_conv by blast+
  with assms show ?thesis by (simp add: claims_inv_def)
qed

lemma claims_inv_step:
  assumes "claims_inv U s" and "set (op_uuids [op]) \<inter> U = {}"
  shows "claims_inv (U \<union> set (op_uuids [op])) (job_store_step op s)"
proof -
  obtain st cl where s: "s = (st, cl)" by (cases s)
  note c = assms(1) [unfolded s]
  have i: "job_dir_inv (js_files st)" using c by (simp add: claims_inv_def)
  show ?thesis
  proof (cases op)
    case (JEnqueue env u k r b)
    show ?thesis unfolding s JEnqueue job_store_step.simps
      by (rule claims_inv_grow [OF c]) (use Enqueue_files [OF i] assms(2) JEnqueue in auto)
  next
    case (JComplete env ident outcome)
    show ?thesis unfolding s JComplete job_store_step.simps
      by (rule claims_inv_grow [OF c]) (use Complete_files [OF i] in auto)
  next
    case (JClaim env)
    let ?r = "if env_readdir env then claim_loop env (js_files st) (js_files st) else (None, js_files st)"
    have n: "fst (ClaimNext env (Some st)) = fst ?r" "js_files (the (snd (ClaimNext env (Some st)))) = snd ?r"
      by (simp_all add: ClaimNext_def case_prod_beta)
    have k: "job_dir_inv (snd ?r)" "pending_ids (snd ?r) \<subseteq> pending_ids (js_files st)"
      "\<And>j. fst ?r = Some j \<Longrightarrow> job_ID j \<in> pending_ids (js_files st) \<and> job_ID j \<notin> pending_ids (snd ?r)"
      using claim_loop_pending [OF i, of env "js_files st"] claim_loop_inv [OF i, of env "js_files st"] i
      by (auto split: if_splits)
    show ?thesis
    proof (cases "fst ?r")
      case None
      have "claims_inv (U \<union> {}) (the (snd (ClaimNext env (Some st))), cl)"
        by (rule claims_inv_grow [OF c]) (use k n in simp_all)
      then show ?thesis using None n by (simp add: s JClaim)
    next
      case (Some j)
      have "claims_inv U (the (snd (ClaimNext env (Some st))), cl @ [j])"
        by (rule claims_inv_claim [OF c]) (use k(1,2) k(3) [OF Some] n in simp_all)
      then show ?thesis using Some n by (simp add: s JClaim)
    qed
  qed
qed

lemma op_uuids_Cons: "op_uuids (op # ops) = op_uuids [op] @ op_uuids ops"
  by (cases op) simp_all

lemma claims_inv_run:
  assumes "claims_inv U s" and "distinct (op_uuids ops)" and "set (op_uuids ops) \<inter> U = {}"
  shows "claims_inv (U \<union> set (op_uuids ops)) (fold job_store_step ops s)"
  using assms
proof (induction ops arbitrary: U s)
  case (Cons op ops)
  have "claims_inv (U \<union> set (op_uuids [op])) (job_store_step op s)"
    by (rule claims_inv_step) (use Cons.prems op_uuids_Cons [of op ops] in auto)
  then have "claims_inv (U \<union> set (op_uuids [op]) \<union> set (op_uuids ops)) (fold job_store_step ops (job_store_step op s))"
    by (rule Cons.IH) (use Cons.prems op_uuids_Cons [of op ops] in auto)
  then show ?case unfolding op_uuids_Cons [of op ops] by (simp add: Un_assoc)
qed simp

lemma job_store_run_inv:
  assumes "job_store_inv (fst s)" and "\<forall>op\<in>set ops. op_reads op"
  shows "job_store_inv (fst (fold job_store_step ops s)) \<and> js_maxJobs (fst (fold job_store_step ops s)) = js_maxJobs (fst s)"
  using assms
proof (induction ops arbitrary: s)
  case (Cons op ops)
  obtain st cl where s: "s = (st, cl)" by (cases s)
  have i: "job_store_inv st" using Cons.prems s by simp
  have "job_store_inv (fst (job_store_step op s)) \<and> js_maxJobs (fst (job_store_step op s)) = js_maxJobs (fst s)"
  proof (cases op)
    case (JEnqueue env u k r b)
    then have "env_reads env" using Cons.prems by simp
    from Enqueue_inv [OF i this, of u k r b] show ?thesis by (auto simp: s JEnqueue)
  next
    case (JClaim env)
    from ClaimNext_inv [OF i, of env] show ?thesis by (auto simp: s JClaim)
  next
    case (JComplete env ident outcome)
    from Complete_inv [OF i, of env ident outcome] show ?thesis by (auto simp: s JComplete)
  qed
  with Cons show ?case by simp
qed simp

section \<open>The runner\<close>

text \<open>
  \<open>JobRunner\<close>: \<open>processOne\<close> is one tick of its loop; the jobs whose goroutines run are
  \<open>jr_workers\<close>, and \<open>runner_finish\<close> is the end of one of them. \<open>jr_others\<close> counts the slots
  that requests outside the runner hold in the same queue.
\<close>

record JobRunner =
  jr_store :: "JobStore option"
  jr_queue :: "Queue option"
  jr_workers :: "QueueJob list"
  jr_others :: nat

definition processOne :: "wait_env \<Rightarrow> job_env \<Rightarrow> JobRunner \<Rightarrow> JobRunner" where
  "processOne wenv env r =
     (case queue_Acquire wenv (jr_queue r) of
        Acquired q \<Rightarrow>
          (case ClaimNext env (jr_store r) of
             (None, st) \<Rightarrow> r\<lparr>jr_queue := queue_Release q, jr_store := st\<rparr>
           | (Some job, st) \<Rightarrow> r\<lparr>jr_queue := q, jr_store := st, jr_workers := jr_workers r @ [job]\<rparr>)
      | _ \<Rightarrow> r)"

definition runner_finish :: "nat \<Rightarrow> job_env \<Rightarrow> string + string option \<Rightarrow> JobRunner \<Rightarrow> JobRunner" where
  "runner_finish k env outcome r =
     (if k < length (jr_workers r)
      then r\<lparr>jr_store := snd (Complete env (job_ID (jr_workers r ! k)) outcome (jr_store r)),
             jr_queue := queue_Release (jr_queue r),
             jr_workers := take k (jr_workers r) @ drop (Suc k) (jr_workers r)\<rparr>
      else r)"

datatype runner_op =
    RTick wait_env job_env
  | RFinish nat job_env "string + string option"
  | RAcquire wait_env
  | RRelease

fun runner_step :: "runner_op \<Rightarrow> JobRunner \<Rightarrow> JobRunner" where
  "runner_step (RTick wenv env) r = processOne wenv env r"
| "runner_step (RFinish k env outcome) r = runner_finish k env outcome r"
| "runner_step (RAcquire wenv) r =
     (case queue_Acquire wenv (jr_queue r) of
        Acquired q \<Rightarrow> r\<lparr>jr_queue := q, jr_others := jr_others r + 1\<rparr>
      | _ \<Rightarrow> r)"
| "runner_step RRelease r =
     (if 0 < jr_others r
      then r\<lparr>jr_queue := queue_Release (jr_queue r), jr_others := jr_others r - 1\<rparr> else r)"

definition runner_inv :: "nat \<Rightarrow> JobRunner \<Rightarrow> bool" where
  "runner_inv c r \<longleftrightarrow> (\<exists>q. jr_queue r = Some q \<and> sem_cap q = c \<and> sem_len q \<le> c \<and>
     sem_len q = length (jr_workers r) + jr_others r)"

lemma runner_acquired:
  assumes "runner_inv c r" and "queue_Acquire wenv (jr_queue r) = Acquired q"
  shows "\<exists>qu. q = Some qu \<and> sem_cap qu = c \<and> sem_len qu \<le> c \<and>
    sem_len qu = length (jr_workers r) + jr_others r + 1"
  using assms by (auto simp: runner_inv_def queue_Acquire_def split: if_splits ctx_state.splits)

lemma runner_step_inv [inv_intros]:
  assumes "runner_inv c r" shows "runner_inv c (runner_step op r)"
proof (cases op)
  case (RTick wenv env)
  show ?thesis
  proof (cases "queue_Acquire wenv (jr_queue r)")
    case (Acquired q)
    from runner_acquired [OF assms Acquired] Acquired RTick show ?thesis
      by (auto simp: processOne_def runner_inv_def queue_Release_def split: prod.split option.split)
  qed (use assms RTick in \<open>simp_all add: processOne_def\<close>)
next
  case (RFinish k env outcome)
  with assms show ?thesis by (auto simp: runner_finish_def runner_inv_def queue_Release_def)
next
  case (RAcquire wenv)
  show ?thesis
  proof (cases "queue_Acquire wenv (jr_queue r)")
    case (Acquired q)
    from runner_acquired [OF assms Acquired] Acquired RAcquire show ?thesis
      by (auto simp: runner_inv_def)
  qed (use assms RAcquire in simp_all)
next
  case RRelease
  with assms show ?thesis by (auto simp: runner_inv_def queue_Release_def)
qed

definition runner_New :: "int \<Rightarrow> duration \<Rightarrow> JobStore option \<Rightarrow> JobRunner" where
  "runner_New n w st = \<lparr>jr_store = st, jr_queue = Some (queue_New n w), jr_workers = [], jr_others = 0\<rparr>"

lemma runner_run_inv: "runner_inv (sem_cap (queue_New n w)) (fold runner_step ops (runner_New n w st))"
proof (rule fold_invariant [where P = "runner_inv (sem_cap (queue_New n w))"])
  show "runner_inv (sem_cap (queue_New n w)) (runner_New n w st)"
    by (simp add: runner_inv_def runner_New_def queue_New_def)
qed (rule runner_step_inv)

section \<open>Properties\<close>

text \<open>A file system on which nothing fails.\<close>

definition good_env :: "time \<Rightarrow> job_env" where
  "good_env now = \<lparr>env_now = now, env_readdir = True, env_readable = (\<lambda>_. True), env_write = (\<lambda>_. WriteOk)\<rparr>"

definition sample_job :: "string \<Rightarrow> string \<Rightarrow> QueueJob" where
  "sample_job ident status = \<lparr>job_ID = ident, job_Kind = ''chat'', job_RequestID = ''r'', job_Status = status,
     job_Body = ''{}'', job_Result = [], job_Error = [], job_CreatedAt = 0, job_UpdatedAt = 0\<rparr>"

lemma TrimSpace_q: "TrimSpace ''q'' = ''q''"
  by (simp add: TrimSpace_def trim_chunks_def space_chunk_def decode_rune_1 IsSpace_def)

lemma sample_job_dir_inv: "job_dir_inv [(''a.json'', JobFile (sample_job ''a'' status))]"
  by (auto simp: job_dir_inv_def sample_job_def job_name_def split: if_splits)

lemma good_env_simps [simp]:
  "env_reads (good_env now)" "env_write (good_env now) n = WriteOk" "env_readable (good_env now) n"
  by (simp_all add: env_reads_def good_env_def)

text \<open>
  C27: From an empty directory, with fresh ids, no job is ever handed out twice, whatever the file
  system does: reads and writes may fail or tear files at any point.
\<close>

theorem jobs_claimed_once:
  assumes "NewJobStore [] dir n = Some st" and "distinct (op_uuids ops)"
  shows "distinct (map job_ID (snd (fold job_store_step ops (st, []))))"
proof -
  have "claims_inv {} (st, [])" using assms(1)
    by (auto simp: claims_inv_def NewJobStore_def job_dir_inv_def pending_ids_def split: if_splits)
  from claims_inv_run [OF this assms(2)] show ?thesis by (simp add: claims_inv_def)
qed

theorem jobs_claimed_once_witness:
  "distinct (map job_ID (snd (fold job_store_step
     [JEnqueue (good_env 1) ''b'' ''chat'' ''r1'' (Some ''{}''), JClaim (good_env 2),
      JEnqueue (good_env 3) ''a'' ''chat'' ''r2'' (Some ''{}''), JClaim (good_env 4)]
     (\<lparr>js_files = [], js_maxJobs = 2, js_completed = 0\<rparr>, []))))"
  by (rule jobs_claimed_once [of "''q''" 2])
    (simp_all add: NewJobStore_def TrimSpace_q)

text \<open>
  As long as the directory can be read when jobs are added, the store never holds more
  pending and running jobs than its maximum.
\<close>

theorem jobs_bounded:
  assumes "NewJobStore [] dir n = Some st" and "\<forall>op\<in>set ops. op_reads op" and "env_reads env"
  shows "PendingCount env (Some (fst (fold job_store_step ops (st, [])))) \<le> (if n \<le> 0 then 256 else n)"
proof -
  have "job_store_inv st" "js_maxJobs st = (if n \<le> 0 then 256 else n)" using assms(1)
    by (auto simp: job_store_inv_def NewJobStore_def job_dir_inv_def active_jobs_def split: if_splits)
  with job_store_run_inv [of "(st, [])", OF _ assms(2)] count_active [OF _ assms(3)]
  show ?thesis by (simp add: job_store_inv_def PendingCount_def)
qed

theorem jobs_bounded_witness:
  "PendingCount (good_env 9) (Some (fst (fold job_store_step
     [JEnqueue (good_env 1) ''b'' ''chat'' ''r1'' (Some ''{}''),
      JEnqueue (good_env 3) ''a'' ''chat'' ''r2'' (Some ''{}'')]
     (\<lparr>js_files = [], js_maxJobs = 1, js_completed = 0\<rparr>, [])))) \<le> 1"
  using jobs_bounded [of "''q''" 1 "\<lparr>js_files = [], js_maxJobs = 1, js_completed = 0\<rparr>"
    "[JEnqueue (good_env 1) ''b'' ''chat'' ''r1'' (Some ''{}''),
      JEnqueue (good_env 3) ''a'' ''chat'' ''r2'' (Some ''{}'')]" "good_env 9"]
  by (simp add: NewJobStore_def TrimSpace_q)

text \<open>
  When the directory can be read and written, \<open>ClaimNext\<close> hands out the first pending job
  in the order of the file names, marked as running and stored so; without a pending job it changes
  nothing.
\<close>

theorem ClaimNext_first:
  assumes "job_dir_inv (js_files st)" and "env_reads env" and "\<forall>n. env_write env n = WriteOk"
  shows "ClaimNext env (Some st) =
    (case filter (entry_has_status {jobStatusPending}) (js_files st) of
       (n, JobFile job) # _ \<Rightarrow>
         (Some (claimed env job), Some (st\<lparr>js_files := dir_put n (JobFile (claimed env job)) (js_files st)\<rparr>))
     | _ \<Rightarrow> (None, Some st))"
proof -
  let ?d = "js_files st"
  have "claim_loop env es ?d =
    (case filter (entry_has_status {jobStatusPending}) es of
       (n, JobFile job) # _ \<Rightarrow> (Some (claimed env job), dir_put n (JobFile (claimed env job)) ?d)
     | _ \<Rightarrow> (None, ?d))" if "set es \<subseteq> set ?d" for es
    using that
  proof (induction es)
    case (Cons e es)
    have m: "map_of ?d (fst e) = Some (snd e)"
      using Cons.prems assms(1) map_of_in_sorted [of ?d "fst e" "snd e"] by (simp add: job_dir_inv_def)
    show ?case
    proof (cases "HasSuffix (fst e) ''.json''")
      case False
      then show ?thesis using Cons
        by (auto simp: claim_loop_Cons entry_has_status_def job_entry_skipped_def split: option.split)
    next
      case True
      then have n: "job_name (TrimSuffix (fst e) ''.json'') = fst e" by (rule job_name_TrimSuffix)
      have "fst e = job_name (job_ID j)" if "snd e = JobFile j" for j
        using m that assms(1) by (simp add: job_dir_inv_def)
      then show ?thesis using Cons True m n assms(2,3)
        by (cases e; cases "snd e")
          (auto simp: claim_loop_Cons entry_has_status_def job_entry_skipped_def readLocked_def
            env_reads_def writeLocked_def Let_def)
    qed
  qed simp
  from this [of ?d] assms(2) show ?thesis
    by (simp add: ClaimNext_def env_reads_def split: list.split job_entry.split prod.split)
qed

theorem ClaimNext_first_witness:
  "ClaimNext (good_env 5) (Some \<lparr>js_files =
      [(''a.json'', JobFile (sample_job ''a'' ''running'')), (''b.json'', JobFile (sample_job ''b'' ''pending'')),
       (''c.json'', JobFile (sample_job ''c'' ''pending''))], js_maxJobs = 3, js_completed = 0\<rparr>) =
   (Some (claimed (good_env 5) (sample_job ''b'' ''pending'')), Some \<lparr>js_files =
      [(''a.json'', JobFile (sample_job ''a'' ''running'')),
       (''b.json'', JobFile (claimed (good_env 5) (sample_job ''b'' ''pending''))),
       (''c.json'', JobFile (sample_job ''c'' ''pending''))], js_maxJobs = 3, js_completed = 0\<rparr>)"
  by (subst ClaimNext_first)
    (simp_all add: job_dir_inv_def entry_has_status_def HasSuffix_def HasPrefix_def sample_job_def
      job_name_def job_status_defs less_char_def)

text \<open>
  A job completed on a readable and writable directory can be read back under its id with the
  outcome of its run, and nothing is left to claim under that id.
\<close>

theorem Complete_then_Get:
  assumes "job_dir_inv (js_files st)" and "readLocked env (js_files st) ident = Some job"
    and "env_write env (job_name ident) = WriteOk"
  shows "(case outcome of
      Inl e \<Rightarrow> \<exists>st'. Complete env ident (Inl e) (Some st) = (None, Some st') \<and>
        job_Get env ident (Some st') = Some (job\<lparr>job_UpdatedAt := env_now env, job_Status := jobStatusFailed, job_Error := e\<rparr>)
        \<and> ident \<notin> pending_ids (js_files st') \<and> js_completed st' = js_completed st
    | Inr raw \<Rightarrow> \<exists>st'. Complete env ident (Inr (Some raw)) (Some st) = (None, Some st') \<and>
        job_Get env ident (Some st') = Some (job\<lparr>job_UpdatedAt := env_now env, job_Status := jobStatusCompleted, job_Result := raw\<rparr>)
        \<and> ident \<notin> pending_ids (js_files st') \<and> js_completed st' = js_completed st + 1)"
proof -
  have m: "map_of (js_files st) (job_name ident) = Some (JobFile job)" and r: "env_readable env (job_name ident)"
    using assms(2) by (auto simp: readLocked_def split: option.splits job_entry.splits if_splits)
  have i: "job_ID job = ident" by (rule job_dir_invD [OF assms(1) m])
  have s: "sorted_wrt (<) (map fst (js_files st))" using assms(1) by (simp add: job_dir_inv_def)
  show ?thesis
    using assms(2,3) i m r map_of_dir_put [OF s]
    by (auto simp: Complete_def job_Get_def Let_def writeLocked_def readLocked_def pending_ids_def
        job_status_defs split: sum.split)
qed

theorem Complete_then_Get_witness:
  "\<exists>st'. Complete (good_env 5) ''a'' (Inr (Some ''1'')) (Some \<lparr>js_files =
      [(''a.json'', JobFile (sample_job ''a'' ''running''))], js_maxJobs = 3, js_completed = 0\<rparr>) = (None, Some st')
   \<and> js_completed st' = 1"
  using Complete_then_Get [of "\<lparr>js_files = [(''a.json'', JobFile (sample_job ''a'' ''running''))],
      js_maxJobs = 3, js_completed = 0\<rparr>" "good_env 5" "''a''" "sample_job ''a'' ''running''" "Inr ''1''"]
  by (simp add: sample_job_dir_inv readLocked_def job_name_def) blast

text \<open>
  However ticks, completions and outside requests interleave, the runner never runs more jobs
  than the request queue has slots, and the queue counts exactly the running jobs and the outside
  requests: no path of \<open>processOne\<close> loses a slot.
\<close>

theorem runner_slots:
  "\<exists>q. jr_queue (fold runner_step ops (runner_New n w st)) = Some q \<and> sem_cap q = sem_cap (queue_New n w)
    \<and> sem_len q = length (jr_workers (fold runner_step ops (runner_New n w st)))
        + jr_others (fold runner_step ops (runner_New n w st))
    \<and> length (jr_workers (fold runner_step ops (runner_New n w st))) \<le> sem_cap (queue_New n w)"
  using runner_run_inv [of n w ops st] by (auto simp: runner_inv_def)

text \<open>
  When running jobs hold every slot, no request on the same queue succeeds; a job whose
  execution makes such a request (the chat service does, through the runner client) waits for a
  slot that only the end of a job can free.
\<close>

theorem runner_starves:
  assumes "length (jr_workers (fold runner_step ops (runner_New n w st))) = sem_cap (queue_New n w)"
  shows "queue_Acquire wenv (jr_queue (fold runner_step ops (runner_New n w st))) \<noteq> Acquired q"
  using runner_run_inv [of n w ops st] runner_acquired [OF runner_run_inv [of n w ops st], of wenv q] assms
  by auto

theorem runner_starves_witness:
  "\<forall>q. queue_Acquire live_env (jr_queue (fold runner_step [RTick live_env (good_env 1)]
     (runner_New 1 0 (Some \<lparr>js_files = [(''a.json'', JobFile (sample_job ''a'' ''pending''))],
        js_maxJobs = 3, js_completed = 0\<rparr>)))) \<noteq> Acquired q"
  by (intro allI, rule runner_starves)
    (simp add: processOne_def queue_Acquire_def runner_New_def queue_New_def ClaimNext_def good_env_def
      claim_loop_Cons readLocked_def job_name_def TrimSuffix_def HasSuffix_def HasPrefix_def sample_job_def
      job_status_defs job_entry_skipped_def writeLocked_def claimed_def Let_def)

end
