(* ===== verification/ChatMessages.thy ===== *)
theory ChatMessages
  imports GoStrings Interfaces
begin

text \<open>
  Chat messages: the record and the roles of \<open>pkg/domain\<close> (\<open>chat_session.go\<close>,
  \<open>message.go\<close>), the file names and MIME types of images (\<open>pkg/document/image.go\<close>), and
  from \<open>pkg/llmhistory\<close> the filter of the history and the estimate of a message's tokens. A
  pointer to a message is an option, \<open>None\<close> for nil. The estimate of a list is an
  interpretation of \<open>cost_model\<close>.
\<close>

section \<open>Messages and roles\<close>

definition MessageRoleSystem :: string where "MessageRoleSystem = ''system''"
definition MessageRoleUser :: string where "MessageRoleUser = ''user''"
definition MessageRoleAssistant :: string where "MessageRoleAssistant = ''assistant''"
definition MessageRoleTool :: string where "MessageRoleTool = ''tool''"

lemmas role_defs = MessageRoleSystem_def MessageRoleUser_def MessageRoleAssistant_def MessageRoleTool_def

record Message =
  msg_Id :: int
  msg_SessionId :: int
  msg_Content :: string
  msg_Role :: string
  msg_AttachmentName :: string
  msg_AttachmentMime :: string
  msg_AttachmentFileID :: "int option"
  msg_AttachmentContent :: string
  msg_ToolCallID :: string
  msg_ToolName :: string
  msg_ToolCallsJSON :: string
  msg_CreatedAt :: time
  msg_UpdatedAt :: time
  msg_DeletedAt :: "time option"

type_synonym messages = "Message option list"

definition FromProtoRole :: "string \<Rightarrow> string" where
  "FromProtoRole role =
     (let r = ToLower (TrimSpace role) in
      if r = ''system'' then MessageRoleSystem
      else if r = ''user'' then MessageRoleUser
      else if r = ''assistant'' then MessageRoleAssistant
      else if r = ''tool'' then MessageRoleTool
      else MessageRoleUser)"

definition ToProtoRole :: "string \<Rightarrow> string" where
  "ToProtoRole role = role"

definition FilterHistoryForLLM :: "messages \<Rightarrow> messages" where
  "FilterHistoryForLLM ms =
     filter (\<lambda>m. case m of
         None \<Rightarrow> False
       | Some msg \<Rightarrow> \<not> (msg_Role msg = MessageRoleAssistant \<and> TrimSpace (msg_Content msg) = [] \<and>
           TrimSpace (msg_ToolCallsJSON msg) = [])) ms"

section \<open>Images\<close>

text \<open>\<open>filepath.Ext\<close>: from the last dot of the last path element.\<close>

fun ext_rev :: "string \<Rightarrow> string \<Rightarrow> string" where
  "ext_rev [] acc = []"
| "ext_rev (c # cs) acc =
     (if c = CHR ''/'' then [] else if c = CHR ''.'' then c # acc else ext_rev cs (c # acc))"

definition filepath_Ext :: "string \<Rightarrow> string" where
  "filepath_Ext path = ext_rev (rev path) []"

definition imageExtensions :: "string set" where
  "imageExtensions = {''.png'', ''.jpg'', ''.jpeg'', ''.webp'', ''.gif''}"

definition allowedChatImageMIMETypes :: "string set" where
  "allowedChatImageMIMETypes = {''image/jpeg'', ''image/png'', ''image/webp'', ''image/gif''}"

definition IsImageAttachment :: "string \<Rightarrow> bool" where
  "IsImageAttachment filename \<longleftrightarrow> ToLower (filepath_Ext (TrimSpace filename)) \<in> imageExtensions"

definition IsAllowedChatImageMIME :: "string \<Rightarrow> bool" where
  "IsAllowedChatImageMIME mime \<longleftrightarrow> ToLower (TrimSpace mime) \<in> allowedChatImageMIMETypes"

definition ImageMIMEFromFilename :: "string \<Rightarrow> string" where
  "ImageMIMEFromFilename filename =
     (if \<not> IsImageAttachment filename then []
      else
        let e = ToLower (filepath_Ext (TrimSpace filename)) in
        if e \<in> {''.jpg'', ''.jpeg''} then ''image/jpeg''
        else if e = ''.png'' then ''image/png''
        else if e = ''.webp'' then ''image/webp''
        else if e = ''.gif'' then ''image/gif''
        else [])"

section \<open>Token estimates\<close>

definition messageHasLikelyVisionImage :: "Message option \<Rightarrow> bool" where
  "messageHasLikelyVisionImage m =
     (case m of
        None \<Rightarrow> False
      | Some msg \<Rightarrow>
          if msg_AttachmentContent msg = [] then False
          else
            let mt = ToLower (TrimSpace (msg_AttachmentMime msg)) in
            if HasPrefix mt ''image/'' then True
            else if mt = [] then
              IsImageAttachment (msg_AttachmentName msg) \<or> TrimSpace (msg_AttachmentName msg) = []
            else False)"

definition approxVisionImageTokens :: "nat \<Rightarrow> nat" where
  "approxVisionImageTokens byteLen =
     (if byteLen = 0 then 0 else min (max (byteLen div 16) 256) 8192)"

definition ApproximateMessageTokens :: "Message option \<Rightarrow> nat" where
  "ApproximateMessageTokens m =
     (case m of
        None \<Rightarrow> 0
      | Some msg \<Rightarrow>
          let rs = RuneCount (msg_Content msg) + RuneCount (msg_ToolCallsJSON msg)
                + RuneCount (msg_ToolName msg) + RuneCount (msg_ToolCallID msg);
              (rs, extraTok) =
                (if msg_AttachmentContent msg \<noteq> [] then
                   if messageHasLikelyVisionImage m then
                     (rs + (if TrimSpace (msg_AttachmentMime msg) \<noteq> []
                            then RuneCount (msg_AttachmentMime msg)
                            else RuneCount (msg_AttachmentName msg)),
                      approxVisionImageTokens (length (msg_AttachmentContent msg)))
                   else
                     (rs + length (msg_AttachmentContent msg) div 4 + RuneCount (msg_AttachmentMime msg), 0)
                 else (rs + RuneCount (msg_AttachmentName msg), 0));
              tok = rs div 4 + 6 + extraTok
          in if tok < 1 then 1 else tok)"

primrec SumApproxTokens :: "messages \<Rightarrow> nat" where
  "SumApproxTokens [] = 0"
| "SumApproxTokens (m # ms) = ApproximateMessageTokens m + SumApproxTokens ms"

interpretation msg_tokens: cost_model ApproximateMessageTokens SumApproxTokens
  by unfold_locales simp_all

section \<open>Lemmas\<close>

text \<open>What the estimate of a message depends on besides its content.\<close>

definition msg_rest_tokens :: "Message \<Rightarrow> nat \<times> nat" where
  "msg_rest_tokens msg =
     (RuneCount (msg_ToolCallsJSON msg) + RuneCount (msg_ToolName msg) + RuneCount (msg_ToolCallID msg)
        + (if msg_AttachmentContent msg \<noteq> [] then
             if messageHasLikelyVisionImage (Some msg) then
               (if TrimSpace (msg_AttachmentMime msg) \<noteq> []
                then RuneCount (msg_AttachmentMime msg) else RuneCount (msg_AttachmentName msg))
             else length (msg_AttachmentContent msg) div 4 + RuneCount (msg_AttachmentMime msg)
           else RuneCount (msg_AttachmentName msg)),
      if msg_AttachmentContent msg \<noteq> [] \<and> messageHasLikelyVisionImage (Some msg)
      then approxVisionImageTokens (length (msg_AttachmentContent msg)) else 0)"

lemma ApproximateMessageTokens_Some:
  "ApproximateMessageTokens (Some msg) =
     (RuneCount (msg_Content msg) + fst (msg_rest_tokens msg)) div 4 + 6 + snd (msg_rest_tokens msg)"
  by (simp add: ApproximateMessageTokens_def msg_rest_tokens_def Let_def algebra_simps)

lemma msg_rest_tokens_content [simp]:
  "msg_rest_tokens (msg\<lparr>msg_Content := c\<rparr>) = msg_rest_tokens msg"
  by (simp add: msg_rest_tokens_def messageHasLikelyVisionImage_def)

lemma ApproximateMessageTokens_mono:
  "RuneCount c \<le> RuneCount (msg_Content msg) \<Longrightarrow>
   ApproximateMessageTokens (Some (msg\<lparr>msg_Content := c\<rparr>)) \<le> ApproximateMessageTokens (Some msg)"
  by (simp add: ApproximateMessageTokens_Some div_le_mono)

lemma ApproximateMessageTokens_content_ge:
  "RuneCount (msg_Content msg) div 4 + 6 \<le> ApproximateMessageTokens (Some msg)"
  by (simp add: ApproximateMessageTokens_Some div_le_mono trans_le_add1)

lemma approxVisionImageTokens_bounds:
  "0 < n \<Longrightarrow> 256 \<le> approxVisionImageTokens n \<and> approxVisionImageTokens n \<le> 8192"
  by (simp add: approxVisionImageTokens_def)

text \<open>Every name accepted as an image has a MIME type accepted for chat images.\<close>

lemma ImageMIME_of_image:
  "IsImageAttachment f \<Longrightarrow> ImageMIMEFromFilename f \<in> allowedChatImageMIMETypes"
  by (auto simp: IsImageAttachment_def ImageMIMEFromFilename_def imageExtensions_def
      allowedChatImageMIMETypes_def Let_def)

section \<open>Properties\<close>

text \<open>
  The role read from a request is always one of the four roles, and reading a role back from
  what was sent changes nothing, whatever its case and the space around it.
\<close>

theorem FromProtoRole_roundtrip:
  "FromProtoRole role \<in> {MessageRoleSystem, MessageRoleUser, MessageRoleAssistant, MessageRoleTool}
   \<and> FromProtoRole (ToProtoRole (FromProtoRole role)) = FromProtoRole role
   \<and> FromProtoRole (ToLower (TrimSpace role)) = FromProtoRole role"
proof -
  have t: "TrimSpace ''user'' = ''user''" "TrimSpace ''system'' = ''system''"
    "TrimSpace ''assistant'' = ''assistant''" "TrimSpace ''tool'' = ''tool''"
    by (simp_all add: TrimSpace_eval)
  have l: "ToLower ''user'' = ''user''" "ToLower ''system'' = ''system''"
    "ToLower ''assistant'' = ''assistant''" "ToLower ''tool'' = ''tool''"
    by (simp_all add: ToLower_lower)
  show ?thesis by (simp add: FromProtoRole_def ToProtoRole_def Let_def role_defs t l)
qed

end
