(* ===== verification/ContextBudget.thy ===== *)
theory ContextBudget
  imports GoStrings Interfaces
begin

text \<open>
  The token budgets of \<open>pkg/contextbudget\<close> (\<open>policy.go\<close>, \<open>history.go\<close>): the estimate of
  four characters per token, the budgets left for context and history, the ranks of context
  snippets, and the trimming of texts and chat lines to a budget. Budgets are unbounded integers;
  the program's stay far below the range of \<open>int\<close>. The estimate of a list of lines is an
  interpretation of \<open>cost_model\<close>; the lemmas bound what trimming leaves and say which lines it
  keeps.
\<close>

section \<open>Budgets\<close>

definition ApproxCharsPerToken :: nat where "ApproxCharsPerToken = 4"
definition DefaultTokenBudget :: int where "DefaultTokenBudget = 8192"
definition SystemReserveTokens :: int where "SystemReserveTokens = 512"
definition MinContextBudget :: int where "MinContextBudget = 256"
definition perMessageOverheadTokens :: nat where "perMessageOverheadTokens = 4"
definition historySafetyMargin :: int where "historySafetyMargin = 256"

lemmas budget_consts = ApproxCharsPerToken_def DefaultTokenBudget_def SystemReserveTokens_def
  MinContextBudget_def perMessageOverheadTokens_def historySafetyMargin_def

definition EffectiveBudget :: "int \<Rightarrow> int \<Rightarrow> int" where
  "EffectiveBudget configured runnerMax =
     (if 0 < configured \<and> 0 < runnerMax then (if configured < runnerMax then configured else runnerMax)
      else if 0 < configured then configured
      else if 0 < runnerMax then runnerMax
      else DefaultTokenBudget)"

definition ContextBudgetAfterReserve :: "int \<Rightarrow> int \<Rightarrow> int" where
  "ContextBudgetAfterReserve totalBudget systemTokens =
     (let total = (if totalBudget \<le> 0 then DefaultTokenBudget else totalBudget);
          budget = total - systemTokens - SystemReserveTokens
      in if budget < MinContextBudget then MinContextBudget else budget)"

definition HistoryTokenBudget :: "int \<Rightarrow> int \<Rightarrow> int \<Rightarrow> int \<Rightarrow> int" where
  "HistoryTokenBudget totalBudget systemTokens contextTokens generateMaxTokens =
     (let total = (if totalBudget \<le> 0 then DefaultTokenBudget else totalBudget);
          reserved = systemTokens + contextTokens + generateMaxTokens + SystemReserveTokens + historySafetyMargin;
          budget = total - reserved
      in if budget < MinContextBudget then MinContextBudget else budget)"

section \<open>Snippet ranks\<close>

definition PrioritySelection :: int where "PrioritySelection = 0"
definition PriorityEditor :: int where "PriorityEditor = 1"
definition PriorityMention :: int where "PriorityMention = 2"
definition PriorityAuto :: int where "PriorityAuto = 3"
definition PriorityRetrieval :: int where "PriorityRetrieval = 4"
definition PriorityAux :: int where "PriorityAux = 5"
definition PriorityFolder :: int where "PriorityFolder = 6"
definition PriorityUnknown :: int where "PriorityUnknown = 7"
definition PriorityWorkspace :: int where "PriorityWorkspace = 10"

lemmas priority_defs = PrioritySelection_def PriorityEditor_def PriorityMention_def PriorityAuto_def
  PriorityRetrieval_def PriorityAux_def PriorityFolder_def PriorityUnknown_def PriorityWorkspace_def

definition SnippetPriority :: "string \<Rightarrow> int" where
  "SnippetPriority source =
     (let s = ToLower (TrimSpace source) in
      if s = ''selection'' then PrioritySelection
      else if s \<in> {''active_file'', ''editor'', ''active''} then PriorityEditor
      else if s \<in> {''mention'', ''file'', ''@file''} then PriorityMention
      else if s \<in> {''auto'', ''import''} then PriorityAuto
      else if s \<in> {''codebase'', ''search''} then PriorityRetrieval
      else if s \<in> {''terminal'', ''git'', ''diagnostics''} then PriorityAux
      else if s = ''folder'' then PriorityFolder
      else PriorityUnknown)"

section \<open>Estimates and texts\<close>

definition EstimateTokens :: "string \<Rightarrow> nat" where
  "EstimateTokens text =
     (let n = RuneCount text in
      if n = 0 then 0
      else let tokens = n div ApproxCharsPerToken in if tokens < 1 then 1 else tokens)"

definition truncated_notice :: string where
  "truncated_notice = CHR 0x0A # ''...[truncated]''"

definition TrimToTokenBudget :: "string \<Rightarrow> int \<Rightarrow> string" where
  "TrimToTokenBudget text budget =
     (if budget \<le> 0 then []
      else let maxChars = nat budget * ApproxCharsPerToken; rs = runes text in
        if length rs \<le> maxChars then text else utf8 (take maxChars rs) @ truncated_notice)"

section \<open>Chat lines\<close>

record ChatLine =
  cl_Role :: string
  cl_Content :: string

definition EstimateChatLineTokens :: "ChatLine \<Rightarrow> nat" where
  "EstimateChatLineTokens line =
     (let content = TrimSpace (cl_Content line) in
      if content = [] then 0 else EstimateTokens content + perMessageOverheadTokens)"

primrec sumChatLineTokens :: "ChatLine list \<Rightarrow> nat" where
  "sumChatLineTokens [] = 0"
| "sumChatLineTokens (line # lines) = EstimateChatLineTokens line + sumChatLineTokens lines"

text \<open>The loop that drops the oldest line, with whether it dropped one.\<close>

fun drop_oldest :: "int \<Rightarrow> ChatLine list \<Rightarrow> bool \<Rightarrow> ChatLine list \<times> bool" where
  "drop_oldest maxTokens trimmed changed =
     (if 1 < length trimmed \<and> maxTokens < int (sumChatLineTokens trimmed)
      then drop_oldest maxTokens (tl trimmed) True
      else (trimmed, changed))"

declare drop_oldest.simps [simp del]

definition TrimChatLines :: "ChatLine list \<Rightarrow> int \<Rightarrow> ChatLine list \<times> bool" where
  "TrimChatLines lines maxTokens =
     (if maxTokens \<le> 0 \<or> lines = [] then (lines, False)
      else if int (sumChatLineTokens lines) \<le> maxTokens then (lines, False)
      else
        let (trimmed, changed) = drop_oldest maxTokens lines False in
        if length trimmed = 1 \<and> maxTokens < int (sumChatLineTokens trimmed)
        then
          let line = hd trimmed in
          ([line\<lparr>cl_Content := TrimToTokenBudget (cl_Content line) (maxTokens - int perMessageOverheadTokens)\<rparr>],
           True)
        else (trimmed, changed))"

interpretation chat_lines: cost_model EstimateChatLineTokens sumChatLineTokens
  by unfold_locales simp_all

section \<open>Lemmas\<close>

lemma EstimateTokens_Nil [simp]: "EstimateTokens [] = 0"
  by (simp add: EstimateTokens_def)

lemma EstimateTokens_eq: "EstimateTokens s = (if s = [] then 0 else max 1 (RuneCount s div 4))"
  by (auto simp: EstimateTokens_def ApproxCharsPerToken_def Let_def)

lemma EstimateTokens_mono: "RuneCount s \<le> RuneCount t \<Longrightarrow> EstimateTokens s \<le> EstimateTokens t"
  by (auto simp: EstimateTokens_eq dest: div_le_mono [where k = 4] split: if_splits)

lemma EstimateTokens_TrimSpace: "EstimateTokens (TrimSpace s) \<le> EstimateTokens s"
  by (rule EstimateTokens_mono) (rule RuneCount_TrimSpace_le)

lemma RuneCount_notice: "RuneCount truncated_notice = 15"
  by (simp add: truncated_notice_def RuneCount_def)

lemma RuneCount_TrimToTokenBudget:
  "RuneCount (TrimToTokenBudget s b) \<le> nat b * 4 + 15"
  "RuneCount s \<le> nat b * 4 \<Longrightarrow> 0 < b \<Longrightarrow> TrimToTokenBudget s b = s"
  by (auto simp: TrimToTokenBudget_def Let_def ApproxCharsPerToken_def RuneCount_def
      RuneCount_take_append [unfolded RuneCount_def] RuneCount_notice [unfolded RuneCount_def])


lemma RuneCount_TrimToTokenBudget_nonpos [simp]: "b \<le> 0 \<Longrightarrow> TrimToTokenBudget s b = []"
  by (simp add: TrimToTokenBudget_def)

lemma EstimateTokens_TrimToTokenBudget: "int (EstimateTokens (TrimToTokenBudget s b)) \<le> max 0 b + 3"
proof (cases "b \<le> 0")
  case False
  then obtain k where b: "b = int k" "0 < k" by (metis not_le zero_less_imp_eq_int)
  have "RuneCount (TrimToTokenBudget s b) div 4 \<le> (k * 4 + 15) div 4"
    using RuneCount_TrimToTokenBudget(1) [of s b] b by (intro div_le_mono) simp
  also have "\<dots> = k + 3" by simp
  finally have "EstimateTokens (TrimToTokenBudget s b) \<le> k + 3"
    using b by (simp add: EstimateTokens_eq)
  then show ?thesis using b by simp
qed simp

lemma EstimateChatLineTokens_le: "EstimateChatLineTokens l \<le> EstimateTokens (cl_Content l) + 4"
  using EstimateTokens_TrimSpace [of "cl_Content l"]
  by (simp add: EstimateChatLineTokens_def Let_def perMessageOverheadTokens_def)

text \<open>The loop stops at the first suffix that fits, or at the last line.\<close>

lemma drop_oldest_spec:
  "\<exists>n. drop_oldest b ls ch = (drop n ls, ch \<or> 0 < n) \<and>
     (n = 0 \<or> n < length ls) \<and> (\<forall>m<n. b < int (sumChatLineTokens (drop m ls))) \<and>
     (length (drop n ls) \<le> 1 \<or> int (sumChatLineTokens (drop n ls)) \<le> b)"
proof (induction b ls ch rule: drop_oldest.induct)
  case (1 b ls ch)
  show ?case
  proof (cases "1 < length ls \<and> b < int (sumChatLineTokens ls)")
    case False
    then show ?thesis by (subst drop_oldest.simps) (auto intro!: exI [of _ 0])
  next
    case True
    then obtain n where n: "drop_oldest b (tl ls) True = (drop n (tl ls), True)" "n = 0 \<or> n < length (tl ls)"
      "\<forall>m<n. b < int (sumChatLineTokens (drop m (tl ls)))"
      "length (drop n (tl ls)) \<le> 1 \<or> int (sumChatLineTokens (drop n (tl ls))) \<le> b"
      using 1 by auto
    have "b < int (sumChatLineTokens (drop m ls))" if "m < Suc n" for m
      using n(3) True that by (cases m) (auto simp: drop_Suc)
    then show ?thesis using True n
      by (subst drop_oldest.simps) (auto simp: drop_Suc intro!: exI [of _ "Suc n"])
  qed
qed

lemma sumChatLineTokens_suffix: "sumChatLineTokens (drop n ls) \<le> sumChatLineTokens ls"
  by (rule chat_lines.total_drop_le)

lemma sumChatLineTokens_drop_mono:
  "m \<le> n \<Longrightarrow> sumChatLineTokens (drop n ls) \<le> sumChatLineTokens (drop m ls)"
  using sumChatLineTokens_suffix [of "n - m" "drop m ls"] by simp

lemma EffectiveBudget_pos: "0 < EffectiveBudget c r"
  by (simp add: EffectiveBudget_def DefaultTokenBudget_def)

lemma EffectiveBudget_le:
  "0 < c \<Longrightarrow> EffectiveBudget c r \<le> c" "0 < r \<Longrightarrow> EffectiveBudget c r \<le> r"
  by (simp_all add: EffectiveBudget_def)

section \<open>Properties\<close>

text \<open>
  Trimming the chat lines to a positive budget never empties a conversation, reports a change
  exactly when the lines were over the budget, and leaves at most three tokens more than it.
\<close>

theorem TrimChatLines_bound:
  assumes "0 < b" and "lines \<noteq> []"
  shows "(case TrimChatLines lines b of (out, changed) \<Rightarrow>
    out \<noteq> [] \<and> int (sumChatLineTokens out) \<le> b + 3 \<and> (changed \<longleftrightarrow> b < int (sumChatLineTokens lines)))"
proof (cases "int (sumChatLineTokens lines) \<le> b")
  case True
  then show ?thesis using assms by (simp add: TrimChatLines_def)
next
  case False
  obtain n where n: "drop_oldest b lines False = (drop n lines, 0 < n)" "n = 0 \<or> n < length lines"
    "length (drop n lines) \<le> 1 \<or> int (sumChatLineTokens (drop n lines)) \<le> b"
    using drop_oldest_spec [of b lines False] by auto
  have ne: "drop n lines \<noteq> []" using n(2) assms(2) by auto
  have trimmed: "int (EstimateChatLineTokens (l\<lparr>cl_Content := TrimToTokenBudget (cl_Content l) (b - 4)\<rparr>)) \<le> b + 3"
    for l :: ChatLine
  proof (cases "b \<le> 4")
    case True
    then show ?thesis using assms(1) by (simp add: EstimateChatLineTokens_def)
  next
    case False
    then show ?thesis
      using EstimateChatLineTokens_le [of "l\<lparr>cl_Content := TrimToTokenBudget (cl_Content l) (b - 4)\<rparr>"]
        EstimateTokens_TrimToTokenBudget [of "cl_Content l" "b - 4"] by simp
  qed
  show ?thesis
  proof (cases "length (drop n lines) = 1 \<and> b < int (sumChatLineTokens (drop n lines))")
    case True
    then show ?thesis using False assms n(1) trimmed [of "hd (drop n lines)"]
      by (simp add: TrimChatLines_def perMessageOverheadTokens_def Let_def)
  next
    case fits: False
    have "length (drop n lines) \<noteq> 0" using ne by simp
    then have f: "int (sumChatLineTokens (drop n lines)) \<le> b" using n(3) fits by linarith
    then have "n \<noteq> 0" using False by (metis drop0)
    then show ?thesis using False assms n(1) ne f fits by (simp add: TrimChatLines_def)
  qed
qed

theorem TrimChatLines_bound_witness:
  "(case TrimChatLines [\<lparr>cl_Role = ''user'', cl_Content = ''hello''\<rparr>] 3 of (out, changed) \<Rightarrow>
    out \<noteq> [] \<and> int (sumChatLineTokens out) \<le> 3 + 3 \<and>
    (changed \<longleftrightarrow> 3 < int (sumChatLineTokens [\<lparr>cl_Role = ''user'', cl_Content = ''hello''\<rparr>])))"
  by (rule TrimChatLines_bound) simp_all

text \<open>
  C31: When some suffix of the conversation fits the budget, trimming keeps exactly the longest
  such suffix, with no message altered.
\<close>

theorem TrimChatLines_longest_suffix:
  assumes "0 < b" and "n < length lines" and "int (sumChatLineTokens (drop n lines)) \<le> b"
  shows "fst (TrimChatLines lines b) = drop (LEAST m. int (sumChatLineTokens (drop m lines)) \<le> b) lines"
proof -
  obtain k where k: "drop_oldest b lines False = (drop k lines, 0 < k)" "k = 0 \<or> k < length lines"
    "\<forall>m<k. b < int (sumChatLineTokens (drop m lines))"
    "length (drop k lines) \<le> 1 \<or> int (sumChatLineTokens (drop k lines)) \<le> b"
    using drop_oldest_spec [of b lines False] by auto
  have "k \<le> n" using k(3) assms(3) by (meson not_le)
  have fits: "int (sumChatLineTokens (drop k lines)) \<le> b"
  proof (rule ccontr)
    assume *: "\<not> ?thesis"
    then have "n = k" using k(4) \<open>k \<le> n\<close> assms(2) by auto
    with * assms(3) show False by simp
  qed
  have least: "(LEAST m. int (sumChatLineTokens (drop m lines)) \<le> b) = k"
    using fits k(3) by (intro Least_equality) (auto simp: not_le [symmetric])
  show ?thesis
  proof (cases "int (sumChatLineTokens lines) \<le> b")
    case True
    then have "(LEAST m. int (sumChatLineTokens (drop m lines)) \<le> b) = 0" by simp
    with True assms show ?thesis by (auto simp: TrimChatLines_def)
  next
    case False
    then show ?thesis using assms k(1) fits least by (auto simp: TrimChatLines_def)
  qed
qed

theorem TrimChatLines_longest_suffix_witness:
  "fst (TrimChatLines [\<lparr>cl_Role = ''user'', cl_Content = ''hello''\<rparr>, \<lparr>cl_Role = ''user'', cl_Content = ''hi''\<rparr>] 5)
   = drop (LEAST m. int (sumChatLineTokens (drop m [\<lparr>cl_Role = ''user'', cl_Content = ''hello''\<rparr>,
       \<lparr>cl_Role = ''user'', cl_Content = ''hi''\<rparr>])) \<le> 5)
     [\<lparr>cl_Role = ''user'', cl_Content = ''hello''\<rparr>, \<lparr>cl_Role = ''user'', cl_Content = ''hi''\<rparr>]"
  by (rule TrimChatLines_longest_suffix [where n = 1])
    (simp_all add: EstimateChatLineTokens_def EstimateTokens_eq TrimSpace_def trim_chunks_def
      space_chunk_def decode_rune_1 IsSpace_def perMessageOverheadTokens_def RuneCount_def)

text \<open>
  The overshoot is real: the notice appended to the last message is not counted, and one
  message trimmed to five tokens is left at eight.
\<close>

theorem TrimChatLines_overshoots:
  "sumChatLineTokens (fst (TrimChatLines [\<lparr>cl_Role = ''user'', cl_Content = ''abcdefghijklmnopqrst''\<rparr>] 5)) = 8"
proof -
  have long: "EstimateChatLineTokens \<lparr>cl_Role = ''user'', cl_Content = ''abcdefghijklmnopqrst''\<rparr> = 9"
    by (simp add: EstimateChatLineTokens_def EstimateTokens_eq TrimSpace_def trim_chunks_def
        space_chunk_def decode_rune_1 IsSpace_def perMessageOverheadTokens_def RuneCount_def)
  have cut: "TrimToTokenBudget ''abcdefghijklmnopqrst'' 1 = ''abcd'' @ truncated_notice"
    using utf8_take_ascii [of "''abcdefghijklmnopqrst''" 4]
    by (simp add: TrimToTokenBudget_def ApproxCharsPerToken_def ascii_def)
  have "EstimateChatLineTokens \<lparr>cl_Role = ''user'', cl_Content = ''abcd'' @ truncated_notice\<rparr> = 8"
    by (simp add: EstimateChatLineTokens_def EstimateTokens_eq TrimSpace_def trim_chunks_def truncated_notice_def
        space_chunk_def decode_rune_1 IsSpace_def perMessageOverheadTokens_def RuneCount_def)
  then show ?thesis using long cut
    by (simp add: TrimChatLines_def drop_oldest.simps perMessageOverheadTokens_def)
qed

text \<open>
  What is left for the history is never below the minimum, and with enough room the fixed
  blocks, the reserves and the history add up to the whole budget.
\<close>

theorem HistoryTokenBudget_split:
  assumes "0 < tot" and "system + ctx + gen + 1024 \<le> tot"
  shows "HistoryTokenBudget tot system ctx gen + (system + ctx + gen + 768) = tot
    \<and> 256 \<le> HistoryTokenBudget tot system ctx gen
    \<and> HistoryTokenBudget tot system ctx gen \<le> ContextBudgetAfterReserve tot (system + ctx + gen)"
  using assms by (auto simp: HistoryTokenBudget_def ContextBudgetAfterReserve_def budget_consts Let_def)

theorem HistoryTokenBudget_split_witness:
  "HistoryTokenBudget 8192 200 1500 1024 + (200 + 1500 + 1024 + 768) = 8192"
  using HistoryTokenBudget_split [of 8192 200 1500 1024] by simp

end
