(* ===== verification/LlmHistory.thy ===== *)
theory LlmHistory
  imports ChatMessages "HOL-Library.While_Combinator"
begin

text \<open>
  The trimming of a chat history to a token limit, \<open>pkg/llmhistory/tokens.go\<close>, and the budget
  for retrieved context, \<open>rag_budget.go\<close>. Trimming drops the oldest messages between the
  system prompt and a preserved tail, or, when nothing lies between, shortens what precedes the
  tail. A call may return, dereference a nil message (a panic) or not return at all, so its result
  is a \<open>go_run\<close>; the loop that shortens messages is a \<open>while_option\<close>, \<open>None\<close> when it
  does not end. Messages are values here: the code shortens copies only.
\<close>

datatype 'a go_run = Returns 'a | Panics | Diverges

section \<open>Dropping the oldest messages\<close>

fun drop_middle :: "int \<Rightarrow> messages \<Rightarrow> int \<Rightarrow> messages \<Rightarrow> (messages \<times> messages) option" where
  "drop_middle maxTokens [] tot dropped = Some ([], dropped)"
| "drop_middle maxTokens (first # middle) tot dropped =
     (if tot \<le> maxTokens then Some (first # middle, dropped)
      else
        let dropped1 = dropped @ [first]; tot1 = tot - int (ApproximateMessageTokens first) in
        case middle of
          [] \<Rightarrow> Some ([], dropped1)
        | second # rest \<Rightarrow>
            (case first of
               None \<Rightarrow> None
             | Some f \<Rightarrow>
                 if msg_Role f = MessageRoleUser \<and> messageHasLikelyVisionImage first then
                   (case second of
                      None \<Rightarrow> None
                    | Some s \<Rightarrow>
                        if msg_Role s = MessageRoleAssistant \<and> TrimSpace (msg_ToolCallsJSON s) = []
                        then drop_middle maxTokens rest (tot1 - int (ApproximateMessageTokens second))
                               (dropped1 @ [second])
                        else drop_middle maxTokens middle tot1 dropped1)
                 else drop_middle maxTokens middle tot1 dropped1))"

section \<open>Shortening messages\<close>

text \<open>The notice, as code points.\<close>

definition llmContextTruncationNotice :: string where
  "llmContextTruncationNotice = utf8
     [10, 10, 91, 46, 46, 46, 1092, 1088, 1072, 1075, 1084, 1077, 1085, 1090, 32, 1091, 1073, 1088,
      1072, 1085, 32, 1080, 1079, 8209, 1079, 1072, 32, 1083, 1080, 1084, 1080, 1090, 1072, 32, 1082,
      1086, 1085, 1090, 1077, 1082, 1089, 1090, 1072, 32, 1084, 1086, 1076, 1077, 1083, 1080, 46, 46,
      46, 93]"

definition has_text :: "Message option \<Rightarrow> bool" where
  "has_text m = (case m of None \<Rightarrow> False | Some msg \<Rightarrow> TrimSpace (msg_Content msg) \<noteq> [])"

definition shrink_index :: "nat \<Rightarrow> messages \<Rightarrow> nat option" where
  "shrink_index tailStart out = find (\<lambda>i. has_text (out ! i)) (rev [0..<tailStart])"

definition shrink_content :: "string \<Rightarrow> string" where
  "shrink_content content =
     (let r = runes content in
      if length r \<le> 96 then []
      else utf8 (take (max (length r * 3 div 4) 64) r) @ llmContextTruncationNotice)"

text \<open>One round of the loop, \<open>None\<close> when it is left.\<close>

definition shrink_next :: "int \<Rightarrow> nat \<Rightarrow> messages \<Rightarrow> messages option" where
  "shrink_next maxTokens preserveTail out =
     (if int (SumApproxTokens out) \<le> maxTokens then None
      else map_option
        (\<lambda>i. out[i := map_option (\<lambda>m. m\<lparr>msg_Content := shrink_content (msg_Content m)\<rparr>) (out ! i)])
        (shrink_index (length out - preserveTail) out))"

definition shrinkMessagesToApproxTokenBudget :: "messages \<Rightarrow> int \<Rightarrow> int \<Rightarrow> messages option" where
  "shrinkMessagesToApproxTokenBudget msgs maxTokens preserveTail =
     (let p = min (nat preserveTail) (length msgs) in
      while_option (\<lambda>out. shrink_next maxTokens p out \<noteq> None) (\<lambda>out. the (shrink_next maxTokens p out)) msgs)"

section \<open>Trimming\<close>

definition TrimMessagesByApproxTokensWithDropped ::
  "messages \<Rightarrow> int \<Rightarrow> int \<Rightarrow> (messages \<times> bool \<times> messages) go_run" where
  "TrimMessagesByApproxTokensWithDropped msgs maxTokens tailPreserve =
     (if maxTokens \<le> 0 \<or> length msgs \<le> 1 then Returns (msgs, False, [])
      else
        let tp = nat tailPreserve in
        if length msgs \<le> 1 + tp then
          if int (SumApproxTokens msgs) \<le> maxTokens then Returns (msgs, False, [])
          else (case shrinkMessagesToApproxTokenBudget msgs maxTokens (int tp) of
                  None \<Rightarrow> Diverges
                | Some out \<Rightarrow> Returns (out, True, []))
        else
          let tailStart = length msgs - tp;
              system = msgs ! 0;
              tail = drop tailStart msgs;
              middle = drop 1 (take tailStart msgs);
              tot = int (ApproximateMessageTokens system + SumApproxTokens middle + SumApproxTokens tail)
          in if tot \<le> maxTokens then Returns (msgs, False, [])
             else (case drop_middle maxTokens middle tot [] of
                     None \<Rightarrow> Panics
                   | Some (middle', dropped) \<Rightarrow>
                       if dropped = [] then Returns (msgs, False, [])
                       else Returns (system # middle' @ tail, True, dropped)))"

definition TrimMessagesByApproxTokens :: "messages \<Rightarrow> int \<Rightarrow> int \<Rightarrow> (messages \<times> bool) go_run" where
  "TrimMessagesByApproxTokens msgs maxTokens tailPreserve =
     (case TrimMessagesByApproxTokensWithDropped msgs maxTokens tailPreserve of
        Returns (out, trimmed, _) \<Rightarrow> Returns (out, trimmed)
      | Panics \<Rightarrow> Panics
      | Diverges \<Rightarrow> Diverges)"

definition NormalizeApproxMaxTokens :: "int \<Rightarrow> int" where
  "NormalizeApproxMaxTokens n = (if n \<le> 0 then 0 else if n < 512 then 512 else if 500000 < n then 500000 else n)"

section \<open>The text of dropped messages\<close>

definition truncateRunes :: "string \<Rightarrow> int \<Rightarrow> string" where
  "truncateRunes s maxRunes =
     (if maxRunes \<le> 0 then []
      else let r = runes s in
        if int (length r) \<le> maxRunes then s else utf8 (take (nat maxRunes) r) @ CHR 0x0A # ''...'')"

definition dropped_content :: "Message \<Rightarrow> string" where
  "dropped_content m =
     (let content = TrimSpace (msg_Content m);
          content = (if msg_Role m = MessageRoleAssistant \<and> TrimSpace (msg_ToolCallsJSON m) \<noteq> []
                     then TrimSpace (msg_ToolCallsJSON m) @ CHR 0x0A # content else content)
      in if msg_Role m = MessageRoleTool then
           let tn = TrimSpace (msg_ToolName m) in
           if tn \<noteq> [] then ''['' @ tn @ ''] '' @ content else content
         else content)"

definition dropped_line :: "string \<Rightarrow> string \<Rightarrow> string" where
  "dropped_line role content = role @ '': '' @ content @ [CHR 0x0A]"

fun build_dropped :: "int \<Rightarrow> messages \<Rightarrow> int \<Rightarrow> string \<Rightarrow> string" where
  "build_dropped maxRunes [] used b = b"
| "build_dropped maxRunes (None # ms) used b = build_dropped maxRunes ms used b"
| "build_dropped maxRunes (Some m # ms) used b =
     (let role = msg_Role m;
          content = dropped_content m;
          budget = maxRunes - used - int (RuneCount role) - 4
      in if budget < 80 then b
         else
           let content = (if budget < int (RuneCount content) then truncateRunes content budget else content);
               line = dropped_line role content;
               rn = int (RuneCount line)
           in if maxRunes < used + rn then b else build_dropped maxRunes ms (used + rn) (b @ line))"

definition BuildDroppedDialoguePlainText :: "messages \<Rightarrow> int \<Rightarrow> string" where
  "BuildDroppedDialoguePlainText msgs maxRunes =
     TrimSpace (build_dropped (if maxRunes \<le> 0 then 2 ^ 63 - 1 else maxRunes) msgs 0 [])"

text \<open>The heading of the summary, as code points.\<close>

definition summary_heading :: string where
  "summary_heading = utf8
     [10, 10, 45, 45, 45, 32, 1056, 1077, 1079, 1102, 1084, 1077, 32, 1086, 1090, 1073, 1088, 1086,
      1096, 1077, 1085, 1085, 1086, 1081, 32, 1095, 1072, 1089, 1090, 1080, 32, 1076, 1080, 1072, 1083,
      1086, 1075, 1072, 32, 45, 45, 45, 10]"

definition InjectSummaryAfterSystem :: "messages \<Rightarrow> string \<Rightarrow> messages go_run" where
  "InjectSummaryAfterSystem msgs summary =
     (if msgs = [] \<or> TrimSpace summary = [] then Returns msgs
      else (case msgs ! 0 of
              None \<Rightarrow> Panics
            | Some sys \<Rightarrow>
                Returns (Some (sys\<lparr>msg_Content :=
                  TrimSpace (msg_Content sys) @ summary_heading @ TrimSpace summary\<rparr>) # drop 1 msgs)))"

section \<open>Retrieved context\<close>

definition EffectiveMaxRAGContextRunes :: "int \<Rightarrow> int \<Rightarrow> messages \<Rightarrow> string \<Rightarrow> int" where
  "EffectiveMaxRAGContextRunes maxContextTokens runesCeiling systemAndHistory userMessage =
     (let ceil = (if runesCeiling \<le> 0 then 32000 else runesCeiling) in
      if maxContextTokens \<le> 0 then (if 3200 < ceil then 3200 else ceil)
      else
        let pre = int (SumApproxTokens systemAndHistory);
            userOverhead = max (int (RuneCount (TrimSpace userMessage)) div 2) 32;
            ragTok = max (maxContextTokens - pre - 512 - userOverhead) 120
        in max (min (ragTok * 2) ceil) 200)"

section \<open>What dropping keeps\<close>

text \<open>
  Dropping takes a prefix of the middle: enough to fit, and without its last two messages still too
  much (the last two because the reply to an image goes with it).
\<close>

lemma drop_middle_spec:
  assumes "None \<notin> set middle"
  shows "\<exists>n \<le> length middle. drop_middle mx middle tot dropped = Some (drop n middle, dropped @ take n middle) \<and>
    (n = length middle \<or> tot - int (SumApproxTokens (take n middle)) \<le> mx) \<and>
    (0 < n \<longrightarrow> mx < tot) \<and> (mx < tot \<and> middle \<noteq> [] \<longrightarrow> 0 < n)"
  using assms
proof (induction "length middle" arbitrary: middle tot dropped rule: less_induct)
  case less
  show ?case
  proof (cases middle)
    case Nil
    then show ?thesis by simp
  next
    case (Cons first rest1)
    obtain f where f: "first = Some f" using less.prems Cons by (cases first) auto
    let ?t1 = "tot - int (ApproximateMessageTokens first)"
    consider "tot \<le> mx" | "mx < tot" "rest1 = []"
      | (pair) s rest where "mx < tot" "rest1 = Some s # rest" "msg_Role f = MessageRoleUser"
        "messageHasLikelyVisionImage first" "msg_Role s = MessageRoleAssistant" "TrimSpace (msg_ToolCallsJSON s) = []"
      | (single) "mx < tot" "rest1 \<noteq> []"
        "drop_middle mx (first # rest1) tot dropped = drop_middle mx rest1 ?t1 (dropped @ [first])"
    proof (cases "mx < tot")
      case True
      show ?thesis
      proof (cases rest1)
        case (Cons second rest)
        then obtain s where "second = Some s" using less.prems \<open>middle = first # rest1\<close> by (cases second) auto
        then show ?thesis using that True Cons f by (cases "msg_Role f = MessageRoleUser
            \<and> messageHasLikelyVisionImage first \<and> msg_Role s = MessageRoleAssistant
            \<and> TrimSpace (msg_ToolCallsJSON s) = []") (auto simp: Let_def)
      qed (use that True in simp)
    qed (use that in simp)
    then show ?thesis
    proof cases
      case 1
      then show ?thesis using Cons by (intro exI [of _ 0]) simp
    next
      case 2
      then show ?thesis using Cons by (intro exI [of _ 1]) (simp add: Let_def)
    next
      case pair
      obtain n where n: "n \<le> length rest"
        "drop_middle mx rest (?t1 - int (ApproximateMessageTokens (Some s))) ((dropped @ [first]) @ [Some s])
          = Some (drop n rest, ((dropped @ [first]) @ [Some s]) @ take n rest)"
        "n = length rest \<or> ?t1 - int (ApproximateMessageTokens (Some s)) - int (SumApproxTokens (take n rest)) \<le> mx"
        using less.hyps [of rest "?t1 - int (ApproximateMessageTokens (Some s))" "(dropped @ [first]) @ [Some s]"]
          pair less.prems Cons by auto
      show ?thesis using n pair f Cons by (intro exI [of _ "n + 2"]) (auto simp: Let_def)
    next
      case single
      obtain n where "n \<le> length rest1" "drop_middle mx rest1 ?t1 (dropped @ [first])
          = Some (drop n rest1, (dropped @ [first]) @ take n rest1)"
        "n = length rest1 \<or> ?t1 - int (SumApproxTokens (take n rest1)) \<le> mx"
        using less.hyps [of rest1 ?t1 "dropped @ [first]"] less.prems Cons by auto
      then show ?thesis using single Cons by (intro exI [of _ "n + 1"]) auto
    qed
  qed
qed

section \<open>The loop that shortens\<close>

lemma RuneCount_truncation_notice: "RuneCount llmContextTruncationNotice = 54"
  by (simp add: llmContextTruncationNotice_def RuneCount_def runes_utf8 valid_rune_def)

lemma RuneCount_shrink_content:
  "96 < RuneCount c \<Longrightarrow> RuneCount (shrink_content c) = RuneCount c * 3 div 4 + 54"
proof -
  assume c: "96 < RuneCount c"
  then have "64 \<le> RuneCount c * 3 div 4" by simp
  with c have "shrink_content c = utf8 (take (RuneCount c * 3 div 4) (runes c)) @ llmContextTruncationNotice"
    by (simp add: shrink_content_def RuneCount_def Let_def max_absorb1)
  moreover have "RuneCount c * 3 div 4 \<le> RuneCount c" by simp
  ultimately show ?thesis by (simp add: RuneCount_take_append RuneCount_truncation_notice min_absorb1)
qed

lemma shrink_content_short: "RuneCount c \<le> 96 \<Longrightarrow> shrink_content c = []"
  by (simp add: shrink_content_def RuneCount_def Let_def)

lemma TrimSpace_shrink_content: "96 < RuneCount c \<Longrightarrow> TrimSpace (shrink_content c) \<noteq> []"
proof -
  assume "96 < RuneCount c"
  then have "shrink_content c = utf8 (take (max (RuneCount c * 3 div 4) 64) (runes c)) @ llmContextTruncationNotice"
    by (simp add: shrink_content_def RuneCount_def Let_def)
  then have "set (runes llmContextTruncationNotice) \<subseteq> set (runes (shrink_content c))"
    by (simp add: runes_utf8_append [OF runes_valid_take])
  moreover have "91 \<in> set (runes llmContextTruncationNotice)"
    by (simp add: llmContextTruncationNotice_def runes_utf8 valid_rune_def)
  ultimately have "91 \<in> set (runes (shrink_content c))" by blast
  moreover have "\<not> IsSpace 91" by (simp add: IsSpace_def)
  ultimately show ?thesis unfolding TrimSpace_Nil_iff by blast
qed

text \<open>A long message never gets short: the notice weighs more than the quarter that is cut.\<close>

lemma shrink_content_stays_long: "96 < RuneCount c \<Longrightarrow> 96 < RuneCount (shrink_content c)"
  by (simp add: RuneCount_shrink_content)

lemma shrink_index_Some:
  "shrink_index k out = Some i \<Longrightarrow> i < k \<and> has_text (out ! i) \<and> (\<forall>j<k. i < j \<longrightarrow> \<not> has_text (out ! j))"
  by (induction k) (auto simp: shrink_index_def less_Suc_eq split: if_splits)

lemma shrink_index_None: "shrink_index k out = None \<longleftrightarrow> (\<forall>i<k. \<not> has_text (out ! i))"
  by (auto simp: shrink_index_def find_None_iff)


lemma shrink_next_Some:
  assumes "shrink_next mx p out = Some out'" and "p \<le> length out"
  shows "\<exists>i m. mx < int (SumApproxTokens out) \<and> i < length out - p \<and> out ! i = Some m \<and>
    TrimSpace (msg_Content m) \<noteq> [] \<and> (\<forall>j<length out - p. i < j \<longrightarrow> \<not> has_text (out ! j)) \<and>
    out' = out[i := Some (m\<lparr>msg_Content := shrink_content (msg_Content m)\<rparr>)]"
proof -
  obtain i where i: "shrink_index (length out - p) out = Some i"
    "out' = out[i := map_option (\<lambda>m. m\<lparr>msg_Content := shrink_content (msg_Content m)\<rparr>) (out ! i)]"
    "mx < int (SumApproxTokens out)"
    using assms(1) by (auto simp: shrink_next_def split: if_splits)
  note s = shrink_index_Some [OF i(1)]
  then obtain m where "out ! i = Some m" "TrimSpace (msg_Content m) \<noteq> []"
    by (auto simp: has_text_def split: option.splits)
  with s i show ?thesis by auto
qed

lemma SumApproxTokens_update:
  "i < length out \<Longrightarrow> SumApproxTokens (out[i := x]) + ApproximateMessageTokens (out ! i)
    = SumApproxTokens out + ApproximateMessageTokens x"
proof (induction out arbitrary: i)
  case (Cons a out)
  then show ?case by (cases i) auto
qed simp

lemma SumApproxTokens_split:
  "i < k \<Longrightarrow> k \<le> length out \<Longrightarrow>
   ApproximateMessageTokens (out ! i) + SumApproxTokens (drop k out) \<le> SumApproxTokens out"
proof -
  assume i: "i < k" "k \<le> length out"
  have "SumApproxTokens out = SumApproxTokens (take k out) + SumApproxTokens (drop k out)"
    using msg_tokens.total_append [of "take k out" "drop k out"] by simp
  moreover have "ApproximateMessageTokens (out ! i) \<le> SumApproxTokens (take k out)"
  proof -
    have "out ! i \<in> set (take k out)" using i by (metis in_set_conv_nth length_take min.absorb2 nth_take)
    then show ?thesis unfolding msg_tokens.total_sum_list by (intro member_le_sum_list) simp_all
  qed
  ultimately show ?thesis by simp
qed

text \<open>A long message before the tail keeps the loop going when it and the tail are over the limit.\<close>

definition stuck_at :: "int \<Rightarrow> nat \<Rightarrow> nat \<Rightarrow> messages \<Rightarrow> bool" where
  "stuck_at mx p i out \<longleftrightarrow> p \<le> length out \<and> i < length out - p \<and>
     (\<exists>m. out ! i = Some m \<and> 96 < RuneCount (msg_Content m) \<and> TrimSpace (msg_Content m) \<noteq> []) \<and>
     mx < int (30 + SumApproxTokens (drop (length out - p) out))"

lemma stuck_at_continues:
  assumes "stuck_at mx p i out"
  shows "\<exists>out'. shrink_next mx p out = Some out' \<and> stuck_at mx p i out'"
proof -
  obtain m where m: "out ! i = Some m" "96 < RuneCount (msg_Content m)" "TrimSpace (msg_Content m) \<noteq> []"
    and p: "p \<le> length out" "i < length out - p"
    and mx: "mx < int (30 + SumApproxTokens (drop (length out - p) out))"
    using assms by (auto simp: stuck_at_def)
  have "24 \<le> RuneCount (msg_Content m) div 4" using m(2) by simp
  then have "30 \<le> ApproximateMessageTokens (out ! i)"
    using ApproximateMessageTokens_content_ge [of m] m(1) by simp
  then have over: "\<not> int (SumApproxTokens out) \<le> mx"
    using SumApproxTokens_split [of i "length out - p" out] p mx by simp
  have "shrink_index (length out - p) out \<noteq> None"
    unfolding shrink_index_None using m p by (auto simp: has_text_def)
  then obtain out' where n: "shrink_next mx p out = Some out'" using over by (auto simp: shrink_next_def)
  obtain k m' where k: "k < length out - p" "out ! k = Some m'" "TrimSpace (msg_Content m') \<noteq> []"
    "out' = out[k := Some (m'\<lparr>msg_Content := shrink_content (msg_Content m')\<rparr>)]"
    using shrink_next_Some [OF n p(1)] by blast
  have "\<exists>m. out' ! i = Some m \<and> 96 < RuneCount (msg_Content m) \<and> TrimSpace (msg_Content m) \<noteq> []"
  proof (cases "k = i")
    case True
    then show ?thesis using k m p shrink_content_stays_long TrimSpace_shrink_content by auto
  next
    case False
    then show ?thesis using k m by auto
  qed
  moreover have "drop (length out' - p) out' = drop (length out - p) out" "length out' = length out"
    using k by simp_all
  ultimately have "stuck_at mx p i out'" using p mx by (simp add: stuck_at_def)
  with n show ?thesis by blast
qed

lemma while_option_runs_on:
  assumes "P s" and "\<And>s. P s \<Longrightarrow> b s \<and> P (c s)"
  shows "while_option b c s = None"
proof -
  have "P ((c ^^ k) s)" for k by (induction k) (use assms in auto)
  then show ?thesis using assms(2) by (auto simp: while_option_def)
qed

lemma shrink_diverges:
  assumes "stuck_at mx (min (nat p) (length msgs)) i msgs"
  shows "shrinkMessagesToApproxTokenBudget msgs mx p = None"
  unfolding shrinkMessagesToApproxTokenBudget_def Let_def
  by (rule while_option_runs_on [where P = "stuck_at mx (min (nat p) (length msgs)) i"])
    (use assms stuck_at_continues in \<open>fastforce+\<close>)

text \<open>Without long messages each round empties one message, so the loop ends.\<close>

definition short_before :: "nat \<Rightarrow> messages \<Rightarrow> bool" where
  "short_before k out \<longleftrightarrow> (\<forall>i<k. \<forall>m. out ! i = Some m \<longrightarrow> RuneCount (msg_Content m) \<le> 96)"

definition emptied :: "nat \<Rightarrow> messages \<Rightarrow> messages \<Rightarrow> bool" where
  "emptied k msgs out \<longleftrightarrow> length out = length msgs \<and> drop k out = drop k msgs \<and>
     (\<forall>i<k. out ! i = msgs ! i \<or> (\<exists>m. msgs ! i = Some m \<and> out ! i = Some (m\<lparr>msg_Content := []\<rparr>)))"

lemma shrink_next_short:
  assumes "p \<le> length msgs" and "short_before (length msgs - p) out" and "emptied (length msgs - p) msgs out"
    and "shrink_next mx p out = Some out'"
  shows "short_before (length msgs - p) out' \<and> emptied (length msgs - p) msgs out' \<and>
    card {i. i < length msgs - p \<and> has_text (out' ! i)} < card {i. i < length msgs - p \<and> has_text (out ! i)}"
proof -
  let ?k = "length msgs - p"
  have len: "length out = length msgs" using assms(3) by (simp add: emptied_def)
  obtain i m where i: "i < ?k" "out ! i = Some m" "TrimSpace (msg_Content m) \<noteq> []"
    "out' = out[i := Some (m\<lparr>msg_Content := shrink_content (msg_Content m)\<rparr>)]"
    using shrink_next_Some [OF assms(4)] assms(1) len by auto
  have out': "out' = out[i := Some (m\<lparr>msg_Content := []\<rparr>)]"
    using i assms(2) by (simp add: short_before_def shrink_content_short)
  have "i < length out" using i(1) len by simp
  have nth: "out' ! j = (if j = i then Some (m\<lparr>msg_Content := []\<rparr>) else out ! j)" for j
    using \<open>i < length out\<close> by (simp add: out')
  have "short_before ?k out'" using assms(2) by (simp add: short_before_def nth)
  moreover have "emptied ?k msgs out'"
  proof -
    have "out ! i = msgs ! i \<or> (\<exists>m. msgs ! i = Some m \<and> out ! i = Some (m\<lparr>msg_Content := []\<rparr>))"
      using assms(3) i(1) by (simp add: emptied_def)
    then have "\<exists>m'. msgs ! i = Some m' \<and> out' ! i = Some (m'\<lparr>msg_Content := []\<rparr>)"
    proof
      assume "out ! i = msgs ! i"
      then show ?thesis using i(2) by (intro exI [of _ m]) (simp add: nth)
    next
      assume "\<exists>m. msgs ! i = Some m \<and> out ! i = Some (m\<lparr>msg_Content := []\<rparr>)"
      then show ?thesis using i(2) by (auto simp: nth)
    qed
    moreover have "length out' = length msgs" "drop ?k out' = drop ?k out" using len i(1) by (simp_all add: out')
    ultimately show ?thesis using assms(3) by (auto simp: emptied_def nth)
  qed
  moreover have "{j. j < ?k \<and> has_text (out' ! j)} = {j. j < ?k \<and> has_text (out ! j)} - {i}"
    by (auto simp: nth has_text_def)
  moreover have "i \<in> {j. j < ?k \<and> has_text (out ! j)}" using i by (simp add: has_text_def)
  moreover have "finite {j. j < ?k \<and> has_text (out ! j)}" by simp
  ultimately show ?thesis by (metis (no_types, lifting) card_Diff1_less)
qed

lemma shrink_short:
  assumes "0 \<le> p" and "p \<le> int (length msgs)" and "short_before (length msgs - nat p) msgs"
  shows "\<exists>out. shrinkMessagesToApproxTokenBudget msgs mx p = Some out \<and> emptied (length msgs - nat p) msgs out \<and>
    (int (SumApproxTokens out) \<le> mx \<or> (\<forall>i<length msgs - nat p. \<not> has_text (out ! i)))"
proof -
  let ?p = "nat p" and ?k = "length msgs - nat p"
  have p: "min (nat p) (length msgs) = ?p" "?p \<le> length msgs" using assms(2) by simp_all
  let ?P = "\<lambda>out. short_before ?k out \<and> emptied ?k msgs out"
  let ?b = "\<lambda>out. shrink_next mx ?p out \<noteq> None" and ?c = "\<lambda>out. the (shrink_next mx ?p out)"
  have init: "?P msgs" using assms(3) by (simp add: emptied_def)
  have step: "?P (?c out) \<and> card {i. i < ?k \<and> has_text (?c out ! i)} < card {i. i < ?k \<and> has_text (out ! i)}"
    if "?P out" "?b out" for out
    using shrink_next_short [of ?p msgs out mx "?c out"] that p by auto
  have "\<exists>out. while_option ?b ?c msgs = Some out"
    by (rule measure_while_option_Some [of ?P _ _ "\<lambda>out. card {i. i < ?k \<and> has_text (out ! i)}"])
      (use step init in auto)
  then obtain out where out: "while_option ?b ?c msgs = Some out" by blast
  have "?P out" by (rule while_option_rule [OF _ out, of ?P]) (use step init in auto)
  moreover have "\<not> ?b out" by (rule while_option_stop [OF out])
  then have "int (SumApproxTokens out) \<le> mx \<or> shrink_index (length out - ?p) out = None"
    by (auto simp: shrink_next_def split: if_splits)
  ultimately show ?thesis using out p
    by (auto simp: shrinkMessagesToApproxTokenBudget_def Let_def emptied_def shrink_index_None)
qed

section \<open>The text of dropped messages\<close>

definition full_line :: "Message \<Rightarrow> string" where
  "full_line m = dropped_line (msg_Role m) (dropped_content m)"

lemma RuneCount_dropped_line: "RuneCount (dropped_line role content) = RuneCount role + RuneCount content + 3"
  using RuneCount_before_ascii [of "CHR '':''" role "'' '' @ content @ [CHR 0x0A]"]
    RuneCount_before_ascii [of "CHR 0x0A" content "[]"]
  by (simp add: dropped_line_def RuneCount_def)

lemma RuneCount_dropped_line_append:
  "RuneCount (dropped_line role content @ s) = RuneCount (dropped_line role content) + RuneCount s"
  using RuneCount_before_ascii [of "CHR 0x0A" "role @ '': '' @ content" s]
    RuneCount_before_ascii [of "CHR 0x0A" "role @ '': '' @ content" "[]"]
  by (simp add: dropped_line_def)

lemma RuneCount_truncateRunes:
  "0 < n \<Longrightarrow> n < int (RuneCount s) \<Longrightarrow> int (RuneCount (truncateRunes s n)) = n + 4"
  using RuneCount_take_append [of "nat n" s "CHR 0x0A # ''...''"]
  by (simp add: truncateRunes_def RuneCount_def Let_def)

lemma RuneCount_full_line_append: "RuneCount (full_line m @ s) = RuneCount (full_line m) + RuneCount s"
  by (simp add: full_line_def RuneCount_dropped_line_append)

text \<open>A shortened message never fits: its ellipsis puts it three runes over what is left.\<close>

lemma build_dropped_Cons:
  "build_dropped mx (Some m # ms) used b =
     (let budget = mx - used - int (RuneCount (msg_Role m)) - 4 in
      if budget < 80 \<or> budget < int (RuneCount (dropped_content m)) then b
      else build_dropped mx ms (used + int (RuneCount (full_line m))) (b @ full_line m))"
proof -
  let ?budget = "mx - used - int (RuneCount (msg_Role m)) - 4"
  consider "?budget < 80" | "80 \<le> ?budget" "int (RuneCount (dropped_content m)) \<le> ?budget"
    | (long) "80 \<le> ?budget" "?budget < int (RuneCount (dropped_content m))" by linarith
  then show ?thesis
  proof cases
    case 2
    then have "\<not> mx < used + int (RuneCount (full_line m))"
      by (simp add: full_line_def RuneCount_dropped_line)
    with 2 show ?thesis by (simp add: Let_def full_line_def)
  next
    case long
    have "int (RuneCount (truncateRunes (dropped_content m) ?budget)) = ?budget + 4"
      by (rule RuneCount_truncateRunes) (use long in simp_all)
    then have "mx < used + int (RuneCount (dropped_line (msg_Role m) (truncateRunes (dropped_content m) ?budget)))"
      by (simp add: RuneCount_dropped_line)
    with long show ?thesis by (simp add: Let_def)
  qed (simp add: Let_def)
qed

lemma build_dropped_lines:
  "\<exists>k. build_dropped mx ms used b = b @ concat (map full_line (take k (map the (filter (\<lambda>m. m \<noteq> None) ms)))) \<and>
     (used \<le> mx \<longrightarrow> used + int (RuneCount (concat (map full_line (take k (map the (filter (\<lambda>m. m \<noteq> None) ms)))))) \<le> mx)"
proof (induction ms arbitrary: used b)
  case (Cons a ms)
  show ?case
  proof (cases a)
    case None
    with Cons show ?thesis by simp
  next
    case (Some m)
    let ?l = "full_line m" and ?ms = "map the (filter (\<lambda>m. m \<noteq> None) ms)"
    let ?budget = "mx - used - int (RuneCount (msg_Role m)) - 4"
    show ?thesis
    proof (cases "?budget < 80 \<or> ?budget < int (RuneCount (dropped_content m))")
      case True
      then show ?thesis unfolding Some build_dropped_Cons Let_def by (intro exI [of _ 0]) auto
    next
      case False
      then have fits: "used + int (RuneCount ?l) \<le> mx" by (simp add: full_line_def RuneCount_dropped_line)
      obtain k where k: "build_dropped mx ms (used + int (RuneCount ?l)) (b @ ?l) = (b @ ?l) @ concat (map full_line (take k ?ms))"
        "used + int (RuneCount ?l) + int (RuneCount (concat (map full_line (take k ?ms)))) \<le> mx"
        using Cons.IH [of "used + int (RuneCount ?l)" "b @ ?l"] fits by blast
      have "map the (filter (\<lambda>m. m \<noteq> None) (a # ms)) = m # ?ms" by (simp add: Some)
      then show ?thesis using False k fits
        unfolding Some build_dropped_Cons Let_def
        by (intro exI [of _ "Suc k"]) (simp add: RuneCount_full_line_append)
    qed
  qed
qed (intro exI [of _ 0], simp)

section \<open>Properties\<close>

text \<open>
  The room given to retrieved context is never below 200 runes when the window is known, and never
  above the ceiling unless that is below 200.
\<close>

lemma EffectiveMaxRAG_form:
  assumes "0 < maxTok"
  shows "\<exists>r. EffectiveMaxRAGContextRunes maxTok runesCeiling msgs user
    = max (min r (if runesCeiling \<le> 0 then 32000 else runesCeiling)) 200"
proof -
  have "\<not> maxTok \<le> 0" using assms by simp
  then show ?thesis
    unfolding EffectiveMaxRAGContextRunes_def Let_def by (simp only: if_False) (rule exI, rule refl)
qed

lemma EffectiveMaxRAG_bounds:
  assumes "0 < maxTok"
  shows "200 \<le> EffectiveMaxRAGContextRunes maxTok runesCeiling msgs user \<and>
    (0 < runesCeiling \<longrightarrow> EffectiveMaxRAGContextRunes maxTok runesCeiling msgs user \<le> max 200 runesCeiling)"
  using EffectiveMaxRAG_form [OF assms, of runesCeiling msgs user] by auto

text \<open>Messages for the examples.\<close>

definition text_message :: "string \<Rightarrow> string \<Rightarrow> Message option" where
  "text_message role content = Some
     \<lparr>msg_Id = 0, msg_SessionId = 0, msg_Content = content, msg_Role = role, msg_AttachmentName = [],
      msg_AttachmentMime = [], msg_AttachmentFileID = None, msg_AttachmentContent = [],
      msg_ToolCallID = [], msg_ToolName = [], msg_ToolCallsJSON = [], msg_CreatedAt = 0,
      msg_UpdatedAt = 0, msg_DeletedAt = None\<rparr>"

lemma text_message_tokens:
  "ApproximateMessageTokens (text_message role content) = RuneCount content div 4 + 6"
  by (simp add: text_message_def ApproximateMessageTokens_def)

lemma text_message_not_None [simp]: "None \<noteq> text_message role content"
  by (simp add: text_message_def)

lemma text_message_Some: "text_message role content = Some m \<Longrightarrow> msg_Content m = content"
  by (auto simp: text_message_def)



text \<open>
  C32: When only the system prompt precedes the preserved tail, is longer than 96 runes, and the
  tail alone is within 30 tokens of the limit or over it, trimming never returns: a shortened prompt
  never gets to 96 runes, because the notice appended each time is longer than what is cut.
\<close>

theorem TrimMessages_diverges:
  assumes "0 < mx" and "tail \<noteq> []" and "96 < RuneCount (msg_Content sys)" and "TrimSpace (msg_Content sys) \<noteq> []"
    and "mx < int (30 + SumApproxTokens tail)"
  shows "TrimMessagesByApproxTokensWithDropped (Some sys # tail) mx (int (length tail)) = Diverges"
proof -
  have "stuck_at mx (min (nat (int (length tail))) (length (Some sys # tail))) 0 (Some sys # tail)"
    using assms by (simp add: stuck_at_def)
  then have d: "shrinkMessagesToApproxTokenBudget (Some sys # tail) mx (int (length tail)) = None"
    by (rule shrink_diverges)
  have "24 \<le> RuneCount (msg_Content sys) div 4" using assms(3) by simp
  then have "30 \<le> ApproximateMessageTokens (Some sys)"
    using ApproximateMessageTokens_content_ge [of sys] by simp
  with assms(1,2,5) d show ?thesis
    by (simp add: TrimMessagesByApproxTokensWithDropped_def Let_def)
qed

theorem TrimMessages_diverges_witness:
  "TrimMessagesByApproxTokensWithDropped
     [text_message ''system'' (replicate 97 (CHR ''a'')), text_message ''user'' (replicate 2000 (CHR ''b''))] 512 1
   = Diverges"
proof -
  obtain sys where sys: "text_message ''system'' (replicate 97 (CHR ''a'')) = Some sys"
    by (simp add: text_message_def)
  have c: "RuneCount (replicate n (CHR ''a'')) = n" "RuneCount (replicate n (CHR ''b'')) = n" for n
    by (simp_all add: RuneCount_ascii ascii_def)
  have "97 \<in> set (runes (replicate 97 (CHR ''a'')))" by (simp add: runes_ascii ascii_def)
  moreover have "\<not> IsSpace 97" by (simp add: IsSpace_def)
  ultimately have "TrimSpace (replicate 97 (CHR ''a'')) \<noteq> []" unfolding TrimSpace_Nil_iff by blast
  then show ?thesis unfolding sys
    using TrimMessages_diverges [of 512 "[text_message ''user'' (replicate 2000 (CHR ''b''))]" sys]
      text_message_Some [OF sys] by (simp add: c text_message_tokens)
qed

text \<open>
  When every message before the tail is at most 96 runes long, shortening ends: it empties
  some of those messages and nothing else, until the history fits or none of them has text left.
\<close>

theorem shrink_ends:
  assumes "0 \<le> p" and "p \<le> int (length msgs)"
    and "\<forall>i<length msgs - nat p. \<forall>m. msgs ! i = Some m \<longrightarrow> RuneCount (msg_Content m) \<le> 96"
  shows "\<exists>out. shrinkMessagesToApproxTokenBudget msgs mx p = Some out \<and> emptied (length msgs - nat p) msgs out \<and>
    (int (SumApproxTokens out) \<le> mx \<or> (\<forall>i<length msgs - nat p. \<not> has_text (out ! i)))"
  using shrink_short [OF assms(1,2)] assms(3) by (simp add: short_before_def)

theorem shrink_ends_witness:
  "\<exists>out. shrinkMessagesToApproxTokenBudget [text_message ''system'' ''s'', text_message ''user'' ''u''] 12 1 = Some out"
  using shrink_ends [of 1 "[text_message ''system'' ''s'', text_message ''user'' ''u'']" 12]
  by (auto simp: text_message_def RuneCount_def)

text \<open>
  The text given to the summariser holds whole messages only, the first ones in their order,
  and is never longer than asked: a message that does not fit is left out with all that follow,
  although the code means to shorten it.
\<close>

theorem BuildDropped_whole_messages:
  assumes "0 < mx"
  shows "\<exists>k. BuildDroppedDialoguePlainText msgs mx
      = TrimSpace (concat (map full_line (take k (map the (filter (\<lambda>m. m \<noteq> None) msgs)))))
    \<and> int (RuneCount (BuildDroppedDialoguePlainText msgs mx)) \<le> mx"
proof -
  obtain k where k: "build_dropped mx msgs 0 [] = concat (map full_line (take k (map the (filter (\<lambda>m. m \<noteq> None) msgs))))"
    "int (RuneCount (build_dropped mx msgs 0 [])) \<le> mx"
    using build_dropped_lines [of mx msgs 0 "[]"] assms by auto
  have "int (RuneCount (TrimSpace (build_dropped mx msgs 0 []))) \<le> mx"
    using k(2) RuneCount_TrimSpace_le [of "build_dropped mx msgs 0 []"] by linarith
  then show ?thesis using k(1) assms by (auto simp: BuildDroppedDialoguePlainText_def)
qed

theorem BuildDropped_whole_messages_witness:
  "int (RuneCount (BuildDroppedDialoguePlainText [text_message ''user'' ''hello''] 100)) \<le> 100"
  using BuildDropped_whole_messages [of 100 "[text_message ''user'' ''hello'']"] by auto

end
