(* ===== verification/ContextBuilder.thy ===== *)
theory ContextBuilder
  imports ContextBudget Security "HOL-Library.Multiset"
begin

text \<open>
  The prompt context of \<open>pkg/contextbuilder/builder.go\<close>: the parts a request brings (project,
  selection, snippets, tree, editor; \<open>pkg/context/types.go\<close>), their ranks, and the selection of
  parts for the token budget in the order of their ranks. The sort is the code's exchange sort on
  indices. Nil pointers are \<open>None\<close>; the free-form field of the request, which the builder does
  not read, is left out.
\<close>

section \<open>Requests\<close>

record WorkspaceContext =
  ws_Root :: string
  ws_Branch :: string
  ws_Name :: string

record SelectionContext =
  sel_Path :: string
  sel_Language :: string
  sel_Text :: string
  sel_StartLine :: "int option"
  sel_EndLine :: "int option"

record ContextSnippet =
  sn_Path :: string
  sn_Language :: string
  sn_Content :: string
  sn_Source :: string

record TreeEntry =
  te_Path :: string
  te_Kind :: string

record EditorContext =
  ed_Path :: string
  ed_Language :: string
  ed_Snippet :: string
  ed_CursorLine :: "int option"
  ed_CursorColumn :: "int option"

record ChatContext =
  cc_Workspace :: "WorkspaceContext option"
  cc_Selection :: "SelectionContext option"
  cc_Snippets :: "ContextSnippet list"
  cc_Tree :: "TreeEntry list"

section \<open>Texts of the parts\<close>

abbreviation nl :: string where
  "nl \<equiv> [CHR 0x0A]"

definition labelled :: "string \<Rightarrow> string \<Rightarrow> string list" where
  "labelled label v = (let t = TrimSpace v in if t = [] then [] else [label @ t])"

definition workspacePrompt :: "WorkspaceContext option \<Rightarrow> string" where
  "workspacePrompt ws =
     (case ws of
        None \<Rightarrow> []
      | Some w \<Rightarrow>
          let lns = labelled ''name: '' (ws_Name w) @ labelled ''root: '' (ws_Root w)
                @ labelled ''branch: '' (ws_Branch w)
          in if lns = [] then [] else ''Project:'' @ nl @ str_join lns nl)"

definition selectionPrompt :: "SelectionContext option \<Rightarrow> string" where
  "selectionPrompt sel =
     (case sel of
        None \<Rightarrow> []
      | Some s \<Rightarrow>
          let txt = TrimSpace (sel_Text s) in
          if txt = [] then []
          else
            let p = TrimSpace (sel_Path s); l = TrimSpace (sel_Language s);
                header =
                  (if p = [] then ''Selection''
                   else ''Selection ('' @ p @ (if l = [] then [] else '', '' @ l)
                     @ (case (sel_StartLine s, sel_EndLine s) of
                          (Some a, Some b) \<Rightarrow> '', lines '' @ itoa a @ ''-'' @ itoa b
                        | _ \<Rightarrow> []) @ '')'')
            in header @ '':'' @ nl @ txt)"

definition snippetPrompt :: "ContextSnippet \<Rightarrow> string" where
  "snippetPrompt sn =
     (let content = TrimSpace (sn_Content sn) in
      if content = [] then []
      else
        let p = TrimSpace (sn_Path sn); l = TrimSpace (sn_Language sn); s = TrimSpace (sn_Source sn);
            label = (if p = [] then ''Snippet''
                     else ''File: '' @ p @ (if l = [] then [] else '' ('' @ l @ '')''));
            label = (if s = [] then label else label @ '' ['' @ s @ '']'')
        in label @ '':'' @ nl @ content)"

definition editorContextPrompt :: "EditorContext option \<Rightarrow> string" where
  "editorContextPrompt editor =
     (case editor of
        None \<Rightarrow> []
      | Some e \<Rightarrow>
          let parts = labelled ''path: '' (ed_Path e) @ labelled ''language: '' (ed_Language e)
                @ (case (ed_CursorLine e, ed_CursorColumn e) of
                     (Some l, Some c) \<Rightarrow> [''cursor: '' @ itoa l @ '':'' @ itoa c]
                   | _ \<Rightarrow> [])
                @ labelled (''snippet:'' @ nl) (ed_Snippet e)
          in if parts = [] then [] else ''Active editor:'' @ nl @ str_join parts nl)"

definition maxTreeEntries :: nat where
  "maxTreeEntries = 200"

definition treePrompt :: "TreeEntry list \<Rightarrow> string" where
  "treePrompt entries =
     (if entries = [] then []
      else
        let es = (if maxTreeEntries < length entries then take maxTreeEntries entries else entries);
            line = (\<lambda>e. let path = TrimSpace (te_Path e); kind = TrimSpace (te_Kind e) in
                      if path = [] then []
                      else ''- ['' @ (if kind = [] then ''file'' else kind) @ ''] '' @ path @ nl);
            head = ''Project tree:'' @ nl;
            b = head @ concat (map line es)
        in if length b \<le> length head then [] else b)"

section \<open>Parts in the order of their ranks\<close>

record contextPart =
  cp_priority :: int
  cp_text :: string
  cp_tokens :: nat

text \<open>The inner and the outer loop of \<open>sortContextParts\<close>.\<close>

definition swap_parts :: "nat \<Rightarrow> nat \<Rightarrow> 'a list \<Rightarrow> 'a list" where
  "swap_parts i j xs = xs[i := xs ! j, j := xs ! i]"

lemma length_swap_parts [simp]: "length (swap_parts i j xs) = length xs"
  by (simp add: swap_parts_def)

function sort_inner :: "nat \<Rightarrow> nat \<Rightarrow> contextPart list \<Rightarrow> contextPart list" where
  "sort_inner i j out =
     (if j < length out
      then sort_inner i (Suc j)
        (if cp_priority (out ! j) < cp_priority (out ! i) then swap_parts i j out else out)
      else out)"
  by pat_completeness auto
termination by (relation "measure (\<lambda>(i, j, out). length out - j)") auto

declare sort_inner.simps [simp del]

definition sortContextParts :: "contextPart list \<Rightarrow> contextPart list" where
  "sortContextParts parts = fold (\<lambda>i out. sort_inner i (Suc i) out) [0..<length parts] parts"

section \<open>Building\<close>

record Builder =
  b_tokenBudget :: int
  b_scanSecrets :: bool

definition builder_New :: "int \<Rightarrow> bool \<Rightarrow> Builder" where
  "builder_New tokenBudget scanSecrets =
     \<lparr>b_tokenBudget = (if tokenBudget \<le> 0 then DefaultTokenBudget else tokenBudget), b_scanSecrets = scanSecrets\<rparr>"

definition part :: "int \<Rightarrow> string \<Rightarrow> contextPart list" where
  "part priority txt =
     (if txt = [] then [] else [\<lparr>cp_priority = priority, cp_text = txt, cp_tokens = EstimateTokens txt\<rparr>])"

definition context_parts :: "EditorContext option \<Rightarrow> ChatContext option \<Rightarrow> contextPart list" where
  "context_parts editor ctx =
     (case ctx of
        None \<Rightarrow> []
      | Some c \<Rightarrow>
          part PriorityWorkspace (workspacePrompt (cc_Workspace c))
          @ part PrioritySelection (selectionPrompt (cc_Selection c))
          @ concat (map (\<lambda>sn. part (SnippetPriority (sn_Source sn)) (snippetPrompt sn)) (cc_Snippets c))
          @ part 4 (treePrompt (cc_Tree c)))
     @ part PriorityEditor (editorContextPrompt editor)"

fun select_parts :: "int \<Rightarrow> int \<Rightarrow> contextPart list \<Rightarrow> string list" where
  "select_parts budget used [] = []"
| "select_parts budget used (p # ps) =
     (if budget < used + int (cp_tokens p)
      then (let trimmed = TrimToTokenBudget (cp_text p) (budget - used) in
            if trimmed = [] then [] else [trimmed])
      else cp_text p # select_parts budget (used + int (cp_tokens p)) ps)"

definition builder_Build :: "string \<Rightarrow> EditorContext option \<Rightarrow> ChatContext option \<Rightarrow> Builder \<Rightarrow> string" where
  "builder_Build system editor ctx b =
     (let budget = ContextBudgetAfterReserve (b_tokenBudget b) (int (EstimateTokens system));
          selected = select_parts budget 0 (sortContextParts (context_parts editor ctx))
      in if selected = [] then []
         else
           let out = str_join selected (nl @ nl) in
           if b_scanSecrets b then RedactSecrets out else out)"

section \<open>The exchange sort\<close>

lemma nth_swap_parts:
  "i < length xs \<Longrightarrow> j < length xs \<Longrightarrow>
   swap_parts i j xs ! k = (if k = j then xs ! i else if k = i then xs ! j else xs ! k)"
  by (auto simp: swap_parts_def nth_list_update)

lemma mset_swap_parts: "i < length xs \<Longrightarrow> j < length xs \<Longrightarrow> mset (swap_parts i j xs) = mset xs"
  unfolding swap_parts_def by (simp add: mset_swap)

lemma drop_swap_parts:
  "i \<le> j \<Longrightarrow> j < length xs \<Longrightarrow> set (drop i (swap_parts i j xs)) = set (drop i xs)"
proof -
  assume "i \<le> j" "j < length xs"
  then have "drop i (swap_parts i j xs) = swap_parts 0 (j - i) (drop i xs)"
    by (intro nth_equalityI) (auto simp: nth_swap_parts)
  then show ?thesis using \<open>i \<le> j\<close> \<open>j < length xs\<close> mset_swap_parts [of 0 "drop i xs" "j - i"]
    by (metis diff_less_mono length_drop less_imp_diff_less mset_eq_setD zero_less_diff le_less_trans)
qed

text \<open>After the inner loop the element at \<open>i\<close> is least among those from \<open>i\<close> on.\<close>

definition least_at :: "nat \<Rightarrow> nat \<Rightarrow> contextPart list \<Rightarrow> bool" where
  "least_at i j out \<longleftrightarrow> (\<forall>k<j. i < k \<longrightarrow> cp_priority (out ! i) \<le> cp_priority (out ! k))"

lemma sort_inner_spec:
  assumes "i < j" and "j \<le> length out" and "least_at i j out"
  shows "length (sort_inner i j out) = length out \<and> mset (sort_inner i j out) = mset out \<and>
    (\<forall>k<i. sort_inner i j out ! k = out ! k) \<and> set (drop i (sort_inner i j out)) = set (drop i out) \<and>
    least_at i (length out) (sort_inner i j out)"
  using assms
proof (induction i j out rule: sort_inner.induct)
  case (1 i j out)
  show ?case
  proof (cases "j < length out")
    case False
    then show ?thesis using 1 by (subst (1 2 3 4 5) sort_inner.simps) simp
  next
    case True
    let ?out = "if cp_priority (out ! j) < cp_priority (out ! i) then swap_parts i j out else out"
    have i: "i < length out" using 1 True by simp
    have "least_at i (Suc j) ?out"
      using 1(4) i True by (auto simp: least_at_def nth_swap_parts less_Suc_eq)
    then have "length (sort_inner i (Suc j) ?out) = length ?out \<and> mset (sort_inner i (Suc j) ?out) = mset ?out \<and>
      (\<forall>k<i. sort_inner i (Suc j) ?out ! k = ?out ! k) \<and>
      set (drop i (sort_inner i (Suc j) ?out)) = set (drop i ?out) \<and>
      least_at i (length ?out) (sort_inner i (Suc j) ?out)"
      using 1(1) [OF True] 1(2) True by simp
    moreover have "length ?out = length out" "mset ?out = mset out" "\<forall>k<i. ?out ! k = out ! k"
      "set (drop i ?out) = set (drop i out)"
      using 1(2) i True by (auto simp: mset_swap_parts nth_swap_parts drop_swap_parts)
    moreover have "sort_inner i j out = sort_inner i (Suc j) ?out"
      using True by (subst sort_inner.simps) simp
    ultimately show ?thesis by simp
  qed
qed

definition sorted_to :: "nat \<Rightarrow> contextPart list \<Rightarrow> bool" where
  "sorted_to i out \<longleftrightarrow> (\<forall>a<i. \<forall>b<length out. a < b \<longrightarrow> cp_priority (out ! a) \<le> cp_priority (out ! b))"

lemma sort_round:
  assumes "i < length out" and "sorted_to i out"
  shows "sorted_to (Suc i) (sort_inner i (Suc i) out) \<and> mset (sort_inner i (Suc i) out) = mset out
    \<and> length (sort_inner i (Suc i) out) = length out"
proof -
  let ?r = "sort_inner i (Suc i) out"
  have r: "length ?r = length out" "mset ?r = mset out" "\<forall>k<i. ?r ! k = out ! k"
    "set (drop i ?r) = set (drop i out)" "least_at i (length out) ?r"
    using sort_inner_spec [of i "Suc i" out] assms(1) by (auto simp: least_at_def)
  have "cp_priority (?r ! a) \<le> cp_priority (?r ! b)" if "a < i" "a < b" "b < length out" for a b
  proof (cases "b < i")
    case True
    then show ?thesis using that r(3) assms(2) by (simp add: sorted_to_def)
  next
    case False
    then have "?r ! b \<in> set (drop i ?r)" using that r(1) by (auto simp: in_set_conv_nth intro!: exI [of _ "b - i"])
    then obtain c where "i \<le> c" "c < length out" "?r ! b = out ! c"
      unfolding r(4) by (auto simp: in_set_conv_nth) (metis le_add1 less_diff_conv add.commute)
    then show ?thesis using that r(3) assms(2) by (simp add: sorted_to_def)
  qed
  moreover have "cp_priority (?r ! i) \<le> cp_priority (?r ! b)" if "i < b" "b < length out" for b
    using r(5) that by (simp add: least_at_def)
  ultimately show ?thesis using r by (auto simp: sorted_to_def less_Suc_eq)
qed

lemma sort_rounds:
  "k \<le> length out \<Longrightarrow>
   sorted_to k (fold (\<lambda>i out. sort_inner i (Suc i) out) [0..<k] out)
   \<and> mset (fold (\<lambda>i out. sort_inner i (Suc i) out) [0..<k] out) = mset out
   \<and> length (fold (\<lambda>i out. sort_inner i (Suc i) out) [0..<k] out) = length out"
proof (induction k)
  case (Suc k)
  then show ?case
    using sort_round [of k "fold (\<lambda>i out. sort_inner i (Suc i) out) [0..<k] out"] by simp
qed (simp add: sorted_to_def)

lemma sortContextParts_sorted:
  "sorted (map cp_priority (sortContextParts ps)) \<and> mset (sortContextParts ps) = mset ps"
proof -
  have s: "sorted_to (length ps) (sortContextParts ps)" "mset (sortContextParts ps) = mset ps"
    "length (sortContextParts ps) = length ps"
    using sort_rounds [of "length ps" ps] by (simp_all add: sortContextParts_def)
  then have "sorted (map cp_priority (sortContextParts ps))"
    by (auto simp: sorted_iff_nth_mono_less sorted_to_def)
  with s show ?thesis by blast
qed

section \<open>Selection\<close>

text \<open>The selected texts are those of the first parts, in order, and at most one trimmed text after them.\<close>

definition trimmed_part :: "int \<Rightarrow> contextPart \<Rightarrow> string list" where
  "trimmed_part room p =
     (let trimmed = TrimToTokenBudget (cp_text p) room in if trimmed = [] then [] else [trimmed])"

definition total_tokens :: "contextPart list \<Rightarrow> int" where
  "total_tokens ps = int (sum_list (map cp_tokens ps))"

lemma select_parts_spec:
  assumes "used \<le> budget"
  shows "\<exists>k \<le> length ps. used + total_tokens (take k ps) \<le> budget \<and>
    (select_parts budget used ps = map cp_text (take k ps) \<and> k = length ps
     \<or> k < length ps \<and> budget < used + total_tokens (take (Suc k) ps) \<and>
       select_parts budget used ps =
         map cp_text (take k ps) @ trimmed_part (budget - used - total_tokens (take k ps)) (ps ! k))"
  using assms
proof (induction ps arbitrary: used)
  case (Cons p ps)
  show ?case
  proof (cases "budget < used + int (cp_tokens p)")
    case True
    then show ?thesis using Cons.prems
      by (intro exI [of _ 0]) (simp add: total_tokens_def trimmed_part_def)
  next
    case False
    then obtain k where "k \<le> length ps" "used + int (cp_tokens p) + total_tokens (take k ps) \<le> budget"
      "select_parts budget (used + int (cp_tokens p)) ps = map cp_text (take k ps) \<and> k = length ps
       \<or> k < length ps \<and> budget < used + int (cp_tokens p) + total_tokens (take (Suc k) ps) \<and>
         select_parts budget (used + int (cp_tokens p)) ps = map cp_text (take k ps)
           @ trimmed_part (budget - (used + int (cp_tokens p)) - total_tokens (take k ps)) (ps ! k)"
      using Cons.IH [of "used + int (cp_tokens p)"] by auto
    with False show ?thesis
      by (intro exI [of _ "Suc k"]) (auto simp: total_tokens_def algebra_simps)
  qed
qed (simp add: total_tokens_def)

section \<open>Properties\<close>

text \<open>
  The sort of the context parts orders them by rank and neither loses nor repeats a part.
\<close>

theorem sortContextParts_correct:
  "sorted (map cp_priority (sortContextParts ps)) \<and> mset (sortContextParts ps) = mset ps"
  by (rule sortContextParts_sorted)

text \<open>
  Parts of the same rank do not keep their order: the exchange sort swaps two snippets when a
  better part follows them.
\<close>

theorem sortContextParts_unstable:
  "sortContextParts
     [\<lparr>cp_priority = 2, cp_text = ''a'', cp_tokens = 1\<rparr>, \<lparr>cp_priority = 2, cp_text = ''b'', cp_tokens = 1\<rparr>,
      \<lparr>cp_priority = 0, cp_text = ''c'', cp_tokens = 1\<rparr>]
   = [\<lparr>cp_priority = 0, cp_text = ''c'', cp_tokens = 1\<rparr>, \<lparr>cp_priority = 2, cp_text = ''b'', cp_tokens = 1\<rparr>,
      \<lparr>cp_priority = 2, cp_text = ''a'', cp_tokens = 1\<rparr>]"
  by (simp add: sortContextParts_def sort_inner.simps swap_parts_def upt_rec)

text \<open>
  C33: What the builder joins are the texts of the best-ranked parts, whole, as many as fit the
  budget left after the system prompt, followed by at most one part cut to the room that is left: no
  part is included while a better-ranked one is left out, and the whole parts together are within
  the budget.
\<close>

theorem builder_selects_best:
  "\<exists>ps k. mset ps = mset (context_parts editor ctx) \<and> sorted (map cp_priority ps) \<and> k \<le> length ps \<and>
    (let budget = ContextBudgetAfterReserve (b_tokenBudget b) (int (EstimateTokens system));
         cut = (if k < length ps then trimmed_part (budget - total_tokens (take k ps)) (ps ! k) else []);
         out = str_join (map cp_text (take k ps) @ cut) (nl @ nl)
     in total_tokens (take k ps) \<le> budget \<and>
        (if k < length ps then budget < total_tokens (take (Suc k) ps) else True) \<and>
        builder_Build system editor ctx b = (if b_scanSecrets b then RedactSecrets out else out))"
proof -
  let ?ps = "sortContextParts (context_parts editor ctx)"
  let ?budget = "ContextBudgetAfterReserve (b_tokenBudget b) (int (EstimateTokens system))"
  have "0 \<le> ?budget" by (simp add: ContextBudgetAfterReserve_def budget_consts Let_def)
  then obtain k where k: "k \<le> length ?ps" "total_tokens (take k ?ps) \<le> ?budget"
    "select_parts ?budget 0 ?ps = map cp_text (take k ?ps) \<and> k = length ?ps
     \<or> k < length ?ps \<and> ?budget < total_tokens (take (Suc k) ?ps) \<and>
       select_parts ?budget 0 ?ps = map cp_text (take k ?ps) @ trimmed_part (?budget - total_tokens (take k ?ps)) (?ps ! k)"
    using select_parts_spec [of 0 ?budget ?ps] by auto
  have e: "select_parts ?budget 0 ?ps = [] \<Longrightarrow> RedactSecrets [] = []"
    by (simp add: RedactSecrets_def)
  show ?thesis
    using sortContextParts_sorted [of "context_parts editor ctx"] k
    by (intro exI [of _ ?ps] exI [of _ k]) (auto simp: builder_Build_def Let_def RedactSecrets_def)
qed

end
