(* ===== verification/RunnerAddress.thy ===== *)
theory RunnerAddress
  imports GoStrings
begin

text \<open>
  Runner addresses, \<open>pkg/domain/runner.go\<close>, over the functions of the packages \<open>net\<close> and
  \<open>strconv\<close> it calls: \<open>net.JoinHostPort\<close> puts a host with a colon in brackets,
  \<open>net.SplitHostPort\<close> takes it out of them and refuses any other bracket or a second colon, and
  \<open>strconv.ParseUint\<close> reads decimal digits. The round trip holds for every host that can appear
  in an address, IPv6 hosts included.
\<close>

section \<open>Functions of the standard library\<close>

definition JoinHostPort :: "string \<Rightarrow> string \<Rightarrow> string" where
  "JoinHostPort host port =
     (if CHR '':'' \<in> set host then ''['' @ host @ '']:'' @ port else host @ '':'' @ port)"

text \<open>The text before and after the last colon.\<close>

fun split_last_colon :: "string \<Rightarrow> (string \<times> string) option" where
  "split_last_colon [] = None"
| "split_last_colon (c # cs) =
     (case split_last_colon cs of
        Some (h, p) \<Rightarrow> Some (c # h, p)
      | None \<Rightarrow> if c = CHR '':'' then Some ([], cs) else None)"

definition SplitHostPort :: "string \<Rightarrow> (string \<times> string) option" where
  "SplitHostPort hostport =
     (case split_last_colon hostport of
        None \<Rightarrow> None
      | Some (host, port) \<Rightarrow>
          if host \<noteq> [] \<and> hd host = CHR ''['' then
            (let inner = takeWhile (\<lambda>c. c \<noteq> CHR '']'') (tl host) in
             if host = ''['' @ inner @ '']'' \<and> CHR ''['' \<notin> set (inner @ port) \<and> CHR '']'' \<notin> set port
             then Some (inner, port) else None)
          else if CHR '':'' \<in> set host \<or> CHR ''['' \<in> set hostport \<or> CHR '']'' \<in> set hostport then None
          else Some (host, port))"

definition ParseUint32 :: "string \<Rightarrow> nat option" where
  "ParseUint32 s =
     (if s = [] \<or> \<not> list_all digit s then None
      else let n = digits_value s in if n < 2 ^ 32 then Some n else None)"

section \<open>Addresses\<close>

record Runner =
  rn_ID :: int
  rn_Name :: string
  rn_Host :: string
  rn_Port :: int
  rn_Enabled :: bool
  rn_SelectedModel :: string

definition RunnerListenAddress :: "string \<Rightarrow> int \<Rightarrow> string" where
  "RunnerListenAddress host port =
     (let h = TrimSpace host in if h = [] \<or> port \<le> 0 then [] else JoinHostPort h (itoa port))"

datatype address_error = EmptyHost | BadPort | PortMissing

definition ParseRunnerHostOrHostPort :: "string \<Rightarrow> int \<Rightarrow> address_error + (string \<times> int)" where
  "ParseRunnerHostOrHostPort hostOrHostPort fallbackPort =
     (let raw = TrimSpace hostOrHostPort in
      if raw = [] then Inl EmptyHost
      else
        case SplitHostPort raw of
          Some (h, pStr) \<Rightarrow>
            (case ParseUint32 (TrimSpace pStr) of
               None \<Rightarrow> Inl BadPort
             | Some p \<Rightarrow>
                 if p = 0 \<or> 65535 < p then Inl BadPort
                 else let h = TrimSpace h in if h = [] then Inl EmptyHost else Inr (h, int p))
        | None \<Rightarrow>
            if fallbackPort \<le> 0 \<or> 65535 < fallbackPort then Inl PortMissing
            else
              let h = (if HasPrefix raw ''['' \<and> HasSuffix raw '']'' \<and> \<not> str_contains raw '']:''
                       then TrimSpace (TrimSuffix (TrimPrefix raw ''['') '']'') else raw)
              in if h = [] then Inl EmptyHost else Inr (h, fallbackPort))"

section \<open>Lemmas\<close>

lemma split_last_colon_append:
  "CHR '':'' \<notin> set p \<Longrightarrow> split_last_colon (h @ CHR '':'' # p) = Some (h, p)"
proof (induction h)
  case Nil
  have "split_last_colon p = None" using Nil by (induction p) auto
  then show ?case by simp
qed simp

lemma ParseUint32_itoa: "0 < p \<Longrightarrow> p \<le> 65535 \<Longrightarrow> ParseUint32 (itoa p) = Some (nat p)"
  by (simp add: ParseUint32_def itoa_def nat_digits_digit digits_value_nat_digits Let_def)

lemma digit_not: "digit c \<Longrightarrow> c \<noteq> CHR '':'' \<and> c \<noteq> CHR ''['' \<and> c \<noteq> CHR '']''"
  by (auto simp: digit_def)

text \<open>Splitting undoes joining when the host has no brackets and the port no special character.\<close>

lemma SplitHostPort_Join:
  assumes "CHR ''['' \<notin> set h" and "CHR '']'' \<notin> set h" and "h \<noteq> []"
    and "list_all digit p"
  shows "SplitHostPort (JoinHostPort h p) = Some (h, p)"
proof -
  have p: "CHR '':'' \<notin> set p" "CHR ''['' \<notin> set p" "CHR '']'' \<notin> set p"
    using assms(4) digit_not by (auto simp: list_all_iff)
  show ?thesis
  proof (cases "CHR '':'' \<in> set h")
    case True
    have s: "split_last_colon ((''['' @ h @ '']'') @ CHR '':'' # p) = Some (''['' @ h @ '']'', p)"
      by (rule split_last_colon_append) (rule p)
    have "takeWhile (\<lambda>c. c \<noteq> CHR '']'') (h @ '']'') = h"
      using assms(2) by (subst takeWhile_append2) auto
    with True s p assms(1) show ?thesis by (simp add: JoinHostPort_def SplitHostPort_def)
  next
    case False
    then have "hd h \<noteq> CHR ''[''" using assms(1,3) by (metis hd_in_set)
    with False p assms split_last_colon_append [OF p(1), of h] show ?thesis
      by (simp add: JoinHostPort_def SplitHostPort_def)
  qed
qed

text \<open>An address has no space at its ends.\<close>

lemma trim_chunks_same:
  assumes "cs \<noteq> []" and "\<not> space_chunk (hd cs)" and "\<not> space_chunk (last cs)"
  shows "trim_chunks cs = cs"
proof -
  have "dropWhile space_chunk cs = cs" "dropWhile space_chunk (rev cs) = rev cs"
    using assms by (simp_all only: dropWhile_eq_self_iff hd_rev simp_thms)
  then show ?thesis by (simp add: trim_chunks_def)
qed

lemma hd_trim_chunks: "trim_chunks cs \<noteq> [] \<Longrightarrow> \<not> space_chunk (hd (trim_chunks cs))"
proof -
  assume ne: "trim_chunks cs \<noteq> []"
  obtain n where n: "trim_chunks cs = take n (dropWhile space_chunk cs)"
    unfolding trim_chunks_def using rev_dropWhile_rev_as_take by blast
  then have "hd (trim_chunks cs) = hd (dropWhile space_chunk cs)" "dropWhile space_chunk cs \<noteq> []"
    using ne by (auto simp: hd_take)
  then show ?thesis using hd_dropWhile by metis
qed

lemma TrimSpace_address:
  assumes "list_all digit p" and "p \<noteq> []" and "TrimSpace h = h" and "h \<noteq> []"
  shows "TrimSpace (JoinHostPort h p) = JoinHostPort h p"
proof -
  have last: "\<not> space_chunk (last (cs @ chunks p))" for cs
    using assms(1,2) by (simp add: digits_ascii last_map list_all_iff space_chunk_digit)
  have last_p: "\<not> space_chunk (last (chunks p))" using last [of "[]"] by simp
  have bracket: "\<not> space_chunk ''[''" by (simp add: space_chunk_def decode_rune_1 IsSpace_def)
  have hd_h: "\<not> space_chunk (hd (chunks h))"
    using hd_trim_chunks [of "chunks h"] chunks_TrimSpace [of h] assms(3,4) by simp
  show ?thesis
  proof (cases "CHR '':'' \<in> set h")
    case True
    have c: "chunks (JoinHostPort h p) = (''['' # chunks h @ ['']'', '':'']) @ chunks p"
      using True chunks_before_ascii [of "CHR '']''" h "CHR '':'' # p"] by (simp add: JoinHostPort_def)
    have "trim_chunks (chunks (JoinHostPort h p)) = chunks (JoinHostPort h p)"
      unfolding c by (rule trim_chunks_same) (use bracket last_p assms(2) in simp_all)
    then show ?thesis by (simp add: TrimSpace_def)
  next
    case False
    have c: "chunks (JoinHostPort h p) = (chunks h @ ['':'']) @ chunks p"
      using False chunks_before_ascii [of "CHR '':''" h p] by (simp add: JoinHostPort_def)
    have "trim_chunks (chunks (JoinHostPort h p)) = chunks (JoinHostPort h p)"
      unfolding c by (rule trim_chunks_same) (use hd_h last_p assms(2,4) in simp_all)
    then show ?thesis by (simp add: TrimSpace_def)
  qed
qed

section \<open>Properties\<close>

text \<open>
  An address built from a host and a port is parsed back into the trimmed host and the port,
  for IPv6 hosts as well; only hosts that contain brackets themselves are excluded.
\<close>

theorem runner_address_roundtrip:
  assumes "TrimSpace host \<noteq> []" and "CHR ''['' \<notin> set (TrimSpace host)" and "CHR '']'' \<notin> set (TrimSpace host)"
    and "0 < port" and "port \<le> 65535"
  shows "ParseRunnerHostOrHostPort (RunnerListenAddress host port) fallback = Inr (TrimSpace host, port)"
proof -
  let ?h = "TrimSpace host" and ?p = "itoa port"
  have d: "list_all digit ?p" using assms(4) by (rule itoa_digits)
  have a: "RunnerListenAddress host port = JoinHostPort ?h ?p"
    using assms(1,4) by (simp add: RunnerListenAddress_def)
  have t: "TrimSpace (JoinHostPort ?h ?p) = JoinHostPort ?h ?p"
    by (rule TrimSpace_address [OF d]) (use assms(1) in simp_all)
  have tp: "TrimSpace ?p = ?p"
  proof -
    have "chunks ?p \<noteq> []" by simp
    moreover have "\<forall>c\<in>set (chunks ?p). \<not> space_chunk c"
      using d by (auto simp: digits_ascii list_all_iff space_chunk_digit)
    ultimately have "trim_chunks (chunks ?p) = chunks ?p" by (intro trim_chunks_same) simp_all
    then show ?thesis by (simp add: TrimSpace_def)
  qed
  have "JoinHostPort ?h ?p \<noteq> []" by (simp add: JoinHostPort_def)
  then show ?thesis
    unfolding a ParseRunnerHostOrHostPort_def t
    using SplitHostPort_Join [OF assms(2,3,1) d] ParseUint32_itoa [OF assms(4,5)] assms(1,4,5)
    by (simp add: tp)
qed

theorem runner_address_roundtrip_witness:
  "ParseRunnerHostOrHostPort (RunnerListenAddress ''::1'' 50051) 0 = Inr (''::1'', 50051)"
proof -
  have t: "TrimSpace ''::1'' = ''::1''" by (simp add: TrimSpace_eval)
  show ?thesis using runner_address_roundtrip [of "''::1''" 50051 0] by (simp add: t)
qed

end
