(* ===== verification/RunnerRegistry.thy ===== *)
theory RunnerRegistry
  imports RunnerAddress "HOL-Library.AList" "HOL-Library.Multiset"
begin

text \<open>
  The registry of LLM runners, \<open>pkg/llmrunner/registry.go\<close>, and the limits it aggregates over
  the enabled runners, \<open>runner_hints.go\<close>. The map from addresses to states is an association
  list with distinct keys whose order stands for the order in which Go iterates over the map, which
  is arbitrary: what a caller may rely on is what holds for every order. The aggregate is shown to
  be independent of it.
\<close>

section \<open>State\<close>

record RunnerCoreHints =
  MaxContextTokens :: int
  LLMHistoryMaxMessages :: int
  LLMHistorySummarizeDropped :: bool
  SummaryMaxInputRunes :: int
  SummaryModel :: string
  SummaryRunnerListenAddress :: string
  SummaryCacheEntries :: int
  MaxToolInvocationRounds :: int

record RunnerState =
  rs_ID :: int
  rs_Address :: string
  rs_Host :: string
  rs_Port :: int
  rs_Name :: string
  rs_Enabled :: bool
  rs_SelectedModel :: string
  rs_Hints :: "RunnerCoreHints option"

type_synonym Registry = "(string \<times> RunnerState) list"

record RunnerInfo =
  ri_ID :: int
  ri_Address :: string
  ri_Host :: string
  ri_Port :: int
  ri_Name :: string
  ri_Enabled :: bool
  ri_SelectedModel :: string

definition RunnerStatesFromDomain :: "Runner list \<Rightarrow> RunnerState list" where
  "RunnerStatesFromDomain rows =
     concat (map (\<lambda>r. let addr = RunnerListenAddress (rn_Host r) (rn_Port r) in
       if addr = [] then []
       else [\<lparr>rs_ID = rn_ID r, rs_Address = addr, rs_Host = TrimSpace (rn_Host r), rs_Port = rn_Port r,
              rs_Name = TrimSpace (rn_Name r), rs_Enabled = rn_Enabled r,
              rs_SelectedModel = TrimSpace (rn_SelectedModel r), rs_Hints = None\<rparr>]) rows)"

section \<open>Operations\<close>

definition registry_ReplaceAll :: "RunnerState list \<Rightarrow> Registry \<Rightarrow> Registry" where
  "registry_ReplaceAll states r =
     fold (\<lambda>st next. let addr = TrimSpace (rs_Address st) in
       if addr = [] then next else AList.update addr (st\<lparr>rs_Address := addr\<rparr>) next) states []"

definition NewRegistry :: "RunnerState list \<Rightarrow> Registry" where
  "NewRegistry initial = registry_ReplaceAll initial []"

definition RegisterWithNameAndHints :: "string \<Rightarrow> string \<Rightarrow> RunnerCoreHints option \<Rightarrow> Registry \<Rightarrow> Registry" where
  "RegisterWithNameAndHints addr name hints r =
     (if addr = [] then r
      else
        case map_of r addr of
          None \<Rightarrow> AList.update addr
            \<lparr>rs_ID = 0, rs_Address = addr, rs_Host = [], rs_Port = 0, rs_Name = TrimSpace name,
             rs_Enabled = True, rs_SelectedModel = [], rs_Hints = hints\<rparr> r
        | Some existing \<Rightarrow>
            let e1 = (if TrimSpace name \<noteq> [] then existing\<lparr>rs_Name := TrimSpace name\<rparr> else existing);
                e2 = (if hints \<noteq> None then e1\<lparr>rs_Hints := hints\<rparr> else e1)
            in AList.update addr e2 r)"

definition RegisterWithName :: "string \<Rightarrow> string \<Rightarrow> Registry \<Rightarrow> Registry" where
  "RegisterWithName addr name r = RegisterWithNameAndHints addr name None r"

definition Register :: "string \<Rightarrow> Registry \<Rightarrow> Registry" where
  "Register addr r = RegisterWithNameAndHints addr [] None r"

definition Unregister :: "string \<Rightarrow> Registry \<Rightarrow> Registry" where
  "Unregister addr r = AList.delete addr r"

definition SetEnabled :: "string \<Rightarrow> bool \<Rightarrow> Registry \<Rightarrow> Registry" where
  "SetEnabled addr enabled r =
     (let a = TrimSpace addr in
      case map_of r a of None \<Rightarrow> r | Some st \<Rightarrow> AList.update a (st\<lparr>rs_Enabled := enabled\<rparr>) r)"

definition ListRunners :: "Registry \<Rightarrow> RunnerInfo list" where
  "ListRunners r =
     map (\<lambda>(_, st). \<lparr>ri_ID = rs_ID st, ri_Address = rs_Address st, ri_Host = rs_Host st, ri_Port = rs_Port st,
       ri_Name = rs_Name st, ri_Enabled = rs_Enabled st, ri_SelectedModel = rs_SelectedModel st\<rparr>) r"

text \<open>The first after sorting by id; runners with the same id stay in the order of the iteration.\<close>

definition default_pairs :: "Registry \<Rightarrow> (int \<times> string) list" where
  "default_pairs r =
     concat (map (\<lambda>(_, st). if \<not> rs_Enabled st then []
       else let a = TrimSpace (rs_Address st) in if a = [] then [] else [(rs_ID st, a)]) r)"

definition DefaultRunnerListenAddress :: "Registry \<Rightarrow> string" where
  "DefaultRunnerListenAddress r =
     (case sort_key fst (default_pairs r) of [] \<Rightarrow> [] | p # _ \<Rightarrow> snd p)"

definition HasActiveRunners :: "Registry \<Rightarrow> bool" where
  "HasActiveRunners r \<longleftrightarrow> list_ex (\<lambda>(_, st). rs_Enabled st) r"

definition GetEnabledAddresses :: "Registry \<Rightarrow> string list" where
  "GetEnabledAddresses r = map (\<lambda>(_, st). rs_Address st) (filter (\<lambda>(_, st). rs_Enabled st) r)"

definition IsEnabledRunner :: "string \<Rightarrow> Registry \<Rightarrow> bool" where
  "IsEnabledRunner addr r =
     (let a = TrimSpace addr in
      if a = [] then False
      else (case map_of r a of None \<Rightarrow> False | Some st \<Rightarrow> rs_Enabled st))"

definition GetByID :: "int \<Rightarrow> Registry \<Rightarrow> RunnerState option" where
  "GetByID ident r =
     (if ident \<le> 0 then None else map_option snd (find (\<lambda>(_, st). rs_ID st = ident) r))"

section \<open>Hints\<close>

definition DefaultRunnerCoreHints :: RunnerCoreHints where
  "DefaultRunnerCoreHints =
     \<lparr>MaxContextTokens = 0, LLMHistoryMaxMessages = 0, LLMHistorySummarizeDropped = False,
      SummaryMaxInputRunes = 0, SummaryModel = [], SummaryRunnerListenAddress = [],
      SummaryCacheEntries = 0, MaxToolInvocationRounds = 0\<rparr>"

definition normHistMax :: "int \<Rightarrow> int" where
  "normHistMax n = (if n \<le> 0 then 0 else n)"

definition normApproxTok :: "int \<Rightarrow> int" where
  "normApproxTok n = (if n \<le> 0 then 0 else if n < 512 then 512 else if 500000 < n then 500000 else n)"

definition normSummaryRunes :: "int \<Rightarrow> int" where
  "normSummaryRunes n = (if n \<le> 0 then 0 else n)"

definition normToolRounds :: "int \<Rightarrow> int" where
  "normToolRounds n = (if n \<le> 0 then 0 else n)"

definition normCacheEntries :: "int \<Rightarrow> int" where
  "normCacheEntries n = (if n < 0 then 0 else if 50000 < n then 50000 else n)"

definition FinalizeChatHints :: "RunnerCoreHints \<Rightarrow> RunnerCoreHints" where
  "FinalizeChatHints h =
     h\<lparr>LLMHistoryMaxMessages := normHistMax (LLMHistoryMaxMessages h),
       MaxContextTokens := normApproxTok (MaxContextTokens h),
       SummaryMaxInputRunes := normSummaryRunes (SummaryMaxInputRunes h),
       MaxToolInvocationRounds := normToolRounds (MaxToolInvocationRounds h),
       SummaryCacheEntries := normCacheEntries (SummaryCacheEntries h),
       SummaryModel := TrimSpace (SummaryModel h),
       SummaryRunnerListenAddress := TrimSpace (SummaryRunnerListenAddress h)\<rparr>"

definition maxInt32 :: int where
  "maxInt32 = 2 ^ 31 - 1"

text \<open>\<open>minPositive\<close>: the least positive value, below the largest 32-bit integer, or 0.\<close>

definition minPositive :: "(RunnerCoreHints \<Rightarrow> int) \<Rightarrow> RunnerCoreHints list \<Rightarrow> int" where
  "minPositive get hs =
     (let (v, any) = fold (\<lambda>h (v, any). let n = get h in
            if n \<le> 0 then (v, any) else (if n < v then n else v, True)) hs (maxInt32, False)
      in if any then v else 0)"

definition summary_runes :: "RunnerCoreHints list \<Rightarrow> int" where
  "summary_runes hs =
     (let v = fold (\<lambda>h v. if 0 < SummaryMaxInputRunes h \<and> SummaryMaxInputRunes h < v
                          then SummaryMaxInputRunes h else v) hs maxInt32
      in if v \<noteq> maxInt32 then v else 0)"

text \<open>The hints of the first runner with the least positive window.\<close>

definition bottleneck :: "RunnerCoreHints list \<Rightarrow> RunnerCoreHints option" where
  "bottleneck hs =
     snd (fold (\<lambda>h (v, best). if MaxContextTokens h \<le> 0 then (v, best)
            else if MaxContextTokens h < v then (MaxContextTokens h, Some h) else (v, best))
          hs (maxInt32, None))"

definition first_nonblank :: "(RunnerCoreHints \<Rightarrow> string) \<Rightarrow> RunnerCoreHints list \<Rightarrow> string" where
  "first_nonblank get hs =
     (case find (\<lambda>h. TrimSpace (get h) \<noteq> []) hs of None \<Rightarrow> [] | Some h \<Rightarrow> TrimSpace (get h))"

definition hint_pairs :: "Registry \<Rightarrow> (string \<times> RunnerCoreHints) list" where
  "hint_pairs r =
     concat (map (\<lambda>(addr, st). if \<not> rs_Enabled st then []
       else (case rs_Hints st of None \<Rightarrow> [] | Some h \<Rightarrow> [(addr, h)])) r)"

definition AggregateChatHints :: "Registry \<Rightarrow> RunnerCoreHints" where
  "AggregateChatHints r =
     (let pairs = sort_key fst (hint_pairs r); hs = map snd pairs in
      if pairs = [] then FinalizeChatHints DefaultRunnerCoreHints
      else
        let bn = bottleneck hs;
            model0 = (case bn of None \<Rightarrow> [] | Some h \<Rightarrow> TrimSpace (SummaryModel h));
            addr0 = (case bn of None \<Rightarrow> [] | Some h \<Rightarrow> TrimSpace (SummaryRunnerListenAddress h));
            msgMin = minPositive LLMHistoryMaxMessages hs;
            trMin = minPositive MaxToolInvocationRounds hs
        in FinalizeChatHints
          \<lparr>MaxContextTokens = minPositive MaxContextTokens hs,
           LLMHistoryMaxMessages = (if 0 < msgMin then msgMin else 0),
           LLMHistorySummarizeDropped = list_ex LLMHistorySummarizeDropped hs,
           SummaryMaxInputRunes = summary_runes hs,
           SummaryModel = (if model0 = [] then first_nonblank SummaryModel hs else model0),
           SummaryRunnerListenAddress =
             (if addr0 = [] then first_nonblank SummaryRunnerListenAddress hs else addr0),
           SummaryCacheEntries = fold (\<lambda>h m. if m < SummaryCacheEntries h then SummaryCacheEntries h else m) hs 0,
           MaxToolInvocationRounds = (if 0 < trMin then trMin else 0)\<rparr>)"

section \<open>The invariant of the registry\<close>

definition registry_inv :: "Registry \<Rightarrow> bool" where
  "registry_inv r \<longleftrightarrow> distinct (map fst r) \<and>
     (\<forall>a st. map_of r a = Some st \<longrightarrow> a \<noteq> [] \<and> rs_Address st = a)"

lemma registry_inv_update [inv_intros]:
  "registry_inv r \<Longrightarrow> a \<noteq> [] \<Longrightarrow> rs_Address st = a \<Longrightarrow> registry_inv (AList.update a st r)"
  unfolding registry_inv_def by (simp add: distinct_update update_conv')

lemma registry_inv_lookup: "registry_inv r \<Longrightarrow> map_of r a = Some st \<Longrightarrow> a \<noteq> [] \<and> rs_Address st = a"
  by (simp add: registry_inv_def)

lemma registry_inv_entry: "registry_inv r \<Longrightarrow> (a, st) \<in> set r \<longleftrightarrow> map_of r a = Some st"
  by (simp add: registry_inv_def)

lemma registry_inv_ReplaceAll [inv_intros]: "registry_inv (registry_ReplaceAll states r)"
  unfolding registry_ReplaceAll_def
  by (rule fold_invariant [where P = registry_inv])
    (simp_all add: registry_inv_def [of "[]"] Let_def registry_inv_update)

lemma registry_inv_Register [inv_intros]:
  assumes "registry_inv r" shows "registry_inv (RegisterWithNameAndHints addr name hints r)"
proof (cases "map_of r addr")
  case None
  then show ?thesis using assms by (simp add: RegisterWithNameAndHints_def registry_inv_update)
next
  case (Some st)
  with registry_inv_lookup [OF assms Some] assms show ?thesis
    by (simp add: RegisterWithNameAndHints_def registry_inv_update Let_def)
qed

lemma registry_inv_Unregister [inv_intros]: "registry_inv r \<Longrightarrow> registry_inv (Unregister addr r)"
  unfolding registry_inv_def Unregister_def by (simp add: distinct_delete delete_conv')

lemma registry_inv_SetEnabled [inv_intros]:
  assumes "registry_inv r" shows "registry_inv (SetEnabled addr b r)"
proof (cases "map_of r (TrimSpace addr)")
  case None
  then show ?thesis using assms by (simp add: SetEnabled_def)
next
  case (Some st)
  with registry_inv_lookup [OF assms Some] assms show ?thesis
    by (simp add: SetEnabled_def registry_inv_update)
qed

datatype registry_op =
    OpReplaceAll "RunnerState list"
  | OpRegister string string "RunnerCoreHints option"
  | OpUnregister string
  | OpSetEnabled string bool

fun registry_step :: "registry_op \<Rightarrow> Registry \<Rightarrow> Registry" where
  "registry_step (OpReplaceAll states) r = registry_ReplaceAll states r"
| "registry_step (OpRegister addr name hints) r = RegisterWithNameAndHints addr name hints r"
| "registry_step (OpUnregister addr) r = Unregister addr r"
| "registry_step (OpSetEnabled addr b) r = SetEnabled addr b r"

lemma registry_run_inv: "registry_inv (fold registry_step ops (NewRegistry initial))"
proof (rule fold_invariant [where P = registry_inv])
  show "registry_inv (NewRegistry initial)" by (simp add: NewRegistry_def registry_inv_ReplaceAll)
  show "registry_inv (registry_step op r)" if "registry_inv r" for op r
    using that by (cases op) (simp_all add: inv_intros)
qed

section \<open>Views\<close>

lemma GetEnabled_iff:
  assumes "registry_inv r"
  shows "a \<in> set (GetEnabledAddresses r) \<longleftrightarrow> (\<exists>st. map_of r a = Some st \<and> rs_Enabled st)"
  using registry_inv_entry [OF assms] registry_inv_lookup [OF assms]
  by (force simp: GetEnabledAddresses_def)

lemma set_default_pairs:
  "(i, t) \<in> set (default_pairs r) \<longleftrightarrow>
   (\<exists>a st. (a, st) \<in> set r \<and> rs_Enabled st \<and> t = TrimSpace (rs_Address st) \<and> t \<noteq> [] \<and> i = rs_ID st)"
proof (induction r)
  case (Cons x r)
  have "default_pairs (x # r) = (if rs_Enabled (snd x) \<and> TrimSpace (rs_Address (snd x)) \<noteq> []
      then (rs_ID (snd x), TrimSpace (rs_Address (snd x))) # default_pairs r else default_pairs r)"
    by (simp add: default_pairs_def case_prod_beta Let_def)
  with Cons show ?case by (cases x) auto
qed (simp add: default_pairs_def)

lemma Default_cases:
  "if default_pairs r = [] then DefaultRunnerListenAddress r = []
   else \<exists>p\<in>set (default_pairs r). DefaultRunnerListenAddress r = snd p \<and> (\<forall>q\<in>set (default_pairs r). fst p \<le> fst q)"
proof (cases "sort_key fst (default_pairs r)")
  case Nil
  then have "default_pairs r = []" by (metis length_0_conv length_sort)
  then show ?thesis using Nil by (simp add: DefaultRunnerListenAddress_def)
next
  case (Cons p ps)
  then have "default_pairs r \<noteq> []" by auto
  moreover have "p \<in> set (default_pairs r)" using Cons by (metis list.set_intros(1) set_sort)
  moreover have "\<forall>q\<in>set (default_pairs r). fst p \<le> fst q"
    using sorted_sort_key [of fst "default_pairs r"] Cons set_sort [of fst "default_pairs r"] by auto
  moreover have "DefaultRunnerListenAddress r = snd p" using Cons by (simp add: DefaultRunnerListenAddress_def)
  ultimately show ?thesis by auto
qed

section \<open>The aggregate of the hints\<close>

lemma hint_pairs_Nil [simp]: "hint_pairs [] = []"
  by (simp add: hint_pairs_def)

lemma hint_pairs_Cons:
  "hint_pairs ((k, st) # r) =
     (if rs_Enabled st \<and> rs_Hints st \<noteq> None then (k, the (rs_Hints st)) # hint_pairs r else hint_pairs r)"
  by (simp add: hint_pairs_def split: option.split)

lemma set_hint_pairs:
  "(a, h) \<in> set (hint_pairs r) \<longleftrightarrow> (\<exists>st. (a, st) \<in> set r \<and> rs_Enabled st \<and> rs_Hints st = Some h)"
proof (induction r)
  case (Cons x r)
  then show ?case by (cases x) (auto simp: hint_pairs_Cons)
qed simp

lemma hint_pairs_keys: "distinct (map fst r) \<Longrightarrow> distinct (map fst (hint_pairs r))"
proof (induction r)
  case (Cons x r)
  have "fst ` set (hint_pairs r) \<subseteq> fst ` set r" using set_hint_pairs [of _ _ r] by force
  with Cons show ?case by (cases x) (auto simp: hint_pairs_Cons)
qed simp

lemma sorted_hint_pairs_eq:
  assumes "distinct (map fst r)" and "distinct (map fst r')" and "set r = set r'"
  shows "sort_key fst (hint_pairs r) = sort_key fst (hint_pairs r')"
proof -
  have s: "set (hint_pairs r) = set (hint_pairs r')"
    using set_hint_pairs [of _ _ r] set_hint_pairs [of _ _ r'] assms(3) by auto
  have d: "distinct (map fst (hint_pairs r))" "distinct (map fst (hint_pairs r'))"
    using hint_pairs_keys assms(1,2) by auto
  have inj: "inj_on fst (set (hint_pairs r))" using d(1) by (simp add: distinct_map)
  show ?thesis
    by (rule map_sorted_distinct_set_unique [of fst])
      (use s d inj in \<open>simp_all add: distinct_map\<close>)
qed

definition min_step :: "(RunnerCoreHints \<Rightarrow> int) \<Rightarrow> RunnerCoreHints \<Rightarrow> int \<Rightarrow> int" where
  "min_step get h v = (if 0 < get h \<and> get h < v then get h else v)"

lemma minPositive_fold:
  "fold (\<lambda>h (v, any). let n = get h in if n \<le> 0 then (v, any) else (if n < v then n else v, True)) hs (v, b)
   = (fold (min_step get) hs v, b \<or> (\<exists>h\<in>set hs. 0 < get h))"
  by (induction hs arbitrary: v b) (auto simp: Let_def min_step_def not_le)

lemma min_step_fold:
  "0 < v \<Longrightarrow> 0 < fold (min_step get) hs v \<and> fold (min_step get) hs v \<le> v \<and>
   (\<forall>h\<in>set hs. 0 < get h \<longrightarrow> fold (min_step get) hs v \<le> get h)"
proof (induction hs arbitrary: v)
  case (Cons a hs)
  have "0 < min_step get a v" "min_step get a v \<le> v" "0 < get a \<longrightarrow> min_step get a v \<le> get a"
    using Cons.prems by (auto simp: min_step_def)
  with Cons.IH [of "min_step get a v"] show ?case by auto
qed simp

text \<open>The aggregated minimum is positive and a lower bound for every positive value in range.\<close>

lemma minPositive_le:
  assumes "h \<in> set hs" and "0 < get h" and "get h \<le> maxInt32"
  shows "0 < minPositive get hs \<and> minPositive get hs \<le> get h"
proof -
  have "minPositive get hs = fold (min_step get) hs maxInt32"
    using assms by (auto simp: minPositive_def minPositive_fold)
  moreover have "0 < maxInt32" by (simp add: maxInt32_def)
  ultimately show ?thesis using min_step_fold [of maxInt32 get hs] assms by auto
qed

lemma cache_fold_ge:
  "h \<in> set hs \<Longrightarrow> f h \<le> fold (\<lambda>h m. if m < f h then f h else m) hs (m :: int)"
proof (induction hs arbitrary: m)
  case (Cons a hs)
  have mono: "m \<le> fold (\<lambda>h m. if m < f h then f h else m) hs m" for m
  proof (induction hs arbitrary: m)
    case (Cons b hs)
    have "m \<le> (if m < f b then f b else m)" by simp
    then show ?case using Cons [of "if m < f b then f b else m"] by (simp del: if_split)
  qed simp
  show ?case
  proof (cases "h = a")
    case True
    then show ?thesis using mono [of "if m < f a then f a else m"] by auto
  next
    case False
    then show ?thesis using Cons by simp
  qed
qed simp

lemma AggregateChatHints_fields:
  assumes "(a, h) \<in> set (hint_pairs r)"
  defines "hs \<equiv> map snd (sort_key fst (hint_pairs r))"
  shows "MaxContextTokens (AggregateChatHints r) = normApproxTok (minPositive MaxContextTokens hs)"
    and "LLMHistoryMaxMessages (AggregateChatHints r) = max 0 (minPositive LLMHistoryMaxMessages hs)"
    and "MaxToolInvocationRounds (AggregateChatHints r) = max 0 (minPositive MaxToolInvocationRounds hs)"
    and "LLMHistorySummarizeDropped (AggregateChatHints r) = list_ex LLMHistorySummarizeDropped hs"
    and "SummaryCacheEntries (AggregateChatHints r)
      = normCacheEntries (fold (\<lambda>h m. if m < SummaryCacheEntries h then SummaryCacheEntries h else m) hs 0)"
    and "h \<in> set hs"
proof -
  have "sort_key fst (hint_pairs r) \<noteq> []" using assms(1) by (metis length_0_conv length_sort list.set_cases neq_Nil_conv)
  then show "MaxContextTokens (AggregateChatHints r) = normApproxTok (minPositive MaxContextTokens hs)"
    "LLMHistoryMaxMessages (AggregateChatHints r) = max 0 (minPositive LLMHistoryMaxMessages hs)"
    "MaxToolInvocationRounds (AggregateChatHints r) = max 0 (minPositive MaxToolInvocationRounds hs)"
    "LLMHistorySummarizeDropped (AggregateChatHints r) = list_ex LLMHistorySummarizeDropped hs"
    "SummaryCacheEntries (AggregateChatHints r)
      = normCacheEntries (fold (\<lambda>h m. if m < SummaryCacheEntries h then SummaryCacheEntries h else m) hs 0)"
    by (simp_all add: AggregateChatHints_def hs_def Let_def FinalizeChatHints_def normHistMax_def normToolRounds_def max_def)
  show "h \<in> set hs" using assms(1) by (force simp: hs_def)
qed

section \<open>Properties\<close>

text \<open>States for the examples.\<close>

definition sample_runner :: "int \<Rightarrow> string \<Rightarrow> bool \<Rightarrow> RunnerCoreHints option \<Rightarrow> RunnerState" where
  "sample_runner i a en h = \<lparr>rs_ID = i, rs_Address = a, rs_Host = [], rs_Port = 0, rs_Name = [],
     rs_Enabled = en, rs_SelectedModel = [], rs_Hints = h\<rparr>"

definition sample_hints :: "int \<Rightarrow> RunnerCoreHints" where
  "sample_hints n = DefaultRunnerCoreHints\<lparr>MaxContextTokens := n\<rparr>"

text \<open>
  C40: the registry stays well formed over every sequence of registrations, replacements, removals
  and switches: no address has two entries, none is empty, an entry is known under its own address.
  So the enabled addresses have no repetition, and they are those of the enabled entries.
\<close>

theorem registry_well_formed:
  "registry_inv (fold registry_step ops (NewRegistry initial)) \<and>
   distinct (GetEnabledAddresses (fold registry_step ops (NewRegistry initial))) \<and>
   set (GetEnabledAddresses (fold registry_step ops (NewRegistry initial))) =
     {a. \<exists>st. map_of (fold registry_step ops (NewRegistry initial)) a = Some st \<and> rs_Enabled st}"
proof -
  define r where "r = fold registry_step ops (NewRegistry initial)"
  have inv: "registry_inv r" unfolding r_def by (rule registry_run_inv)
  then have keys: "map (\<lambda>(_, st). rs_Address st) xs = map fst xs" if "set xs \<subseteq> set r" for xs
    using that registry_inv_entry[OF inv] registry_inv_lookup[OF inv] by (induction xs) auto
  have "distinct (GetEnabledAddresses r)"
    using inv unfolding GetEnabledAddresses_def keys[OF filter_is_subset] registry_inv_def
    by (simp add: distinct_map_filter)
  moreover have "set (GetEnabledAddresses r) = {a. \<exists>st. map_of r a = Some st \<and> rs_Enabled st}"
    using GetEnabled_iff[OF inv] by auto
  ultimately show ?thesis using inv unfolding r_def by simp
qed

text \<open>
  After any sequence of registrations, replacements, removals and switches, the default runner
  is an enabled one, known under its address, with the least id among the enabled runners; there is
  none exactly when no enabled runner has a non-blank address.
\<close>

theorem default_runner_least_id:
  assumes "r = fold registry_step ops (NewRegistry initial)"
  shows "(if DefaultRunnerListenAddress r = []
    then \<not> (\<exists>a\<in>set (GetEnabledAddresses r). TrimSpace a \<noteq> [])
    else \<exists>a st. map_of r a = Some st \<and> rs_Enabled st \<and> DefaultRunnerListenAddress r = TrimSpace a \<and>
      (\<forall>b st'. map_of r b = Some st' \<and> rs_Enabled st' \<and> TrimSpace b \<noteq> [] \<longrightarrow> rs_ID st \<le> rs_ID st'))"
proof -
  have inv: "registry_inv r" unfolding assms by (rule registry_run_inv)
  let ?lst = "default_pairs r"
  have mem: "(i, t) \<in> set ?lst \<longleftrightarrow> (\<exists>a st. map_of r a = Some st \<and> rs_Enabled st \<and> t = TrimSpace a \<and> t \<noteq> [] \<and> i = rs_ID st)"
    for i t
    unfolding set_default_pairs registry_inv_entry [OF inv] using registry_inv_lookup [OF inv] by metis
  show ?thesis
  proof (cases "?lst = []")
    case True
    then have "DefaultRunnerListenAddress r = []" using Default_cases [of r] by presburger
    moreover have "\<not> (\<exists>a\<in>set (GetEnabledAddresses r). TrimSpace a \<noteq> [])"
      using mem True GetEnabled_iff [OF inv] by (metis empty_iff list.set(1))
    ultimately show ?thesis by simp
  next
    case False
    then obtain i t where p: "(i, t) \<in> set ?lst" "DefaultRunnerListenAddress r = t" "\<forall>q\<in>set ?lst. i \<le> fst q"
      using Default_cases [of r] by (metis (no_types, lifting) prod.collapse)
    then obtain a st where "map_of r a = Some st" "rs_Enabled st" "t = TrimSpace a" "t \<noteq> []" "i = rs_ID st"
      using mem by blast
    moreover have "rs_ID st \<le> rs_ID st'" if "map_of r b = Some st'" "rs_Enabled st'" "TrimSpace b \<noteq> []" for b st'
      using p(3) mem [of "rs_ID st'" "TrimSpace b"] that \<open>i = rs_ID st\<close> by force
    ultimately show ?thesis using p(2) by auto
  qed
qed

theorem default_runner_least_id_witness:
  "(if DefaultRunnerListenAddress [(''a'', sample_runner 0 ''a'' True None)] = []
    then \<not> (\<exists>a\<in>set (GetEnabledAddresses [(''a'', sample_runner 0 ''a'' True None)]). TrimSpace a \<noteq> [])
    else \<exists>a st. map_of [(''a'', sample_runner 0 ''a'' True None)] a = Some st \<and> rs_Enabled st \<and>
      DefaultRunnerListenAddress [(''a'', sample_runner 0 ''a'' True None)] = TrimSpace a \<and>
      (\<forall>b st'. map_of [(''a'', sample_runner 0 ''a'' True None)] b = Some st' \<and> rs_Enabled st' \<and> TrimSpace b \<noteq> []
        \<longrightarrow> rs_ID st \<le> rs_ID st'))"
  by (rule default_runner_least_id [of _ "[OpRegister ''a'' [] None]" "[]"])
    (simp add: NewRegistry_def registry_ReplaceAll_def RegisterWithNameAndHints_def sample_runner_def)

text \<open>
  The aggregated limits do not depend on the order in which the map is iterated.
\<close>

theorem aggregate_order_independent:
  assumes "distinct (map fst r)" and "distinct (map fst r')" and "set r = set r'"
  shows "AggregateChatHints r = AggregateChatHints r'"
  using sorted_hint_pairs_eq [OF assms] by (simp add: AggregateChatHints_def Let_def)

theorem aggregate_order_independent_witness:
  "AggregateChatHints [(''a'', sample_runner 1 ''a'' True (Some (sample_hints 600))),
     (''b'', sample_runner 2 ''b'' True (Some (sample_hints 700)))]
   = AggregateChatHints [(''b'', sample_runner 2 ''b'' True (Some (sample_hints 700))),
     (''a'', sample_runner 1 ''a'' True (Some (sample_hints 600)))]"
  by (rule aggregate_order_independent) auto

text \<open>
  The aggregate is at most as generous as every enabled runner: it stays within each positive
  limit on messages and tool rounds, within each context window of at least 512 tokens, summarises
  when one runner asks for it, and caches at least as many summaries as each runner, up to 50000.
\<close>

theorem aggregate_within_each:
  assumes "(a, st) \<in> set r" and "rs_Enabled st" and "rs_Hints st = Some h"
  shows "(512 \<le> MaxContextTokens h \<and> MaxContextTokens h \<le> maxInt32 \<longrightarrow>
      512 \<le> MaxContextTokens (AggregateChatHints r) \<and> MaxContextTokens (AggregateChatHints r) \<le> MaxContextTokens h)
    \<and> (0 < LLMHistoryMaxMessages h \<and> LLMHistoryMaxMessages h \<le> maxInt32 \<longrightarrow>
      0 < LLMHistoryMaxMessages (AggregateChatHints r) \<and>
      LLMHistoryMaxMessages (AggregateChatHints r) \<le> LLMHistoryMaxMessages h)
    \<and> (0 < MaxToolInvocationRounds h \<and> MaxToolInvocationRounds h \<le> maxInt32 \<longrightarrow>
      0 < MaxToolInvocationRounds (AggregateChatHints r) \<and>
      MaxToolInvocationRounds (AggregateChatHints r) \<le> MaxToolInvocationRounds h)
    \<and> (LLMHistorySummarizeDropped h \<longrightarrow> LLMHistorySummarizeDropped (AggregateChatHints r))
    \<and> min (SummaryCacheEntries h) 50000 \<le> SummaryCacheEntries (AggregateChatHints r)"
proof -
  let ?hs = "map snd (sort_key fst (hint_pairs r))"
  have p: "(a, h) \<in> set (hint_pairs r)" using assms set_hint_pairs by blast
  note f = AggregateChatHints_fields [OF p]
  have c: "SummaryCacheEntries h \<le> fold (\<lambda>h m. if m < SummaryCacheEntries h then SummaryCacheEntries h else m) ?hs 0"
    by (rule cache_fold_ge [OF f(6)])
  show ?thesis
    using minPositive_le [OF f(6), of MaxContextTokens] minPositive_le [OF f(6), of LLMHistoryMaxMessages]
      minPositive_le [OF f(6), of MaxToolInvocationRounds] f(6) c
    unfolding f(1-5) by (auto simp: normApproxTok_def normCacheEntries_def list_ex_iff)
qed


theorem aggregate_within_each_witness:
  "MaxContextTokens (AggregateChatHints [(''a'', sample_runner 1 ''a'' True (Some (sample_hints 600))),
     (''b'', sample_runner 2 ''b'' True (Some (sample_hints 700)))]) \<le> 700"
  using aggregate_within_each [of "''b''" "sample_runner 2 ''b'' True (Some (sample_hints 700))"
    "[(''a'', sample_runner 1 ''a'' True (Some (sample_hints 600))),
     (''b'', sample_runner 2 ''b'' True (Some (sample_hints 700)))]" "sample_hints 700"]
  by (simp add: sample_runner_def sample_hints_def maxInt32_def)

end
