(* ===== verification/RunnerResolve.thy ===== *)
theory RunnerResolve
  imports RunnerRegistry
begin

text \<open>
  The choice of a runner and of a model: \<open>pkg/llmrunner/resolve.go\<close> and
  \<open>model_resolve.go\<close>. The entries list the enabled runners with what a probe found; the resolver
  takes the requested runner if it can run, else the first available one that can, else the first
  available one. The probe of the pool and the list of models a repository reports are arguments.
\<close>

section \<open>Entries\<close>

record ResolveEntry =
  re_ID :: int
  re_Address :: string
  re_Name :: string
  re_SelectedModel :: string
  re_Enabled :: bool
  re_Connected :: bool
  re_Probed :: bool

record ResolveSelection =
  rsel_Address :: string
  rsel_Name :: string
  rsel_Enabled :: bool
  rsel_Connected :: bool
  rsel_UnknownConnectivity :: bool

definition AvailableRunnerAddresses :: "ResolveEntry list \<Rightarrow> string list" where
  "AvailableRunnerAddresses entries =
     sort (remdups (filter (\<lambda>a. a \<noteq> []) (map (\<lambda>e. TrimSpace (re_Address e)) (filter re_Enabled entries))))"

definition RunnerDisplayNames :: "ResolveEntry list \<Rightarrow> (string \<times> string) list" where
  "RunnerDisplayNames entries =
     fold (\<lambda>e names.
       if \<not> re_Enabled e then names
       else
         let addr = TrimSpace (re_Address e) in
         if addr = [] then names
         else
           let n = TrimSpace (re_Name e); n = (if n = [] then addr else n)
           in AList.update addr n names) entries []"

text \<open>Enabled, connected, probed; \<open>None\<close> when no entry has the address.\<close>

definition RunnerHealthFor :: "string \<Rightarrow> ResolveEntry list \<Rightarrow> (bool \<times> bool \<times> bool) option" where
  "RunnerHealthFor address entries =
     (let a = TrimSpace address in
      if a = [] then None
      else (case find (\<lambda>e. TrimSpace (re_Address e) = a) entries of
              None \<Rightarrow> None
            | Some e \<Rightarrow>
                if \<not> re_Probed e then Some (re_Enabled e, False, False)
                else Some (re_Enabled e, re_Connected e, True)))"

definition RunnerIsRunnable :: "string \<Rightarrow> ResolveEntry list \<Rightarrow> bool" where
  "RunnerIsRunnable address entries =
     (case RunnerHealthFor address entries of
        None \<Rightarrow> False
      | Some (enabled, connected, probed) \<Rightarrow>
          if \<not> enabled then False else if probed \<and> \<not> connected then False else True)"

definition selectionForRunner :: "string \<Rightarrow> ResolveEntry list \<Rightarrow> ResolveSelection" where
  "selectionForRunner address entries =
     (let name = (case find (\<lambda>e. TrimSpace (re_Address e) = address) entries of
                    None \<Rightarrow> address
                  | Some e \<Rightarrow> let n = TrimSpace (re_Name e) in if n \<noteq> [] then n else address)
      in case RunnerHealthFor address entries of
           None \<Rightarrow> \<lparr>rsel_Address = address, rsel_Name = name, rsel_Enabled = False, rsel_Connected = False,
                     rsel_UnknownConnectivity = False\<rparr>
         | Some (enabled, connected, probed) \<Rightarrow>
             \<lparr>rsel_Address = address, rsel_Name = name, rsel_Enabled = enabled, rsel_Connected = connected,
              rsel_UnknownConnectivity = \<not> probed\<rparr>)"

text \<open>The loop over the addresses to try, with those already seen.\<close>

fun resolve_loop :: "string list \<Rightarrow> ResolveEntry list \<Rightarrow> string list \<Rightarrow> string list \<Rightarrow> string option" where
  "resolve_loop available entries seen [] = None"
| "resolve_loop available entries seen (addr # rest) =
     (let a = TrimSpace addr in
      if a = [] \<or> a \<in> set seen then resolve_loop available entries seen rest
      else if a \<notin> set available then resolve_loop available entries (a # seen) rest
      else if RunnerIsRunnable a entries then Some a
      else resolve_loop available entries (a # seen) rest)"

definition ResolveRunner :: "string list \<Rightarrow> ResolveEntry list \<Rightarrow> string \<Rightarrow> ResolveSelection" where
  "ResolveRunner available entries candidate =
     (if available = [] then
        \<lparr>rsel_Address = [], rsel_Name = [], rsel_Enabled = False, rsel_Connected = False,
         rsel_UnknownConnectivity = False\<rparr>
      else
        let c = TrimSpace candidate; tryOrder = (if c \<noteq> [] then [c] else []) @ available
        in case resolve_loop available entries [] tryOrder of
             Some a \<Rightarrow> selectionForRunner a entries
           | None \<Rightarrow> selectionForRunner (hd available) entries)"

definition ListEnabledRunnerEntries :: "(string \<Rightarrow> bool) option \<Rightarrow> Registry option \<Rightarrow> ResolveEntry list" where
  "ListEnabledRunnerEntries probe reg =
     (case reg of
        None \<Rightarrow> []
      | Some r \<Rightarrow>
          concat (map (\<lambda>i.
            let addr = TrimSpace (ri_Address i) in
            if \<not> ri_Enabled i \<or> addr = [] then []
            else [\<lparr>re_ID = ri_ID i, re_Address = addr, re_Name = TrimSpace (ri_Name i),
                   re_SelectedModel = TrimSpace (ri_SelectedModel i), re_Enabled = True,
                   re_Connected = (case probe of None \<Rightarrow> False | Some f \<Rightarrow> f addr),
                   re_Probed = (probe \<noteq> None)\<rparr>]) (ListRunners r)))"

section \<open>Models\<close>

fun models_loop :: "string list \<Rightarrow> string list \<Rightarrow> string list \<Rightarrow> string list" where
  "models_loop [] seen out = out"
| "models_loop (m # ms) seen out =
     (let v = TrimSpace m in
      if v = [] \<or> v \<in> set seen then models_loop ms seen out
      else models_loop ms (v # seen) (out @ [v]))"

definition NormalizedAvailableModels :: "string list \<Rightarrow> string list" where
  "NormalizedAvailableModels raw = models_loop raw [] []"

datatype model_error = ModelsUnavailable | NoModels | ModelNotAvailable string

definition ResolveModelForUser :: "string list option \<Rightarrow> string \<Rightarrow> string \<Rightarrow> model_error + string" where
  "ResolveModelForUser getModels requestedModel sessionModel =
     (case getModels of
        None \<Rightarrow> Inl ModelsUnavailable
      | Some availableRaw \<Rightarrow>
          let available = NormalizedAvailableModels availableRaw;
              requested = TrimSpace requestedModel;
              fromSession = TrimSpace sessionModel
          in if available = [] then Inl NoModels
             else if requested \<noteq> [] then
               (if requested \<in> set available then Inr requested else Inl (ModelNotAvailable requested))
             else if fromSession \<noteq> [] \<and> fromSession \<in> set available then Inr fromSession
             else Inr (hd available))"

section \<open>Lemmas\<close>

lemma RunnerIsRunnable_trim: "RunnerIsRunnable (TrimSpace a) entries = RunnerIsRunnable a entries"
  by (simp add: RunnerIsRunnable_def RunnerHealthFor_def)

text \<open>The loop finds the first address that is available, non-blank and can run.\<close>

lemma resolve_loop_find:
  assumes "\<forall>a\<in>set seen. \<not> (a \<in> set available \<and> RunnerIsRunnable a entries)"
  shows "resolve_loop available entries seen tries =
    find (\<lambda>a. a \<noteq> [] \<and> a \<in> set available \<and> RunnerIsRunnable a entries) (map TrimSpace tries)"
  using assms
proof (induction available entries seen tries rule: resolve_loop.induct)
  case (2 available entries seen addr rest)
  then show ?case by (cases "TrimSpace addr \<in> set seen") (auto simp: Let_def)
qed simp

lemma selectionForRunner_Address [simp]: "rsel_Address (selectionForRunner a entries) = a"
  by (simp add: selectionForRunner_def Let_def split: option.splits)

lemma models_loop_eq:
  "set seen = set out \<Longrightarrow> distinct out \<Longrightarrow>
   \<exists>new. models_loop ms seen out = out @ new \<and> distinct (out @ new) \<and>
     set (out @ new) = set out \<union> ({TrimSpace m |m. m \<in> set ms} - {[]})"
proof (induction ms seen out rule: models_loop.induct)
  case (2 m ms seen out)
  show ?case
  proof (cases "TrimSpace m = [] \<or> TrimSpace m \<in> set seen")
    case True
    then obtain new where "models_loop ms seen out = out @ new" "distinct (out @ new)"
      "set (out @ new) = set out \<union> ({TrimSpace m |m. m \<in> set ms} - {[]})"
      using 2 by (auto simp: Let_def)
    with True 2(3) show ?thesis by (intro exI [of _ new]) auto
  next
    case False
    then obtain new where "models_loop ms (TrimSpace m # seen) (out @ [TrimSpace m]) = (out @ [TrimSpace m]) @ new"
      "distinct ((out @ [TrimSpace m]) @ new)"
      "set ((out @ [TrimSpace m]) @ new) = set (out @ [TrimSpace m]) \<union> ({TrimSpace m |m. m \<in> set ms} - {[]})"
      using 2(2) [OF refl] 2(3,4) by (auto simp: Let_def)
    with False show ?thesis by (intro exI [of _ "TrimSpace m # new"]) auto
  qed
qed simp

section \<open>Properties\<close>

text \<open>
  The resolver answers with an available runner: the requested one when it is available and
  can run, else the first available one that can, and the first available one when none can.
\<close>

theorem ResolveRunner_choice:
  assumes "available \<noteq> []" and "\<forall>a\<in>set available. TrimSpace a = a \<and> a \<noteq> []"
  shows "rsel_Address (ResolveRunner available entries candidate) =
      (let c = TrimSpace candidate; runnable = filter (\<lambda>a. RunnerIsRunnable a entries) available in
       if c \<in> set runnable then c else if runnable \<noteq> [] then hd runnable else hd available)
    \<and> rsel_Address (ResolveRunner available entries candidate) \<in> set available"
proof -
  let ?P = "\<lambda>a. a \<noteq> [] \<and> a \<in> set available \<and> RunnerIsRunnable a entries"
  let ?c = "TrimSpace candidate"
  have m: "map TrimSpace available = available" using assms(2) by (simp add: map_idI)
  have f: "find ?P available = (case filter (\<lambda>a. RunnerIsRunnable a entries) available of [] \<Rightarrow> None | a # _ \<Rightarrow> Some a)"
  proof -
    have "find ?P xs = (case filter (\<lambda>a. RunnerIsRunnable a entries) xs of [] \<Rightarrow> None | a # _ \<Rightarrow> Some a)"
      if "set xs \<subseteq> set available" for xs
      using that assms(2) by (induction xs) auto
    then show ?thesis by simp
  qed
  let ?R = "filter (\<lambda>a. RunnerIsRunnable a entries) available"
  have l: "resolve_loop available entries [] ((if ?c \<noteq> [] then [?c] else []) @ available) =
      (if ?P ?c then Some ?c else find ?P available)"
    by (subst resolve_loop_find) (simp_all add: m)
  have c: "?P ?c \<longleftrightarrow> ?c \<in> set ?R" using assms(2) by auto
  have a: "rsel_Address (ResolveRunner available entries candidate) =
      (case (if ?c \<in> set ?R then Some ?c else find ?P available) of Some a \<Rightarrow> a | None \<Rightarrow> hd available)"
    using assms(1) unfolding ResolveRunner_def Let_def l c by (simp split: option.split)
  have R: "set ?R \<subseteq> set available" by auto
  show ?thesis
  proof (cases "?c \<in> set ?R")
    case True
    then show ?thesis using a R by (auto simp: Let_def)
  next
    case False
    then show ?thesis using a f R assms(1) by (cases ?R) (auto simp: Let_def)
  qed
qed

theorem ResolveRunner_choice_witness:
  "rsel_Address (ResolveRunner [''a'', ''b'']
     [\<lparr>re_ID = 1, re_Address = ''a'', re_Name = [], re_SelectedModel = [], re_Enabled = True,
       re_Connected = False, re_Probed = True\<rparr>,
      \<lparr>re_ID = 2, re_Address = ''b'', re_Name = [], re_SelectedModel = [], re_Enabled = True,
       re_Connected = True, re_Probed = True\<rparr>] ''a'') = ''b''"
proof -
  have t: "TrimSpace ''a'' = ''a''" "TrimSpace ''b'' = ''b''" by (simp_all add: TrimSpace_eval)
  show ?thesis by (subst ResolveRunner_choice [THEN conjunct1]) (auto simp: t Let_def RunnerIsRunnable_def RunnerHealthFor_def)
qed

text \<open>
  The model for a user is one the runners report, trimmed: the requested one when there is a
  request, which fails rather than fall back; else that of the session if it is still available; else
  the first reported. The list it chooses from has no blanks and no repetitions.
\<close>

theorem ResolveModelForUser_sound:
  "(case ResolveModelForUser getModels requested session of
      Inr m \<Rightarrow> (\<exists>raw. getModels = Some raw \<and> m \<in> set (NormalizedAvailableModels raw) \<and> m \<in> TrimSpace ` set raw \<and> m \<noteq> []
          \<and> distinct (NormalizedAvailableModels raw)) \<and>
        m = (if TrimSpace requested \<noteq> [] then TrimSpace requested
             else if TrimSpace session \<in> set (NormalizedAvailableModels (the getModels)) then TrimSpace session
             else hd (NormalizedAvailableModels (the getModels)))
    | Inl ModelsUnavailable \<Rightarrow> getModels = None
    | Inl NoModels \<Rightarrow> \<exists>raw. getModels = Some raw \<and> \<not> (\<exists>m\<in>set raw. TrimSpace m \<noteq> [])
    | Inl (ModelNotAvailable m) \<Rightarrow> m = TrimSpace requested \<and> m \<notin> TrimSpace ` set (the getModels))"
proof (cases getModels)
  case None
  then show ?thesis by (simp add: ResolveModelForUser_def)
next
  case (Some raw)
  have n: "distinct (NormalizedAvailableModels raw)"
    "set (NormalizedAvailableModels raw) = {TrimSpace m |m. m \<in> set raw} - {[]}"
    using models_loop_eq [of "[]" "[]" raw] by (auto simp: NormalizedAvailableModels_def)
  show ?thesis
  proof (cases "NormalizedAvailableModels raw")
    case Nil
    then show ?thesis using n Some by (auto simp: ResolveModelForUser_def)
  next
    case (Cons a as)
    then have "a \<in> {TrimSpace m |m. m \<in> set raw} - {[]}" using n(2) by auto
    then show ?thesis using n Some Cons
      by (auto simp: ResolveModelForUser_def Let_def)
  qed
qed

end
