(* ===== verification/EmbedBatch.thy ===== *)
theory EmbedBatch
  imports GoPrelude
begin

text \<open>
  Embedding many texts in batches, \<open>pkg/llmrunner/embed_batch.go\<close>. The runner that embeds is
  an \<open>EmbedRunner\<close> of the outside world: its two calls are arguments and thread a state of
  their own, so that a call may fail once and succeed later. A batch that fails, or comes back with
  the wrong number of vectors, is halved and tried again down to single texts.
\<close>

section \<open>The calls of the runner\<close>

datatype 'e embed_error =
    RunnerError 'e
  | EmptyVector
  | WrongCount nat nat

type_synonym ('s, 'e, 'f) embed_call = "string \<Rightarrow> 's \<Rightarrow> ('e + 'f list) \<times> 's"
type_synonym ('s, 'e, 'f) embed_batch_call = "string list \<Rightarrow> 's \<Rightarrow> ('e + 'f list list) \<times> 's"
type_synonym ('s, 'e, 'f) embed_result = "('e embed_error + 'f list list) \<times> 's"

section \<open>Halving\<close>

text \<open>
  \<open>fill_empty\<close> is the loop that embeds again, one by one, the texts whose vector came back
  empty. \<open>splitAndEmbed\<close> is never called on no text.
\<close>

function (sequential)
  embedTextsRecursive :: "('s, 'e, 'f) embed_call \<Rightarrow> ('s, 'e, 'f) embed_batch_call \<Rightarrow> string list \<Rightarrow> 's \<Rightarrow> ('s, 'e, 'f) embed_result"
  and fill_empty :: "('s, 'e, 'f) embed_call \<Rightarrow> ('s, 'e, 'f) embed_batch_call \<Rightarrow> string list \<Rightarrow> 'f list list \<Rightarrow> 's \<Rightarrow> ('s, 'e, 'f) embed_result"
  and splitAndEmbed :: "('s, 'e, 'f) embed_call \<Rightarrow> ('s, 'e, 'f) embed_batch_call \<Rightarrow> string list \<Rightarrow> 's \<Rightarrow> ('s, 'e, 'f) embed_result"
where
  "embedTextsRecursive one many texts s =
     (if texts = [] then (Inr [], s)
      else if length texts = 1 then
        (case one (hd texts) s of
           (Inl e, s') \<Rightarrow> (Inl (RunnerError e), s')
         | (Inr v, s') \<Rightarrow> if v = [] then (Inl EmptyVector, s') else (Inr [v], s'))
      else
        (case many texts s of
           (Inl e, s') \<Rightarrow> splitAndEmbed one many texts s'
         | (Inr batch, s') \<Rightarrow>
             if length batch \<noteq> length texts then splitAndEmbed one many texts s'
             else fill_empty one many texts batch s'))"
| "fill_empty one many (t # ts) (v # vs) s =
     (if v = [] then
        (case embedTextsRecursive one many [t] s of
           (Inl e, s') \<Rightarrow> (Inl e, s')
         | (Inr r, s') \<Rightarrow>
             (case fill_empty one many ts vs s' of
                (Inl e, s'') \<Rightarrow> (Inl e, s'')
              | (Inr rest, s'') \<Rightarrow> (Inr (hd r # rest), s'')))
      else
        (case fill_empty one many ts vs s of
           (Inl e, s') \<Rightarrow> (Inl e, s')
         | (Inr rest, s') \<Rightarrow> (Inr (v # rest), s')))"
| "fill_empty one many ts vs s = (Inr vs, s)"
| "splitAndEmbed one many texts s =
     (if length texts = 1 then embedTextsRecursive one many texts s
      else
        let mid = (if length texts div 2 = 0 then 1 else length texts div 2) in
        (case embedTextsRecursive one many (take mid texts) s of
           (Inl e, s') \<Rightarrow> (Inl e, s')
         | (Inr a, s') \<Rightarrow>
             (case embedTextsRecursive one many (drop mid texts) s' of
                (Inl e, s'') \<Rightarrow> (Inl e, s'')
              | (Inr b, s'') \<Rightarrow> (Inr (a @ b), s''))))"
  by pat_completeness auto

text \<open>The two functions that call each other on the same texts never do so on a single one.\<close>

definition embed_measure ::
  "('s, 'e, 'f) embed_call \<times> ('s, 'e, 'f) embed_batch_call \<times> string list \<times> 's
   + ('s, 'e, 'f) embed_call \<times> ('s, 'e, 'f) embed_batch_call \<times> string list \<times> 'f list list \<times> 's
   + ('s, 'e, 'f) embed_call \<times> ('s, 'e, 'f) embed_batch_call \<times> string list \<times> 's \<Rightarrow> nat" where
  "embed_measure c =
     (case c of
        Inl (_, _, texts, _) \<Rightarrow> if length texts \<le> 1 then 0 else 2 * length texts + 2
      | Inr (Inl (_, _, texts, _, _)) \<Rightarrow> length texts + 1
      | Inr (Inr (_, _, texts, _)) \<Rightarrow> 2 * length texts + 1)"

termination embedTextsRecursive
  apply (relation "measure embed_measure")
             apply (simp_all add: embed_measure_def)
     apply (auto simp: Suc_le_eq neq_Nil_conv split: if_splits)
  done

definition EmbedTextsRecursive ::
  "('s, 'e, 'f) embed_call \<Rightarrow> ('s, 'e, 'f) embed_batch_call \<Rightarrow> string list \<Rightarrow> 's \<Rightarrow> ('s, 'e, 'f) embed_result" where
  "EmbedTextsRecursive one many texts s = embedTextsRecursive one many texts s"

section \<open>Batches\<close>

function embed_batches ::
  "('s, 'e, 'f) embed_call \<Rightarrow> ('s, 'e, 'f) embed_batch_call \<Rightarrow> nat \<Rightarrow> string list \<Rightarrow> 's \<Rightarrow> ('s, 'e, 'f) embed_result" where
  "embed_batches one many n texts s =
     (if texts = [] \<or> n = 0 then (Inr [], s)
      else
        (case embedTextsRecursive one many (take n texts) s of
           (Inl e, s') \<Rightarrow> (Inl e, s')
         | (Inr part, s') \<Rightarrow>
             (case embed_batches one many n (drop n texts) s' of
                (Inl e, s'') \<Rightarrow> (Inl e, s'')
              | (Inr rest, s'') \<Rightarrow> (Inr (part @ rest), s''))))"
  by auto
termination by (relation "measure (\<lambda>(_, _, _, texts, _). length texts)") auto

definition EmbedTextsBatches ::
  "('s, 'e, 'f) embed_call \<Rightarrow> ('s, 'e, 'f) embed_batch_call \<Rightarrow> string list \<Rightarrow> int \<Rightarrow> 's \<Rightarrow> ('s, 'e, 'f) embed_result" where
  "EmbedTextsBatches one many texts batchSize s =
     (if texts = [] then (Inr [], s)
      else
        let n = nat (if batchSize \<le> 0 then 32 else batchSize) in
        (case embed_batches one many n texts s of
           (Inl e, s') \<Rightarrow> (Inl e, s')
         | (Inr out, s') \<Rightarrow>
             if length out \<noteq> length texts then (Inl (WrongCount (length texts) (length out)), s')
             else (Inr out, s')))"

declare embedTextsRecursive.simps [simp del] fill_empty.simps(1) [simp del] splitAndEmbed.simps [simp del]
  embed_batches.simps [simp del]

section \<open>Lemmas\<close>

text \<open>A runner is right about \<open>f\<close> when what it returns for a text is \<open>f\<close> of it, or nothing.\<close>

definition one_right :: "(string \<Rightarrow> 'f list) \<Rightarrow> ('s, 'e, 'f) embed_call \<Rightarrow> bool" where
  "one_right f one \<longleftrightarrow> (\<forall>t s v. fst (one t s) = Inr v \<longrightarrow> v = [] \<or> v = f t)"

definition many_right :: "(string \<Rightarrow> 'f list) \<Rightarrow> ('s, 'e, 'f) embed_batch_call \<Rightarrow> bool" where
  "many_right f many \<longleftrightarrow>
     (\<forall>ts s vs. fst (many ts s) = Inr vs \<longrightarrow> length vs = length ts \<longrightarrow>
        list_all2 (\<lambda>v t. v = [] \<or> v = f t) vs ts)"

lemma one_rightD: "one_right f one \<Longrightarrow> one t s = (Inr v, s') \<Longrightarrow> v = [] \<or> v = f t"
  unfolding one_right_def by (metis fst_conv)

lemma many_rightD:
  "many_right f many \<Longrightarrow> many ts s = (Inr vs, s') \<Longrightarrow> length vs = length ts \<Longrightarrow>
   list_all2 (\<lambda>v t. v = [] \<or> v = f t) vs ts"
  unfolding many_right_def by (drule spec[of _ ts], drule spec[of _ s], drule spec[of _ vs]) simp

lemma embed_Nil [simp]: "embedTextsRecursive one many [] s = (Inr [], s)"
  by (subst embedTextsRecursive.simps) simp

lemma embed_single:
  "embedTextsRecursive one many [t] s =
     (case one t s of
        (Inl e, s') \<Rightarrow> (Inl (RunnerError e), s')
      | (Inr v, s') \<Rightarrow> if v = [] then (Inl EmptyVector, s') else (Inr [v], s'))"
  by (subst embedTextsRecursive.simps) simp

lemma embed_several:
  "length texts \<noteq> 1 \<Longrightarrow> texts \<noteq> [] \<Longrightarrow> embedTextsRecursive one many texts s =
     (case many texts s of
        (Inl e, s') \<Rightarrow> splitAndEmbed one many texts s'
      | (Inr batch, s') \<Rightarrow>
          if length batch \<noteq> length texts then splitAndEmbed one many texts s'
          else fill_empty one many texts batch s')"
  by (subst embedTextsRecursive.simps) simp

lemma fill_InrE:
  assumes "fill_empty one many (t # ts) (v # vs) s = (Inr out, s')"
  obtains r s1 rest where "v = []" "embedTextsRecursive one many [t] s = (Inr r, s1)"
    "fill_empty one many ts vs s1 = (Inr rest, s')" "out = hd r # rest"
  | rest where "v \<noteq> []" "fill_empty one many ts vs s = (Inr rest, s')" "out = v # rest"
  using assms by (auto simp: fill_empty.simps(1) split: prod.splits sum.splits if_splits)

lemma split_InrE:
  assumes "splitAndEmbed one many texts s = (Inr out, s')" and "length texts \<noteq> 1"
  obtains mid a s1 b where "mid = (if length texts div 2 = 0 then 1 else length texts div 2)"
    "embedTextsRecursive one many (take mid texts) s = (Inr a, s1)"
    "embedTextsRecursive one many (drop mid texts) s1 = (Inr b, s')" "out = a @ b"
  using assms by (auto simp: splitAndEmbed.simps[of _ _ texts] Let_def split: prod.splits sum.splits)

definition vectors_of :: "(string \<Rightarrow> 'f list) \<Rightarrow> string list \<Rightarrow> 'f list list \<Rightarrow> bool" where
  "vectors_of f texts out \<longleftrightarrow> out = map f texts \<and> [] \<notin> set out"

lemma vectors_of_simps [simp]:
  "vectors_of f [] out \<longleftrightarrow> out = []"
  "vectors_of f (t # ts) (v # vs) \<longleftrightarrow> v = f t \<and> v \<noteq> [] \<and> vectors_of f ts vs"
  by (auto simp: vectors_of_def)

lemma vectors_of_append:
  "vectors_of f (take n texts) a \<Longrightarrow> vectors_of f (drop n texts) b \<Longrightarrow> vectors_of f texts (a @ b)"
proof -
  assume "vectors_of f (take n texts) a" "vectors_of f (drop n texts) b"
  then have a: "a = map f (take n texts)" "[] \<notin> set a" and b: "b = map f (drop n texts)" "[] \<notin> set b"
    by (auto simp: vectors_of_def)
  from a(1) b(1) have "a @ b = map f texts" by (simp flip: map_append)
  moreover have "[] \<notin> set (a @ b)" using a(2) b(2) by simp
  ultimately show ?thesis by (simp only: vectors_of_def simp_thms)
qed

lemma vectors_of_single: "vectors_of f [t] r \<Longrightarrow> hd r = f t \<and> hd r \<noteq> []"
  by (auto simp: vectors_of_def)

lemma embed_sound:
  fixes one :: "('s, 'e, 'f) embed_call" and f :: "string \<Rightarrow> 'f list"
  shows "one_right f one \<Longrightarrow> many_right f many \<Longrightarrow> embedTextsRecursive one many texts s = (Inr out, s') \<Longrightarrow>
      vectors_of f texts out"
    and "one_right f one \<Longrightarrow> many_right f many \<Longrightarrow> fill_empty one many texts vs s = (Inr out, s') \<Longrightarrow>
      list_all2 (\<lambda>v t. v = [] \<or> v = f t) vs texts \<Longrightarrow> vectors_of f texts out"
    and "one_right f one \<Longrightarrow> many_right f many \<Longrightarrow> splitAndEmbed one many texts s = (Inr out, s') \<Longrightarrow>
      vectors_of f texts out"
proof (induction one many texts s and one many texts vs s and one many texts s
    arbitrary: out s' and out s' and out s'
    rule: embedTextsRecursive_fill_empty_splitAndEmbed.induct)
  case (1 one many texts s)
  note sound = "1.prems"(1,2)
  consider "texts = []" | t where "texts = [t]" | "texts \<noteq> []" "length texts \<noteq> 1"
    by (cases texts rule: remdups_adj.cases) auto
  then show ?case
  proof cases
    case 1
    then show ?thesis using \<open>embedTextsRecursive one many texts s = (Inr out, s')\<close> by simp
  next
    case (2 t)
    then show ?thesis
      using \<open>embedTextsRecursive one many texts s = (Inr out, s')\<close> one_rightD[OF sound(1)]
      by (fastforce simp: embed_single split: prod.splits sum.splits if_splits)
  next
    case 3
    note n = this
    obtain r s1 where m: "many texts s = (r, s1)" by fastforce
    show ?thesis
    proof (cases r)
      case (Inl e)
      then show ?thesis
        using "1.IH"(1)[OF n m[symmetric] Inl sound] "1.prems"(3) n by (simp add: embed_several m)
    next
      case (Inr batch)
      show ?thesis
      proof (cases "length batch = length texts")
        case True
        then show ?thesis
          using "1.IH"(3)[OF n m[symmetric] Inr _ sound] "1.prems"(3) n Inr
            many_rightD[OF sound(2) m[unfolded Inr]] by (simp add: embed_several m)
      next
        case False
        then show ?thesis
          using "1.IH"(2)[OF n m[symmetric] Inr False sound] "1.prems"(3) n Inr
          by (simp add: embed_several m)
      qed
    qed
  qed
next
  case (2 one many t ts v vs s)
  from "2.prems"(3) show ?case
  proof (cases rule: fill_InrE)
    case (1 r s1 rest)
    then show ?thesis using vectors_of_single[OF "2.IH"(1)[OF 1(1) "2.prems"(1,2) 1(2)]] "2.prems"
        "2.IH"(2)[OF 1(1) 1(2)[symmetric] refl "2.prems"(1,2) 1(3)] by auto
  next
    case (2 rest)
    then show ?thesis using "2.IH"(3)[OF 2(1) "2.prems"(1,2) 2(2)] "2.prems" by simp
  qed
next
  case (4 one many texts s)
  show ?case
  proof (cases "length texts = 1")
    case True
    then show ?thesis using "4.IH"(1)[OF True "4.prems"(1,2)] "4.prems"(3)
      by (simp add: splitAndEmbed.simps[of _ _ texts])
  next
    case False
    from "4.prems"(3) False show ?thesis
    proof (cases rule: split_InrE)
      case (1 mid a s1 b)
      show ?thesis unfolding 1(4)
        by (rule vectors_of_append[OF "4.IH"(2)[OF False 1(1) "4.prems"(1,2) 1(2)]
              "4.IH"(3)[OF False 1(1) 1(2)[symmetric] refl "4.prems"(1,2) 1(3)]])
    qed
  qed
qed (auto simp: list_all2_Cons1)

lemma embed_batches_sound:
  "0 < n \<Longrightarrow> one_right f one \<Longrightarrow> many_right f many \<Longrightarrow> embed_batches one many n texts s = (Inr out, s') \<Longrightarrow>
   vectors_of f texts out"
proof (induction one many n texts s arbitrary: out s' rule: embed_batches.induct)
  case (1 one many n texts s)
  show ?case
  proof (cases "texts = []")
    case True
    then show ?thesis using "1.prems"(4) by (simp add: embed_batches.simps[of _ _ _ "[]"])
  next
    case False
    then have nz: "\<not> (texts = [] \<or> n = 0)" using "1.prems"(1) by simp
    then obtain part s1 rest where e: "embedTextsRecursive one many (take n texts) s = (Inr part, s1)"
      and r: "embed_batches one many n (drop n texts) s1 = (Inr rest, s')" and o: "out = part @ rest"
      using "1.prems"(4)
      by (auto simp: embed_batches.simps[of _ _ _ texts] split: prod.splits sum.splits)
    show ?thesis unfolding o
      by (rule vectors_of_append[OF embed_sound(1)[OF "1.prems"(2,3) e]
            "1.IH"[OF nz e[symmetric] refl "1.prems"(1-3) r]])
  qed
qed

text \<open>When every single text can be embedded nothing fails, whatever the batches do.\<close>

definition one_total :: "('s, 'e, 'f) embed_call \<Rightarrow> bool" where
  "one_total one \<longleftrightarrow> (\<forall>t s. \<exists>v. v \<noteq> [] \<and> fst (one t s) = Inr v)"

lemma one_totalE:
  assumes "one_total one" obtains v s' where "one t s = (Inr v, s')" "v \<noteq> []"
  using assms unfolding one_total_def by (metis prod.collapse)

lemma embed_total:
  fixes one :: "('s, 'e, 'f) embed_call"
  shows "one_total one \<Longrightarrow> \<exists>out s'. embedTextsRecursive one many texts s = (Inr out, s')"
    and "one_total one \<Longrightarrow> \<exists>out s'. fill_empty one many texts vs s = (Inr out, s')"
    and "one_total one \<Longrightarrow> \<exists>out s'. splitAndEmbed one many texts s = (Inr out, s')"
proof (induction one many texts s and one many texts vs s and one many texts s
    rule: embedTextsRecursive_fill_empty_splitAndEmbed.induct)
  case (1 one many texts s)
  consider "texts = []" | t where "texts = [t]" | "texts \<noteq> []" "length texts \<noteq> 1"
    by (cases texts rule: remdups_adj.cases) auto
  then show ?case
  proof cases
    case (2 t)
    obtain v s' where "one t s = (Inr v, s')" "v \<noteq> []" using one_totalE[OF "1.prems"] .
    then show ?thesis by (simp add: 2 embed_single)
  next
    case 3
    obtain r s1 where m: "many texts s = (r, s1)" by fastforce
    show ?thesis
      using "1.IH"(1)[OF 3 m[symmetric] _ "1.prems"] "1.IH"(2)[OF 3 m[symmetric] _ _ "1.prems"]
        "1.IH"(3)[OF 3 m[symmetric] _ _ "1.prems"]
      by (cases r) (auto simp: embed_several[OF 3(2,1)] m)
  qed simp
next
  case (2 one many t ts v vs s)
  show ?case
  proof (cases "v = []")
    case True
    then obtain r s1 where r: "embedTextsRecursive one many [t] s = (Inr r, s1)"
      using "2.IH"(1) "2.prems" by blast
    then show ?thesis using True "2.IH"(2)[OF True r[symmetric] refl "2.prems"]
      by (auto simp: fill_empty.simps(1))
  next
    case False
    then show ?thesis using "2.IH"(3)[OF False "2.prems"] by (auto simp: fill_empty.simps(1))
  qed
next
  case (4 one many texts s)
  show ?case
  proof (cases "length texts = 1")
    case True
    then show ?thesis using "4.IH"(1)[OF True "4.prems"]
      by (auto simp: splitAndEmbed.simps[of _ _ texts])
  next
    case False
    define mid where "mid = (if length texts div 2 = 0 then 1 else length texts div 2)"
    obtain a s1 where a: "embedTextsRecursive one many (take mid texts) s = (Inr a, s1)"
      using "4.IH"(2)[OF False mid_def "4.prems"] by blast
    obtain b s2 where b: "embedTextsRecursive one many (drop mid texts) s1 = (Inr b, s2)"
      using "4.IH"(3)[OF False mid_def a[symmetric] refl "4.prems"] by blast
    from a b False show ?thesis
      by (simp add: splitAndEmbed.simps[of _ _ texts] mid_def[symmetric] Let_def)
  qed
qed simp_all

lemma embed_batches_total:
  "one_total one \<Longrightarrow> \<exists>out s'. embed_batches one many n texts s = (Inr out, s')"
proof (induction one many n texts s rule: embed_batches.induct)
  case (1 one many n texts s)
  show ?case
  proof (cases "texts = [] \<or> n = 0")
    case True
    then show ?thesis by (simp add: embed_batches.simps[of _ _ _ texts])
  next
    case False
    obtain part s1 where e: "embedTextsRecursive one many (take n texts) s = (Inr part, s1)"
      using embed_total(1)[OF "1.prems"] by blast
    then show ?thesis using False "1.IH"[OF False e[symmetric] refl "1.prems"]
      by (auto simp: embed_batches.simps[of _ _ _ texts])
  qed
qed

section \<open>Properties\<close>

text \<open>
  however batches fail, come back short or with gaps and are halved, a successful result holds
  one vector per text, in the order of the texts, each the text's own and none of them empty; and
  when every single text can be embedded the whole list is, whatever the batch call does and
  whatever the batch size.
\<close>

theorem EmbedTextsBatches_right:
  assumes "one_right f one" and "many_right f many"
  shows "(case EmbedTextsBatches one many texts batchSize s of
            (Inr out, s') \<Rightarrow> out = map f texts \<and> [] \<notin> set out
          | (Inl e, s') \<Rightarrow> \<not> one_total one)"
proof -
  define n where "n = nat (if batchSize \<le> 0 then 32 else batchSize)"
  have n: "0 < n" by (simp add: n_def)
  obtain r s1 where r: "embed_batches one many n texts s = (r, s1)" by fastforce
  show ?thesis
  proof (cases r)
    case (Inl e)
    then show ?thesis
      using r embed_batches_total[of one many n texts s]
      by (auto simp: EmbedTextsBatches_def n_def[symmetric] Let_def)
  next
    case (Inr out)
    have "vectors_of f texts out"
      by (rule embed_batches_sound[OF n assms r[unfolded Inr]])
    then show ?thesis
      using r Inr by (auto simp: EmbedTextsBatches_def n_def[symmetric] Let_def vectors_of_def)
  qed
qed

text \<open>A runner whose batches of more than two texts fail and whose second vector is always missing.\<close>

definition gappy_batch :: "(unit, nat, nat) embed_batch_call" where
  "gappy_batch ts s = (if length ts = 2 then Inr [[length (hd ts)], []] else Inl 7, s)"

lemma EmbedTextsBatches_right_witness:
  "(case EmbedTextsBatches (\<lambda>t s. (Inr [length t], s)) gappy_batch [''a'', ''bcd'', '''', ''ef''] 3 () of
      (Inr out, s') \<Rightarrow> out = map (\<lambda>t. [length t]) [''a'', ''bcd'', '''', ''ef''] \<and> [] \<notin> set out
    | (Inl e, s') \<Rightarrow> \<not> one_total (\<lambda>t s. (Inr [length t] :: nat + nat list, s :: unit)))
   \<and> fst (EmbedTextsBatches (\<lambda>t s. (Inr [length t], s)) gappy_batch [''a'', ''bcd'', '''', ''ef''] 3 ())
     = Inr [[1], [3], [0], [2]]"
proof -
  let ?one = "(\<lambda>t s. (Inr [length t], s)) :: (unit, nat, nat) embed_call"
  have o: "one_right (\<lambda>t. [length t]) ?one" by (simp add: one_right_def)
  have m: "many_right (\<lambda>t. [length t]) gappy_batch"
    by (auto simp: many_right_def gappy_batch_def length_Suc_conv numeral_2_eq_2)
  have t: "one_total ?one" by (simp add: one_total_def)
  show ?thesis
    using EmbedTextsBatches_right[OF o m, of "[''a'', ''bcd'', '''', ''ef'']" 3 "()"] t
    by (auto split: prod.splits sum.splits)
qed

end
