(* ===== verification/GoJson.thy ===== *)
theory GoJson
  imports GoStrings
begin

text \<open>
  The part of Go's package \<open>encoding/json\<close> that the program uses. \<open>json_parse\<close> accepts
  the texts that \<open>json.Valid\<close> accepts and yields a tree that keeps, for every element of an
  array and every member of an object, the bytes it was written with, which is what a field of
  type \<open>json.RawMessage\<close> receives. \<open>to_any\<close> is the decoding into \<open>any\<close>,
  \<open>Marshal\<close> the encoder with its HTML escaping and its sorted keys. Floating-point numbers
  stay text: what Go prints for the number a literal denotes is an argument, \<open>None\<close> for a
  literal out of the range of float64. Go's limit of 10000 nested containers is left out. The
  lemmas show that the fuel of the parser is enough and that decoding undoes the encoder.
\<close>

section \<open>Scanning\<close>

definition json_ws :: "char \<Rightarrow> bool" where
  "json_ws c \<longleftrightarrow> c \<in> {CHR 0x20, CHR 0x09, CHR 0x0A, CHR 0x0D}"

definition skip_ws :: "string \<Rightarrow> string" where
  "skip_ws s = dropWhile json_ws s"

definition scan_frac :: "string \<Rightarrow> (string \<times> string) option" where
  "scan_frac s =
     (case s of
        c # r \<Rightarrow>
          if c = CHR ''.'' then
            if takeWhile digit r = [] then None
            else Some (c # takeWhile digit r, dropWhile digit r)
          else Some ([], s)
      | [] \<Rightarrow> Some ([], []))"

definition opt_sign :: "char set \<Rightarrow> string \<Rightarrow> string" where
  "opt_sign signs s = (case s of c # _ \<Rightarrow> if c \<in> signs then [c] else [] | [] \<Rightarrow> [])"

definition scan_exp :: "string \<Rightarrow> (string \<times> string) option" where
  "scan_exp s =
     (case s of
        c # r \<Rightarrow>
          if c = CHR ''e'' \<or> c = CHR ''E'' then
            let sign = opt_sign {CHR ''+'', CHR ''-''} r; r1 = drop (length sign) r
            in if takeWhile digit r1 = [] then None
               else Some (c # sign @ takeWhile digit r1, dropWhile digit r1)
          else Some ([], s)
      | [] \<Rightarrow> Some ([], []))"

definition scan_int :: "string \<Rightarrow> (string \<times> string) option" where
  "scan_int s =
     (case s of
        c # r \<Rightarrow>
          if c = CHR ''0'' then Some ([c], r)
          else if digit c then Some (c # takeWhile digit r, dropWhile digit r)
          else None
      | [] \<Rightarrow> None)"

definition scan_number :: "string \<Rightarrow> (string \<times> string) option" where
  "scan_number s =
     (let sign = opt_sign {CHR ''-''} s
      in case scan_int (drop (length sign) s) of
           None \<Rightarrow> None
         | Some (i, r) \<Rightarrow>
             (case scan_frac r of
                None \<Rightarrow> None
              | Some (f, r) \<Rightarrow>
                  (case scan_exp r of
                     None \<Rightarrow> None
                   | Some (e, r) \<Rightarrow> Some (sign @ i @ f @ e, r))))"

definition hex_value :: "char \<Rightarrow> nat option" where
  "hex_value c =
     (let b = byte c :: nat in
      if 48 \<le> b \<and> b \<le> 57 then Some (b - 48)
      else if 97 \<le> b \<and> b \<le> 102 then Some (b - 87)
      else if 65 \<le> b \<and> b \<le> 70 then Some (b - 55)
      else None)"

definition hex4 :: "string \<Rightarrow> nat option" where
  "hex4 s =
     (case s of
        a # b # c # d # _ \<Rightarrow>
          (case (hex_value a, hex_value b, hex_value c, hex_value d) of
             (Some a, Some b, Some c, Some d) \<Rightarrow> Some (((a * 16 + b) * 16 + c) * 16 + d)
           | _ \<Rightarrow> None)
      | _ \<Rightarrow> None)"

text \<open>The second half of a surrogate pair, written as an escape of its own.\<close>

definition surrogate_pair :: "nat \<Rightarrow> string \<Rightarrow> rune option" where
  "surrogate_pair u s =
     (if take 2 s = [CHR 0x5C, CHR ''u''] \<and> 55296 \<le> u \<and> u < 56320 then
        (case hex4 (drop 2 s) of
           Some l \<Rightarrow> if 56320 \<le> l \<and> l < 57344 then Some ((u - 55296) * 1024 + (l - 56320) + 65536) else None
         | None \<Rightarrow> None)
      else None)"

definition simple_escape :: "char \<Rightarrow> char option" where
  "simple_escape e =
     (if e = CHR 0x22 \<or> e = CHR 0x5C \<or> e = CHR ''/'' then Some e
      else if e = CHR ''b'' then Some (CHR 0x08)
      else if e = CHR ''f'' then Some (CHR 0x0C)
      else if e = CHR ''n'' then Some (CHR 0x0A)
      else if e = CHR ''r'' then Some (CHR 0x0D)
      else if e = CHR ''t'' then Some (CHR 0x09)
      else None)"

text \<open>The body of a string after its opening quote: the decoded text and what follows the closing quote.\<close>

abbreviation emit :: "string \<Rightarrow> (string \<times> string) option \<Rightarrow> (string \<times> string) option" where
  "emit p x \<equiv> map_option (\<lambda>(d, r). (p @ d, r)) x"

function json_str :: "string \<Rightarrow> (string \<times> string) option" where
  "json_str s =
     (case s of
        [] \<Rightarrow> None
      | c # r \<Rightarrow>
          if c = CHR 0x22 then Some ([], r)
          else if c = CHR 0x5C then
            (case r of
               [] \<Rightarrow> None
             | e # r1 \<Rightarrow>
                 if e = CHR ''u'' then
                   (case hex4 r1 of
                      None \<Rightarrow> None
                    | Some u \<Rightarrow>
                        if 55296 \<le> u \<and> u < 57344 then
                          (case surrogate_pair u (drop 4 r1) of
                             Some v \<Rightarrow> emit (encode_rune v) (json_str (drop 10 r1))
                           | None \<Rightarrow> emit (encode_rune rune_error) (json_str (drop 4 r1)))
                        else emit (encode_rune u) (json_str (drop 4 r1)))
                 else
                   (case simple_escape e of
                      None \<Rightarrow> None
                    | Some b \<Rightarrow> emit [b] (json_str r1)))
          else if byte c < (32::nat) then None
          else emit (encode_rune (fst (decode_rune s))) (json_str (drop (snd (decode_rune s)) s)))"
  by pat_completeness auto
termination
proof (relation "measure length", simp_all, goal_cases)
  case (1 s c r)
  then show ?case using decode_rune_width_pos[of "c # r"] by simp
qed

declare json_str.simps [simp del]

section \<open>Values\<close>

datatype jv =
    JNull
  | JBool bool
  | JNum string
  | JStr string
  | JArr "(string \<times> jv) list"
  | JObj "(string \<times> string \<times> jv) list"

text \<open>The bytes of a value that starts \<open>s\<close> and is followed by \<open>r\<close>.\<close>

definition raw_of :: "string \<Rightarrow> string \<Rightarrow> string" where
  "raw_of s r = take (length s - length r) s"

fun parse_value :: "nat \<Rightarrow> string \<Rightarrow> (jv \<times> string) option"
  and parse_elems :: "nat \<Rightarrow> string \<Rightarrow> ((string \<times> jv) list \<times> string) option"
  and parse_members :: "nat \<Rightarrow> string \<Rightarrow> ((string \<times> string \<times> jv) list \<times> string) option"
where
  "parse_value 0 s = None"
| "parse_value (Suc n) s =
     (case s of
        [] \<Rightarrow> None
      | c # r \<Rightarrow>
          if c = CHR 0x22 then map_option (\<lambda>(d, r). (JStr d, r)) (json_str r)
          else if c = CHR ''['' then
            (case skip_ws r of
               [] \<Rightarrow> None
             | d # r1 \<Rightarrow>
                 if d = CHR '']'' then Some (JArr [], r1)
                 else map_option (\<lambda>(es, r). (JArr es, r)) (parse_elems n (d # r1)))
          else if c = CHR ''{'' then
            (case skip_ws r of
               [] \<Rightarrow> None
             | d # r1 \<Rightarrow>
                 if d = CHR ''}'' then Some (JObj [], r1)
                 else map_option (\<lambda>(es, r). (JObj es, r)) (parse_members n (d # r1)))
          else if HasPrefix s ''null'' then Some (JNull, drop 4 s)
          else if HasPrefix s ''true'' then Some (JBool True, drop 4 s)
          else if HasPrefix s ''false'' then Some (JBool False, drop 5 s)
          else map_option (\<lambda>(t, r). (JNum t, r)) (scan_number s))"
| "parse_elems 0 s = None"
| "parse_elems (Suc n) s =
     (case parse_value n s of
        None \<Rightarrow> None
      | Some (v, r) \<Rightarrow>
          (case skip_ws r of
             [] \<Rightarrow> None
           | d # r1 \<Rightarrow>
               if d = CHR '','' then
                 map_option (\<lambda>(es, r'). ((raw_of s r, v) # es, r')) (parse_elems n (skip_ws r1))
               else if d = CHR '']'' then Some ([(raw_of s r, v)], r1)
               else None))"
| "parse_members 0 s = None"
| "parse_members (Suc n) s =
     (case s of
        [] \<Rightarrow> None
      | q # s1 \<Rightarrow>
          if q \<noteq> CHR 0x22 then None
          else
            (case json_str s1 of
               None \<Rightarrow> None
             | Some (k, s2) \<Rightarrow>
                 (case skip_ws s2 of
                    [] \<Rightarrow> None
                  | col # s3 \<Rightarrow>
                      if col \<noteq> CHR '':'' then None
                      else
                        (case parse_value n (skip_ws s3) of
                           None \<Rightarrow> None
                         | Some (v, r) \<Rightarrow>
                             (case skip_ws r of
                                [] \<Rightarrow> None
                              | d # r1 \<Rightarrow>
                                  if d = CHR '','' then
                                    map_option (\<lambda>(es, r'). ((k, raw_of (skip_ws s3) r, v) # es, r'))
                                      (parse_members n (skip_ws r1))
                                  else if d = CHR ''}'' then Some ([(k, raw_of (skip_ws s3) r, v)], r1)
                                  else None)))))"

definition json_parse :: "string \<Rightarrow> jv option" where
  "json_parse s =
     (let s1 = skip_ws s in
      case parse_value (2 * length s1 + 1) s1 of
        None \<Rightarrow> None
      | Some (v, r) \<Rightarrow> if skip_ws r = [] then Some v else None)"

section \<open>Decoding into any\<close>

text \<open>A Go map is a list sorted by key without repetitions; writing a key again replaces its value.\<close>

datatype gov =
    GNull
  | GBool bool
  | GNum string
  | GStr string
  | GArr "gov list"
  | GMap "(string \<times> gov) list"

fun map_set :: "string \<Rightarrow> 'v \<Rightarrow> (string \<times> 'v) list \<Rightarrow> (string \<times> 'v) list" where
  "map_set k v [] = [(k, v)]"
| "map_set k v ((k', v') # m) =
     (if k < k' then (k, v) # (k', v') # m
      else if k = k' then (k, v) # m
      else (k', v') # map_set k v m)"

fun to_any :: "(string \<Rightarrow> string option) \<Rightarrow> jv \<Rightarrow> gov option"
  and to_any_elems :: "(string \<Rightarrow> string option) \<Rightarrow> (string \<times> jv) list \<Rightarrow> gov list option"
  and to_any_members :: "(string \<Rightarrow> string option) \<Rightarrow> (string \<times> string \<times> jv) list \<Rightarrow> (string \<times> gov) list \<Rightarrow> (string \<times> gov) list option"
where
  "to_any num JNull = Some GNull"
| "to_any num (JBool b) = Some (GBool b)"
| "to_any num (JNum t) = map_option GNum (num t)"
| "to_any num (JStr s) = Some (GStr s)"
| "to_any num (JArr es) = map_option GArr (to_any_elems num es)"
| "to_any num (JObj ms) = map_option GMap (to_any_members num ms [])"
| "to_any_elems num [] = Some []"
| "to_any_elems num ((raw, v) # es) =
     (case to_any num v of
        None \<Rightarrow> None
      | Some g \<Rightarrow> map_option ((#) g) (to_any_elems num es))"
| "to_any_members num [] acc = Some acc"
| "to_any_members num ((k, raw, v) # ms) acc =
     (case to_any num v of
        None \<Rightarrow> None
      | Some g \<Rightarrow> to_any_members num ms (map_set k g acc))"

section \<open>Encoding\<close>

definition hex_digit :: "nat \<Rightarrow> char" where
  "hex_digit n = ''0123456789abcdef'' ! n"

definition esc_chunk :: "string \<Rightarrow> string" where
  "esc_chunk p =
     (let r = fst (decode_rune p) in
      if r < 128 then
        (if r = 34 \<or> r = 92 then CHR 0x5C # p
         else if r = 8 then [CHR 0x5C, CHR ''b'']
         else if r = 12 then [CHR 0x5C, CHR ''f'']
         else if r = 10 then [CHR 0x5C, CHR ''n'']
         else if r = 13 then [CHR 0x5C, CHR ''r'']
         else if r = 9 then [CHR 0x5C, CHR ''t'']
         else if r < 32 \<or> r = 60 \<or> r = 62 \<or> r = 38 then
           [CHR 0x5C, CHR ''u'', CHR ''0'', CHR ''0'', hex_digit (r div 16), hex_digit (r mod 16)]
         else p)
      else if r = rune_error \<and> length p = 1 then CHR 0x5C # ''ufffd''
      else if r = 8232 \<or> r = 8233 then CHR 0x5C # ''u202'' @ [hex_digit (r mod 16)]
      else p)"

definition json_esc :: "string \<Rightarrow> string" where
  "json_esc s = concat (map esc_chunk (chunks s))"

definition json_quote :: "string \<Rightarrow> string" where
  "json_quote s = CHR 0x22 # json_esc s @ [CHR 0x22]"

fun Marshal :: "gov \<Rightarrow> string"
  and Marshal_elems :: "gov list \<Rightarrow> string"
  and Marshal_members :: "(string \<times> gov) list \<Rightarrow> string"
where
  "Marshal GNull = ''null''"
| "Marshal (GBool b) = (if b then ''true'' else ''false'')"
| "Marshal (GNum t) = t"
| "Marshal (GStr s) = json_quote s"
| "Marshal (GArr gs) = ''['' @ Marshal_elems gs @ '']''"
| "Marshal (GMap m) = ''{'' @ Marshal_members m @ ''}''"
| "Marshal_elems [] = []"
| "Marshal_elems [g] = Marshal g"
| "Marshal_elems (g # h # gs) = Marshal g @ '','' @ Marshal_elems (h # gs)"
| "Marshal_members [] = []"
| "Marshal_members [(k, g)] = json_quote k @ '':'' @ Marshal g"
| "Marshal_members ((k, g) # kg # m) = json_quote k @ '':'' @ Marshal g @ '','' @ Marshal_members (kg # m)"

section \<open>Strings\<close>

lemma json_str_lone: "json_str [CHR 0x5C] = None"
  by (subst json_str.simps) simp

lemma json_str_escape_u:
  "json_str (CHR 0x5C # CHR ''u'' # s) =
     (case hex4 s of
        None \<Rightarrow> None
      | Some u \<Rightarrow>
          if 55296 \<le> u \<and> u < 57344 then
            (case surrogate_pair u (drop 4 s) of
               Some v \<Rightarrow> emit (encode_rune v) (json_str (drop 10 s))
             | None \<Rightarrow> emit (encode_rune rune_error) (json_str (drop 4 s)))
          else emit (encode_rune u) (json_str (drop 4 s)))"
  by (subst json_str.simps) simp

lemma json_str_escape:
  "e \<noteq> CHR ''u'' \<Longrightarrow> json_str (CHR 0x5C # e # s) =
     (case simple_escape e of None \<Rightarrow> None | Some b \<Rightarrow> emit [b] (json_str s))"
  by (subst json_str.simps) simp

lemma json_str_plain:
  "c \<noteq> CHR 0x22 \<Longrightarrow> c \<noteq> CHR 0x5C \<Longrightarrow>
   json_str (c # s) = (if byte c < (32::nat) then None
     else emit (encode_rune (fst (decode_rune (c # s)))) (json_str (drop (snd (decode_rune (c # s))) (c # s))))"
  by (subst json_str.simps) simp

lemma json_str_quote [simp]: "json_str (CHR 0x22 # s) = Some ([], s)"
  by (subst json_str.simps) simp

lemma json_str_suffix: "json_str s = Some (d, r) \<Longrightarrow> \<exists>p. p \<noteq> [] \<and> s = p @ r"
proof (induction s arbitrary: d r rule: json_str.induct)
  case (1 s)
  have step: "\<exists>p. p \<noteq> [] \<and> s = p @ r" if "\<exists>p. p \<noteq> [] \<and> drop n s = p @ r" for n
    using that by (metis append_assoc append_is_Nil_conv append_take_drop_id)
  show ?case
  proof (cases s)
    case (Cons c s1)
    consider "c = CHR 0x22" | "c = CHR 0x5C" | "c \<noteq> CHR 0x22" "c \<noteq> CHR 0x5C" by blast
    then show ?thesis
    proof cases
      case 1
      then have "s = [c] @ r" using Cons "1.prems" by (simp add: json_str.simps)
      then show ?thesis by blast
    next
      case 2
      then obtain e s2 where s1: "s1 = e # s2" using Cons "1.prems" by (cases s1) (auto simp: json_str_lone)
      show ?thesis
      proof (cases "e = CHR ''u''")
        case True
        then obtain u where u: "hex4 s2 = Some u" using Cons 2 s1 "1.prems"
          by (auto simp: json_str_escape_u split: option.splits)
        note IH = "1.IH"(1-3)[OF Cons _ 2 s1 True u]
        consider v d' where "55296 \<le> u \<and> u < 57344" "surrogate_pair u (drop 4 s2) = Some v"
            "json_str (drop 10 s2) = Some (d', r)"
          | d' where "json_str (drop 4 s2) = Some (d', r)"
              "55296 \<le> u \<and> u < 57344 \<longrightarrow> surrogate_pair u (drop 4 s2) = None"
          using Cons 2 s1 True u "1.prems"
          by (auto simp: json_str_escape_u split: option.splits if_splits)
        then show ?thesis
        proof cases
          case (1 v d')
          then show ?thesis using IH(2)[OF _ 1(1,2,3)] 2 step[of 12] Cons s1 by simp
        next
          case (2 d')
          then show ?thesis using IH(1)[OF _ _ _ 2(1)] IH(3)[OF _ _ 2(1)] \<open>c = CHR 0x5C\<close> step[of 6] Cons s1
            by (cases "55296 \<le> u \<and> u < 57344") simp_all
        qed
      next
        case False
        then obtain b d' where "simple_escape e = Some b" "json_str s2 = Some (d', r)"
          using Cons 2 s1 False "1.prems" by (auto simp: json_str_escape split: option.splits if_splits)
        then show ?thesis using "1.IH"(4)[OF Cons _ 2 s1 False] 2 step[of 2] Cons s1 by simp
      qed
    next
      case 3
      then obtain d' where "json_str (drop (snd (decode_rune s)) s) = Some (d', r)" "\<not> byte c < (32::nat)"
        using Cons 3 "1.prems" by (auto simp: json_str_plain split: if_splits)
      then show ?thesis using "1.IH"(5)[OF Cons 3] step by blast
    qed
  qed (use "1.prems" in \<open>simp add: json_str.simps[of "[]"]\<close>)
qed

lemma hex_value_digit: "n < 16 \<Longrightarrow> hex_value (hex_digit n) = Some n"
proof -
  have "\<forall>n\<in>set [0..<16]. hex_value (hex_digit n) = Some n"
    by (simp add: upt_rec hex_value_def hex_digit_def)
  then show "n < 16 \<Longrightarrow> hex_value (hex_digit n) = Some n" by simp
qed

lemma json_str_u:
  "hex4 s = Some u \<Longrightarrow> \<not> (55296 \<le> u \<and> u < 57344) \<Longrightarrow>
   json_str (CHR 0x5C # CHR ''u'' # s) = emit (encode_rune u) (json_str (drop 4 s))"
  by (auto simp: json_str_escape_u)

lemma json_str_simple:
  "simple_escape e = Some b \<Longrightarrow> json_str (CHR 0x5C # e # s) = emit [b] (json_str s)"
  by (subst json_str_escape) (auto simp: simple_escape_def)

lemma decode_rune_small: "fst (decode_rune (c # s)) < 128 \<Longrightarrow> byte c < (128::nat)"
  by (auto simp: decode_rune.simps Let_def second_ok_def cont_byte_def rune_error_def
      split: list.splits if_splits)

lemma encode_small: "r < 128 \<Longrightarrow> encode_rune r = [char_of r]"
  by (simp add: encode_rune_def)

lemma hex4_small:
  "r < 128 \<Longrightarrow> hex4 (CHR ''0'' # CHR ''0'' # hex_digit (r div 16) # hex_digit (r mod 16) # X) = Some r"
  using hex_value_digit[of "r div 16"] hex_value_digit[of "r mod 16"]
  by (simp add: hex4_def hex_value_def[of "CHR ''0''"])

text \<open>Bytes that decode as one valid rune do so whatever follows them.\<close>

lemma decode_rune_append:
  assumes "p \<noteq> []" and "decode_rune p = (r, length p)" and "\<not> (r = rune_error \<and> length p = 1)"
  shows "decode_rune (p @ X) = (r, length p)"
proof -
  obtain c0 cs where p: "p = c0 # cs" using assms(1) by (cases p) auto
  show ?thesis
    using assms(2,3) unfolding p
    by (cases cs; cases "tl cs"; cases "tl (tl cs)")
      (auto simp: decode_rune.simps Let_def split: list.splits if_splits)
qed

lemma escaped_chars:
  "char_of (34::nat) = CHR 0x22" "char_of (92::nat) = CHR 0x5C" "char_of (8::nat) = CHR 0x08"
  "char_of (12::nat) = CHR 0x0C" "char_of (10::nat) = CHR 0x0A" "char_of (13::nat) = CHR 0x0D"
  "char_of (9::nat) = CHR 0x09"
  by (simp_all add: char_of_def bit_0)

lemma json_str_esc_chunk:
  assumes "p \<noteq> []" and d: "decode_rune p = (r, length p)"
  shows "json_str (esc_chunk p @ X) = emit (encode_rune r) (json_str X)"
proof -
  obtain c p' where p: "p = c # p'" using assms(1) by (cases p) auto
  show ?thesis
  proof (cases "r < 128")
    case True
    then have c: "byte c < (128::nat)" using d p decode_rune_small[of c p'] by simp
    then have r: "byte c = r" "p = [c]" using d p by (simp_all add: decode_rune_1)
    have cr: "c = char_of r" using r(1) by (metis char_of_char)
    consider "r = 34" | "r = 92" | "r = 8" | "r = 12" | "r = 10" | "r = 13" | "r = 9"
      | "r < 32 \<or> r = 60 \<or> r = 62 \<or> r = 38" "r \<noteq> 8" "r \<noteq> 12" "r \<noteq> 10" "r \<noteq> 13" "r \<noteq> 9"
      | "\<not> (r < 32 \<or> r = 60 \<or> r = 62 \<or> r = 38)" "r \<noteq> 34" "r \<noteq> 92" by blast
    then show ?thesis
    proof cases
      case 8
      then have "esc_chunk p @ X = CHR 0x5C # CHR ''u'' # CHR ''0'' # CHR ''0'' # hex_digit (r div 16) # hex_digit (r mod 16) # X"
        using True d by (auto simp: esc_chunk_def Let_def)
      then show ?thesis using json_str_u[OF hex4_small[OF True]] True by simp
    next
      case 9
      then have "c \<noteq> CHR 0x22" "c \<noteq> CHR 0x5C" using r by auto
      then show ?thesis using json_str_plain[of c X] 9 True d r c
        by (simp add: esc_chunk_def Let_def encode_small decode_rune_1)
    qed (use True d r cr in \<open>simp_all add: esc_chunk_def Let_def encode_small json_str_simple simple_escape_def escaped_chars\<close>)
  next
    case False
    then have c: "\<not> byte c < (128::nat)" using d p by (auto simp: decode_rune_1)
    then have cc: "c \<noteq> CHR 0x22" "c \<noteq> CHR 0x5C" "\<not> byte c < (32::nat)" by auto
    consider "r = rune_error" "length p = 1" | "r = 8232 \<or> r = 8233"
      | "esc_chunk p = p" "\<not> (r = rune_error \<and> length p = 1)"
    proof -
      have "esc_chunk p = (if r = rune_error \<and> length p = 1 then CHR 0x5C # ''ufffd''
          else if r = 8232 \<or> r = 8233 then CHR 0x5C # ''u202'' @ [hex_digit (r mod 16)] else p)"
        using False d by (simp add: esc_chunk_def Let_def)
      then show ?thesis using that by (metis (full_types))
    qed
    then show ?thesis
    proof cases
      case 1
      then have e: "esc_chunk p @ X = CHR 0x5C # CHR ''u'' # ''fffd'' @ X"
        using False d by (simp add: esc_chunk_def Let_def)
      have "hex4 (''fffd'' @ X) = Some 65533" by (simp add: hex4_def hex_value_def)
      from json_str_u[OF this] e 1(1) show ?thesis by (simp add: rune_error_def)
    next
      case 2
      then have e: "esc_chunk p @ X = CHR 0x5C # CHR ''u'' # ''202'' @ hex_digit (r mod 16) # X"
        using False d by (auto simp: esc_chunk_def Let_def rune_error_def)
      have "hex4 (''202'' @ hex_digit (r mod 16) # X) = Some r"
        using 2 by (auto simp: hex4_def hex_value_def hex_digit_def)
      from json_str_u[OF this] e 2 show ?thesis by auto
    next
      case 3
      then show ?thesis
        using cc(3) json_str_plain[OF cc(1,2), of "p' @ X"] decode_rune_append[OF assms 3(2), of X] p by simp
    qed
  qed
qed

text \<open>Reading back an encoded text gives it with the replacement rune where it was not UTF-8.\<close>

lemma json_str_esc: "json_str (json_esc s @ CHR 0x22 # rest) = Some (utf8 (runes s), rest)"
proof (induction s rule: length_induct)
  case (1 s)
  show ?case
  proof (cases "s = []")
    case False
    define w where "w = snd (decode_rune s)"
    have w: "0 < w" "w \<le> length s"
      using decode_rune_width_pos[OF False] decode_rune_width_le[of s] by (simp_all add: w_def)
    define p where "p = take w s"
    have ch: "chunks s = p # chunks (drop w s)"
      using chunks_nonempty[OF False] by (simp add: w_def p_def)
    have lp: "length p = w" using w by (simp add: p_def)
    have dp: "decode_rune p = decode_rune s"
      using take_decode_width[OF False, of 0] by (simp add: p_def w_def)
    then have d: "decode_rune p = (fst (decode_rune s), length p)" using lp by (simp add: w_def)
    have "p \<noteq> []" using lp w by auto
    have X: "json_esc s @ CHR 0x22 # rest = esc_chunk p @ json_esc (drop w s) @ CHR 0x22 # rest"
      by (simp add: json_esc_def ch)
    have IH: "json_str (json_esc (drop w s) @ CHR 0x22 # rest) = Some (utf8 (runes (drop w s)), rest)"
      using 1 False w by simp
    have "runes s = fst (decode_rune s) # runes (drop w s)" by (simp add: runes_def ch dp)
    then show ?thesis
      unfolding X json_str_esc_chunk[OF \<open>p \<noteq> []\<close> d] IH by (simp add: utf8_Cons)
  qed (simp add: json_esc_def)
qed

section \<open>Numbers\<close>

text \<open>What may follow a value: nothing, or one of the characters that end it.\<close>

definition value_end :: "string \<Rightarrow> bool" where
  "value_end s \<longleftrightarrow> (case s of [] \<Rightarrow> True | c # _ \<Rightarrow> c = CHR '','' \<or> c = CHR '']'' \<or> c = CHR ''}'')"

definition number_lit :: "string \<Rightarrow> bool" where
  "number_lit t \<longleftrightarrow> scan_number t = Some (t, [])"

lemma digits_append:
  "value_end rest \<Longrightarrow> takeWhile digit (s @ rest) = takeWhile digit s"
  "value_end rest \<Longrightarrow> dropWhile digit (s @ rest) = dropWhile digit s @ rest"
  by (induction s) (auto simp: value_end_def digit_def split: list.splits)

lemma opt_sign_split: "opt_sign S s @ drop (length (opt_sign S s)) s = s"
  by (simp add: opt_sign_def split: list.splits)

lemma opt_sign_append:
  assumes "value_end rest" and "S \<inter> {CHR '','', CHR '']'', CHR ''}''} = {}"
  shows "opt_sign S (s @ rest) = opt_sign S s"
    and "drop (length (opt_sign S s)) (s @ rest) = drop (length (opt_sign S s)) s @ rest"
  using assms by (auto simp: opt_sign_def value_end_def split: list.splits)

lemma scan_exp_cons:
  "scan_exp (c # r) =
     (if c = CHR ''e'' \<or> c = CHR ''E'' then
        let sign = opt_sign {CHR ''+'', CHR ''-''} r; r1 = drop (length sign) r
        in if takeWhile digit r1 = [] then None
           else Some (c # sign @ takeWhile digit r1, dropWhile digit r1)
      else Some ([], c # r))"
  by (simp add: scan_exp_def)

lemma scan_exp_append:
  assumes "value_end rest" and "scan_exp s = Some (t, r)"
  shows "scan_exp (s @ rest) = Some (t, r @ rest)"
proof (cases s)
  case Nil
  then show ?thesis using assms by (auto simp: scan_exp_def value_end_def split: list.splits)
next
  case (Cons c s')
  then show ?thesis
    using assms(2) digits_append[OF assms(1)] opt_sign_append[OF assms(1), of "{CHR ''+'', CHR ''-''}" s']
    by (auto simp: scan_exp_cons Let_def split: if_splits)
qed

lemma scan_frac_append:
  "value_end rest \<Longrightarrow> scan_frac s = Some (t, r) \<Longrightarrow> scan_frac (s @ rest) = Some (t, r @ rest)"
  by (cases s) (auto simp: scan_frac_def digits_append value_end_def split: list.splits if_splits)

lemma scan_int_append:
  "value_end rest \<Longrightarrow> scan_int s = Some (t, r) \<Longrightarrow> scan_int (s @ rest) = Some (t, r @ rest)"
  by (cases s) (auto simp: scan_int_def digits_append split: if_splits)

lemma scan_number_append:
  assumes "value_end rest" and "scan_number s = Some (t, r)"
  shows "scan_number (s @ rest) = Some (t, r @ rest)"
proof -
  obtain i r1 f r2 e where i: "scan_int (drop (length (opt_sign {CHR ''-''} s)) s) = Some (i, r1)"
    and f: "scan_frac r1 = Some (f, r2)" and e: "scan_exp r2 = Some (e, r)"
    and t: "t = opt_sign {CHR ''-''} s @ i @ f @ e"
    using assms(2) unfolding scan_number_def Let_def by (auto split: option.splits)
  have "opt_sign {CHR ''-''} (s @ rest) = opt_sign {CHR ''-''} s"
    "drop (length (opt_sign {CHR ''-''} s)) (s @ rest) = drop (length (opt_sign {CHR ''-''} s)) s @ rest"
    using opt_sign_append[OF assms(1), of "{CHR ''-''}" s] by auto
  then show ?thesis
    unfolding scan_number_def Let_def
    using scan_int_append[OF assms(1) i] scan_frac_append[OF assms(1) f] scan_exp_append[OF assms(1) e] t
    by simp
qed

lemma scan_exp_split: "scan_exp s = Some (t, r) \<Longrightarrow> s = t @ r"
  using opt_sign_split[of "{CHR ''+'', CHR ''-''}" "tl s"]
  by (cases s) (auto simp: scan_exp_cons scan_exp_def[of "[]"] Let_def split: if_splits)

lemma scan_frac_split: "scan_frac s = Some (t, r) \<Longrightarrow> s = t @ r"
  by (cases s) (auto simp: scan_frac_def split: if_splits)

lemma scan_int_split: "scan_int s = Some (t, r) \<Longrightarrow> s = t @ r \<and> t \<noteq> []"
  by (cases s) (auto simp: scan_int_def split: if_splits)

lemma scan_number_split:
  assumes "scan_number s = Some (t, r)"
  shows "s = t @ r \<and> t \<noteq> []"
proof -
  obtain i r1 f r2 e where "scan_int (drop (length (opt_sign {CHR ''-''} s)) s) = Some (i, r1)"
    "scan_frac r1 = Some (f, r2)" "scan_exp r2 = Some (e, r)" "t = opt_sign {CHR ''-''} s @ i @ f @ e"
    using assms unfolding scan_number_def Let_def by (auto split: option.splits)
  then show ?thesis
    using scan_int_split scan_frac_split scan_exp_split opt_sign_split[of "{CHR ''-''}" s]
    by (metis append_assoc append_is_Nil_conv)
qed

lemma scan_number_head:
  "scan_number (c # s) = Some x \<Longrightarrow> digit c \<or> c = CHR ''-''"
  by (auto simp: scan_number_def opt_sign_def scan_int_def digit_def Let_def split: if_splits option.splits)

section \<open>The parser's fuel\<close>

lemma dropWhile_suffix: "\<exists>p. s = p @ dropWhile P s"
  by (metis takeWhile_dropWhile_id)

lemma skip_ws_length: "length (skip_ws s) \<le> length s"
  unfolding skip_ws_def using dropWhile_suffix[of s json_ws] by (metis length_append le_add2)

lemma json_str_length: "json_str s = Some (d, r) \<Longrightarrow> length r < length s"
  by (auto dest!: json_str_suffix)

lemma scan_number_length: "scan_number s = Some (t, r) \<Longrightarrow> length r < length s"
  by (drule scan_number_split) auto

lemma skip_ws_Cons_length: "skip_ws s = c # r \<Longrightarrow> length r < length s"
  using skip_ws_length[of s] by simp

lemma parse_valueE:
  assumes "parse_value n s = Some (v, r)"
  obtains (str) m s1 d where "n = Suc m" "s = CHR 0x22 # s1" "json_str s1 = Some (d, r)" "v = JStr d"
  | (arr0) m s1 where "n = Suc m" "s = CHR ''['' # s1" "skip_ws s1 = CHR '']'' # r" "v = JArr []"
  | (arr) m s1 d r1 es where "n = Suc m" "s = CHR ''['' # s1" "skip_ws s1 = d # r1" "d \<noteq> CHR '']''"
      "parse_elems m (d # r1) = Some (es, r)" "v = JArr es"
  | (obj0) m s1 where "n = Suc m" "s = CHR ''{'' # s1" "skip_ws s1 = CHR ''}'' # r" "v = JObj []"
  | (obj) m s1 d r1 ms where "n = Suc m" "s = CHR ''{'' # s1" "skip_ws s1 = d # r1" "d \<noteq> CHR ''}''"
      "parse_members m (d # r1) = Some (ms, r)" "v = JObj ms"
  | (lit) m l w where "n = Suc m" "(l, w) \<in> {(''null'', JNull), (''true'', JBool True), (''false'', JBool False)}"
      "s = l @ r" "v = w"
  | (num) m t c s1 where "n = Suc m" "s = c # s1" "scan_number s = Some (t, r)" "v = JNum t" "digit c \<or> c = CHR ''-''"
proof -
  obtain m where n: "n = Suc m" using assms by (cases n) auto
  obtain c s1 where s: "s = c # s1" using assms n by (cases s) auto
  consider "c = CHR 0x22" | "c = CHR ''[''" | "c = CHR ''{''"
    | "c \<noteq> CHR 0x22" "c \<noteq> CHR ''[''" "c \<noteq> CHR ''{''" "HasPrefix s ''null'' \<or> HasPrefix s ''true'' \<or> HasPrefix s ''false''"
    | "c \<noteq> CHR 0x22" "c \<noteq> CHR ''[''" "c \<noteq> CHR ''{''" "\<not> HasPrefix s ''null''" "\<not> HasPrefix s ''true''" "\<not> HasPrefix s ''false''"
    by blast
  then show thesis
  proof cases
    case 1
    then show thesis using assms str[OF n] s n by (auto split: option.splits)
  next
    case 2
    then show thesis using assms arr0[OF n] arr[OF n] s n
      by (cases "skip_ws s1") (auto split: option.splits if_splits)
  next
    case 3
    then show thesis using assms obj0[OF n] obj[OF n] s n
      by (cases "skip_ws s1") (auto split: option.splits if_splits)
  next
    case 4
    then show thesis using assms lit[OF n] s n
      by (auto simp: HasPrefix_iff split: if_splits)
  next
    case 5
    then obtain t where "scan_number s = Some (t, r)" "v = JNum t" using assms s n by auto
    then show thesis using num[OF n s] s scan_number_head[of c s1] by auto
  qed
qed

lemma parse_elemsE:
  assumes "parse_elems n s = Some (es, r)"
  obtains (last) m v r1 where "n = Suc m" "parse_value m s = Some (v, r1)" "skip_ws r1 = CHR '']'' # r"
      "es = [(raw_of s r1, v)]"
  | (more) m v r1 r2 es' where "n = Suc m" "parse_value m s = Some (v, r1)" "skip_ws r1 = CHR '','' # r2"
      "parse_elems m (skip_ws r2) = Some (es', r)" "es = (raw_of s r1, v) # es'"
  using assms by (cases n) (auto split: option.splits list.splits if_splits)

lemma parse_membersE:
  assumes "parse_members n s = Some (ms, r)"
  obtains (last) m s1 k s2 s3 v r1 where "n = Suc m" "s = CHR 0x22 # s1" "json_str s1 = Some (k, s2)"
      "skip_ws s2 = CHR '':'' # s3" "parse_value m (skip_ws s3) = Some (v, r1)" "skip_ws r1 = CHR ''}'' # r"
      "ms = [(k, raw_of (skip_ws s3) r1, v)]"
  | (more) m s1 k s2 s3 v r1 r2 ms' where "n = Suc m" "s = CHR 0x22 # s1" "json_str s1 = Some (k, s2)"
      "skip_ws s2 = CHR '':'' # s3" "parse_value m (skip_ws s3) = Some (v, r1)" "skip_ws r1 = CHR '','' # r2"
      "parse_members m (skip_ws r2) = Some (ms', r)" "ms = (k, raw_of (skip_ws s3) r1, v) # ms'"
  using assms by (cases n; cases s) (auto split: option.splits list.splits if_splits)

lemma parse_shorter:
  "parse_value n s = Some (v, r) \<Longrightarrow> length r < length s"
  "parse_elems n s = Some (es, r) \<Longrightarrow> length r < length s"
  "parse_members n s = Some (ms, r) \<Longrightarrow> length r < length s"
proof (induction n arbitrary: s v r es ms)
  case (Suc n)
  have ws: "length r' < length s'" if "skip_ws s' = c # r'" for s' c r' using that by (rule skip_ws_Cons_length)
  {
    case 1
    then show ?case
      by (cases rule: parse_valueE)
        (auto dest!: json_str_length ws scan_number_length Suc.IH(2,3))
  next
    case 2
    then show ?case
    proof (cases rule: parse_elemsE)
      case (last m v r1)
      then show ?thesis using Suc.IH(1)[of s v r1] ws[of r1] by fastforce
    next
      case (more m v r1 r2 es')
      then show ?thesis using Suc.IH(1)[of s v r1] ws[of r1] skip_ws_length[of r2] Suc.IH(2)[of "skip_ws r2" es' r]
        by fastforce
    qed
  next
    case 3
    then show ?case
    proof (cases rule: parse_membersE)
      case (last m s1 k s2 s3 v r1)
      then show ?thesis
        using Suc.IH(1)[of "skip_ws s3" v r1] ws[of r1] ws[of s2] skip_ws_length[of s3] json_str_length[of s1 k s2]
        by fastforce
    next
      case (more m s1 k s2 s3 v r1 r2 ms')
      then show ?thesis
        using Suc.IH(1)[of "skip_ws s3" v r1] ws[of r1] ws[of s2] skip_ws_length[of s3] json_str_length[of s1 k s2]
          skip_ws_length[of r2] Suc.IH(3)[of "skip_ws r2" ms' r]
        by fastforce
    qed
  }
qed auto

text \<open>One direction of each case, to compute with.\<close>

lemma parse_value_scalar:
  "json_str s1 = Some (d, r) \<Longrightarrow> parse_value (Suc n) (CHR 0x22 # s1) = Some (JStr d, r)"
  "(l, w) \<in> {(''null'', JNull), (''true'', JBool True), (''false'', JBool False)} \<Longrightarrow>
     parse_value (Suc n) (l @ r) = Some (w, r)"
  "scan_number s = Some (t, r) \<Longrightarrow> parse_value (Suc n) s = Some (JNum t, r)"
proof -
  show "parse_value (Suc n) s = Some (JNum t, r)" if "scan_number s = Some (t, r)"
  proof (cases s)
    case Nil
    then show ?thesis using scan_number_split[OF that] by simp
  next
    case (Cons c s')
    then have "digit c \<or> c = CHR ''-''" using that scan_number_head by metis
    then have "c \<notin> {CHR 0x22, CHR ''['', CHR ''{'', CHR ''n'', CHR ''t'', CHR ''f''}"
      by (auto simp: digit_def)
    then show ?thesis using that Cons by (simp add: HasPrefix_def)
  qed
qed (auto simp: HasPrefix_def)

lemma parse_value_empty:
  "skip_ws s1 = CHR '']'' # r \<Longrightarrow> parse_value (Suc n) (CHR ''['' # s1) = Some (JArr [], r)"
  "skip_ws s1 = CHR ''}'' # r \<Longrightarrow> parse_value (Suc n) (CHR ''{'' # s1) = Some (JObj [], r)"
  by simp_all

lemma parse_value_compound:
  "skip_ws s1 = d # r1 \<Longrightarrow> d \<noteq> CHR '']'' \<Longrightarrow> parse_elems n (d # r1) = Some (es, r) \<Longrightarrow>
     parse_value (Suc n) (CHR ''['' # s1) = Some (JArr es, r)"
  "skip_ws s1 = d # r1 \<Longrightarrow> d \<noteq> CHR ''}'' \<Longrightarrow> parse_members n (d # r1) = Some (ms, r) \<Longrightarrow>
     parse_value (Suc n) (CHR ''{'' # s1) = Some (JObj ms, r)"
  by simp_all

lemma parse_elems_step:
  "parse_value n s = Some (v, r1) \<Longrightarrow> skip_ws r1 = CHR '']'' # r \<Longrightarrow>
     parse_elems (Suc n) s = Some ([(raw_of s r1, v)], r)"
  "parse_value n s = Some (v, r1) \<Longrightarrow> skip_ws r1 = CHR '','' # r2 \<Longrightarrow> parse_elems n (skip_ws r2) = Some (es, r) \<Longrightarrow>
     parse_elems (Suc n) s = Some ((raw_of s r1, v) # es, r)"
  by simp_all

lemma parse_members_step:
  "json_str s1 = Some (k, s2) \<Longrightarrow> skip_ws s2 = CHR '':'' # s3 \<Longrightarrow> parse_value n (skip_ws s3) = Some (v, r1) \<Longrightarrow>
   skip_ws r1 = CHR ''}'' # r \<Longrightarrow>
     parse_members (Suc n) (CHR 0x22 # s1) = Some ([(k, raw_of (skip_ws s3) r1, v)], r)"
  "json_str s1 = Some (k, s2) \<Longrightarrow> skip_ws s2 = CHR '':'' # s3 \<Longrightarrow> parse_value n (skip_ws s3) = Some (v, r1) \<Longrightarrow>
   skip_ws r1 = CHR '','' # r2 \<Longrightarrow> parse_members n (skip_ws r2) = Some (ms, r) \<Longrightarrow>
     parse_members (Suc n) (CHR 0x22 # s1) = Some ((k, raw_of (skip_ws s3) r1, v) # ms, r)"
  by simp_all

declare parse_value.simps [simp del] parse_elems.simps [simp del] parse_members.simps [simp del]

text \<open>What any fuel parses, a fuel of twice the length parses.\<close>

lemma parse_fuel:
  "parse_value n s = Some (v, r) \<Longrightarrow> 2 * length s + 1 \<le> k \<Longrightarrow> parse_value k s = Some (v, r)"
  "parse_elems n s = Some (es, r) \<Longrightarrow> 2 * length s + 2 \<le> k \<Longrightarrow> parse_elems k s = Some (es, r)"
  "parse_members n s = Some (ms, r) \<Longrightarrow> 2 * length s + 2 \<le> k \<Longrightarrow> parse_members k s = Some (ms, r)"
proof (induction n arbitrary: s v r es ms k)
  case (Suc n)
  have ws: "length r' < length s'" if "skip_ws s' = c # r'" for s' c r' using that by (rule skip_ws_Cons_length)
  {
    case 1
    then obtain j where k: "k = Suc j" by (cases k) auto
    from 1(1) show ?case
    proof (cases rule: parse_valueE)
      case (arr m s1 d r1 es)
      then show ?thesis using 1(2) Suc.IH(2)[of "d # r1" es r j] ws[of s1] parse_value_compound(1)[of s1 d r1 j es r]
        by (fastforce simp: k)
    next
      case (obj m s1 d r1 ms)
      then show ?thesis using 1(2) Suc.IH(3)[of "d # r1" ms r j] ws[of s1] parse_value_compound(2)[of s1 d r1 j ms r]
        by (fastforce simp: k)
    qed (auto simp only: k intro!: parse_value_scalar parse_value_empty)
  next
    case 2
    then obtain j where k: "k = Suc j" by (cases k) auto
    from 2(1) show ?case
    proof (cases rule: parse_elemsE)
      case (last m v r1)
      then show ?thesis using 2(2) Suc.IH(1)[of s v r1 j] parse_elems_step(1)[of j s v r1 r] by (simp add: k)
    next
      case (more m v r1 r2 es')
      have "length (skip_ws r2) < length s"
        using parse_shorter(1)[OF more(2)] ws[OF more(3)] skip_ws_length[of r2] by linarith
      then show ?thesis
        using 2(2) more Suc.IH(1)[of s v r1 j] Suc.IH(2)[of "skip_ws r2" es' r j]
          parse_elems_step(2)[of j s v r1 r2 es' r] by (simp add: k)
    qed
  next
    case 3
    then obtain j where k: "k = Suc j" by (cases k) auto
    from 3(1) show ?case
    proof (cases rule: parse_membersE)
      case (last m s1 kk s2 s3 v r1)
      have "length (skip_ws s3) < length s"
        using last(2) json_str_length[OF last(3)] ws[OF last(4)] skip_ws_length[of s3] by simp
      then show ?thesis
        using 3(2) last Suc.IH(1)[of "skip_ws s3" v r1 j] parse_members_step(1)[of s1 kk s2 s3 j v r1 r]
        by (simp add: k)
    next
      case (more m s1 kk s2 s3 v r1 r2 ms')
      have l: "length (skip_ws s3) < length s"
        using more(2) json_str_length[OF more(3)] ws[OF more(4)] skip_ws_length[of s3] by simp
      have "length (skip_ws r2) < length s"
        using l parse_shorter(1)[OF more(5)] ws[OF more(6)] skip_ws_length[of r2] by linarith
      then show ?thesis
        using l 3(2) more Suc.IH(1)[of "skip_ws s3" v r1 j] Suc.IH(3)[of "skip_ws r2" ms' r j]
          parse_members_step(2)[of s1 kk s2 s3 j v r1 r2 ms' r] by (simp add: k)
    qed
  }
qed (auto simp: parse_value.simps parse_elems.simps parse_members.simps)

section \<open>Decoding what was encoded\<close>

definition utf8_text :: "string \<Rightarrow> bool" where
  "utf8_text s \<longleftrightarrow> utf8 (runes s) = s"

text \<open>What can be printed: its numbers are literals and its strings UTF-8.\<close>

fun json_wf :: "gov \<Rightarrow> bool" where
  "json_wf GNull = True"
| "json_wf (GBool b) = True"
| "json_wf (GNum t) = number_lit t"
| "json_wf (GStr s) = utf8_text s"
| "json_wf (GArr gs) = (\<forall>g\<in>set gs. json_wf g)"
| "json_wf (GMap m) = (\<forall>(k, g)\<in>set m. utf8_text k \<and> json_wf g)"

text \<open>What the parser makes of a printed value.\<close>

fun jv_of :: "gov \<Rightarrow> jv" where
  "jv_of GNull = JNull"
| "jv_of (GBool b) = JBool b"
| "jv_of (GNum t) = JNum t"
| "jv_of (GStr s) = JStr s"
| "jv_of (GArr gs) = JArr (map (\<lambda>g. (Marshal g, jv_of g)) gs)"
| "jv_of (GMap m) = JObj (map (\<lambda>(k, g). (k, Marshal g, jv_of g)) m)"

text \<open>
  What decoding into any yields, too: the literals are those float64 keeps as they are, the maps are
  sorted.
\<close>

fun wf_gov :: "(string \<Rightarrow> string option) \<Rightarrow> gov \<Rightarrow> bool" where
  "wf_gov num GNull = True"
| "wf_gov num (GBool b) = True"
| "wf_gov num (GNum t) = (number_lit t \<and> num t = Some t)"
| "wf_gov num (GStr s) = utf8_text s"
| "wf_gov num (GArr gs) = (\<forall>g\<in>set gs. wf_gov num g)"
| "wf_gov num (GMap m) = (sorted_wrt (<) (map fst m) \<and> (\<forall>(k, g)\<in>set m. utf8_text k \<and> wf_gov num g))"

lemma wf_gov_json: "wf_gov num g \<Longrightarrow> json_wf g"
  by (induction g) auto

lemma raw_of_append [simp]: "raw_of (x @ r) r = x"
  by (simp add: raw_of_def)

lemma skip_ws_other [simp]: "\<not> json_ws c \<Longrightarrow> skip_ws (c # s) = c # s"
  by (simp add: skip_ws_def)

lemma skip_ws_Nil [simp]: "skip_ws [] = []"
  by (simp add: skip_ws_def)

lemma json_ws_simps [simp]:
  "\<not> json_ws (CHR '','')" "\<not> json_ws (CHR '']'')" "\<not> json_ws (CHR ''}'')" "\<not> json_ws (CHR '':'')"
  "\<not> json_ws (CHR 0x22)" "\<not> json_ws (CHR ''['')" "\<not> json_ws (CHR ''{'')" "\<not> json_ws (CHR ''n'')"
  "\<not> json_ws (CHR ''t'')" "\<not> json_ws (CHR ''f'')" "\<not> json_ws (CHR ''-'')"
  by (simp_all add: json_ws_def)

lemma digit_not_ws: "digit c \<Longrightarrow> \<not> json_ws c \<and> c \<noteq> CHR '']''"
  by (auto simp: digit_def json_ws_def)

lemma value_end_simps [simp]: "value_end []" "value_end (CHR '','' # s)" "value_end (CHR '']'' # s)" "value_end (CHR ''}'' # s)"
  by (simp_all add: value_end_def)

lemma Marshal_head:
  assumes "json_wf g"
  obtains c t where "Marshal g = c # t" "\<not> json_ws c" "c \<noteq> CHR '']''"
proof (cases g)
  case (GNum t)
  then have "scan_number t = Some (t, [])" using assms by (simp add: number_lit_def)
  then obtain c t' where "t = c # t'" "digit c \<or> c = CHR ''-''"
    using scan_number_split[of t t "[]"] scan_number_head by (cases t) auto
  then show ?thesis using that GNum digit_not_ws by auto
next
  case (GBool b)
  then show ?thesis using that by (cases b) auto
qed (use that in \<open>auto simp: json_quote_def split: if_splits\<close>)

lemma parse_quote:
  "utf8_text s \<Longrightarrow> json_quote s @ rest = CHR 0x22 # (json_esc s @ CHR 0x22 # rest)
     \<and> json_str (json_esc s @ CHR 0x22 # rest) = Some (s, rest)"
  by (simp add: json_quote_def json_str_esc utf8_text_def)

lemma map_set_last: "\<forall>k'\<in>fst ` set m. k' < k \<Longrightarrow> map_set k v m = m @ [(k, v)]"
proof (induction m)
  case (Cons kv m)
  then show ?case by (cases kv) (auto simp: not_less)
qed simp

text \<open>Existence of a fuel is enough: any larger one gives the same.\<close>

lemma parse_elems_fuel_Cons:
  assumes "parse_value n s = Some (v, CHR '','' # r2)" "skip_ws r2 = r2" "parse_elems m r2 = Some (es, r)"
  shows "\<exists>n. parse_elems n s = Some ((raw_of s (CHR '','' # r2), v) # es, r)"
proof -
  define k where "k = 2 * length s + 2"
  have "parse_value k s = Some (v, CHR '','' # r2)" using parse_fuel(1)[OF assms(1)] by (simp add: k_def)
  moreover have "2 * length r2 + 2 \<le> k" using parse_shorter(1)[OF assms(1)] by (simp add: k_def)
  then have "parse_elems k r2 = Some (es, r)" by (rule parse_fuel(2)[OF assms(3)])
  ultimately show ?thesis
    using parse_elems_step(2)[of k s v "CHR '','' # r2" r2 es r] assms(2) by (metis json_ws_simps(1) skip_ws_other)
qed

lemma parse_members_fuel_Cons:
  assumes "json_str s1 = Some (k, CHR '':'' # s3)" "skip_ws s3 = s3" "parse_value n s3 = Some (v, CHR '','' # r2)"
    "skip_ws r2 = r2" "parse_members m r2 = Some (ms, r)"
  shows "\<exists>n. parse_members n (CHR 0x22 # s1) = Some ((k, raw_of s3 (CHR '','' # r2), v) # ms, r)"
proof -
  define j where "j = 2 * length s3 + 2"
  have "parse_value j s3 = Some (v, CHR '','' # r2)" using parse_fuel(1)[OF assms(3)] by (simp add: j_def)
  moreover have "2 * length r2 + 2 \<le> j" using parse_shorter(1)[OF assms(3)] by (simp add: j_def)
  then have "parse_members j r2 = Some (ms, r)" by (rule parse_fuel(3)[OF assms(5)])
  ultimately show ?thesis
    using parse_members_step(2)[OF assms(1), of s3 j v "CHR '','' # r2" r2 ms r] assms(2,4)
    by (metis json_ws_simps(1,4) skip_ws_other)
qed

lemma parse_Marshal:
  "json_wf g \<Longrightarrow> value_end rest \<or> (\<forall>t. g \<noteq> GNum t) \<Longrightarrow>
     \<exists>n. parse_value n (Marshal g @ rest) = Some (jv_of g, rest)"
  "\<forall>g\<in>set gs. json_wf g \<Longrightarrow> gs \<noteq> [] \<Longrightarrow>
     \<exists>n. parse_elems n (Marshal_elems gs @ CHR '']'' # rest) = Some (map (\<lambda>g. (Marshal g, jv_of g)) gs, rest)"
  "\<forall>(k, g)\<in>set m. utf8_text k \<and> json_wf g \<Longrightarrow> m \<noteq> [] \<Longrightarrow>
     \<exists>n. parse_members n (Marshal_members m @ CHR ''}'' # rest) = Some (map (\<lambda>(k, g). (k, Marshal g, jv_of g)) m, rest)"
proof (induction g and gs and m arbitrary: rest and rest and rest rule: Marshal_Marshal_elems_Marshal_members.induct)
  case 1
  then show ?case using parse_value_scalar(2)[of "''null''" JNull 0 rest] by (intro exI[of _ 1]) simp
next
  case (2 b)
  then show ?case
    using parse_value_scalar(2)[of "''true''" "JBool True" 0 rest] parse_value_scalar(2)[of "''false''" "JBool False" 0 rest]
    by (intro exI[of _ 1]) simp
next
  case (3 t)
  then have "scan_number (t @ rest) = Some (t, rest)"
    using scan_number_append[of rest t t "[]"] by (simp add: number_lit_def)
  then show ?case using parse_value_scalar(3)[of "t @ rest" t rest 0] by (intro exI[of _ 1]) simp
next
  case (4 s)
  then show ?case using parse_quote[of s rest] parse_value_scalar(1)[of "json_esc s @ CHR 0x22 # rest" s rest 0]
    by (intro exI[of _ 1]) simp
next
  case (5 gs)
  show ?case
  proof (cases "gs = []")
    case True
    then show ?thesis using parse_value_empty(1)[of "CHR '']'' # rest" rest 0] by (intro exI[of _ 1]) simp
  next
    case False
    then obtain n where es: "parse_elems n (Marshal_elems gs @ CHR '']'' # rest) = Some (map (\<lambda>g. (Marshal g, jv_of g)) gs, rest)"
      using 5 by fastforce
    obtain g gs' where gs: "gs = g # gs'" using False by (cases gs) auto
    obtain c t where h: "Marshal g = c # t" "\<not> json_ws c" "c \<noteq> CHR '']''"
      by (rule Marshal_head[of g]) (use 5(2) gs in auto)
    obtain t' where t': "Marshal_elems gs @ CHR '']'' # rest = c # t'" using h gs by (cases gs') auto
    show ?thesis
      using parse_value_compound(1)[of "c # t'" c t' n "map (\<lambda>g. (Marshal g, jv_of g)) gs" rest] es h t'
      by (intro exI[of _ "Suc n"]) simp
  qed
next
  case (6 m)
  show ?case
  proof (cases "m = []")
    case True
    then show ?thesis using parse_value_empty(2)[of "CHR ''}'' # rest" rest 0] by (intro exI[of _ 1]) simp
  next
    case False
    let ?ms = "map (\<lambda>(k, g). (k, Marshal g, jv_of g)) m"
    obtain n where ms: "parse_members n (Marshal_members m @ CHR ''}'' # rest) = Some (?ms, rest)"
      using 6 False by fastforce
    obtain k g m' where m: "m = (k, g) # m'" using False by (cases m) auto
    obtain t' where t': "Marshal_members m @ CHR ''}'' # rest = CHR 0x22 # t'"
      using m by (cases m') (auto simp: json_quote_def)
    show ?thesis
      using parse_value_compound(2)[of "CHR 0x22 # t'" "CHR 0x22" t' n ?ms rest] ms t'
      by (intro exI[of _ "Suc n"]) simp
  qed
next
  case (8 g)
  then obtain n where "parse_value n (Marshal g @ CHR '']'' # rest) = Some (jv_of g, CHR '']'' # rest)"
    by (metis list.set_intros(1) value_end_simps(3))
  then show ?case using parse_elems_step(1)[of n "Marshal g @ CHR '']'' # rest" "jv_of g" "CHR '']'' # rest" rest]
    by (intro exI[of _ "Suc n"]) auto
next
  case (9 g h gs)
  define r2 where "r2 = Marshal_elems (h # gs) @ CHR '']'' # rest"
  obtain n where v: "parse_value n (Marshal g @ CHR '','' # r2) = Some (jv_of g, CHR '','' # r2)"
    using 9(1,3) by (metis list.set_intros(1) value_end_simps(2))
  obtain k where es: "parse_elems k r2 = Some (map (\<lambda>g. (Marshal g, jv_of g)) (h # gs), rest)"
    using 9(2,3) unfolding r2_def by (metis list.set_intros(2) list.distinct(1))
  have "json_wf h" using 9(3) by simp
  then obtain c t where "Marshal h = c # t" "\<not> json_ws c" by (rule Marshal_head)
  then have "skip_ws r2 = r2" unfolding r2_def by (cases gs) auto
  from parse_elems_fuel_Cons[OF v this es] show ?case by (simp add: r2_def)
next
  case (11 k g)
  then have q: "utf8_text k" and g: "json_wf g" by auto
  obtain n where v: "parse_value n (Marshal g @ CHR ''}'' # rest) = Some (jv_of g, CHR ''}'' # rest)"
    using 11(1)[OF g, of "CHR ''}'' # rest"] by auto
  obtain c t where h: "Marshal g = c # t" "\<not> json_ws c" using g by (rule Marshal_head)
  have "parse_members (Suc n) (Marshal_members [(k, g)] @ CHR ''}'' # rest) = Some ([(k, Marshal g, jv_of g)], rest)"
    using parse_quote[OF q, of "CHR '':'' # Marshal g @ CHR ''}'' # rest"] h v
      parse_members_step(1)[of _ k "CHR '':'' # Marshal g @ CHR ''}'' # rest" "Marshal g @ CHR ''}'' # rest" n "jv_of g" "CHR ''}'' # rest" rest]
      raw_of_append[of "Marshal g" "CHR ''}'' # rest"]
    by (simp del: raw_of_append)
  then show ?case by (intro exI) simp
next
  case (12 k g kg m)
  define r2 where "r2 = Marshal_members (kg # m) @ CHR ''}'' # rest"
  have q: "utf8_text k" and g: "json_wf g" using 12(3) by auto
  obtain n where v: "parse_value n (Marshal g @ CHR '','' # r2) = Some (jv_of g, CHR '','' # r2)"
    using 12(1)[OF g, of "CHR '','' # r2"] by auto
  obtain j where ms: "parse_members j r2 = Some (map (\<lambda>(k, g). (k, Marshal g, jv_of g)) (kg # m), rest)"
    using 12(2)[of rest] 12(3) unfolding r2_def by auto
  obtain c t where h: "Marshal g = c # t" "\<not> json_ws c" using g by (rule Marshal_head)
  have r2: "skip_ws r2 = r2" unfolding r2_def by (cases kg; cases m) (simp_all add: json_quote_def)
  have p: "Marshal_members ((k, g) # kg # m) @ CHR ''}'' # rest
      = json_quote k @ CHR '':'' # Marshal g @ CHR '','' # r2" by (simp add: r2_def)
  obtain i where "parse_members i (Marshal_members ((k, g) # kg # m) @ CHR ''}'' # rest)
      = Some ((k, raw_of (Marshal g @ CHR '','' # r2) (CHR '','' # r2), jv_of g)
          # map (\<lambda>(k, g). (k, Marshal g, jv_of g)) (kg # m), rest)"
    unfolding p
    using parse_quote[OF q, of "CHR '':'' # Marshal g @ CHR '','' # r2"] h
      parse_members_fuel_Cons[OF _ _ v r2 ms, of "json_esc k @ CHR 0x22 # CHR '':'' # Marshal g @ CHR '','' # r2" k]
    by auto
  then show ?case by auto
qed auto

lemma to_any_members_jv_of:
  assumes "\<And>k g. (k, g) \<in> set m \<Longrightarrow> to_any num (jv_of g) = Some g" and "sorted_wrt (<) (map fst (acc @ m))"
  shows "to_any_members num (map (\<lambda>(k, g). (k, Marshal g, jv_of g)) m) acc = Some (acc @ m)"
  using assms
proof (induction m arbitrary: acc)
  case (Cons kg m)
  obtain k g where kg: "kg = (k, g)" by fastforce
  have "map_set k g acc = acc @ [(k, g)]"
    by (rule map_set_last) (use Cons.prems(2) kg in \<open>auto simp: sorted_wrt_append\<close>)
  moreover have "to_any num (jv_of g) = Some g" using Cons.prems(1)[of k g] kg by simp
  moreover have "to_any_members num (map (\<lambda>(k, g). (k, Marshal g, jv_of g)) m) (acc @ [(k, g)]) = Some ((acc @ [(k, g)]) @ m)"
    by (rule Cons.IH) (use Cons.prems kg in auto)
  ultimately show ?case using kg by simp
qed simp

lemma to_any_jv_of: "wf_gov num g \<Longrightarrow> to_any num (jv_of g) = Some g"
proof (induction g)
  case (GArr gs)
  then have "\<forall>g\<in>set gs. to_any num (jv_of g) = Some g" by simp
  then have "to_any_elems num (map (\<lambda>g. (Marshal g, jv_of g)) gs) = Some gs" by (induction gs) auto
  then show ?case by simp
next
  case (GMap m)
  then show ?case using to_any_members_jv_of[of m num "[]"] by fastforce
qed simp_all

lemma json_parse_fuel:
  "parse_value n s = Some (v, []) \<Longrightarrow> skip_ws s = s \<Longrightarrow> json_parse s = Some v"
  using parse_fuel(1)[of n s v "[]" "2 * length s + 1"] by (simp add: json_parse_def Let_def)

lemma json_parse_jv_of:
  assumes "json_wf g"
  shows "json_parse (Marshal g) = Some (jv_of g)"
proof -
  obtain n where v: "parse_value n (Marshal g) = Some (jv_of g, [])"
    using parse_Marshal(1)[OF assms, of "[]"] by auto
  obtain c t where "Marshal g = c # t" "\<not> json_ws c" using Marshal_head[OF assms] .
  then show ?thesis using json_parse_fuel[OF v] by simp
qed

lemma json_parse_Marshal:
  assumes "wf_gov num g"
  obtains v where "json_parse (Marshal g) = Some v" "to_any num v = Some g"
  using that json_parse_jv_of[OF wf_gov_json[OF assms]] to_any_jv_of[OF assms] .

text \<open>What decoding yields is what the encoder can print and the decoder read again.\<close>

definition num_ok :: "(string \<Rightarrow> string option) \<Rightarrow> bool" where
  "num_ok num \<longleftrightarrow> (\<forall>t t'. num t = Some t' \<longrightarrow> number_lit t' \<and> num t' = Some t')"

fun jv_text :: "jv \<Rightarrow> bool" where
  "jv_text JNull = True"
| "jv_text (JBool b) = True"
| "jv_text (JNum t) = True"
| "jv_text (JStr s) = utf8_text s"
| "jv_text (JArr es) = (\<forall>(raw, v)\<in>set es. jv_text v)"
| "jv_text (JObj ms) = (\<forall>(k, raw, v)\<in>set ms. utf8_text k \<and> jv_text v)"

lemma utf8_text_utf8: "\<forall>r\<in>set rs. valid_rune r \<Longrightarrow> utf8_text (utf8 rs)"
  by (simp add: utf8_text_def runes_utf8)

lemma utf8_text_encode: "valid_rune u \<Longrightarrow> utf8_text s \<Longrightarrow> utf8_text (encode_rune u @ s)"
  by (simp add: utf8_text_def utf8_Cons)

lemma encode_rune_invalid: "\<not> valid_rune u \<Longrightarrow> encode_rune u = encode_rune rune_error"
  by (auto simp: encode_rune_def valid_rune_def rune_error_def)

lemma utf8_text_encode': "utf8_text s \<Longrightarrow> utf8_text (encode_rune u @ s)"
  by (cases "valid_rune u") (simp_all add: utf8_text_encode encode_rune_invalid)

lemma utf8_text_ascii: "byte b < (128::nat) \<Longrightarrow> utf8_text s \<Longrightarrow> utf8_text (b # s)"
  by (simp add: utf8_text_def utf8_Cons encode_small)

lemma utf8_text_escape: "simple_escape e = Some b \<Longrightarrow> utf8_text s \<Longrightarrow> utf8_text (b # s)"
  by (rule utf8_text_ascii) (auto simp: simple_escape_def split: if_splits)

lemma json_str_text: "json_str s = Some (d, r) \<Longrightarrow> utf8_text d"
proof (induction s arbitrary: d r rule: json_str.induct)
  case (1 s)
  then show ?case
    by (subst (asm) (6) json_str.simps)
      (auto simp: utf8_text_encode' utf8_text_def[of "[]"] intro: utf8_text_escape
        split: list.splits if_splits option.splits)
qed

lemma parse_text:
  "parse_value n s = Some (v, r) \<Longrightarrow> jv_text v"
  "parse_elems n s = Some (es, r) \<Longrightarrow> \<forall>(raw, v)\<in>set es. jv_text v"
  "parse_members n s = Some (ms, r) \<Longrightarrow> \<forall>(k, raw, v)\<in>set ms. utf8_text k \<and> jv_text v"
proof (induction n arbitrary: s v r es ms)
  case (Suc n)
  {
    case 1
    then show ?case by (cases rule: parse_valueE) (auto dest: json_str_text Suc.IH(2,3))
  next
    case 2
    then show ?case by (cases rule: parse_elemsE) (auto dest: Suc.IH)
  next
    case 3
    then show ?case by (cases rule: parse_membersE) (auto dest: json_str_text Suc.IH)
  }
qed (auto simp: parse_value.simps parse_elems.simps parse_members.simps)

lemma json_parse_text: "json_parse s = Some v \<Longrightarrow> jv_text v"
  by (auto simp: json_parse_def Let_def split: option.splits if_splits dest: parse_text(1))

lemma map_set_keys: "fst ` set (map_set k v m) = insert k (fst ` set m)"
  by (induction k v m rule: map_set.induct) auto

lemma map_set_mem: "x \<in> set (map_set k v m) \<Longrightarrow> x = (k, v) \<or> x \<in> set m"
  by (induction k v m rule: map_set.induct) (auto split: if_splits)

lemma map_set_sorted: "sorted_wrt (<) (map fst m) \<Longrightarrow> sorted_wrt (<) (map fst (map_set k v m))"
proof (induction k v m rule: map_set.induct)
  case (2 k v k' v' m)
  then show ?case using map_set_keys[of k v m] by (auto simp: not_less)
qed simp

lemma to_any_wf:
  assumes "num_ok num"
  shows "jv_text v \<Longrightarrow> to_any num v = Some g \<Longrightarrow> wf_gov num g"
    and "\<forall>(raw, v)\<in>set es. jv_text v \<Longrightarrow> to_any_elems num es = Some gs \<Longrightarrow> \<forall>g\<in>set gs. wf_gov num g"
    and "\<forall>(k, raw, v)\<in>set ms. utf8_text k \<and> jv_text v \<Longrightarrow> wf_gov num (GMap acc) \<Longrightarrow>
      to_any_members num ms acc = Some m \<Longrightarrow> wf_gov num (GMap m)"
  using assms
proof (induction num v and num es and num ms acc arbitrary: g and gs and m
    rule: to_any_to_any_elems_to_any_members.induct)
  case (3 num t)
  then show ?case by (auto simp: num_ok_def)
next
  case (10 num k raw v ms acc)
  obtain g where g: "to_any num v = Some g" "to_any_members num ms (map_set k g acc) = Some m"
    using 10(5) by (auto split: option.splits)
  have "wf_gov num g" using 10(1) 10(3) 10(6) g(1) by auto
  then have "wf_gov num (GMap (map_set k g acc))"
    using 10(3,4) by (auto dest: map_set_mem intro: map_set_sorted)
  then show ?case using 10(2)[OF g(1)] 10(3) 10(6) g(2) by auto
qed (auto split: option.splits)

text \<open>Decoding into any and encoding again is stable after the first time.\<close>

definition remarshal :: "(string \<Rightarrow> string option) \<Rightarrow> string \<Rightarrow> string option" where
  "remarshal num s =
     (case json_parse s of
        None \<Rightarrow> None
      | Some v \<Rightarrow> map_option Marshal (to_any num v))"

lemma remarshal_stable:
  assumes "num_ok num" and "remarshal num s = Some t"
  shows "remarshal num t = Some t"
proof -
  obtain v g where "json_parse s = Some v" "to_any num v = Some g" "t = Marshal g"
    using assms(2) by (auto simp: remarshal_def split: option.splits)
  then have "wf_gov num g" using to_any_wf(1)[OF assms(1) json_parse_text] by blast
  then obtain v' where "json_parse t = Some v'" "to_any num v' = Some g"
    using json_parse_Marshal \<open>t = Marshal g\<close> by metis
  then show ?thesis using \<open>t = Marshal g\<close> by (simp add: remarshal_def)
qed

section \<open>Decoding into Go types\<close>

text \<open>
  \<open>json.Unmarshal\<close> into a string, a structure or a map. A member belongs to a field when the
  names agree up to the folding of letters, where two runes outside ASCII fold to ASCII letters. A
  value of the wrong type leaves the field as it was and makes the whole call fail in the end; null
  changes no string. The last member for a field wins.
\<close>

definition fold_rune :: "rune \<Rightarrow> rune" where
  "fold_rune r =
     (if 97 \<le> r \<and> r \<le> 122 then r - 32
      else if r = 383 then 83
      else if r = 8490 then 75
      else r)"

definition name_matches :: "string \<Rightarrow> string \<Rightarrow> bool" where
  "name_matches field k \<longleftrightarrow> map fold_rune (runes k) = map fold_rune (runes field)"

definition Unmarshal_string :: "string \<Rightarrow> string option" where
  "Unmarshal_string s =
     (case json_parse s of
        Some (JStr d) \<Rightarrow> Some d
      | Some JNull \<Rightarrow> Some []
      | _ \<Rightarrow> None)"

text \<open>A field of type string: its value and whether every member for it had the right type.\<close>

definition string_field :: "string \<Rightarrow> (string \<times> string \<times> jv) list \<Rightarrow> string \<times> bool" where
  "string_field field ms =
     fold (\<lambda>(k, raw, v) (cur, ok).
       if name_matches field k then
         (case v of JStr d \<Rightarrow> (d, ok) | JNull \<Rightarrow> (cur, ok) | _ \<Rightarrow> (cur, False))
       else (cur, ok)) ms ([], True)"

text \<open>A field of type \<open>json.RawMessage\<close>.\<close>

definition raw_field :: "string \<Rightarrow> (string \<times> string \<times> jv) list \<Rightarrow> string" where
  "raw_field field ms = fold (\<lambda>(k, raw, v) cur. if name_matches field k then raw else cur) ms []"

text \<open>A \<open>map[string]json.RawMessage\<close>, nil for null.\<close>

definition Unmarshal_raw_map :: "string \<Rightarrow> (string \<times> string) list option" where
  "Unmarshal_raw_map s =
     (case json_parse s of
        Some (JObj ms) \<Rightarrow> Some (fold (\<lambda>(k, raw, v). map_set k raw) ms [])
      | Some JNull \<Rightarrow> Some []
      | _ \<Rightarrow> None)"

lemma map_of_map_set: "sorted_wrt (<) (map fst m) \<Longrightarrow> map_of (map_set k v m) = (map_of m)(k \<mapsto> v)"
proof (induction k v m rule: map_set.induct)
  case (2 k v k' v' m)
  then have "map_of m k' = None" by (force simp: map_of_eq_None_iff)
  moreover have "k < k' \<Longrightarrow> map_of m k = None"
    using 2(2) by (force simp: map_of_eq_None_iff)
  ultimately show ?case using 2 by (auto simp: fun_eq_iff)
qed simp

end
