(* ===== verification/ToolAlias.thy ===== *)
theory ToolAlias
  imports GoJson
begin

text \<open>
  The names under which the tools of MCP servers are declared to the model,
  \<open>pkg/mcpclient/tool_alias.go\<close>: \<open>mcp_<id>_h<hex>\<close>, with the server's id and the bytes of
  the tool's own name in hexadecimal. The expression \<open>^mcp_(\d+)_h([0-9a-f]+)$\<close> leaves no
  choice to a matcher, so its submatches are read off from left to right.
\<close>

definition hex_low :: "char \<Rightarrow> bool" where
  "hex_low c \<longleftrightarrow> digit c \<or> (97 \<le> (byte c :: nat) \<and> (byte c :: nat) \<le> 102)"

definition hex_bytes :: "string \<Rightarrow> string" where
  "hex_bytes s = concat (map (\<lambda>c. [hex_digit (byte c div 16), hex_digit (byte c mod 16)]) s)"

text \<open>\<open>hex.DecodeString\<close>\<close>

fun hex_decode :: "string \<Rightarrow> string option" where
  "hex_decode [] = Some []"
| "hex_decode [a] = None"
| "hex_decode (a # b # r) =
     (case (hex_value a, hex_value b, hex_decode r) of
        (Some x, Some y, Some t) \<Rightarrow> Some (char_of (x * 16 + y) # t)
      | _ \<Rightarrow> None)"

text \<open>\<open>strconv.ParseInt\<close> of a sequence of digits, as an int64.\<close>

definition ParseInt64 :: "string \<Rightarrow> int option" where
  "ParseInt64 ds = (let n = digits_value ds in if n < 2 ^ 63 then Some (int n) else None)"

definition mcp_alias_submatch :: "string \<Rightarrow> (string \<times> string) option" where
  "mcp_alias_submatch s =
     (let r = drop 4 s; ds = takeWhile digit r; t = dropWhile digit r; hx = drop 2 t
      in if HasPrefix s ''mcp_'' \<and> ds \<noteq> [] \<and> HasPrefix t ''_h'' \<and> hx \<noteq> [] \<and> list_all hex_low hx
         then Some (ds, hx) else None)"

definition ToolAlias :: "int \<Rightarrow> string \<Rightarrow> string" where
  "ToolAlias serverID mcpToolName = ''mcp_'' @ itoa serverID @ ''_h'' @ hex_bytes mcpToolName"

definition ParseToolAlias :: "string \<Rightarrow> (int \<times> string) option" where
  "ParseToolAlias normalized =
     (let s = TrimSpace normalized in
      case mcp_alias_submatch s of
        None \<Rightarrow> None
      | Some (ds, hx) \<Rightarrow>
          (case ParseInt64 ds of
             None \<Rightarrow> None
           | Some i \<Rightarrow>
               if i \<le> 0 then None
               else (case hex_decode hx of
                       None \<Rightarrow> None
                     | Some raw \<Rightarrow> if raw = [] then None else Some (i, raw))))"

text \<open>The label of a server is an argument, \<open>None\<close> for a nil function.\<close>

definition ToolProgressDisplayName :: "string \<Rightarrow> string \<Rightarrow> (int \<Rightarrow> string) option \<Rightarrow> string" where
  "ToolProgressDisplayName normalizedName rawToolName serverLabel =
     (let n = TrimSpace normalizedName in
      case ParseToolAlias n of
        Some (sid, orig) \<Rightarrow>
          (let label = ''MCP #'' @ itoa sid;
               label = (case serverLabel of
                          None \<Rightarrow> label
                        | Some f \<Rightarrow> let nm = TrimSpace (f sid) in if nm \<noteq> [] then ''MCP  '' @ nm else label);
               orig = TrimSpace orig
           in if orig \<noteq> [] then label @ ''  '' @ orig else label)
      | None \<Rightarrow> let st = TrimSpace rawToolName in if st \<noteq> [] then st else n)"

section \<open>Lemmas\<close>

lemma hex_digit_low: "n < 16 \<Longrightarrow> hex_low (hex_digit n) \<and> hex_digit n \<noteq> CHR ''-''"
proof -
  have "\<forall>n\<in>set [0..<16]. hex_low (hex_digit n) \<and> hex_digit n \<noteq> CHR ''-''"
    by (simp add: upt_rec hex_low_def digit_def hex_digit_def)
  then show "n < 16 \<Longrightarrow> hex_low (hex_digit n) \<and> hex_digit n \<noteq> CHR ''-''" by simp
qed

lemma byte_halves: "(byte c :: nat) div 16 < 16" "(byte c :: nat) mod 16 < 16"
  using byte_less_256[of c] by (simp_all add: less_mult_imp_div_less)

lemma hex_bytes_low: "list_all hex_low (hex_bytes s)"
  by (induction s) (simp_all add: hex_bytes_def hex_digit_low byte_halves)

lemma hex_decode_bytes [simp]: "hex_decode (hex_bytes s) = Some s"
proof (induction s)
  case (Cons c s)
  have "byte c = byte c div 16 * 16 + (byte c mod 16 :: nat)" by simp
  then have "char_of (byte c div 16 * 16 + (byte c mod 16 :: nat)) = c" by (metis char_of_char)
  then show ?case using Cons by (simp add: hex_bytes_def hex_value_digit byte_halves)
qed (simp add: hex_bytes_def)

lemma hex_bytes_Nil_iff [simp]: "hex_bytes s = [] \<longleftrightarrow> s = []"
  by (cases s) (simp_all add: hex_bytes_def)

lemma hex_low_solid: "hex_low c \<Longrightarrow> byte c < (128::nat) \<and> \<not> IsSpace (byte c)"
  by (auto simp: hex_low_def digit_def IsSpace_def)

lemma digit_solid: "digit c \<Longrightarrow> byte c < (128::nat) \<and> \<not> IsSpace (byte c)"
  by (auto simp: digit_def IsSpace_def)

lemma ToolAlias_chars:
  assumes "0 < sid" and "c \<in> set (ToolAlias sid name)"
  shows "digit c \<or> hex_low c \<or> c \<in> {CHR ''m'', CHR ''c'', CHR ''p'', CHR ''_'', CHR ''h''}"
proof -
  have "c \<in> set ''mcp_'' \<or> c \<in> set (itoa sid) \<or> c \<in> set ''_h'' \<or> c \<in> set (hex_bytes name)"
    using assms(2) unfolding ToolAlias_def by (simp only: set_append Un_iff)
  moreover have "c \<in> set (itoa sid) \<Longrightarrow> digit c" "c \<in> set (hex_bytes name) \<Longrightarrow> hex_low c"
    using hex_bytes_low[of name] itoa_digits[OF assms(1)] by (simp_all add: list_all_iff)
  ultimately show ?thesis by auto
qed

lemma ToolAlias_solid:
  assumes "0 < sid" and "c \<in> set (ToolAlias sid name)"
  shows "byte c < (128::nat) \<and> \<not> IsSpace (byte c)"
proof -
  from ToolAlias_chars[OF assms] consider "digit c" | "hex_low c" | "c \<in> {CHR ''m'', CHR ''c'', CHR ''p'', CHR ''_'', CHR ''h''}"
    by blast
  then show ?thesis by cases (use hex_low_solid digit_solid in \<open>auto simp: IsSpace_def\<close>)
qed

lemma TrimSpace_ToolAlias [simp]: "0 < sid \<Longrightarrow> TrimSpace (ToolAlias sid name) = ToolAlias sid name"
  by (rule TrimSpace_solid) (use ToolAlias_solid in blast)

lemma mcp_alias_submatch_ToolAlias:
  assumes "0 < sid" and "name \<noteq> []"
  shows "mcp_alias_submatch (ToolAlias sid name) = Some (itoa sid, hex_bytes name)"
proof -
  have "list_all digit (itoa sid)" using assms(1) by (rule itoa_digits)
  then have "takeWhile digit (itoa sid @ CHR ''_'' # t) = itoa sid"
    "dropWhile digit (itoa sid @ CHR ''_'' # t) = CHR ''_'' # t" for t
    by (simp_all add: list_all_iff takeWhile_append dropWhile_append digit_def takeWhile_eq_all_conv)
  then show ?thesis
    using assms(2) hex_bytes_low[of name]
    by (simp add: mcp_alias_submatch_def ToolAlias_def HasPrefix_def Let_def)
qed

lemma ParseToolAlias_ToolAlias:
  assumes "0 < sid" and "sid < 2 ^ 63" and "name \<noteq> []"
  shows "ParseToolAlias (ToolAlias sid name) = Some (sid, name)"
proof -
  have "digits_value (itoa sid) = nat sid" using assms(1) by (simp add: itoa_def digits_value_nat_digits)
  moreover have "nat sid < 2 ^ 63" using assms(1,2) by (simp add: nat_less_iff)
  ultimately have i: "ParseInt64 (itoa sid) = Some sid" using assms(1) unfolding ParseInt64_def Let_def by simp
  show ?thesis
    unfolding ParseToolAlias_def Let_def TrimSpace_ToolAlias[OF assms(1)] mcp_alias_submatch_ToolAlias[OF assms(1,3)]
    using assms(1,3) by (simp add: i)
qed

section \<open>Properties\<close>

text \<open>
  an alias is decoded back into the server and the name it was made for, whatever bytes the name
  has, so no two tools of any two servers share an alias, and trimming an alias changes nothing.
\<close>

theorem ToolAlias_roundtrip:
  assumes "0 < sid" and "sid < 2 ^ 63" and "name \<noteq> []"
    and "0 < sid'" and "sid' < 2 ^ 63" and "name' \<noteq> []"
  shows "ParseToolAlias (ToolAlias sid name) = Some (sid, name)
    \<and> (ToolAlias sid name = ToolAlias sid' name' \<longleftrightarrow> sid = sid' \<and> name = name')"
  using ParseToolAlias_ToolAlias[OF assms(1-3)] ParseToolAlias_ToolAlias[OF assms(4-6)]
  by (metis option.inject prod.inject)

theorem ToolAlias_roundtrip_witness:
  "ParseToolAlias (ToolAlias 12 ''web-search'') = Some (12, ''web-search'')
   \<and> ToolAlias 12 ''web-search'' \<noteq> ToolAlias 12 ''ab'' \<and> ToolAlias 12 ''ab'' = ''mcp_12_h6162''"
proof -
  have "ToolAlias 12 ''ab'' = ''mcp_12_h6162''"
    by (simp add: ToolAlias_def itoa_def nat_digits.simps[of 12] nat_digits.simps[of "Suc 0"] hex_bytes_def hex_digit_def
        char_of_def bit_0)
  then show ?thesis using ToolAlias_roundtrip[of 12 "''web-search''" 12 "''ab''"] by simp
qed

end
