(* ===== verification/PromptMessages.thy ===== *)
theory PromptMessages
  imports ChatMessages GoJson "HOL-Library.Word"
begin

text \<open>
  How a conversation is written for a runner and read back for a chat template:
  \<open>pkg/prompt/messages.go\<close>, \<open>chat_template.go\<close>, \<open>tool_calls_parse.go\<close> and the parts of
  \<open>modelfile.go\<close> that prepare a rendered prompt, with the generation parameters of
  \<open>pkg/domain/llm.go\<close>. The calls of tools and their results travel inside the content of a
  message and are taken out of it again when a template is rendered. The package of templates is
  not part of the repository: its functions are the fields of \<open>template_lib\<close>.
\<close>

section \<open>Generation parameters\<close>

type_synonym float32 = "32 word"

record ResponseFormat =
  rf_Type :: string
  rf_Schema :: "string option"

record Tool =
  tool_Name :: string
  tool_Description :: string
  tool_ParametersJSON :: string

record GenerationParams =
  gp_Temperature :: "float32 option"
  gp_MaxTokens :: "int option"
  gp_TopK :: "int option"
  gp_TopP :: "float32 option"
  gp_EnableThinking :: "bool option"
  gp_ResponseFormat :: "ResponseFormat option"
  gp_Tools :: "Tool list"
  gp_ChatTemplateJinja :: string
  gp_RenderedPrompt :: string

definition empty_params :: GenerationParams where
  "empty_params = \<lparr>gp_Temperature = None, gp_MaxTokens = None, gp_TopK = None, gp_TopP = None,
     gp_EnableThinking = None, gp_ResponseFormat = None, gp_Tools = [], gp_ChatTemplateJinja = [],
     gp_RenderedPrompt = []\<rparr>"

section \<open>Messages for a runner\<close>

definition ToolCallsOnlyPrefix :: string where
  "ToolCallsOnlyPrefix = ''[tool_calls]: ''"

definition ToolCallsBlockPrefix :: string where
  "ToolCallsBlockPrefix = CHR 0x0A # ''[tool_calls]: ''"

definition FormatContentForRunner :: "Message option \<Rightarrow> string" where
  "FormatContentForRunner m =
     (case m of
        None \<Rightarrow> []
      | Some msg \<Rightarrow>
          let c = msg_Content msg in
          if msg_Role msg = MessageRoleTool then
            let i = TrimSpace (msg_ToolCallID msg); n = TrimSpace (msg_ToolName msg)
            in (if i \<noteq> [] then ''[call_id='' @ i @ ''] '' else []) @ (if n \<noteq> [] then ''['' @ n @ ''] '' else []) @ c
          else if msg_Role msg = MessageRoleAssistant then
            let tc = TrimSpace (msg_ToolCallsJSON msg)
            in if tc = [] then c
               else if TrimSpace c \<noteq> [] then c @ ToolCallsBlockPrefix @ tc
               else ToolCallsOnlyPrefix @ tc
          else c)"

definition PrepareMessagesForRunner :: "messages \<Rightarrow> messages" where
  "PrepareMessagesForRunner ms =
     concat (map (\<lambda>m. case m of
         None \<Rightarrow> []
       | Some msg \<Rightarrow>
           [Some (msg\<lparr>msg_Content := FormatContentForRunner m, msg_ToolCallID := [], msg_ToolName := [],
                      msg_ToolCallsJSON := []\<rparr>)]) ms)"

definition WithRenderedPrompt :: "GenerationParams option \<Rightarrow> string \<Rightarrow> GenerationParams" where
  "WithRenderedPrompt gp p =
     (case gp of None \<Rightarrow> empty_params\<lparr>gp_RenderedPrompt := p\<rparr> | Some g \<Rightarrow> g\<lparr>gp_RenderedPrompt := p\<rparr>)"

definition WithClientChatTemplate :: "GenerationParams option \<Rightarrow> string \<Rightarrow> GenerationParams" where
  "WithClientChatTemplate gp j =
     (case gp of
        None \<Rightarrow> empty_params\<lparr>gp_ChatTemplateJinja := TrimSpace j\<rparr>
      | Some g \<Rightarrow> g\<lparr>gp_ChatTemplateJinja := TrimSpace j\<rparr>)"

section \<open>Calls of tools in JSON\<close>

record template_call =
  tc_ID :: string
  tc_Index :: nat
  tc_Name :: string
  tc_Arguments :: "(string \<times> gov) list"

record template_message =
  tm_Role :: string
  tm_Content :: string
  tm_ToolCalls :: "template_call list"
  tm_ToolCallID :: string
  tm_ToolName :: string

text \<open>
  The decoder of the arguments belongs to the package of templates: \<open>None\<close> when it fails,
  \<open>Some None\<close> when it leaves the map nil.
\<close>

type_synonym args_decoder = "string \<Rightarrow> (string \<times> gov) list option option"

definition call_arguments :: "args_decoder \<Rightarrow> string \<Rightarrow> (string \<times> gov) list" where
  "call_arguments dec args =
     (if args = [] \<or> args = ''null'' then []
      else
        let argBytes = (if hd args = CHR 0x22 then map_option TrimSpace (Unmarshal_string args) else Some args)
        in case argBytes of
             None \<Rightarrow> []
           | Some b \<Rightarrow>
               if b = [] then []
               else (case dec b of
                       None \<Rightarrow> [(''_raw'', GStr b)]
                     | Some m \<Rightarrow> (case m of None \<Rightarrow> [] | Some kvs \<Rightarrow> kvs)))"

text \<open>The members of all the objects written for the field \<open>function\<close>, which fill one structure.\<close>

definition function_members :: "(string \<times> string \<times> jv) list \<Rightarrow> (string \<times> string \<times> jv) list" where
  "function_members ms =
     concat (map (\<lambda>(k, raw, v). if name_matches ''function'' k then (case v of JObj fs \<Rightarrow> fs | _ \<Rightarrow> []) else []) ms)"

definition function_ok :: "(string \<times> string \<times> jv) list \<Rightarrow> bool" where
  "function_ok ms =
     list_all (\<lambda>(k, raw, v). name_matches ''function'' k \<longrightarrow> (case v of JObj _ \<Rightarrow> True | JNull \<Rightarrow> True | _ \<Rightarrow> False)) ms"

definition raw_call :: "jv \<Rightarrow> (string \<times> string \<times> string) option" where
  "raw_call v =
     (case v of
        JNull \<Rightarrow> Some ([], [], [])
      | JObj ms \<Rightarrow>
          let fs = function_members ms; (i, ok1) = string_field ''id'' ms; (t, ok2) = string_field ''type'' ms;
              (n, ok3) = string_field ''name'' fs
          in if ok1 \<and> ok2 \<and> ok3 \<and> function_ok ms then Some (i, n, raw_field ''arguments'' fs) else None
      | _ \<Rightarrow> None)"

definition parseToolCallsJSON :: "args_decoder \<Rightarrow> string \<Rightarrow> template_call list option" where
  "parseToolCallsJSON dec raw0 =
     (let raw = TrimSpace raw0 in
      if raw = [] then Some []
      else
        case json_parse raw of
          Some (JArr es) \<Rightarrow>
            (if list_all (\<lambda>(r, v). raw_call v \<noteq> None) es then
               Some (map (\<lambda>(i, r, v). case raw_call v of
                   Some (cid, n, args) \<Rightarrow>
                     \<lparr>tc_ID = cid, tc_Index = i, tc_Name = TrimSpace n, tc_Arguments = call_arguments dec args\<rparr>
                 | None \<Rightarrow> \<lparr>tc_ID = [], tc_Index = i, tc_Name = [], tc_Arguments = []\<rparr>)
                 (zip [0..<length es] es))
             else None)
        | Some JNull \<Rightarrow> Some []
        | _ \<Rightarrow> None)"

section \<open>Messages for a template\<close>

text \<open>\<open>strings.LastIndex\<close>\<close>

fun str_last_index :: "string \<Rightarrow> string \<Rightarrow> nat option" where
  "str_last_index s sub =
     (case s of
        [] \<Rightarrow> if sub = [] then Some 0 else None
      | _ # cs \<Rightarrow>
          (case str_last_index cs sub of
             Some i \<Rightarrow> Some (Suc i)
           | None \<Rightarrow> if HasPrefix s sub then Some 0 else None))"

declare str_last_index.simps [simp del]

definition splitAssistantToolCalls :: "string \<Rightarrow> string \<times> string" where
  "splitAssistantToolCalls content0 =
     (let content = TrimSpace content0 in
      if content = [] then ([], [])
      else
        case str_last_index content ToolCallsBlockPrefix of
          Some i \<Rightarrow> (TrimSpace (take i content), TrimSpace (drop (i + length ToolCallsBlockPrefix) content))
        | None \<Rightarrow>
            if HasPrefix content ToolCallsOnlyPrefix
            then ([], TrimSpace (drop (length ToolCallsOnlyPrefix) content))
            else (content, []))"

text \<open>A field in brackets at the start, and what follows it; nothing when it is missing or empty.\<close>

definition bracket_field :: "string \<Rightarrow> string \<Rightarrow> string \<times> string" where
  "bracket_field opening rest =
     (if HasPrefix rest opening then
        (case str_index rest '']'' of
           Some e \<Rightarrow>
             if length opening < e
             then (TrimSpace (take (e - length opening) (drop (length opening) rest)), TrimSpace (drop (e + 1) rest))
             else ([], rest)
         | None \<Rightarrow> ([], rest))
      else ([], rest))"

definition parseToolRoleContent :: "string \<Rightarrow> string \<times> string \<times> string" where
  "parseToolRoleContent content =
     (let rest = TrimSpace content in
      if rest = [] then ([], [], [])
      else
        let (callID, rest) = bracket_field ''[call_id='' rest;
            (toolName, rest) = bracket_field ''['' rest
        in (rest, callID, toolName))"

definition messageToTemplate :: "args_decoder \<Rightarrow> Message \<Rightarrow> template_message option" where
  "messageToTemplate dec m =
     (let tm = \<lparr>tm_Role = msg_Role m, tm_Content = msg_Content m, tm_ToolCalls = [], tm_ToolCallID = [], tm_ToolName = []\<rparr> in
      if msg_Role m = MessageRoleAssistant then
        let (body, tcJSON) = splitAssistantToolCalls (msg_Content m);
            tcJSON = (if tcJSON = [] then TrimSpace (msg_ToolCallsJSON m) else tcJSON)
        in if tcJSON \<noteq> [] then
             map_option (\<lambda>calls. tm\<lparr>tm_Content := body, tm_ToolCalls := calls\<rparr>) (parseToolCallsJSON dec tcJSON)
           else Some (tm\<lparr>tm_Content := body\<rparr>)
      else if msg_Role m = MessageRoleTool then
        let (body, callID, toolName) = parseToolRoleContent (msg_Content m);
            callID = (if callID = [] then TrimSpace (msg_ToolCallID m) else callID);
            toolName = (if toolName = [] then TrimSpace (msg_ToolName m) else toolName)
        in Some (tm\<lparr>tm_Content := body, tm_ToolCallID := callID, tm_ToolName := toolName\<rparr>)
      else Some tm)"

fun messagesForTemplate :: "args_decoder \<Rightarrow> messages \<Rightarrow> template_message list option" where
  "messagesForTemplate dec [] = Some []"
| "messagesForTemplate dec (None # ms) = messagesForTemplate dec ms"
| "messagesForTemplate dec (Some m # ms) =
     (case messageToTemplate dec m of
        None \<Rightarrow> None
      | Some tm \<Rightarrow> map_option ((#) tm) (messagesForTemplate dec ms))"

section \<open>Rendering\<close>

record ('p, 't) template_lib =
  tl_Named :: "string \<Rightarrow> 'p option"
  tl_Read :: "'p \<Rightarrow> string option"
  tl_Parse :: "string \<Rightarrow> 't option"
  tl_Execute :: "'t \<Rightarrow> template_message list \<Rightarrow> string option"
  tl_StopSequences :: "'p \<Rightarrow> string list"
  tl_decode_args :: args_decoder

datatype render_error = EmptyTemplate | NoPreset | PresetError | ToolCallsError | ManifestWithoutTemplate

definition RenderMatchedPreset :: "('p, 't) template_lib \<Rightarrow> 'p option \<Rightarrow> messages \<Rightarrow> render_error + string" where
  "RenderMatchedPreset lib preset ms =
     (case preset of
        None \<Rightarrow> Inl NoPreset
      | Some p \<Rightarrow>
          (case tl_Read lib p of
             None \<Rightarrow> Inl PresetError
           | Some raw \<Rightarrow>
               (case tl_Parse lib (TrimSpace raw) of
                  None \<Rightarrow> Inl PresetError
                | Some t \<Rightarrow>
                    (case messagesForTemplate (tl_decode_args lib) ms of
                       None \<Rightarrow> Inl ToolCallsError
                     | Some tms \<Rightarrow>
                         (case tl_Execute lib t tms of None \<Rightarrow> Inl PresetError | Some out \<Rightarrow> Inr out)))))"

definition BuildChatPrompt :: "('p, 't) template_lib \<Rightarrow> string \<Rightarrow> messages \<Rightarrow> render_error + string" where
  "BuildChatPrompt lib chatTemplateJinja ms =
     (let j = TrimSpace chatTemplateJinja in
      if j = [] then Inl EmptyTemplate
      else (case tl_Named lib j of
              None \<Rightarrow> Inl PresetError
            | Some p \<Rightarrow> RenderMatchedPreset lib (Some p) ms))"

definition PresetStopSequences :: "('p, 't) template_lib \<Rightarrow> string \<Rightarrow> render_error + string list" where
  "PresetStopSequences lib chatTemplateJinja =
     (let j = TrimSpace chatTemplateJinja in
      if j = [] then Inr []
      else (case tl_Named lib j of None \<Rightarrow> Inl PresetError | Some p \<Rightarrow> Inr (tl_StopSequences lib p)))"

record ModelfileManifest =
  mf_From :: string
  mf_System :: string
  mf_Template :: string

definition ChatTemplateFromManifest :: "ModelfileManifest option \<Rightarrow> string" where
  "ChatTemplateFromManifest m = (case m of None \<Rightarrow> [] | Some f \<Rightarrow> TrimSpace (mf_Template f))"

definition BuildChatPromptFromManifest ::
  "('p, 't) template_lib \<Rightarrow> ModelfileManifest option \<Rightarrow> messages \<Rightarrow> render_error + string" where
  "BuildChatPromptFromManifest lib m ms =
     (let tmpl = ChatTemplateFromManifest m
      in if tmpl = [] then Inl ManifestWithoutTemplate else BuildChatPrompt lib tmpl ms)"

definition PrepareRenderedPrompt ::
  "('p, 't) template_lib \<Rightarrow> GenerationParams option \<Rightarrow> messages \<Rightarrow> render_error + GenerationParams option" where
  "PrepareRenderedPrompt lib gp ms =
     (case gp of
        None \<Rightarrow> Inr None
      | Some g \<Rightarrow>
          if TrimSpace (gp_RenderedPrompt g) \<noteq> [] then Inr gp
          else
            let tmpl = TrimSpace (gp_ChatTemplateJinja g)
            in if tmpl = [] then Inr gp
               else (case BuildChatPrompt lib tmpl ms of
                       Inl e \<Rightarrow> Inl e
                     | Inr p \<Rightarrow> Inr (Some (WithRenderedPrompt gp p))))"

definition EnsureRenderedPrompt ::
  "('p, 't) template_lib \<Rightarrow> GenerationParams option \<Rightarrow> messages \<Rightarrow> render_error + GenerationParams option" where
  "EnsureRenderedPrompt lib gp ms =
     (case gp of None \<Rightarrow> Inr None | Some _ \<Rightarrow> PrepareRenderedPrompt lib gp (PrepareMessagesForRunner ms))"

section \<open>Trimming around markers\<close>

definition trim_right :: "string \<Rightarrow> string" where
  "trim_right s = concat (rev (dropWhile space_chunk (rev (chunks s))))"

definition trim_left :: "string \<Rightarrow> string" where
  "trim_left s = concat (dropWhile space_chunk (chunks s))"

lemma chunks_trim_left: "chunks (trim_left s) = dropWhile space_chunk (chunks s)"
  using dropWhile_as_drop[of space_chunk "chunks s"] chunks_concat_drop by (metis trim_left_def)

lemma chunks_trim_right: "chunks (trim_right s) = rev (dropWhile space_chunk (rev (chunks s)))"
  using rev_dropWhile_rev_as_take[of space_chunk "chunks s"] chunks_concat_take by (metis trim_right_def)

lemma dropWhile_twice: "dropWhile P (dropWhile P xs) = dropWhile P xs"
  by (induction xs) auto

text \<open>The two ends can be trimmed in either order.\<close>

lemma trim_sides_commute:
  "dropWhile P (rev (dropWhile P (rev xs))) = rev (dropWhile P (rev (dropWhile P xs)))"
proof (induction xs)
  case (Cons x xs)
  show ?case
  proof (cases "P x \<and> (\<forall>y\<in>set xs. P y)")
    case True
    then have "dropWhile P (rev (x # xs)) = []" "dropWhile P (x # xs) = []"
      by (simp_all only: dropWhile_eq_Nil_conv) auto
    then show ?thesis by (simp only: rev.simps dropWhile.simps)
  next
    case False
    show ?thesis
    proof (cases "P x")
      case True
      then obtain y where "y \<in> set (rev xs)" "\<not> P y" using False by auto
      then have "dropWhile P (rev xs @ [x]) = dropWhile P (rev xs) @ [x]" by (rule dropWhile_append1)
      then show ?thesis using True Cons by simp
    next
      case np: False
      then have "dropWhile P (rev xs @ [x]) = dropWhile P (rev xs) @ [x]" using dropWhile_append3[of P x] by simp
      then show ?thesis using np by simp
    qed
  qed
qed simp

lemma TrimSpace_trim_left: "TrimSpace (trim_left s) = TrimSpace s"
  by (simp add: TrimSpace_def trim_chunks_def chunks_trim_left dropWhile_twice)

lemma TrimSpace_trim_right: "TrimSpace (trim_right s) = TrimSpace s"
proof -
  have "trim_chunks (rev (dropWhile space_chunk (rev cs))) = trim_chunks cs" for cs
    unfolding trim_chunks_def by (simp add: trim_sides_commute dropWhile_twice)
  then show ?thesis by (simp add: TrimSpace_def chunks_trim_right)
qed

lemma space_chunk_simps [simp]:
  "\<not> space_chunk ''[''" "\<not> space_chunk '']''" "space_chunk '' ''" "\<not> space_chunk '':''" "space_chunk [CHR 0x0A]"
  by (simp_all add: space_chunk_def decode_rune_1 IsSpace_def)

lemma TrimSpace_space [simp]: "TrimSpace (CHR '' '' # s) = TrimSpace s"
  by (simp add: TrimSpace_def trim_chunks_def)

lemma TrimSpace_bracket: "TrimSpace (CHR ''['' # a @ CHR '']'' # t) = CHR ''['' # a @ CHR '']'' # trim_right t"
proof -
  have "chunks (CHR ''['' # a @ CHR '']'' # t) = ''['' # chunks a @ '']'' # chunks t"
    by (simp add: chunks_before_ascii)
  then show ?thesis
    by (simp add: TrimSpace_def trim_chunks_def trim_right_def dropWhile_append3)
qed

text \<open>A trimmed text that is not empty ends in no space, so nothing before it is trimmed away with it.\<close>

lemma trimmed_right: "TrimSpace s = s \<Longrightarrow> dropWhile space_chunk (rev (chunks s)) = rev (chunks s)"
proof -
  assume "TrimSpace s = s"
  then have "trim_chunks (chunks s) = chunks s" using chunks_TrimSpace[of s] by simp
  then have "dropWhile space_chunk (rev (chunks s))
      = dropWhile space_chunk (dropWhile space_chunk (rev (dropWhile space_chunk (chunks s))))"
    unfolding trim_chunks_def by (metis rev_rev_ident)
  also have "\<dots> = rev (chunks s)"
    using \<open>trim_chunks (chunks s) = chunks s\<close> unfolding trim_chunks_def dropWhile_twice by (metis rev_rev_ident)
  finally show ?thesis .
qed

lemma TrimSpace_block:
  assumes "TrimSpace c \<noteq> []" and "TrimSpace tc = tc" and "tc \<noteq> []"
  shows "TrimSpace (c @ ToolCallsBlockPrefix @ tc) = trim_left c @ ToolCallsBlockPrefix @ tc"
proof -
  have ch: "chunks (c @ ToolCallsBlockPrefix @ tc) = chunks c @ map (\<lambda>x. [x]) ToolCallsBlockPrefix @ chunks tc"
    by (simp add: ToolCallsBlockPrefix_def chunks_before_ascii)
  have "\<exists>x\<in>set (chunks c). \<not> space_chunk x"
  proof (rule ccontr)
    assume "\<not> (\<exists>x\<in>set (chunks c). \<not> space_chunk x)"
    then have "dropWhile space_chunk (chunks c) = []" by (simp only: dropWhile_eq_Nil_conv) blast
    with assms(1) show False by (simp add: TrimSpace_def trim_chunks_def)
  qed
  then have l: "dropWhile space_chunk (chunks c @ Y) = dropWhile space_chunk (chunks c) @ Y" for Y
    by (auto simp: dropWhile_append1)
  have "\<exists>x\<in>set (rev (chunks tc)). \<not> space_chunk x"
    using assms(3) trimmed_right[OF assms(2)]
    by (metis chunks_Nil_iff dropWhile_eq_self_iff hd_in_set rev_is_Nil_conv)
  then have r: "dropWhile space_chunk (rev (chunks tc) @ Y) = rev (chunks tc) @ Y" for Y
    using trimmed_right[OF assms(2)] by (auto simp: dropWhile_append1)
  have "concat (map (\<lambda>x. [x]) s) = s" for s :: string by (induction s) auto
  then show ?thesis
    unfolding TrimSpace_def ch trim_chunks_def l rev_append append_assoc r
    by (simp add: trim_left_def)
qed

lemma TrimSpace_only:
  assumes "TrimSpace tc = tc" and "tc \<noteq> []"
  shows "TrimSpace (ToolCallsOnlyPrefix @ tc) = ToolCallsOnlyPrefix @ tc"
proof -
  have ch: "chunks (ToolCallsOnlyPrefix @ tc) = map (\<lambda>x. [x]) ToolCallsOnlyPrefix @ chunks tc"
    by (simp add: ToolCallsOnlyPrefix_def)
  have l: "dropWhile space_chunk (map (\<lambda>x. [x]) ToolCallsOnlyPrefix @ Y) = map (\<lambda>x. [x]) ToolCallsOnlyPrefix @ Y" for Y
    by (simp add: ToolCallsOnlyPrefix_def)
  have "\<exists>x\<in>set (rev (chunks tc)). \<not> space_chunk x"
    using assms(2) trimmed_right[OF assms(1)]
    by (metis chunks_Nil_iff dropWhile_eq_self_iff hd_in_set rev_is_Nil_conv)
  then have r: "dropWhile space_chunk (rev (chunks tc) @ Y) = rev (chunks tc) @ Y" for Y
    using trimmed_right[OF assms(1)] by (auto simp: dropWhile_append1)
  have "concat (map (\<lambda>x. [x]) s) = s" for s :: string by (induction s) auto
  then show ?thesis
    unfolding TrimSpace_def ch trim_chunks_def l rev_append append_assoc r by simp
qed

text \<open>The marker holds one newline, its first character, so it does not overlap itself.\<close>

lemma str_last_index_Cons:
  "str_last_index (c # cs) sub =
     (case str_last_index cs sub of
        Some i \<Rightarrow> Some (Suc i)
      | None \<Rightarrow> if HasPrefix (c # cs) sub then Some 0 else None)"
  by (simp add: str_last_index.simps)

lemma str_last_index_skip:
  "CHR 0x0A \<notin> set q \<Longrightarrow> str_last_index b ToolCallsBlockPrefix = None \<Longrightarrow>
   str_last_index (q @ b) ToolCallsBlockPrefix = None"
  by (induction q) (auto simp: str_last_index_Cons HasPrefix_def ToolCallsBlockPrefix_def)

lemma str_last_index_block:
  assumes "str_last_index b ToolCallsBlockPrefix = None"
  shows "str_last_index (a @ ToolCallsBlockPrefix @ b) ToolCallsBlockPrefix = Some (length a)"
proof (induction a)
  case Nil
  have "str_last_index (''[tool_calls]: '' @ b) ToolCallsBlockPrefix = None"
    by (rule str_last_index_skip[OF _ assms]) simp
  moreover have "[] @ ToolCallsBlockPrefix @ b = CHR 0x0A # (''[tool_calls]: '' @ b)"
    by (simp add: ToolCallsBlockPrefix_def)
  ultimately show ?case using HasPrefix_append[of ToolCallsBlockPrefix b]
    by (simp only: str_last_index_Cons option.case list.size) (simp add: ToolCallsBlockPrefix_def)
next
  case (Cons x a)
  then show ?case by (simp add: str_last_index_Cons)
qed

lemma split_assistant:
  assumes "msg_Role m = MessageRoleAssistant" and "tc = TrimSpace (msg_ToolCallsJSON m)" and "tc \<noteq> []"
    and "str_last_index tc ToolCallsBlockPrefix = None"
  shows "splitAssistantToolCalls (FormatContentForRunner (Some m)) = (TrimSpace (msg_Content m), tc)"
proof -
  have tc: "TrimSpace tc = tc" by (simp add: assms(2))
  have nt: "msg_Role m \<noteq> MessageRoleTool" by (simp add: assms(1) role_defs)
  show ?thesis
  proof (cases "TrimSpace (msg_Content m) = []")
    case True
    then have f: "FormatContentForRunner (Some m) = ToolCallsOnlyPrefix @ tc"
      using assms nt by (simp add: FormatContentForRunner_def Let_def)
    have "CHR 0x0A \<notin> set ToolCallsOnlyPrefix" by (simp add: ToolCallsOnlyPrefix_def)
    then have "str_last_index (ToolCallsOnlyPrefix @ tc) ToolCallsBlockPrefix = None"
      by (rule str_last_index_skip[OF _ assms(4)])
    then show ?thesis
      unfolding f splitAssistantToolCalls_def Let_def TrimSpace_only[OF tc assms(3)]
      using True assms(3) tc by simp
  next
    case False
    then have f: "FormatContentForRunner (Some m) = msg_Content m @ ToolCallsBlockPrefix @ tc"
      using assms nt by (simp add: FormatContentForRunner_def Let_def)
    show ?thesis
      unfolding f splitAssistantToolCalls_def Let_def TrimSpace_block[OF False tc assms(3)]
        str_last_index_block[OF assms(4)]
      using assms(3) tc by (simp add: TrimSpace_trim_left)
  qed
qed

lemma str_index_bracket: "CHR '']'' \<notin> set a \<Longrightarrow> str_index (a @ CHR '']'' # t) '']'' = Some (length a)"
  by (induction a) (auto simp: str_index.simps HasPrefix_def)

lemma bracket_field_found:
  assumes "x = TrimSpace x" "x \<noteq> []" "CHR '']'' \<notin> set (opening @ x)"
  shows "bracket_field opening (opening @ x @ CHR '']'' # t) = (x, TrimSpace t)"
proof -
  have "str_index (opening @ x @ CHR '']'' # t) '']'' = Some (length (opening @ x))"
    using str_index_bracket[of "opening @ x" t] assms(3) by simp
  then show ?thesis using assms(1,2) by (simp add: bracket_field_def)
qed

lemma parse_tool_content:
  assumes "i = TrimSpace i" "i \<noteq> []" "CHR '']'' \<notin> set i" and "n = TrimSpace n" "n \<noteq> []" "CHR '']'' \<notin> set n"
  shows "parseToolRoleContent (''[call_id='' @ i @ ''] '' @ ''['' @ n @ ''] '' @ c) = (TrimSpace c, i, n)"
proof -
  let ?X = "CHR '' '' # CHR ''['' # n @ CHR '']'' # CHR '' '' # c"
  have e: "''[call_id='' @ i @ ''] '' @ ''['' @ n @ ''] '' @ c = CHR ''['' # (''call_id='' @ i) @ CHR '']'' # ?X" by simp
  have t: "TrimSpace (CHR ''['' # (''call_id='' @ i) @ CHR '']'' # ?X) = ''[call_id='' @ i @ CHR '']'' # trim_right ?X"
    unfolding TrimSpace_bracket by simp
  have "TrimSpace (trim_right ?X) = ''['' @ n @ CHR '']'' # trim_right (CHR '' '' # c)"
    unfolding TrimSpace_trim_right by (simp add: TrimSpace_bracket)
  then have f1: "bracket_field ''[call_id='' (''[call_id='' @ i @ CHR '']'' # trim_right ?X)
      = (i, ''['' @ n @ CHR '']'' # trim_right (CHR '' '' # c))"
    using bracket_field_found[of i "''[call_id=''"] assms(1-3) by simp
  have f2: "bracket_field ''['' (''['' @ n @ CHR '']'' # trim_right (CHR '' '' # c)) = (n, TrimSpace c)"
    using bracket_field_found[of n "''[''"] assms(4-6) by (simp add: TrimSpace_trim_right)
  have ne: "''[call_id='' @ i @ CHR '']'' # trim_right ?X \<noteq> []" by simp
  show ?thesis
    unfolding e parseToolRoleContent_def Let_def t f1 prod.case f2 if_not_P[OF ne] by (rule refl)
qed

section \<open>Properties\<close>

text \<open>
  what the preparation for a runner writes into the content of a message the template takes out
  of it again: for a result of a tool its call id, the name of the tool and the text, for an answer
  of the model its text and its calls, as long as ids and names hold no bracket and the calls not
  the marker that introduces them.
\<close>

theorem prepared_message_roundtrip:
  assumes "msg_Role m = MessageRoleTool \<longrightarrow>
      TrimSpace (msg_ToolCallID m) \<noteq> [] \<and> CHR '']'' \<notin> set (TrimSpace (msg_ToolCallID m)) \<and>
      TrimSpace (msg_ToolName m) \<noteq> [] \<and> CHR '']'' \<notin> set (TrimSpace (msg_ToolName m))"
    and "msg_Role m = MessageRoleAssistant \<longrightarrow>
      TrimSpace (msg_ToolCallsJSON m) \<noteq> [] \<and> str_last_index (TrimSpace (msg_ToolCallsJSON m)) ToolCallsBlockPrefix = None"
  shows "\<exists>p. PrepareMessagesForRunner [Some m] = [Some p] \<and>
    messageToTemplate dec p =
      (if msg_Role m = MessageRoleTool then
         Some \<lparr>tm_Role = msg_Role m, tm_Content = TrimSpace (msg_Content m), tm_ToolCalls = [],
               tm_ToolCallID = TrimSpace (msg_ToolCallID m), tm_ToolName = TrimSpace (msg_ToolName m)\<rparr>
       else if msg_Role m = MessageRoleAssistant then
         map_option (\<lambda>calls. \<lparr>tm_Role = msg_Role m, tm_Content = TrimSpace (msg_Content m), tm_ToolCalls = calls,
               tm_ToolCallID = [], tm_ToolName = []\<rparr>) (parseToolCallsJSON dec (msg_ToolCallsJSON m))
       else
         Some \<lparr>tm_Role = msg_Role m, tm_Content = msg_Content m, tm_ToolCalls = [], tm_ToolCallID = [], tm_ToolName = []\<rparr>)"
proof -
  let ?p = "m\<lparr>msg_Content := FormatContentForRunner (Some m), msg_ToolCallID := [], msg_ToolName := [],
              msg_ToolCallsJSON := []\<rparr>"
  have P: "PrepareMessagesForRunner [Some m] = [Some ?p]" by (simp add: PrepareMessagesForRunner_def)
  consider "msg_Role m = MessageRoleTool" | "msg_Role m = MessageRoleAssistant" "msg_Role m \<noteq> MessageRoleTool"
    | "msg_Role m \<noteq> MessageRoleTool" "msg_Role m \<noteq> MessageRoleAssistant" by blast
  then show ?thesis
  proof cases
    case 1
    have f: "FormatContentForRunner (Some m) = ''[call_id='' @ TrimSpace (msg_ToolCallID m) @ ''] '' @ ''['' @
        TrimSpace (msg_ToolName m) @ ''] '' @ msg_Content m"
      using 1 assms(1) by (simp add: FormatContentForRunner_def Let_def)
    have "parseToolRoleContent (FormatContentForRunner (Some m))
        = (TrimSpace (msg_Content m), TrimSpace (msg_ToolCallID m), TrimSpace (msg_ToolName m))"
      unfolding f by (rule parse_tool_content) (use 1 assms(1) in simp_all)
    then show ?thesis unfolding P using 1 assms(1) by (simp add: messageToTemplate_def role_defs)
  next
    case 2
    have "splitAssistantToolCalls (FormatContentForRunner (Some m))
        = (TrimSpace (msg_Content m), TrimSpace (msg_ToolCallsJSON m))"
      by (rule split_assistant) (use 2 assms(2) in simp_all)
    then show ?thesis unfolding P using 2 assms(2)
      by (auto simp: messageToTemplate_def parseToolCallsJSON_def Let_def map_option_case split: option.splits)
  next
    case 3
    then show ?thesis unfolding P by (simp add: messageToTemplate_def FormatContentForRunner_def Let_def)
  qed
qed

lemma prepared_message_roundtrip_witness:
  "\<exists>p. PrepareMessagesForRunner
        [Some \<lparr>msg_Id = 3, msg_SessionId = 1, msg_Content = ''42'', msg_Role = ''tool'', msg_AttachmentName = [],
           msg_AttachmentMime = [], msg_AttachmentFileID = None, msg_AttachmentContent = [], msg_ToolCallID = ''c1'',
           msg_ToolName = ''calc'', msg_ToolCallsJSON = [], msg_CreatedAt = 0, msg_UpdatedAt = 0, msg_DeletedAt = None\<rparr>]
      = [Some p]
    \<and> msg_Content p = ''[call_id=c1] [calc] 42''
    \<and> messageToTemplate (\<lambda>_. None) p
      = Some \<lparr>tm_Role = ''tool'', tm_Content = ''42'', tm_ToolCalls = [], tm_ToolCallID = ''c1'', tm_ToolName = ''calc''\<rparr>"
proof -
  let ?m = "\<lparr>msg_Id = 3, msg_SessionId = 1, msg_Content = ''42'', msg_Role = ''tool'', msg_AttachmentName = [],
           msg_AttachmentMime = [], msg_AttachmentFileID = None, msg_AttachmentContent = [], msg_ToolCallID = ''c1'',
           msg_ToolName = ''calc'', msg_ToolCallsJSON = [], msg_CreatedAt = 0, msg_UpdatedAt = 0, msg_DeletedAt = None\<rparr>"
  have t: "TrimSpace ''c1'' = ''c1''" "TrimSpace ''calc'' = ''calc''" "TrimSpace ''42'' = ''42''"
    by (simp_all add: TrimSpace_eval)
  have c: "FormatContentForRunner (Some ?m) = ''[call_id=c1] [calc] 42''"
    by (simp add: FormatContentForRunner_def role_defs t)
  show ?thesis
    using prepared_message_roundtrip[of ?m "\<lambda>_. None"] c
    by (auto simp: role_defs t PrepareMessagesForRunner_def)
qed

text \<open>
  A result of a tool without a name whose text starts with a bracket loses it: the template takes
  the bracket for the name of the tool.
\<close>

lemma tool_content_bracket_lost:
  "parseToolRoleContent (''[call_id=c1] '' @ ''[done] ok'') = (''ok'', ''c1'', ''done'')"
proof -
  have t: "TrimSpace ''c1'' = ''c1''" "TrimSpace ''done'' = ''done''" "TrimSpace ''ok'' = ''ok''"
    by (simp_all add: TrimSpace_eval)
  show ?thesis using parse_tool_content[of "''c1''" "''done''" "''ok''"] t by simp
qed

end
