(* ===== verification/RunnerClient.thy ===== *)
theory RunnerClient
  imports PromptMessages
begin

text \<open>
  The client of one runner, \<open>pkg/llmrunner/llm_runner_service.go\<close>, with the trace id it passes
  on, \<open>rpcmeta.go\<close>. What the runner answers over gRPC is an argument, a \<open>backend\<close>: one
  field per call, with \<open>Inl\<close> for an error of the transport; the stream of an answer is the list
  of what successive \<open>Recv\<close> calls return. Messages of the protocol are records of the fields the
  client reads or sets. The goroutine that copies the stream into a channel is \<open>run_stream\<close>;
  whether its n-th send goes through before the caller's context ends is an argument too.
\<close>

section \<open>The protocol\<close>

record PbGpuInfo =
  pg_Name :: string
  pg_TemperatureC :: int
  pg_MemoryTotalMb :: int
  pg_MemoryUsedMb :: int
  pg_UtilizationPercent :: int

record PbServerInfo =
  ps_Hostname :: string
  ps_Os :: string
  ps_Arch :: string
  ps_CpuCores :: int
  ps_MemoryTotalMb :: int

record GetLoadedModelResponse =
  lm_Loaded :: bool
  lm_DisplayName :: string
  lm_GgufBasename :: string

record RunnerProbeResponse =
  pr_BackendConnected :: bool
  pr_Gpus :: "PbGpuInfo option list"
  pr_Server :: "PbServerInfo option"
  pr_LoadedModel :: "GetLoadedModelResponse option"

record ChatResponse =
  cr_Content :: string
  cr_ReasoningContent :: string
  cr_Done :: bool
  cr_PromptTokens :: int
  cr_CompletionTokens :: int
  cr_TotalTokens :: int

record PbChatMessage =
  pm_Id :: int
  pm_Content :: string
  pm_Role :: string
  pm_CreatedAt :: int
  pm_AttachmentName :: "string option"
  pm_AttachmentContent :: string
  pm_AttachmentMime :: "string option"

record PbGenerationParams =
  pp_Temperature :: "float32 option"
  pp_MaxTokens :: "int option"
  pp_TopK :: "int option"
  pp_TopP :: "float32 option"
  pp_EnableThinking :: "bool option"
  pp_ResponseFormat :: "ResponseFormat option"

record SendMessageRequest =
  sr_Messages :: "PbChatMessage list"
  sr_StopSequences :: "string list"
  sr_GenerationParams :: "PbGenerationParams option"
  sr_TimeoutSeconds :: "int option"
  sr_RenderedPrompt :: "string option"

record backend =
  be_Dial :: "string option"
  be_Close :: "string option"
  be_RunnerProbe :: "string + RunnerProbeResponse option"
  be_GetModels :: "string + string list option"
  be_GetGpuInfo :: "string + PbGpuInfo option list option"
  be_GetServerInfo :: "string + PbServerInfo option"
  be_GetLoadedModel :: "string + GetLoadedModelResponse option"
  be_LoadModel :: "string \<Rightarrow> string option"
  be_UnloadModel :: "string option"
  be_ResetMemory :: "string option"
  be_Embed :: "string \<Rightarrow> string + float32 list option"
  be_EmbedBatch :: "string list \<Rightarrow> string + float32 list option list option"
  be_SendMessage :: "SendMessageRequest \<Rightarrow> string + (string + ChatResponse) list"

datatype client_error =
    DialFailed string
  | RpcFailed string string
  | ModelNotLoaded string
  | ModelNotNamed
  | FirstChunkFailed string

section \<open>Trace ids\<close>

record trace_ctx =
  tx_TraceID :: string
  tx_Incoming :: "string list option"
  tx_Outgoing :: "string list"

definition sanitizeTraceID :: "string \<Rightarrow> string" where
  "sanitizeTraceID s = take 128 (TrimSpace s)"

definition WithTraceID :: "trace_ctx \<Rightarrow> string \<Rightarrow> trace_ctx" where
  "WithTraceID ctx i = (let t = sanitizeTraceID i in if t = [] then ctx else ctx\<lparr>tx_TraceID := t\<rparr>)"

definition IncomingTraceID :: "trace_ctx \<Rightarrow> string" where
  "IncomingTraceID ctx = (case tx_Incoming ctx of Some (v # _) \<Rightarrow> sanitizeTraceID v | _ \<Rightarrow> [])"

definition EnsureTraceInContext :: "string \<Rightarrow> trace_ctx \<Rightarrow> trace_ctx" where
  "EnsureTraceInContext fresh ctx =
     (if tx_TraceID ctx \<noteq> [] then ctx
      else if IncomingTraceID ctx \<noteq> [] then WithTraceID ctx (IncomingTraceID ctx)
      else WithTraceID ctx fresh)"

definition OutgoingContext :: "trace_ctx \<Rightarrow> trace_ctx" where
  "OutgoingContext ctx =
     (if tx_TraceID ctx = [] then ctx else ctx\<lparr>tx_Outgoing := tx_Outgoing ctx @ [tx_TraceID ctx]\<rparr>)"

section \<open>Calls without a stream\<close>

record LLMRunnerService =
  sv_Address :: string
  sv_Model :: string

definition NewLLMRunnerService :: "backend \<Rightarrow> string \<Rightarrow> string \<Rightarrow> client_error + LLMRunnerService" where
  "NewLLMRunnerService be address model =
     (let a = (if address = [] then ''localhost:50052'' else address)
      in case be_Dial be of
           Some e \<Rightarrow> Inl (DialFailed e)
         | None \<Rightarrow> Inr \<lparr>sv_Address = a, sv_Model = model\<rparr>)"

definition rpc :: "string \<Rightarrow> string + 'a \<Rightarrow> client_error + 'a" where
  "rpc name r = (case r of Inl e \<Rightarrow> Inl (RpcFailed name e) | Inr x \<Rightarrow> Inr x)"

definition svc_RunnerProbe :: "backend \<Rightarrow> client_error + RunnerProbeResponse option" where
  "svc_RunnerProbe be = rpc ''RunnerProbe'' (be_RunnerProbe be)"

definition svc_CheckConnection :: "backend \<Rightarrow> client_error + bool" where
  "svc_CheckConnection be =
     (case svc_RunnerProbe be of
        Inl e \<Rightarrow> Inl e
      | Inr None \<Rightarrow> Inr False
      | Inr (Some pr) \<Rightarrow> Inr (pr_BackendConnected pr))"

definition svc_GetModels :: "backend \<Rightarrow> client_error + string list" where
  "svc_GetModels be =
     (case rpc ''GetModels'' (be_GetModels be) of
        Inl e \<Rightarrow> Inl e
      | Inr None \<Rightarrow> Inr []
      | Inr (Some models) \<Rightarrow> Inr models)"

definition svc_GetGpuInfo :: "backend \<Rightarrow> client_error + PbGpuInfo option list option" where
  "svc_GetGpuInfo be = rpc ''GetGpuInfo'' (be_GetGpuInfo be)"

definition svc_GetServerInfo :: "backend \<Rightarrow> client_error + PbServerInfo option" where
  "svc_GetServerInfo be = rpc ''GetServerInfo'' (be_GetServerInfo be)"

definition svc_GetLoadedModel :: "backend \<Rightarrow> client_error + GetLoadedModelResponse option" where
  "svc_GetLoadedModel be = rpc ''GetLoadedModel'' (be_GetLoadedModel be)"

definition svc_LoadModel :: "backend \<Rightarrow> LLMRunnerService \<Rightarrow> string \<Rightarrow> client_error option" where
  "svc_LoadModel be s model0 =
     (let m1 = TrimSpace model0; m = (if m1 = [] \<or> m1 = ''default'' then TrimSpace (sv_Model s) else m1)
      in if m = [] \<or> m = ''default'' then Some ModelNotNamed
         else map_option (RpcFailed ''LoadModel'') (be_LoadModel be m))"

definition svc_UnloadModel :: "backend \<Rightarrow> client_error option" where
  "svc_UnloadModel be = map_option (RpcFailed ''UnloadModel'') (be_UnloadModel be)"

definition svc_ResetMemory :: "backend \<Rightarrow> client_error option" where
  "svc_ResetMemory be = map_option (RpcFailed ''ResetMemory'') (be_ResetMemory be)"

definition svc_Close :: "backend \<Rightarrow> string option" where
  "svc_Close be = be_Close be"

definition resolveRunnerModel :: "LLMRunnerService \<Rightarrow> string \<Rightarrow> string" where
  "resolveRunnerModel s model =
     (let m1 = TrimSpace model; m = (if m1 = [] \<or> m1 = ''default'' then TrimSpace (sv_Model s) else m1)
      in if m = ''default'' then [] else m)"

definition is_loaded :: "GetLoadedModelResponse option \<Rightarrow> bool" where
  "is_loaded lm \<longleftrightarrow> (case lm of None \<Rightarrow> False | Some l \<Rightarrow> lm_Loaded l)"

definition svc_Embed :: "backend \<Rightarrow> string \<Rightarrow> client_error + float32 list" where
  "svc_Embed be text =
     (case svc_GetLoadedModel be of
        Inl e \<Rightarrow> Inl e
      | Inr lm \<Rightarrow>
          if \<not> is_loaded lm then Inl (ModelNotLoaded ''Embed'')
          else (case rpc ''Embed'' (be_Embed be text) of
                  Inl e \<Rightarrow> Inl e
                | Inr None \<Rightarrow> Inr []
                | Inr (Some v) \<Rightarrow> Inr v))"

definition svc_EmbedBatch :: "backend \<Rightarrow> string list \<Rightarrow> client_error + float32 list list" where
  "svc_EmbedBatch be texts =
     (case svc_GetLoadedModel be of
        Inl e \<Rightarrow> Inl e
      | Inr lm \<Rightarrow>
          if \<not> is_loaded lm then Inl (ModelNotLoaded ''EmbedBatch'')
          else (case rpc ''EmbedBatch'' (be_EmbedBatch be texts) of
                  Inl e \<Rightarrow> Inl e
                | Inr None \<Rightarrow> Inr []
                | Inr (Some es) \<Rightarrow> Inr (map (\<lambda>e. case e of None \<Rightarrow> [] | Some v \<Rightarrow> v) es)))"

section \<open>The request of an answer\<close>

definition mapResponseFormatToProto :: "ResponseFormat option \<Rightarrow> ResponseFormat option" where
  "mapResponseFormatToProto f =
     (case f of None \<Rightarrow> None | Some r \<Rightarrow> Some \<lparr>rf_Type = rf_Type r, rf_Schema = rf_Schema r\<rparr>)"

definition mapGenerationParamsToProto :: "GenerationParams option \<Rightarrow> PbGenerationParams option" where
  "mapGenerationParamsToProto gp =
     (case gp of
        None \<Rightarrow> None
      | Some g \<Rightarrow>
          Some \<lparr>pp_Temperature = gp_Temperature g, pp_MaxTokens = gp_MaxTokens g, pp_TopK = gp_TopK g,
                pp_TopP = gp_TopP g, pp_EnableThinking = gp_EnableThinking g,
                pp_ResponseFormat = mapResponseFormatToProto (gp_ResponseFormat g)\<rparr>)"

definition opt_text :: "string \<Rightarrow> string option" where
  "opt_text s = (let t = TrimSpace s in if t = [] then None else Some t)"

definition unix_seconds :: "time \<Rightarrow> int" where
  "unix_seconds t = t div go_second - 62135596800"

definition domainMessagesToProto :: "messages \<Rightarrow> PbChatMessage list" where
  "domainMessagesToProto ms =
     (let prepared = concat (map (\<lambda>m. case m of None \<Rightarrow> [] | Some x \<Rightarrow> [x]) (PrepareMessagesForRunner ms))
      in map (\<lambda>(i, m). \<lparr>pm_Id = int i + 1, pm_Content = msg_Content m, pm_Role = msg_Role m,
             pm_CreatedAt = unix_seconds (msg_CreatedAt m), pm_AttachmentName = opt_text (msg_AttachmentName m),
             pm_AttachmentContent = msg_AttachmentContent m, pm_AttachmentMime = opt_text (msg_AttachmentMime m)\<rparr>)
           (zip [0..<length prepared] prepared))"

definition applyRenderedPromptToRequest :: "SendMessageRequest \<Rightarrow> GenerationParams option \<Rightarrow> SendMessageRequest" where
  "applyRenderedPromptToRequest req gp =
     (case gp of None \<Rightarrow> req | Some g \<Rightarrow> req\<lparr>sr_RenderedPrompt := opt_text (gp_RenderedPrompt g)\<rparr>)"

definition countRunnerVisionAttachments :: "messages \<Rightarrow> nat" where
  "countRunnerVisionAttachments ms =
     length (filter (\<lambda>m. case m of
         None \<Rightarrow> False
       | Some x \<Rightarrow>
           if msg_AttachmentContent x = [] then False
           else
             let mt = ToLower (TrimSpace (msg_AttachmentMime x)) in
             if IsAllowedChatImageMIME mt \<or> HasPrefix mt ''image/'' then True
             else mt = [] \<and> IsImageAttachment (msg_AttachmentName x)) ms)"

section \<open>The stream of an answer\<close>

record StreamTokenUsage =
  su_PromptTokens :: int
  su_CompletionTokens :: int
  su_TotalTokens :: int

record LLMStreamChunk =
  ch_Content :: string
  ch_ReasoningContent :: string
  ch_Usage :: "StreamTokenUsage option"

definition streamUsageFromResponse :: "ChatResponse option \<Rightarrow> StreamTokenUsage option" where
  "streamUsageFromResponse msg =
     (case msg of
        None \<Rightarrow> None
      | Some r \<Rightarrow>
          if cr_TotalTokens r \<le> 0 then None
          else Some \<lparr>su_PromptTokens = cr_PromptTokens r, su_CompletionTokens = cr_CompletionTokens r,
                     su_TotalTokens = cr_TotalTokens r\<rparr>)"

text \<open>\<open>live k\<close>: the send of the k-th chunk wins against the end of the context.\<close>

fun run_stream :: "(nat \<Rightarrow> bool) \<Rightarrow> nat \<Rightarrow> ChatResponse \<Rightarrow> (string + ChatResponse) list \<Rightarrow> LLMStreamChunk list" where
  "run_stream live k cur rest =
     (let has = cr_Content cur \<noteq> [] \<or> cr_ReasoningContent cur \<noteq> [];
          out = (if has then [\<lparr>ch_Content = cr_Content cur, ch_ReasoningContent = cr_ReasoningContent cur, ch_Usage = None\<rparr>] else []);
          k1 = k + length out
      in if has \<and> \<not> live k then []
         else if cr_Done cur then
           (case streamUsageFromResponse (Some cur) of
              None \<Rightarrow> out
            | Some u \<Rightarrow> if live k1 then out @ [\<lparr>ch_Content = [], ch_ReasoningContent = [], ch_Usage = Some u\<rparr>] else out)
         else
           (case rest of
              Inr msg # rest' \<Rightarrow> out @ run_stream live k1 msg rest'
            | _ \<Rightarrow> out))"

declare run_stream.simps [simp del]

definition sendMessageStream ::
  "('p, 't) template_lib \<Rightarrow> backend \<Rightarrow> (nat \<Rightarrow> bool) \<Rightarrow> messages \<Rightarrow> string list \<Rightarrow> int \<Rightarrow> GenerationParams option
   \<Rightarrow> client_error + LLMStreamChunk list" where
  "sendMessageStream lib be live ms stopSequences timeoutSeconds gp =
     (let req = \<lparr>sr_Messages = domainMessagesToProto ms, sr_StopSequences = stopSequences,
                 sr_GenerationParams = mapGenerationParamsToProto gp,
                 sr_TimeoutSeconds = (if 0 < timeoutSeconds then Some timeoutSeconds else None),
                 sr_RenderedPrompt = None\<rparr>;
          gpForRunner = (case EnsureRenderedPrompt lib gp ms of Inl _ \<Rightarrow> gp | Inr prepared \<Rightarrow> prepared);
          req = applyRenderedPromptToRequest req gpForRunner
      in case svc_GetLoadedModel be of
           Inl e \<Rightarrow> Inl e
         | Inr lm \<Rightarrow>
             if \<not> is_loaded lm then Inl (ModelNotLoaded ''SendMessage'')
             else
               (case rpc ''SendMessage'' (be_SendMessage be req) of
                  Inl e \<Rightarrow> Inl e
                | Inr [] \<Rightarrow> Inl (FirstChunkFailed ''EOF'')
                | Inr (Inl e # _) \<Rightarrow> Inl (FirstChunkFailed e)
                | Inr (Inr firstMsg # rest) \<Rightarrow> Inr (run_stream live 0 firstMsg rest)))"

definition svc_SendMessage ::
  "('p, 't) template_lib \<Rightarrow> backend \<Rightarrow> (nat \<Rightarrow> bool) \<Rightarrow> messages \<Rightarrow> string list \<Rightarrow> int \<Rightarrow> GenerationParams option
   \<Rightarrow> client_error + LLMStreamChunk list" where
  "svc_SendMessage lib be live ms stopSequences timeoutSeconds gp =
     sendMessageStream lib be live ms stopSequences timeoutSeconds gp"

section \<open>Lemmas\<close>

text \<open>The messages of a stream up to the first that says it is done, or the first error.\<close>

fun stream_messages :: "ChatResponse \<Rightarrow> (string + ChatResponse) list \<Rightarrow> ChatResponse list" where
  "stream_messages cur rest =
     (if cr_Done cur then [cur]
      else (case rest of Inr msg # rest' \<Rightarrow> cur # stream_messages msg rest' | _ \<Rightarrow> [cur]))"

declare stream_messages.simps [simp del]

lemma stream_messages_nonempty [simp]: "stream_messages cur rest \<noteq> []"
  by (subst stream_messages.simps) (simp split: list.splits sum.splits)

definition stream_usage :: "ChatResponse list \<Rightarrow> LLMStreamChunk list" where
  "stream_usage msgs =
     (if msgs \<noteq> [] \<and> cr_Done (last msgs) then
        (case streamUsageFromResponse (Some (last msgs)) of
           None \<Rightarrow> []
         | Some u \<Rightarrow> [\<lparr>ch_Content = [], ch_ReasoningContent = [], ch_Usage = Some u\<rparr>])
      else [])"

definition content_chunks :: "ChatResponse list \<Rightarrow> LLMStreamChunk list" where
  "content_chunks msgs =
     map (\<lambda>c. \<lparr>ch_Content = cr_Content c, ch_ReasoningContent = cr_ReasoningContent c, ch_Usage = None\<rparr>)
       (filter (\<lambda>c. cr_Content c \<noteq> [] \<or> cr_ReasoningContent c \<noteq> []) msgs)"

fun live_prefix :: "(nat \<Rightarrow> bool) \<Rightarrow> nat \<Rightarrow> 'a list \<Rightarrow> 'a list" where
  "live_prefix live k [] = []"
| "live_prefix live k (x # xs) = (if live k then x # live_prefix live (Suc k) xs else [])"

lemma live_prefix_all: "\<forall>n. live n \<Longrightarrow> live_prefix live k xs = xs"
  by (induction xs arbitrary: k) auto

lemma live_prefix_append:
  "live_prefix live k (xs @ ys) =
     (if length (live_prefix live k xs) = length xs then xs @ live_prefix live (k + length xs) ys
      else live_prefix live k xs)"
proof (induction xs arbitrary: k)
  case (Cons x xs)
  have "length (live_prefix live j xs) \<le> length xs" for j by (induction xs arbitrary: j) auto
  then show ?case using Cons by auto
qed simp

lemma content_chunks_Cons:
  "content_chunks (c # cs) =
     (if cr_Content c \<noteq> [] \<or> cr_ReasoningContent c \<noteq> []
      then [\<lparr>ch_Content = cr_Content c, ch_ReasoningContent = cr_ReasoningContent c, ch_Usage = None\<rparr>] else [])
     @ content_chunks cs"
  by (simp add: content_chunks_def)

lemma content_chunks_text: "concat (map ch_Content (content_chunks msgs)) = concat (map cr_Content msgs)"
  by (induction msgs) (auto simp: content_chunks_def)

section \<open>Properties\<close>

text \<open>
  the chunks forwarded are those of the runner's messages up to the first that is done or the end of
  the stream, empty ones left out, then the counts of tokens; when the caller's context ends the
  rest is dropped from that point on. While it lives no text is lost.
\<close>

theorem run_stream_faithful:
  "run_stream live k cur rest
     = live_prefix live k (content_chunks (stream_messages cur rest) @ stream_usage (stream_messages cur rest))
   \<and> concat (map ch_Content (content_chunks (stream_messages cur rest))) = concat (map cr_Content (stream_messages cur rest))"
proof
  show "run_stream live k cur rest
     = live_prefix live k (content_chunks (stream_messages cur rest) @ stream_usage (stream_messages cur rest))"
  proof (induction live k cur rest rule: run_stream.induct)
    case (1 live k cur rest)
    let ?has = "cr_Content cur \<noteq> [] \<or> cr_ReasoningContent cur \<noteq> []"
    let ?out = "if ?has then [\<lparr>ch_Content = cr_Content cur, ch_ReasoningContent = cr_ReasoningContent cur, ch_Usage = None\<rparr>] else []"
    show ?case
    proof (cases "?has \<and> \<not> live k \<or> cr_Done cur")
      case True
      then show ?thesis
        by (auto simp: run_stream.simps[of live k cur] stream_messages.simps[of cur] content_chunks_Cons stream_usage_def
            content_chunks_def[of "[]"] Let_def split: option.splits list.splits sum.splits)
    next
      case False
      then have u: "stream_usage (cur # ms) = stream_usage ms" if "ms \<noteq> []" for ms
        using that by (simp add: stream_usage_def)
      show ?thesis
      proof (cases "\<exists>msg rest'. rest = Inr msg # rest'")
        case True
        then obtain msg rest' where r: "rest = Inr msg # rest'" by blast
        have IH: "run_stream live (k + length ?out) msg rest'
            = live_prefix live (k + length ?out) (content_chunks (stream_messages msg rest') @ stream_usage (stream_messages msg rest'))"
          by (rule "1.IH"[OF refl refl refl _ _ r refl]) (use False in auto)
        show ?thesis
          using False IH u[OF stream_messages_nonempty[of msg rest']]
          by (auto simp: r run_stream.simps[of live k cur] stream_messages.simps[of cur] content_chunks_Cons Let_def)
      next
        case no: False
        then show ?thesis using False
          by (auto simp: run_stream.simps[of live k cur] stream_messages.simps[of cur] content_chunks_Cons stream_usage_def
              content_chunks_def[of "[]"] Let_def split: list.splits sum.splits)
      qed
    qed
  qed
qed (rule content_chunks_text)

end
