(* ===== verification/RunnerPool.thy ===== *)
theory RunnerPool
  imports RunnerRegistry RunnerClient
begin

text \<open>
  The pool that spreads requests over the enabled runners, \<open>pkg/llmrunner/pool.go\<close>: one client
  per address, a cache of probes with a back-off after failures, and one counter of requests in
  flight per address. A counter is a heap object: the map \<open>pl_inflight\<close> holds references into
  the list \<open>pl_counters\<close>, because a request keeps its counter after the address was closed and
  its map entry is gone. The clock, the answers of the runners and the order in which the probing
  goroutines finish are an environment, \<open>pool_env\<close>; probes of different addresses touch
  different entries, so every interleaving of them has the effect of some order of whole probes. A
  client is named by its address. Scores are integers: in float64 they are exact.
\<close>

section \<open>Data\<close>

record GpuInfo =
  gi_Name :: string
  gi_TemperatureC :: int
  gi_MemoryTotalMB :: int
  gi_MemoryUsedMB :: int
  gi_UtilizationPercent :: int

record ServerInfo =
  si_Hostname :: string
  si_OS :: string
  si_Arch :: string
  si_CPUCores :: int
  si_MemoryTotalMB :: int

record LoadedModelStatus =
  ls_Loaded :: bool
  ls_DisplayName :: string
  ls_GGUFBasename :: string

record RunnerProbeResult =
  rp_Connected :: bool
  rp_Gpus :: "GpuInfo list"
  rp_Server :: "ServerInfo option"
  rp_LoadedModel :: "LoadedModelStatus option"

definition no_probe :: RunnerProbeResult where
  "no_probe = \<lparr>rp_Connected = False, rp_Gpus = [], rp_Server = None, rp_LoadedModel = None\<rparr>"

definition gpusFromProto :: "PbGpuInfo option list \<Rightarrow> GpuInfo list" where
  "gpusFromProto gs =
     concat (map (\<lambda>g. case g of
         None \<Rightarrow> []
       | Some p \<Rightarrow> [\<lparr>gi_Name = pg_Name p, gi_TemperatureC = pg_TemperatureC p, gi_MemoryTotalMB = pg_MemoryTotalMb p,
                    gi_MemoryUsedMB = pg_MemoryUsedMb p, gi_UtilizationPercent = pg_UtilizationPercent p\<rparr>]) gs)"

definition serverFromProto :: "PbServerInfo option \<Rightarrow> ServerInfo option" where
  "serverFromProto si =
     map_option (\<lambda>s. \<lparr>si_Hostname = ps_Hostname s, si_OS = ps_Os s, si_Arch = ps_Arch s,
                      si_CPUCores = ps_CpuCores s, si_MemoryTotalMB = ps_MemoryTotalMb s\<rparr>) si"

definition loadedModelFromProto :: "GetLoadedModelResponse option \<Rightarrow> LoadedModelStatus option" where
  "loadedModelFromProto lm =
     map_option (\<lambda>l. \<lparr>ls_Loaded = lm_Loaded l, ls_DisplayName = lm_DisplayName l, ls_GGUFBasename = lm_GgufBasename l\<rparr>) lm"

definition maxGPUUtil :: "PbGpuInfo option list \<Rightarrow> int" where
  "maxGPUUtil gs =
     fold (\<lambda>g mx. case g of None \<Rightarrow> mx | Some p \<Rightarrow> if mx < pg_UtilizationPercent p then pg_UtilizationPercent p else mx) gs 0"

definition runnerProbeModelLoaded :: "RunnerProbeResponse option \<Rightarrow> bool" where
  "runnerProbeModelLoaded pr = (case pr of None \<Rightarrow> False | Some r \<Rightarrow> is_loaded (pr_LoadedModel r))"

definition runnerProbeTTL :: duration where "runnerProbeTTL = 5 * go_second"
definition runnerProbeBackoffBase :: duration where "runnerProbeBackoffBase = go_second"
definition runnerProbeBackoffMax :: duration where "runnerProbeBackoffMax = 30 * go_second"
definition runnerProbeBackoffShift :: int where "runnerProbeBackoffShift = 5"

record probe_entry =
  pe_ok :: bool
  pe_models :: "string list"
  pe_maxGpuU :: int
  pe_probedAt :: time
  pe_backoffUntil :: time
  pe_failCount :: int

definition no_entry :: probe_entry where
  "no_entry = \<lparr>pe_ok = False, pe_models = [], pe_maxGpuU = 0, pe_probedAt = 0, pe_backoffUntil = 0, pe_failCount = 0\<rparr>"

record Pool =
  pl_reg :: Registry
  pl_clients :: "string list"
  pl_inflight :: "string \<rightharpoonup> nat"
  pl_counters :: "int list"
  pl_probeCache :: "string \<rightharpoonup> probe_entry"

definition NewPool :: "Registry \<Rightarrow> Pool" where
  "NewPool reg = \<lparr>pl_reg = reg, pl_clients = [], pl_inflight = Map.empty, pl_counters = [], pl_probeCache = Map.empty\<rparr>"

text \<open>
  The world of one call: the runner behind each address, as it answers the first probe, the probe of
  the fallback and the probe for the error; the time at the start and the time at which the result
  of a probe is recorded; the order in which the goroutines of a list finish.
\<close>

record pool_env =
  pv_backend :: "nat \<Rightarrow> string \<Rightarrow> backend"
  pv_now :: time
  pv_clock :: "string \<Rightarrow> time"
  pv_order :: "string list \<Rightarrow> string list"

datatype pool_error =
    NoEnabledRunners
  | ErrRunnerModelNotLoaded
  | NoRunnerAnswers
  | EmptyRunnerAddress
  | RunnerUnavailable
  | NoModels
  | LoadedModelUnknown string client_error
  | ClientError client_error
  | ContextEnded

section \<open>Counters and clients\<close>

definition getOrCreateInflight :: "string \<Rightarrow> Pool \<Rightarrow> nat \<times> Pool" where
  "getOrCreateInflight addr p =
     (case pl_inflight p addr of
        Some i \<Rightarrow> (i, p)
      | None \<Rightarrow> (length (pl_counters p),
                 p\<lparr>pl_inflight := (pl_inflight p)(addr \<mapsto> length (pl_counters p)), pl_counters := pl_counters p @ [0]\<rparr>))"

definition counter_Add :: "nat \<Rightarrow> int \<Rightarrow> Pool \<Rightarrow> Pool" where
  "counter_Add i d p = p\<lparr>pl_counters := (pl_counters p)[i := pl_counters p ! i + d]\<rparr>"

definition getClient :: "backend \<Rightarrow> string \<Rightarrow> Pool \<Rightarrow> client_error option \<times> Pool" where
  "getClient be addr p =
     (if addr \<in> set (pl_clients p) then (None, p)
      else
        case NewLLMRunnerService be addr [] of
          Inl e \<Rightarrow> (Some e, p)
        | Inr _ \<Rightarrow> (None, snd (getOrCreateInflight addr (p\<lparr>pl_clients := addr # pl_clients p\<rparr>))))"

text \<open>The first error in the order in which the map of clients is iterated.\<close>

definition pool_Close :: "(string \<Rightarrow> backend) \<Rightarrow> Pool \<Rightarrow> string option \<times> Pool" where
  "pool_Close be p =
     (fold (\<lambda>a e. if e = None then svc_Close (be a) else e) (pl_clients p) None,
      p\<lparr>pl_clients := [], pl_inflight := (\<lambda>a. if a \<in> set (pl_clients p) then None else pl_inflight p a),
        pl_probeCache := Map.empty\<rparr>)"

definition closeAddr :: "string \<Rightarrow> Pool \<Rightarrow> Pool" where
  "closeAddr addr p =
     p\<lparr>pl_clients := filter (\<lambda>a. a \<noteq> addr) (pl_clients p), pl_inflight := (pl_inflight p)(addr := None),
       pl_probeCache := (pl_probeCache p)(addr := None)\<rparr>"

definition CloseAddr :: "string \<Rightarrow> Pool \<Rightarrow> Pool" where
  "CloseAddr addr p = closeAddr addr p"

definition CloseAddrForget :: "string \<Rightarrow> Pool \<Rightarrow> Pool" where
  "CloseAddrForget addr p = closeAddr addr p"

section \<open>Probes\<close>

definition probe_lookup :: "Pool \<Rightarrow> string \<Rightarrow> probe_entry" where
  "probe_lookup p addr = (case pl_probeCache p addr of None \<Rightarrow> no_entry | Some e \<Rightarrow> e)"

definition probe_backoff :: "int \<Rightarrow> duration" where
  "probe_backoff fc =
     min (runnerProbeBackoffBase * 2 ^ nat (min (max (fc - 1) 0) runnerProbeBackoffShift)) runnerProbeBackoffMax"

definition recordProbeFailure :: "time \<Rightarrow> string \<Rightarrow> Pool \<Rightarrow> Pool" where
  "recordProbeFailure now addr p =
     (let fc = pe_failCount (probe_lookup p addr) + 1 in
      p\<lparr>pl_probeCache := (pl_probeCache p)(addr \<mapsto>
          \<lparr>pe_ok = False, pe_models = [], pe_maxGpuU = 0, pe_probedAt = now, pe_backoffUntil = now + probe_backoff fc,
           pe_failCount = fc\<rparr>)\<rparr>)"

definition recordProbeSuccess :: "time \<Rightarrow> string \<Rightarrow> string list \<Rightarrow> int \<Rightarrow> Pool \<Rightarrow> Pool" where
  "recordProbeSuccess now addr models maxGpuU p =
     p\<lparr>pl_probeCache := (pl_probeCache p)(addr \<mapsto>
          \<lparr>pe_ok = True, pe_models = models, pe_maxGpuU = maxGpuU, pe_probedAt = now, pe_backoffUntil = 0,
           pe_failCount = 0\<rparr>)\<rparr>"

text \<open>A candidate is an address with its score.\<close>

type_synonym candidate = "string \<times> int"

definition score :: "string \<Rightarrow> int \<Rightarrow> Pool \<Rightarrow> candidate \<times> Pool" where
  "score addr gpuU p =
     (let (i, p1) = getOrCreateInflight addr p in ((addr, pl_counters p1 ! i * 100 + gpuU), p1))"

definition candidateFromRunnerProbe ::
  "time \<Rightarrow> string \<Rightarrow> RunnerProbeResponse option \<Rightarrow> string list \<Rightarrow> Pool \<Rightarrow> candidate option \<times> Pool" where
  "candidateFromRunnerProbe now addr pr catalogModels p =
     (case pr of
        None \<Rightarrow> (None, recordProbeFailure now addr p)
      | Some r \<Rightarrow>
          if \<not> pr_BackendConnected r then (None, recordProbeFailure now addr p)
          else
            let gpuU = maxGPUUtil (pr_Gpus r); p1 = recordProbeSuccess now addr catalogModels gpuU p
            in if \<not> runnerProbeModelLoaded pr then (None, p1)
               else let (c, p2) = score addr gpuU p1 in (Some c, p2))"

definition probeRunnerAddress :: "pool_env \<Rightarrow> string \<Rightarrow> Pool \<Rightarrow> candidate option \<times> Pool" where
  "probeRunnerAddress env addr p =
     (let be = pv_backend env 0 addr; now = pv_clock env addr in
      case getClient be addr p of
        (Some e, p1) \<Rightarrow> (None, p1)
      | (None, p1) \<Rightarrow>
          (case svc_RunnerProbe be of
             Inl e \<Rightarrow> (None, recordProbeFailure now addr p1)
           | Inr pr \<Rightarrow>
               let catalogModels = (case svc_GetModels be of Inl _ \<Rightarrow> [] | Inr ms \<Rightarrow> ms)
               in candidateFromRunnerProbe now addr pr catalogModels p1))"

definition ProbeLLMRunner :: "backend \<Rightarrow> string \<Rightarrow> Pool \<Rightarrow> RunnerProbeResult \<times> Pool" where
  "ProbeLLMRunner be address p =
     (case getClient be address p of
        (Some e, p1) \<Rightarrow> (no_probe, p1)
      | (None, p1) \<Rightarrow>
          (case svc_RunnerProbe be of
             Inr (Some r) \<Rightarrow>
               if \<not> pr_BackendConnected r then (no_probe, p1)
               else (\<lparr>rp_Connected = True, rp_Gpus = gpusFromProto (pr_Gpus r), rp_Server = serverFromProto (pr_Server r),
                      rp_LoadedModel = loadedModelFromProto (pr_LoadedModel r)\<rparr>, p1)
           | _ \<Rightarrow> (no_probe, p1)))"

section \<open>The choice of a runner\<close>

definition classify :: "pool_env \<Rightarrow> string \<Rightarrow> Pool \<times> candidate list \<times> string list \<Rightarrow> Pool \<times> candidate list \<times> string list" where
  "classify env addr st =
     (let (p, fromCache, toProbe) = st; e = probe_lookup p addr in
      if pe_ok e \<and> pv_now env - pe_probedAt e < runnerProbeTTL then
        (case getClient (pv_backend env 0 addr) addr p of
           (Some err, p1) \<Rightarrow> (p1, fromCache, toProbe)
         | (None, p1) \<Rightarrow> let (c, p2) = score addr (pe_maxGpuU e) p1 in (p2, fromCache @ [c], toProbe))
      else if \<not> pe_ok e \<and> pv_now env < pe_backoffUntil e then (p, fromCache, toProbe)
      else (p, fromCache, toProbe @ [addr]))"

definition probe_all :: "pool_env \<Rightarrow> string list \<Rightarrow> Pool \<Rightarrow> Pool \<times> candidate list" where
  "probe_all env toProbe p =
     fold (\<lambda>addr (p, cs). case probeRunnerAddress env addr p of
         (Some c, p1) \<Rightarrow> (p1, cs @ [c])
       | (None, p1) \<Rightarrow> (p1, cs)) (pv_order env toProbe) (p, [])"

definition fallback_probe :: "pool_env \<Rightarrow> string \<Rightarrow> Pool \<Rightarrow> candidate option \<times> Pool" where
  "fallback_probe env addr p =
     (let be = pv_backend env 1 addr in
      case getClient be addr p of
        (Some e, p1) \<Rightarrow> (None, p1)
      | (None, p1) \<Rightarrow>
          (case svc_RunnerProbe be of
             Inr (Some r) \<Rightarrow>
               if \<not> pr_BackendConnected r \<or> \<not> runnerProbeModelLoaded (Some r) then (None, p1)
               else let (c, p2) = score addr (maxGPUUtil (pr_Gpus r)) p1 in (Some c, p2)
           | _ \<Rightarrow> (None, p1)))"

definition fallback_all :: "pool_env \<Rightarrow> string list \<Rightarrow> Pool \<Rightarrow> Pool \<times> candidate list" where
  "fallback_all env addrs p =
     fold (\<lambda>addr (p, cs). case fallback_probe env addr p of
         (Some c, p1) \<Rightarrow> (p1, cs @ [c])
       | (None, p1) \<Rightarrow> (p1, cs)) (pv_order env addrs) (p, [])"

fun anyRunnerRespondsWithoutLoadedModel :: "pool_env \<Rightarrow> string list \<Rightarrow> Pool \<Rightarrow> bool \<times> Pool" where
  "anyRunnerRespondsWithoutLoadedModel env [] p = (False, p)"
| "anyRunnerRespondsWithoutLoadedModel env (addr # addrs) p =
     (let be = pv_backend env 2 addr in
      case getClient be addr p of
        (Some e, p1) \<Rightarrow> anyRunnerRespondsWithoutLoadedModel env addrs p1
      | (None, p1) \<Rightarrow>
          (case svc_RunnerProbe be of
             Inr (Some r) \<Rightarrow>
               if \<not> pr_BackendConnected r then anyRunnerRespondsWithoutLoadedModel env addrs p1
               else if \<not> runnerProbeModelLoaded (Some r) then (True, p1)
               else anyRunnerRespondsWithoutLoadedModel env addrs p1
           | _ \<Rightarrow> anyRunnerRespondsWithoutLoadedModel env addrs p1))"

definition best_candidate :: "candidate list \<Rightarrow> candidate" where
  "best_candidate found = fold (\<lambda>c best. if snd c < snd best then c else best) (tl found) (hd found)"

definition pickRunner :: "pool_env \<Rightarrow> Pool \<Rightarrow> (pool_error + string) \<times> Pool" where
  "pickRunner env p =
     (let addrs = GetEnabledAddresses (pl_reg p) in
      if addrs = [] then (Inl NoEnabledRunners, p)
      else
        let (p1, fromCache, toProbe) = fold (classify env) addrs (p, [], []);
            (p2, probed) = (if toProbe = [] then (p1, []) else probe_all env toProbe p1);
            found0 = fromCache @ probed;
            (p3, found) = (if found0 = [] then fallback_all env addrs p2 else (p2, found0))
        in if found = [] then
             (case anyRunnerRespondsWithoutLoadedModel env addrs p3 of
                (True, p4) \<Rightarrow> (Inl ErrRunnerModelNotLoaded, p4)
              | (False, p4) \<Rightarrow> (Inl NoRunnerAnswers, p4))
           else (Inr (fst (best_candidate found)), p3))"

section \<open>Requests\<close>

definition RequireChatModelLoaded :: "backend \<Rightarrow> string \<Rightarrow> Pool \<Rightarrow> pool_error option \<times> Pool" where
  "RequireChatModelLoaded be runnerAddr0 p =
     (let runnerAddr = TrimSpace runnerAddr0 in
      if runnerAddr = [] then (Some EmptyRunnerAddress, p)
      else
        case getClient be runnerAddr p of
          (Some e, p1) \<Rightarrow> (Some (ClientError e), p1)
        | (None, p1) \<Rightarrow>
            (case svc_GetLoadedModel be of
               Inl e \<Rightarrow> (Some (LoadedModelUnknown runnerAddr e), p1)
             | Inr lm \<Rightarrow> if \<not> is_loaded lm then (Some ErrRunnerModelNotLoaded, p1) else (None, p1)))"

text \<open>
  What a call to a client leaves behind: the counter taken, and either an error, after which the
  counter is back, or the request still running, which holds it until \<open>finish_request\<close>.
\<close>

definition start_request :: "client_error option \<Rightarrow> string \<Rightarrow> Pool \<Rightarrow> (pool_error + nat) \<times> Pool" where
  "start_request sent addr p =
     (let (i, p1) = getOrCreateInflight addr p; p2 = counter_Add i 1 p1 in
      case sent of
        Some e \<Rightarrow> (Inl (ClientError e), counter_Add i (- 1) p2)
      | None \<Rightarrow> (Inr i, p2))"

definition finish_request :: "nat \<Rightarrow> Pool \<Rightarrow> Pool" where
  "finish_request i p = counter_Add i (- 1) p"

definition pool_SendMessage :: "pool_env \<Rightarrow> (string \<Rightarrow> client_error option) \<Rightarrow> Pool \<Rightarrow> (pool_error + string \<times> nat) \<times> Pool" where
  "pool_SendMessage env send p =
     (case pickRunner env p of
        (Inl e, p1) \<Rightarrow> (Inl e, p1)
      | (Inr addr, p1) \<Rightarrow>
          (case start_request (send addr) addr p1 of
             (Inl e, p2) \<Rightarrow> (Inl e, p2)
           | (Inr i, p2) \<Rightarrow> (Inr (addr, i), p2)))"

definition SendMessageOnRunner ::
  "backend \<Rightarrow> client_error option \<Rightarrow> string \<Rightarrow> Pool \<Rightarrow> (pool_error + string \<times> nat) \<times> Pool" where
  "SendMessageOnRunner be send runnerAddr0 p =
     (let runnerAddr = TrimSpace runnerAddr0 in
      if runnerAddr = [] then (Inl EmptyRunnerAddress, p)
      else
        case RequireChatModelLoaded be runnerAddr p of
          (Some e, p1) \<Rightarrow> (Inl e, p1)
        | (None, p1) \<Rightarrow>
            (case getClient be runnerAddr p1 of
               (Some e, p2) \<Rightarrow> (Inl (ClientError e), p2)
             | (None, p2) \<Rightarrow>
                 (case start_request send runnerAddr p2 of
                    (Inl e, p3) \<Rightarrow> (Inl e, p3)
                  | (Inr i, p3) \<Rightarrow> (Inr (runnerAddr, i), p3))))"

text \<open>The start of \<open>Embed\<close> and of \<open>EmbedBatch\<close>; the deferred decrement comes when the call ends.\<close>

definition start_embed :: "pool_env \<Rightarrow> Pool \<Rightarrow> (pool_error + string \<times> nat) \<times> Pool" where
  "start_embed env p =
     (case pickRunner env p of
        (Inl e, p1) \<Rightarrow> (Inl e, p1)
      | (Inr addr, p1) \<Rightarrow>
          (case RequireChatModelLoaded (pv_backend env 3 addr) addr p1 of
             (Some e, p2) \<Rightarrow> (Inl e, p2)
           | (None, p2) \<Rightarrow>
               let (i, p3) = getOrCreateInflight addr p2 in (Inr (addr, i), counter_Add i 1 p3)))"

definition pool_Embed :: "pool_env \<Rightarrow> string \<Rightarrow> Pool \<Rightarrow> (pool_error + float32 list) \<times> Pool" where
  "pool_Embed env text p =
     (case start_embed env p of
        (Inl e, p1) \<Rightarrow> (Inl e, p1)
      | (Inr (addr, i), p1) \<Rightarrow>
          ((case svc_Embed (pv_backend env 3 addr) text of Inl e \<Rightarrow> Inl (ClientError e) | Inr v \<Rightarrow> Inr v), finish_request i p1))"

definition pool_EmbedBatch :: "pool_env \<Rightarrow> string list \<Rightarrow> Pool \<Rightarrow> (pool_error + float32 list list) \<times> Pool" where
  "pool_EmbedBatch env texts p =
     (case start_embed env p of
        (Inl e, p1) \<Rightarrow> (Inl e, p1)
      | (Inr (addr, i), p1) \<Rightarrow>
          ((case svc_EmbedBatch (pv_backend env 3 addr) texts of Inl e \<Rightarrow> Inl (ClientError e) | Inr v \<Rightarrow> Inr v), finish_request i p1))"

text \<open>
  The goroutine that forwards a stream into a channel of capacity 100 of which the consumer reads
  \<open>reads\<close> chunks in all: what is delivered, what stays in the channel, and whether the goroutine
  ends, which is when it gives the counter back. On a full channel it waits for a read.
\<close>

function forwardStream :: "nat \<Rightarrow> LLMStreamChunk list \<Rightarrow> LLMStreamChunk list \<Rightarrow> LLMStreamChunk list \<times> LLMStreamChunk list \<times> bool" where
  "forwardStream reads [] buf = (take reads buf, drop reads buf, True)"
| "forwardStream reads (c # ch) buf =
     (if length buf < 100 then forwardStream reads ch (buf @ [c])
      else if reads = 0 then ([], buf, False)
      else let (d, rest, ended) = forwardStream (reads - 1) (c # ch) (tl buf) in (hd buf # d, rest, ended))"
  by pat_completeness auto
termination by (relation "measure (\<lambda>(reads, ch, buf). reads + length ch)") auto

section \<open>Waiting\<close>

text \<open>
  What the polling loop sees each time around: whether the context has ended when it checks, the
  counter, and whether the context ends before the next tick. With nothing more to see it still
  waits, \<open>None\<close>.
\<close>

fun wait_loop :: "(bool \<times> int \<times> bool) list \<Rightarrow> pool_error option option" where
  "wait_loop [] = None"
| "wait_loop ((ended, load, ends) # obs) =
     (if ended then Some (Some ContextEnded)
      else if load = 0 then Some None
      else if ends then Some (Some ContextEnded)
      else wait_loop obs)"

definition WaitRunnerIdle :: "string \<Rightarrow> (bool \<times> int \<times> bool) list \<Rightarrow> Pool \<Rightarrow> pool_error option option \<times> Pool" where
  "WaitRunnerIdle address0 obs p =
     (let address = TrimSpace address0 in
      if address = [] then (Some (Some EmptyRunnerAddress), p)
      else
        let (i, p1) = getOrCreateInflight address p in
        if pl_counters p1 ! i = 0 then (Some None, p1) else (wait_loop obs, p1))"

text \<open>
  The calls to one runner by address. What the wait before an unloading returns is ignored, so only
  its effect on the pool is left of it.
\<close>

definition after_wait :: "(backend \<Rightarrow> client_error option) \<Rightarrow> backend \<Rightarrow> string \<Rightarrow> Pool \<Rightarrow> pool_error option \<times> Pool" where
  "after_wait call be address0 p =
     (let address = TrimSpace address0 in
      if address = [] then (Some EmptyRunnerAddress, p)
      else
        let p1 = snd (WaitRunnerIdle address [] p) in
        case getClient be address p1 of
          (Some e, p2) \<Rightarrow> (Some (ClientError e), p2)
        | (None, p2) \<Rightarrow> (map_option ClientError (call be), p2))"

definition UnloadModelOnRunner :: "backend \<Rightarrow> string \<Rightarrow> Pool \<Rightarrow> pool_error option \<times> Pool" where
  "UnloadModelOnRunner be address p = after_wait svc_UnloadModel be address p"

definition ResetMemoryOnRunner :: "backend \<Rightarrow> string \<Rightarrow> Pool \<Rightarrow> pool_error option \<times> Pool" where
  "ResetMemoryOnRunner be address p = after_wait svc_ResetMemory be address p"

definition GetModelsOnRunner :: "backend \<Rightarrow> string \<Rightarrow> Pool \<Rightarrow> (pool_error + string list) \<times> Pool" where
  "GetModelsOnRunner be address0 p =
     (let address = TrimSpace address0 in
      if address = [] then (Inl EmptyRunnerAddress, p)
      else
        case getClient be address p of
          (Some e, p1) \<Rightarrow> (Inl (ClientError e), p1)
        | (None, p1) \<Rightarrow>
            (case svc_CheckConnection be of
               Inr True \<Rightarrow> (case svc_GetModels be of Inl e \<Rightarrow> (Inl (ClientError e), p1) | Inr ms \<Rightarrow> (Inr ms, p1))
             | _ \<Rightarrow> (Inl RunnerUnavailable, p1)))"

definition WarmModelOnRunner :: "backend \<Rightarrow> string \<Rightarrow> string \<Rightarrow> Pool \<Rightarrow> pool_error option \<times> Pool" where
  "WarmModelOnRunner be address0 model0 p =
     (let address = TrimSpace address0; model = TrimSpace model0 in
      if address = [] then (Some EmptyRunnerAddress, p)
      else if model = [] \<or> model = ''default'' then (None, p)
      else
        case getClient be address p of
          (Some e, p1) \<Rightarrow> (Some (ClientError e), p1)
        | (None, p1) \<Rightarrow>
            (map_option ClientError (svc_LoadModel be \<lparr>sv_Address = address, sv_Model = []\<rparr> model), p1))"

section \<open>Questions to all runners\<close>

fun check_any :: "(string \<Rightarrow> backend) \<Rightarrow> string list \<Rightarrow> Pool \<Rightarrow> bool \<times> Pool" where
  "check_any be [] p = (False, p)"
| "check_any be (addr # addrs) p =
     (case getClient (be addr) addr p of
        (Some e, p1) \<Rightarrow> check_any be addrs p1
      | (None, p1) \<Rightarrow> if svc_CheckConnection (be addr) = Inr True then (True, p1) else check_any be addrs p1)"

definition pool_CheckConnection :: "(string \<Rightarrow> backend) \<Rightarrow> Pool \<Rightarrow> bool \<times> Pool" where
  "pool_CheckConnection be p = check_any be (GetEnabledAddresses (pl_reg p)) p"

definition runner_models :: "(string \<Rightarrow> backend) \<Rightarrow> string \<Rightarrow> Pool \<Rightarrow> string list \<times> Pool" where
  "runner_models be addr p =
     (case getClient (be addr) addr p of
        (Some e, p1) \<Rightarrow> ([], p1)
      | (None, p1) \<Rightarrow>
          (if svc_CheckConnection (be addr) = Inr True then
             (case svc_GetModels (be addr) of Inl e \<Rightarrow> ([], p1) | Inr ms \<Rightarrow> (filter (\<lambda>m. m \<noteq> []) ms, p1))
           else ([], p1)))"

definition pool_GetModels :: "(string \<Rightarrow> backend) \<Rightarrow> (string list \<Rightarrow> string list) \<Rightarrow> Pool \<Rightarrow> (pool_error + string list) \<times> Pool" where
  "pool_GetModels be order p =
     (let addrs = GetEnabledAddresses (pl_reg p) in
      if addrs = [] then (Inl NoEnabledRunners, p)
      else
        let (seen, p1) = fold (\<lambda>addr (seen, p). let (ms, p1) = runner_models be addr p in (seen @ ms, p1)) (order addrs) ([], p);
            out = sort (remdups seen)
        in if out = [] then (Inl NoModels, p1) else (Inr out, p1))"

section \<open>Runs of the pool\<close>

text \<open>The requests still running: the address each was sent to and the counter it holds.\<close>

type_synonym active = "(string \<times> nat) list"

datatype pool_op =
    OpSend pool_env "string \<Rightarrow> client_error option"
  | OpSendOn backend "client_error option" string
  | OpEmbed pool_env
  | OpFinish nat
  | OpClose "string \<Rightarrow> backend"
  | OpCloseAddr string
  | OpProbe backend string
  | OpUnload backend string
  | OpReset backend string
  | OpWarm backend string string
  | OpModelsOn backend string
  | OpCheck "string \<Rightarrow> backend"
  | OpModels "string \<Rightarrow> backend" "string list \<Rightarrow> string list"
  | OpWait string

definition started :: "active \<Rightarrow> (pool_error + string \<times> nat) \<times> Pool \<Rightarrow> Pool \<times> active" where
  "started act r = (case r of (Inl e, p) \<Rightarrow> (p, act) | (Inr x, p) \<Rightarrow> (p, x # act))"

fun pool_exec :: "pool_op \<Rightarrow> Pool \<times> active \<Rightarrow> Pool \<times> active" where
  "pool_exec (OpSend env send) (p, act) = started act (pool_SendMessage env send p)"
| "pool_exec (OpSendOn be send addr) (p, act) = started act (SendMessageOnRunner be send addr p)"
| "pool_exec (OpEmbed env) (p, act) = started act (start_embed env p)"
| "pool_exec (OpFinish k) (p, act) =
     (if k < length act then (finish_request (snd (act ! k)) p, take k act @ drop (Suc k) act) else (p, act))"
| "pool_exec (OpClose be) (p, act) = (snd (pool_Close be p), act)"
| "pool_exec (OpCloseAddr addr) (p, act) = (closeAddr addr p, act)"
| "pool_exec (OpProbe be addr) (p, act) = (snd (ProbeLLMRunner be addr p), act)"
| "pool_exec (OpUnload be addr) (p, act) = (snd (UnloadModelOnRunner be addr p), act)"
| "pool_exec (OpReset be addr) (p, act) = (snd (ResetMemoryOnRunner be addr p), act)"
| "pool_exec (OpWarm be addr m) (p, act) = (snd (WarmModelOnRunner be addr m p), act)"
| "pool_exec (OpModelsOn be addr) (p, act) = (snd (GetModelsOnRunner be addr p), act)"
| "pool_exec (OpCheck be) (p, act) = (snd (pool_CheckConnection be p), act)"
| "pool_exec (OpModels be order) (p, act) = (snd (pool_GetModels be order p), act)"
| "pool_exec (OpWait addr) (p, act) = (snd (WaitRunnerIdle addr [] p), act)"

definition pool_run :: "pool_op list \<Rightarrow> Registry \<Rightarrow> Pool \<times> active" where
  "pool_run ops reg = fold pool_exec ops (NewPool reg, [])"

fun closes :: "pool_op \<Rightarrow> bool" where
  "closes (OpClose _) = True"
| "closes (OpCloseAddr _) = True"
| "closes _ = False"

definition in_flight :: "Pool \<Rightarrow> string \<Rightarrow> int" where
  "in_flight p addr = (case pl_inflight p addr of None \<Rightarrow> 0 | Some i \<Rightarrow> pl_counters p ! i)"

definition running :: "active \<Rightarrow> string \<Rightarrow> int" where
  "running act addr = int (length (filter (\<lambda>(a, i). a = addr) act))"

definition holders :: "active \<Rightarrow> nat \<Rightarrow> int" where
  "holders act i = int (length (filter (\<lambda>(a, j). j = i) act))"

definition pool_inv :: "Pool \<Rightarrow> active \<Rightarrow> bool" where
  "pool_inv p act \<longleftrightarrow>
     (\<forall>a i. pl_inflight p a = Some i \<longrightarrow> i < length (pl_counters p)) \<and>
     (\<forall>a b i. pl_inflight p a = Some i \<longrightarrow> pl_inflight p b = Some i \<longrightarrow> a = b) \<and>
     (\<forall>a i. (a, i) \<in> set act \<longrightarrow> i < length (pl_counters p)) \<and>
     (\<forall>i < length (pl_counters p). pl_counters p ! i = holders act i) \<and>
     (\<forall>a i b. (a, i) \<in> set act \<longrightarrow> pl_inflight p b = Some i \<longrightarrow> b = a)"

text \<open>Every request running at an address holds the counter the map has for it.\<close>

definition all_counted :: "Pool \<Rightarrow> active \<Rightarrow> bool" where
  "all_counted p act \<longleftrightarrow> (\<forall>a i. (a, i) \<in> set act \<longrightarrow> pl_inflight p a = Some i)"

section \<open>Lemmas\<close>

lemma holders_Cons: "holders ((a, i) # act) j = holders act j + (if i = j then 1 else 0)"
  by (simp add: holders_def)

lemma holders_remove:
  assumes "k < length act"
  shows "holders (take k act @ drop (Suc k) act) j = holders act j - (if snd (act ! k) = j then 1 else 0)"
proof -
  have "holders act j = holders (take k act @ act ! k # drop (Suc k) act) j"
    using assms by (simp add: id_take_nth_drop[symmetric])
  then show ?thesis by (cases "act ! k") (simp add: holders_def)
qed

lemma holders_Nil_new:
  "pool_inv p act \<Longrightarrow> holders act (length (pl_counters p)) = 0"
  by (auto simp: pool_inv_def holders_def filter_empty_conv)

lemma getOrCreate_new:
  "getOrCreateInflight addr p = (i, p1) \<Longrightarrow> pl_inflight p addr = None \<Longrightarrow>
     i = length (pl_counters p) \<and>
     p1 = p\<lparr>pl_inflight := (pl_inflight p)(addr \<mapsto> length (pl_counters p)), pl_counters := pl_counters p @ [0]\<rparr>"
  by (auto simp: getOrCreateInflight_def)

lemma getOrCreate_old:
  "getOrCreateInflight addr p = (i, p1) \<Longrightarrow> pl_inflight p addr = Some j \<Longrightarrow> i = j \<and> p1 = p"
  by (auto simp: getOrCreateInflight_def)

lemma getOrCreate_inv [inv_intros]:
  assumes "pool_inv p act" and "getOrCreateInflight addr p = (i, p1)"
  shows "pool_inv p1 act"
proof (cases "pl_inflight p addr")
  case None
  have lt: "pl_inflight p a = Some j \<Longrightarrow> j < length (pl_counters p)"
    and act: "(a, j) \<in> set act \<Longrightarrow> j < length (pl_counters p)" for a j
    using assms(1) by (auto simp: pool_inv_def)
  show ?thesis
    using assms(1) holders_Nil_new[OF assms(1)] getOrCreate_new[OF assms(2) None]
    by (auto simp: pool_inv_def nth_append less_Suc_eq split: if_splits dest!: lt act)
next
  case (Some j)
  then show ?thesis using getOrCreate_old[OF assms(2)] assms(1) by simp
qed

lemma getOrCreate_counter:
  assumes "pool_inv p act" and "getOrCreateInflight addr p = (i, p1)"
  shows "pl_inflight p1 addr = Some i" and "i < length (pl_counters p1)"
  using assms by (auto simp: getOrCreateInflight_def pool_inv_def split: option.splits)

lemma getOrCreate_counted [inv_intros]:
  assumes "all_counted p act" and "getOrCreateInflight addr p = (i, p1)"
  shows "all_counted p1 act"
proof (cases "pl_inflight p addr")
  case None
  then have "(addr, j) \<notin> set act" for j using assms(1) by (auto simp: all_counted_def)
  then show ?thesis using getOrCreate_new[OF assms(2) None] assms(1) by (auto simp: all_counted_def)
next
  case (Some j)
  then show ?thesis using getOrCreate_old[OF assms(2)] assms(1) by simp
qed

lemma pool_inv_other [simp]:
  "pool_inv (p\<lparr>pl_clients := c\<rparr>) act = pool_inv p act"
  "pool_inv (p\<lparr>pl_probeCache := pc\<rparr>) act = pool_inv p act"
  "all_counted (p\<lparr>pl_clients := c\<rparr>) act = all_counted p act"
  "all_counted (p\<lparr>pl_probeCache := pc\<rparr>) act = all_counted p act"
  by (simp_all add: pool_inv_def all_counted_def)

text \<open>What most operations do to the counters: create some. \<open>grows\<close> is closed under sequence.\<close>

definition grows :: "Pool \<Rightarrow> Pool \<Rightarrow> bool" where
  "grows p p' \<longleftrightarrow> pl_reg p' = pl_reg p \<and>
     (\<forall>act. pool_inv p act \<longrightarrow> pool_inv p' act \<and> (all_counted p act \<longrightarrow> all_counted p' act))"

lemma grows_refl [simp]: "grows p p"
  by (simp add: grows_def)

lemma grows_trans: "grows p q \<Longrightarrow> grows q r \<Longrightarrow> grows p r"
  by (simp add: grows_def)

lemma grows_other [simp]:
  "grows p (q\<lparr>pl_clients := c\<rparr>) = grows p q" "grows p (q\<lparr>pl_probeCache := pc\<rparr>) = grows p q"
  by (simp_all add: grows_def)

lemma grows_getOrCreate: "getOrCreateInflight addr p = (i, p1) \<Longrightarrow> grows p p1"
  using getOrCreate_inv[of p _ addr] getOrCreate_counted[of p _ addr]
  by (fastforce simp: grows_def getOrCreateInflight_def split: option.splits)

lemma grows_getClient: "getClient be addr p = (r, p1) \<Longrightarrow> grows p p1"
proof -
  assume g: "getClient be addr p = (r, p1)"
  obtain i p2 where c: "getOrCreateInflight addr (p\<lparr>pl_clients := addr # pl_clients p\<rparr>) = (i, p2)" by fastforce
  have "grows p (p\<lparr>pl_clients := addr # pl_clients p\<rparr>)" by simp
  then have "grows p p2" using grows_getOrCreate[OF c] by (rule grows_trans)
  then show ?thesis using g c by (auto simp: getClient_def split: if_splits sum.splits)
qed

lemma grows_score: "score addr u p = (c, p1) \<Longrightarrow> grows p p1"
  by (auto simp: score_def split: prod.splits intro: grows_getOrCreate)

lemma grows_record: "grows p (recordProbeFailure t a q) = grows p q" "grows p (recordProbeSuccess t a ms u q) = grows p q"
  by (simp_all add: recordProbeFailure_def recordProbeSuccess_def Let_def)

lemma grows_candidate:
  assumes "candidateFromRunnerProbe now addr pr ms p = (c, p1)"
  shows "grows p p1"
proof -
  have "grows (recordProbeSuccess t a m u p) q \<Longrightarrow> grows p q" for t a m u q
    using grows_trans[of p "recordProbeSuccess t a m u p" q] by (simp add: grows_record)
  then show ?thesis
    using assms
    by (auto simp: candidateFromRunnerProbe_def Let_def grows_record
        split: option.splits if_splits prod.splits dest!: grows_score)
qed

lemma grows_probe: "probeRunnerAddress env addr p = (c, p1) \<Longrightarrow> grows p p1"
  by (auto simp: probeRunnerAddress_def Let_def grows_record split: prod.splits option.splits sum.splits
      dest!: grows_getClient grows_candidate intro: grows_trans)

lemma grows_classify: "classify env addr (p, fc, tp) = (p1, fc', tp') \<Longrightarrow> grows p p1"
  by (auto simp: classify_def Let_def split: prod.splits option.splits if_splits
      dest!: grows_getClient grows_score intro: grows_trans)

lemma grows_fallback: "fallback_probe env addr p = (c, p1) \<Longrightarrow> grows p p1"
  by (auto simp: fallback_probe_def Let_def split: prod.splits option.splits sum.splits if_splits
      dest!: grows_getClient grows_score intro: grows_trans)

lemma grows_any: "anyRunnerRespondsWithoutLoadedModel env addrs p = (b, p1) \<Longrightarrow> grows p p1"
proof (induction addrs arbitrary: p)
  case (Cons a addrs)
  obtain e q where g: "getClient (pv_backend env 2 a) a p = (e, q)" by fastforce
  have "q = p1 \<or> anyRunnerRespondsWithoutLoadedModel env addrs q = (b, p1)"
    using Cons.prems g by (auto simp: Let_def split: option.splits sum.splits if_splits)
  then show ?case using Cons.IH[of q] grows_getClient[OF g] by (auto intro: grows_trans)
qed simp

text \<open>A fold all of whose steps grow the pool grows it.\<close>

lemma grows_fold:
  assumes "\<And>x st. grows (fst st) (fst (f x st))"
  shows "grows (fst st) (fst (fold f xs st))"
proof (induction xs arbitrary: st)
  case (Cons x xs)
  show ?case using grows_trans[OF assms[of st x] Cons.IH[of "f x st"]] by simp
qed simp

lemma grows_probe_all: "grows p (fst (probe_all env tp p))"
  unfolding probe_all_def
  using grows_fold[of "\<lambda>addr (p, cs). case probeRunnerAddress env addr p of
         (Some c, p1) \<Rightarrow> (p1, cs @ [c]) | (None, p1) \<Rightarrow> (p1, cs)" "(p, [])" "pv_order env tp"]
  by (fastforce split: prod.splits option.splits dest: grows_probe)

lemma grows_fallback_all: "grows p (fst (fallback_all env tp p))"
  unfolding fallback_all_def
  using grows_fold[of "\<lambda>addr (p, cs). case fallback_probe env addr p of
         (Some c, p1) \<Rightarrow> (p1, cs @ [c]) | (None, p1) \<Rightarrow> (p1, cs)" "(p, [])" "pv_order env tp"]
  by (fastforce split: prod.splits option.splits dest: grows_fallback)

lemma grows_classify_all: "grows p (fst (fold (classify env) addrs (p, fc, tp)))"
  using grows_fold[of "classify env" "(p, fc, tp)" addrs] grows_classify[of env]
  by (metis fst_conv prod.exhaust_sel)

lemma pickRunner_stages:
  assumes "GetEnabledAddresses (pl_reg p) \<noteq> []"
  obtains p1 fc tp p2 pr p3 fd where
    "fold (classify env) (GetEnabledAddresses (pl_reg p)) (p, [], []) = (p1, fc, tp)"
    and "(if tp = [] then (p1, []) else probe_all env tp p1) = (p2, pr)"
    and "(if fc @ pr = [] then fallback_all env (GetEnabledAddresses (pl_reg p)) p2 else (p2, fc @ pr)) = (p3, fd)"
    and "pickRunner env p =
        (if fd = [] then (case anyRunnerRespondsWithoutLoadedModel env (GetEnabledAddresses (pl_reg p)) p3 of
             (True, p4) \<Rightarrow> (Inl ErrRunnerModelNotLoaded, p4) | (False, p4) \<Rightarrow> (Inl NoRunnerAnswers, p4))
         else (Inr (fst (best_candidate fd)), p3))"
proof -
  let ?addrs = "GetEnabledAddresses (pl_reg p)"
  obtain p1 fc tp where c: "fold (classify env) ?addrs (p, [], []) = (p1, fc, tp)" by (metis prod_cases3)
  obtain p2 pr where d: "(if tp = [] then (p1, []) else probe_all env tp p1) = (p2, pr)" by fastforce
  obtain p3 fd where f: "(if fc @ pr = [] then fallback_all env ?addrs p2 else (p2, fc @ pr)) = (p3, fd)" by fastforce
  have "pickRunner env p =
      (if fd = [] then (case anyRunnerRespondsWithoutLoadedModel env ?addrs p3 of
           (True, p4) \<Rightarrow> (Inl ErrRunnerModelNotLoaded, p4) | (False, p4) \<Rightarrow> (Inl NoRunnerAnswers, p4))
       else (Inr (fst (best_candidate fd)), p3))"
    unfolding pickRunner_def Let_def c prod.case d f using assms by (simp only: if_False)
  with c d f show thesis by (rule that)
qed

lemma grows_pick: "pickRunner env p = (r, p1) \<Longrightarrow> grows p p1"
proof -
  assume pick: "pickRunner env p = (r, p1)"
  show ?thesis
  proof (cases "GetEnabledAddresses (pl_reg p) = []")
    case True
    then show ?thesis using pick by (simp add: pickRunner_def Let_def)
  next
    case False
    from pickRunner_stages[OF False, of env] obtain q1 fc tp q2 pr q3 fd where
      c: "fold (classify env) (GetEnabledAddresses (pl_reg p)) (p, [], []) = (q1, fc, tp)"
      and d: "(if tp = [] then (q1, []) else probe_all env tp q1) = (q2, pr)"
      and f: "(if fc @ pr = [] then fallback_all env (GetEnabledAddresses (pl_reg p)) q2 else (q2, fc @ pr)) = (q3, fd)"
      and e: "pickRunner env p =
        (if fd = [] then (case anyRunnerRespondsWithoutLoadedModel env (GetEnabledAddresses (pl_reg p)) q3 of
             (True, p4) \<Rightarrow> (Inl ErrRunnerModelNotLoaded, p4) | (False, p4) \<Rightarrow> (Inl NoRunnerAnswers, p4))
         else (Inr (fst (best_candidate fd)), q3))" .
    have "grows p q1" using grows_classify_all[of p env "GetEnabledAddresses (pl_reg p)" "[]" "[]"] c by simp
    moreover have "grows q1 q2" using d grows_probe_all[of q1 env tp] by (auto split: if_splits)
    moreover have "grows q2 q3" using f grows_fallback_all[of q2 env "GetEnabledAddresses (pl_reg p)"] by (auto split: if_splits)
    ultimately have g: "grows p q3" by (blast intro: grows_trans)
    have "p1 = q3 \<or> (\<exists>b. anyRunnerRespondsWithoutLoadedModel env (GetEnabledAddresses (pl_reg p)) q3 = (b, p1))"
      using pick e by (auto split: prod.splits bool.splits if_splits)
    then show ?thesis using g grows_any by (auto intro: grows_trans)
  qed
qed

lemma grows_require: "RequireChatModelLoaded be addr p = (r, p1) \<Longrightarrow> grows p p1"
  by (auto simp: RequireChatModelLoaded_def Let_def split: prod.splits option.splits sum.splits if_splits
      dest!: grows_getClient)

lemma grows_wait: "WaitRunnerIdle addr obs p = (r, p1) \<Longrightarrow> grows p p1"
  by (auto simp: WaitRunnerIdle_def Let_def split: prod.splits if_splits dest!: grows_getOrCreate)

lemma grows_after_wait: "after_wait call be addr p = (r, p1) \<Longrightarrow> grows p p1"
proof -
  assume a: "after_wait call be addr p = (r, p1)"
  obtain w q where w: "WaitRunnerIdle (TrimSpace addr) [] p = (w, q)" by fastforce
  have "p1 = p \<or> (\<exists>e. getClient be (TrimSpace addr) q = (e, p1))"
    using a w by (auto simp: after_wait_def Let_def split: prod.splits option.splits if_splits)
  then show ?thesis using grows_wait[OF w] grows_getClient by (auto intro: grows_trans)
qed

lemma grows_check_any: "check_any be addrs p = (b, p1) \<Longrightarrow> grows p p1"
proof (induction addrs arbitrary: p)
  case (Cons a addrs)
  obtain e q where g: "getClient (be a) a p = (e, q)" by fastforce
  have "q = p1 \<or> check_any be addrs q = (b, p1)"
    using Cons.prems g by (auto split: option.splits if_splits)
  then show ?case using Cons.IH[of q] grows_getClient[OF g] by (auto intro: grows_trans)
qed simp

lemma grows_runner_models: "runner_models be addr p = (ms, p1) \<Longrightarrow> grows p p1"
  by (auto simp: runner_models_def split: prod.splits option.splits sum.splits if_splits dest!: grows_getClient)

lemma grows_GetModels: "pool_GetModels be order p = (r, p1) \<Longrightarrow> grows p p1"
proof -
  assume r: "pool_GetModels be order p = (r, p1)"
  let ?f = "\<lambda>addr (seen, p). let (ms, p1) = runner_models be addr p in (seen @ ms, p1)"
  have f: "grows (snd st) (snd (fold ?f xs st))" for xs st
  proof (induction xs arbitrary: st)
    case (Cons x xs)
    have "grows (snd st) (snd (?f x st))"
      by (auto simp: Let_def split: prod.splits dest: grows_runner_models)
    then show ?case using Cons.IH[of "?f x st"] by (auto intro: grows_trans)
  qed simp
  have "p1 = p \<or> p1 = snd (fold ?f (order (GetEnabledAddresses (pl_reg p))) ([], p))"
    using r by (auto simp: pool_GetModels_def Let_def split: prod.splits if_splits)
  then show ?thesis using f[of "([], p)"] by auto
qed

section \<open>The counters count the requests\<close>

lemma counter_Add_back: "counter_Add i (- 1) (counter_Add i 1 p) = p"
  by (cases "i < length (pl_counters p)") (simp_all add: counter_Add_def list_update_beyond)

lemma counter_taken:
  assumes "pool_inv p act" and "getOrCreateInflight addr p = (i, p1)"
  shows "pool_inv (counter_Add i 1 p1) ((addr, i) # act)"
    and "all_counted p act \<Longrightarrow> all_counted (counter_Add i 1 p1) ((addr, i) # act)"
proof -
  have inv: "pool_inv p1 act" and i: "pl_inflight p1 addr = Some i" "i < length (pl_counters p1)"
    using assms getOrCreate_inv getOrCreate_counter by blast+
  show "pool_inv (counter_Add i 1 p1) ((addr, i) # act)"
    using inv i unfolding pool_inv_def counter_Add_def
    by (auto simp: holders_Cons nth_list_update)
  show "all_counted (counter_Add i 1 p1) ((addr, i) # act)" if "all_counted p act"
    using getOrCreate_counted[OF that assms(2)] i(1) by (auto simp: all_counted_def counter_Add_def)
qed

text \<open>A request that starts: the pool with it, or after an error the pool without it.\<close>

definition starts :: "Pool \<Rightarrow> (pool_error + string \<times> nat) \<times> Pool \<Rightarrow> bool" where
  "starts p r \<longleftrightarrow> (case r of
       (Inl e, p1) \<Rightarrow> grows p p1
     | (Inr (addr, i), p1) \<Rightarrow> \<exists>q q1. grows p q \<and> getOrCreateInflight addr q = (i, q1) \<and> p1 = counter_Add i 1 q1)"

lemma starts_after: "grows p q \<Longrightarrow> starts q r \<Longrightarrow> starts p r"
  by (auto simp: starts_def split: prod.splits sum.splits intro: grows_trans) (blast intro: grows_trans)

lemma starts_request:
  assumes "start_request sent addr p = (r, p1)"
  shows "starts p (case r of Inl e \<Rightarrow> Inl e | Inr i \<Rightarrow> Inr (addr, i), p1)"
proof -
  obtain i q where g: "getOrCreateInflight addr p = (i, q)" by fastforce
  show ?thesis
  proof (cases sent)
    case None
    then have "r = Inr i" and "p1 = counter_Add i 1 q"
      using assms g by (auto simp: start_request_def Let_def)
    then show ?thesis using g by (simp add: starts_def) (blast intro: grows_refl)
  next
    case (Some e)
    then show ?thesis
      using assms g grows_getOrCreate[OF g] by (auto simp: start_request_def starts_def Let_def counter_Add_back)
  qed
qed

lemma starts_SendMessage: "starts p (pool_SendMessage env send p)"
proof -
  obtain r q where pick: "pickRunner env p = (r, q)" by fastforce
  show ?thesis
  proof (cases r)
    case (Inl e)
    then show ?thesis using pick grows_pick[OF pick] by (simp add: pool_SendMessage_def starts_def)
  next
    case (Inr addr)
    obtain t p1 where st: "start_request (send addr) addr q = (t, p1)" by fastforce
    have "pool_SendMessage env send p = (case t of Inl e \<Rightarrow> Inl e | Inr i \<Rightarrow> Inr (addr, i), p1)"
      using pick Inr st by (simp add: pool_SendMessage_def split: sum.split)
    then show ?thesis using starts_after[OF grows_pick[OF pick] starts_request[OF st]] by simp
  qed
qed

lemma starts_SendMessageOnRunner: "starts p (SendMessageOnRunner be send addr p)"
proof (cases "TrimSpace addr = []")
  case True
  then show ?thesis by (simp add: SendMessageOnRunner_def starts_def)
next
  case False
  obtain e q where req: "RequireChatModelLoaded be (TrimSpace addr) p = (e, q)" by fastforce
  obtain e' q' where cl: "getClient be (TrimSpace addr) q = (e', q')" by fastforce
  obtain t p1 where st: "start_request send (TrimSpace addr) q' = (t, p1)" by fastforce
  note g = grows_require[OF req]
  note g' = grows_trans[OF g grows_getClient[OF cl]]
  have "starts p (case t of Inl e \<Rightarrow> Inl e | Inr i \<Rightarrow> Inr (TrimSpace addr, i), p1)"
    by (rule starts_after[OF g' starts_request[OF st]])
  moreover have "starts p (Inl x, q)" "starts p (Inl x, q')" for x
    using g g' by (simp_all add: starts_def)
  ultimately show ?thesis
    using False req cl st by (cases e; cases e'; cases t) (simp_all add: SendMessageOnRunner_def Let_def)
qed

lemma starts_embed: "starts p (start_embed env p)"
proof -
  obtain r q where pick: "pickRunner env p = (r, q)" by fastforce
  show ?thesis
  proof (cases r)
    case (Inl e)
    then show ?thesis using pick grows_pick[OF pick] by (simp add: start_embed_def starts_def)
  next
    case (Inr addr)
    obtain e q' where req: "RequireChatModelLoaded (pv_backend env 3 addr) addr q = (e, q')" by fastforce
    obtain i q'' where g: "getOrCreateInflight addr q' = (i, q'')" by fastforce
    have "grows p q'" using grows_trans[OF grows_pick[OF pick] grows_require[OF req]] .
    then show ?thesis
      using pick Inr req g by (cases e) (auto simp: start_embed_def starts_def)
  qed
qed

lemma started_inv:
  assumes "starts p r" and "pool_inv p act"
  shows "pool_inv (fst (started act r)) (snd (started act r))"
    and "all_counted p act \<Longrightarrow> all_counted (fst (started act r)) (snd (started act r))"
proof -
  obtain t p1 where r: "r = (t, p1)" by fastforce
  have both: "pool_inv (fst (started act r)) (snd (started act r)) \<and>
      (all_counted p act \<longrightarrow> all_counted (fst (started act r)) (snd (started act r)))"
  proof (cases t)
    case (Inl e)
    then show ?thesis using assms r by (simp add: started_def starts_def grows_def)
  next
    case (Inr x)
    obtain addr i where x: "x = (addr, i)" by fastforce
    obtain q q1 where g: "grows p q" and c: "getOrCreateInflight addr q = (i, q1)" and p1: "p1 = counter_Add i 1 q1"
      using assms(1) r Inr x by (auto simp: starts_def)
    have "pool_inv q act" and "all_counted p act \<longrightarrow> all_counted q act"
      using g assms(2) by (auto simp: grows_def)
    then show ?thesis using counter_taken[OF _ c] r Inr x p1 by (simp add: started_def)
  qed
  then show "pool_inv (fst (started act r)) (snd (started act r))"
    and "all_counted p act \<Longrightarrow> all_counted (fst (started act r)) (snd (started act r))" by simp_all
qed

lemma finished_inv:
  assumes "k < length act" and "pool_inv p act"
  shows "pool_inv (finish_request (snd (act ! k)) p) (take k act @ drop (Suc k) act)"
    and "all_counted p act \<Longrightarrow> all_counted (finish_request (snd (act ! k)) p) (take k act @ drop (Suc k) act)"
proof -
  have sub: "x \<in> set (take k act @ drop (Suc k) act) \<Longrightarrow> x \<in> set act" for x
    by (auto dest: in_set_takeD in_set_dropD)
  show "pool_inv (finish_request (snd (act ! k)) p) (take k act @ drop (Suc k) act)"
    using assms(2) unfolding pool_inv_def finish_request_def counter_Add_def
    by (simp add: holders_remove[OF assms(1)] nth_list_update del: set_append) (blast dest: sub)
  show "all_counted p act \<Longrightarrow> all_counted (finish_request (snd (act ! k)) p) (take k act @ drop (Suc k) act)"
    unfolding all_counted_def finish_request_def counter_Add_def
    by (simp del: set_append) (blast dest: sub)
qed

lemma closed_inv:
  assumes "pool_inv p act" and "\<And>a i. m a = Some i \<Longrightarrow> pl_inflight p a = Some i"
  shows "pool_inv (p\<lparr>pl_inflight := m\<rparr>) act"
proof -
  have "m a = Some i \<Longrightarrow> i < length (pl_counters p)"
    and "m a = Some i \<Longrightarrow> m b = Some i \<Longrightarrow> a = b"
    and "(a, i) \<in> set act \<Longrightarrow> m b = Some i \<Longrightarrow> b = a" for a b i
    using assms(1) assms(2)[of a i] assms(2)[of b i] unfolding pool_inv_def by blast+
  then show ?thesis using assms(1) by (simp add: pool_inv_def)
qed

text \<open>One operation of the pool keeps the invariant, and keeps every request counted if it closes nothing.\<close>

lemma grows_inv:
  "grows p p1 \<Longrightarrow> pool_inv p act \<Longrightarrow> pool_inv p1 act"
  "grows p p1 \<Longrightarrow> pool_inv p act \<Longrightarrow> all_counted p act \<Longrightarrow> all_counted p1 act"
  by (simp_all add: grows_def)

lemma ProbeLLMRunner_grows: "grows p (snd (ProbeLLMRunner be addr p))"
  by (auto simp: ProbeLLMRunner_def split: prod.splits option.splits sum.splits dest!: grows_getClient)

lemma WarmModelOnRunner_grows: "grows p (snd (WarmModelOnRunner be addr m p))"
  by (auto simp: WarmModelOnRunner_def Let_def split: prod.splits option.splits dest!: grows_getClient)

lemma GetModelsOnRunner_grows: "grows p (snd (GetModelsOnRunner be addr p))"
  by (auto simp: GetModelsOnRunner_def Let_def split: prod.splits option.splits sum.splits bool.splits
      dest!: grows_getClient)

lemma quiet_grows:
  "grows p (snd (after_wait call be addr p))" "grows p (snd (pool_CheckConnection bes p))"
  "grows p (snd (pool_GetModels bes order p))" "grows p (snd (WaitRunnerIdle addr obs p))"
  by (metis prod.collapse grows_after_wait)
    (metis prod.collapse grows_check_any pool_CheckConnection_def,
      metis prod.collapse grows_GetModels, metis prod.collapse grows_wait)

lemma closeAddr_inv: "pool_inv p act \<Longrightarrow> pool_inv (closeAddr addr p) act"
  unfolding closeAddr_def by (auto intro!: closed_inv split: if_splits)

lemma pool_Close_inv: "pool_inv p act \<Longrightarrow> pool_inv (snd (pool_Close be p)) act"
  unfolding pool_Close_def by (auto intro!: closed_inv split: if_splits)

lemma pool_exec_inv [inv_intros]:
  assumes "pool_inv p act"
  shows "pool_inv (fst (pool_exec opn (p, act))) (snd (pool_exec opn (p, act)))"
    and "\<not> closes opn \<Longrightarrow> all_counted p act \<Longrightarrow>
      all_counted (fst (pool_exec opn (p, act))) (snd (pool_exec opn (p, act)))"
proof -
  have quiet: "pool_inv q act" "all_counted p act \<Longrightarrow> all_counted q act" if "grows p q" for q
    using grows_inv[OF that assms] by blast+
  note quiets = quiet_grows ProbeLLMRunner_grows WarmModelOnRunner_grows GetModelsOnRunner_grows
  note startss = starts_SendMessage starts_SendMessageOnRunner starts_embed
  show "pool_inv (fst (pool_exec opn (p, act))) (snd (pool_exec opn (p, act)))"
    by (cases opn) (simp_all add: assms quiets[THEN quiet(1)] startss[THEN started_inv(1)[OF _ assms]] finished_inv(1)
        UnloadModelOnRunner_def ResetMemoryOnRunner_def closeAddr_inv pool_Close_inv)
  show "all_counted (fst (pool_exec opn (p, act))) (snd (pool_exec opn (p, act)))"
    if "\<not> closes opn" "all_counted p act"
    using that by (cases opn) (simp_all add: assms quiets[THEN quiet(2)] startss[THEN started_inv(2)[OF _ assms]] finished_inv(2)
        UnloadModelOnRunner_def ResetMemoryOnRunner_def)
qed

lemma pool_run_inv:
  "pool_inv (fst (pool_run ops reg)) (snd (pool_run ops reg)) \<and>
   ((\<forall>opn\<in>set ops. \<not> closes opn) \<longrightarrow> all_counted (fst (pool_run ops reg)) (snd (pool_run ops reg)))"
proof -
  have "pool_inv p act \<Longrightarrow> pool_inv (fst (fold pool_exec os (p, act))) (snd (fold pool_exec os (p, act))) \<and>
      ((\<forall>opn\<in>set os. \<not> closes opn) \<longrightarrow> all_counted p act \<longrightarrow>
        all_counted (fst (fold pool_exec os (p, act))) (snd (fold pool_exec os (p, act))))" for os p act
  proof (induction os arbitrary: p act)
    case (Cons opn os)
    obtain p1 act1 where e: "pool_exec opn (p, act) = (p1, act1)" by fastforce
    show ?case
      using Cons.IH[of p1 act1] pool_exec_inv[OF Cons.prems, of opn] e by auto
  qed simp
  from this[of "NewPool reg" "[]" ops] show ?thesis
    by (simp add: pool_run_def NewPool_def pool_inv_def all_counted_def)
qed

lemma in_flight_le_running:
  assumes "pool_inv p act"
  shows "0 \<le> in_flight p addr" and "in_flight p addr \<le> running act addr"
    and "all_counted p act \<Longrightarrow> in_flight p addr = running act addr"
proof -
  show "0 \<le> in_flight p addr"
    using assms by (auto simp: in_flight_def pool_inv_def holders_def split: option.split)
  show "in_flight p addr \<le> running act addr"
  proof (cases "pl_inflight p addr")
    case (Some i)
    then have "in_flight p addr = holders act i" and only: "(a, i) \<in> set act \<Longrightarrow> addr = a" for a
      using assms by (auto simp: in_flight_def pool_inv_def)
    moreover have "holders act i \<le> running act addr"
      unfolding holders_def running_def of_nat_le_iff by (rule filter_length_mono) (auto dest: only)
    ultimately show ?thesis by simp
  qed (simp add: in_flight_def running_def)
  show "in_flight p addr = running act addr" if all: "all_counted p act"
  proof (cases "pl_inflight p addr")
    case None
    then have "filter (\<lambda>(a, i). a = addr) act = []" using all by (auto simp: all_counted_def filter_empty_conv)
    then show ?thesis using None by (simp add: in_flight_def running_def)
  next
    case (Some i)
    then have "filter (\<lambda>(a, i). a = addr) act = filter (\<lambda>(a, j). j = i) act"
      using all assms by (intro filter_cong) (auto simp: all_counted_def pool_inv_def)
    then show ?thesis using Some assms by (simp add: in_flight_def running_def pool_inv_def holders_def)
  qed
qed

text \<open>
  C30: the load the pool sees at an address is a count of its requests. Over every sequence of
  operations, the counter of an address is never negative and never above the number of requests
  that run there, and it is exactly that number as long as no client is closed; a closed client
  loses its counter, and the requests still running there are no longer seen. The error paths of
  \<open>SendMessage\<close> give the counter back.
\<close>

theorem pool_counts_requests:
  "case pool_run ops reg of (p, act) \<Rightarrow>
     0 \<le> in_flight p addr \<and>
     (if list_ex closes ops then in_flight p addr \<le> running act addr else in_flight p addr = running act addr)"
proof -
  obtain p act where r: "pool_run ops reg = (p, act)" by fastforce
  then have "pool_inv p act" and "\<not> list_ex closes ops \<Longrightarrow> all_counted p act"
    using pool_run_inv[of ops reg] by (auto simp: list_ex_iff)
  then show ?thesis using in_flight_le_running[of p act addr] r by simp
qed

section \<open>Forwarded streams\<close>

lemma forwardStream_conserves:
  "forwardStream reads ch buf = (d, rest, ended) \<Longrightarrow> length buf \<le> 100 \<Longrightarrow>
     (ended \<longleftrightarrow> length buf + length ch \<le> 100 + reads) \<and> length rest \<le> 100 \<and>
     (\<exists>left. d @ rest @ left = buf @ ch \<and> (ended \<longleftrightarrow> left = []))"
proof (induction reads ch buf arbitrary: d rest ended rule: forwardStream.induct)
  case (2 reads c ch buf)
  show ?case
  proof (cases "length buf < 100")
    case True
    then show ?thesis using 2 by auto
  next
    case False
    then have len: "length buf = 100" using 2(4) by simp
    then obtain b bs where buf: "buf = b # bs" by (cases buf) auto
    show ?thesis
    proof (cases reads)
      case 0
      then show ?thesis using 2(3) len by (auto simp del: forwardStream.simps(1) intro: exI[of _ "c # ch"])
    next
      case (Suc r)
      then show ?thesis using 2 len buf by (auto split: prod.splits)
    qed
  qed
qed auto

text \<open>
  the goroutine that forwards a stream ends, and gives its counter back, exactly when all but at
  most 100 chunks are read by the consumer. What was read and what waits in the channel is the
  stream, in order, up to a remainder that is empty iff the goroutine ended. So a consumer that
  leaves a longer stream keeps its runner counted as busy.
\<close>

theorem forwardStream_ends:
  "case forwardStream reads ch [] of (d, rest, ended) \<Rightarrow>
     (ended \<longleftrightarrow> length ch \<le> 100 + reads) \<and> length rest \<le> 100 \<and>
     (\<exists>left. d @ rest @ left = ch \<and> (ended \<longleftrightarrow> left = []))"
  using forwardStream_conserves[of reads ch "[]"] by (auto split: prod.splits)

section \<open>Probes that fail\<close>

lemma probe_backoff_mono: "m \<le> n \<Longrightarrow> probe_backoff m \<le> probe_backoff n"
  unfolding probe_backoff_def runnerProbeBackoffBase_def
  by (intro min.mono order_refl mult_left_mono power_increasing nat_mono) auto

lemma probe_backoff_bounds: "go_second \<le> probe_backoff n \<and> probe_backoff n \<le> 30 * go_second"
  by (simp add: probe_backoff_def runnerProbeBackoffBase_def runnerProbeBackoffMax_def)

lemma failures_count:
  "ts \<noteq> [] \<Longrightarrow> pl_probeCache (fold (\<lambda>t. recordProbeFailure t addr) ts p) addr =
     Some \<lparr>pe_ok = False, pe_models = [], pe_maxGpuU = 0, pe_probedAt = last ts,
       pe_backoffUntil = last ts + probe_backoff (pe_failCount (probe_lookup p addr) + int (length ts)),
       pe_failCount = pe_failCount (probe_lookup p addr) + int (length ts)\<rparr>"
proof (induction ts rule: rev_induct)
  case (snoc t ts)
  then show ?case
    by (cases "ts = []") (simp_all add: recordProbeFailure_def probe_lookup_def Let_def algebra_simps)
qed simp

text \<open>
  a runner that keeps failing is asked less and less often, but at least every 30 seconds. After
  \<open>n\<close> failures in a row, the first after a success or with no entry, the next probe waits for
  \<open>min (2 ^ (n - 1)) 30\<close> seconds, with the exponent capped at 5 so that the shift cannot overflow;
  until then the classification leaves the runner alone, whatever its backend would answer, and from
  then on it is to be probed.
\<close>

theorem probe_failures_backoff:
  assumes "ts \<noteq> []" and "pe_failCount (probe_lookup p addr) = 0"
  defines "q \<equiv> fold (\<lambda>t. recordProbeFailure t addr) ts p"
  defines "until \<equiv> last ts + (if length ts \<le> 5 then 2 ^ (length ts - 1) else 30) * go_second"
  shows "classify env addr (q, fc, tp) =
      (if pv_now env < until then (q, fc, tp) else (q, fc, tp @ [addr]))"
proof -
  have "probe_backoff (int (length ts)) = (if length ts \<le> 5 then 2 ^ (length ts - 1) else 30) * go_second"
  proof (cases "length ts \<le> 5")
    case True
    moreover from assms(1) have "1 \<le> length ts" by (cases ts) auto
    ultimately have "length ts = 1 \<or> length ts = 2 \<or> length ts = 3 \<or> length ts = 4 \<or> length ts = 5"
      by presburger
    then show ?thesis
      by (auto simp: probe_backoff_def runnerProbeBackoffBase_def runnerProbeBackoffMax_def runnerProbeBackoffShift_def)
  next
    case False
    then have "nat (min (max (int (length ts) - 1) 0) runnerProbeBackoffShift) = 5"
      by (simp add: runnerProbeBackoffShift_def)
    then show ?thesis
      using False by (simp add: probe_backoff_def runnerProbeBackoffBase_def runnerProbeBackoffMax_def)
  qed
  then show ?thesis
    using failures_count[OF assms(1), of addr p] assms(2)
    by (simp add: classify_def Let_def probe_lookup_def q_def until_def)
qed

text \<open>A runner for the examples: it answers, has a model loaded or not, and a load of its GPU.\<close>

definition sample_backend :: "bool \<Rightarrow> int \<Rightarrow> backend" where
  "sample_backend loaded u =
     \<lparr>be_Dial = None, be_Close = None,
      be_RunnerProbe = Inr (Some \<lparr>pr_BackendConnected = True,
        pr_Gpus = [Some \<lparr>pg_Name = [], pg_TemperatureC = 0, pg_MemoryTotalMb = 0, pg_MemoryUsedMb = 0, pg_UtilizationPercent = u\<rparr>],
        pr_Server = None, pr_LoadedModel = Some \<lparr>lm_Loaded = loaded, lm_DisplayName = [], lm_GgufBasename = []\<rparr>\<rparr>),
      be_GetModels = Inr (Some [''m'']), be_GetGpuInfo = Inr None, be_GetServerInfo = Inr None,
      be_GetLoadedModel = Inr (Some \<lparr>lm_Loaded = loaded, lm_DisplayName = [], lm_GgufBasename = []\<rparr>),
      be_LoadModel = (\<lambda>_. None), be_UnloadModel = None, be_ResetMemory = None, be_Embed = (\<lambda>_. Inr None),
      be_EmbedBatch = (\<lambda>_. Inr None), be_SendMessage = (\<lambda>_. Inr [])\<rparr>"

definition sample_env :: "bool \<Rightarrow> time \<Rightarrow> pool_env" where
  "sample_env loaded t =
     \<lparr>pv_backend = (\<lambda>_ a. sample_backend loaded (if a = ''a:1'' then 70 else 20)), pv_now = t, pv_clock = (\<lambda>_. t), pv_order = rev\<rparr>"

definition sample_pool :: Pool where
  "sample_pool = NewPool [(''a:1'', sample_runner 1 ''a:1'' True None), (''b:1'', sample_runner 2 ''b:1'' True None)]"

theorem probe_failures_backoff_witness:
  "classify (sample_env True (3 * go_second)) ''a:1''
       (fold (\<lambda>t. recordProbeFailure t ''a:1'') [0, go_second] sample_pool, [], []) =
     (fold (\<lambda>t. recordProbeFailure t ''a:1'') [0, go_second] sample_pool, [], [''a:1''])"
  using probe_failures_backoff[of "[0, go_second]" sample_pool "''a:1''" "sample_env True (3 * go_second)" "[]" "[]"]
  by (simp add: sample_pool_def NewPool_def probe_lookup_def no_entry_def sample_env_def del: fold_simps)

section \<open>The choice of a runner\<close>

definition probed_ok :: "pool_env \<Rightarrow> Pool \<Rightarrow> string \<Rightarrow> bool" where
  "probed_ok env p addr \<longleftrightarrow>
     pe_ok (probe_lookup p addr) \<and> pv_now env - pe_probedAt (probe_lookup p addr) < runnerProbeTTL"

definition answers_loaded :: "backend \<Rightarrow> bool" where
  "answers_loaded be \<longleftrightarrow>
     (case svc_RunnerProbe be of Inr (Some r) \<Rightarrow> pr_BackendConnected r \<and> is_loaded (pr_LoadedModel r) | _ \<Rightarrow> False)"

lemma getOrCreate_cache: "getOrCreateInflight addr p = (i, q) \<Longrightarrow> pl_probeCache q = pl_probeCache p"
  by (auto simp: getOrCreateInflight_def split: option.splits)

lemma getClient_cache: "getClient be addr p = (e, q) \<Longrightarrow> pl_probeCache q = pl_probeCache p"
  by (auto simp: getClient_def getOrCreateInflight_def split: if_splits sum.splits option.splits)

lemma score_fst: "score addr u p = (c, q) \<Longrightarrow> fst c = addr \<and> pl_probeCache q = pl_probeCache p"
  by (auto simp: score_def split: prod.splits dest: getOrCreate_cache)

lemma classify_sound:
  assumes "classify env addr (p, fc, tp) = (q, fc', tp')"
  shows "pl_probeCache q = pl_probeCache p" and "set tp' \<subseteq> insert addr (set tp)"
    and "c \<in> set fc' \<Longrightarrow> c \<in> set fc \<or> fst c = addr \<and> probed_ok env p addr"
  using assms
  by (auto simp: classify_def Let_def probed_ok_def split: if_splits option.splits prod.splits
      dest!: getClient_cache score_fst)

lemma classify_all_sound:
  assumes "fold (classify env) addrs (p, [], []) = (q, fc, tp)"
  shows "(\<forall>c\<in>set fc. fst c \<in> set addrs \<and> probed_ok env p (fst c)) \<and> set tp \<subseteq> set addrs"
proof -
  define P where "P st \<longleftrightarrow> (case st of (q, fc, tp) \<Rightarrow> pl_probeCache q = pl_probeCache p \<and>
      (\<forall>c\<in>set fc. fst c \<in> set addrs \<and> probed_ok env p (fst c)) \<and> set tp \<subseteq> set addrs)" for st :: "Pool \<times> candidate list \<times> string list"
  have "P (fold (classify env) addrs (p, [], []))"
  proof (rule fold_invariant)
    fix x st assume x: "x \<in> set addrs" and st: "P st"
    obtain p0 fc0 tp0 where s0: "st = (p0, fc0, tp0)" by (metis prod_cases3)
    obtain p1 fc1 tp1 where s1: "classify env x st = (p1, fc1, tp1)" by (metis prod_cases3)
    have "probed_ok env p0 = probed_ok env p"
      using st s0 by (simp add: P_def probed_ok_def probe_lookup_def fun_eq_iff)
    then show "P (classify env x st)"
      using st x classify_sound[OF s1[unfolded s0]] unfolding s0 s1[unfolded s0] P_def by fastforce
  qed (simp add: P_def)
  then show ?thesis using assms by (simp add: P_def)
qed

lemma probe_sound:
  "probeRunnerAddress env addr p = (Some c, q) \<Longrightarrow> fst c = addr \<and> answers_loaded (pv_backend env 0 addr)"
  by (auto simp: probeRunnerAddress_def candidateFromRunnerProbe_def runnerProbeModelLoaded_def answers_loaded_def Let_def
      split: prod.splits option.splits sum.splits if_splits dest!: score_fst)

lemma fallback_sound:
  "fallback_probe env addr p = (Some c, q) \<Longrightarrow> fst c = addr \<and> answers_loaded (pv_backend env 1 addr)"
  by (auto simp: fallback_probe_def runnerProbeModelLoaded_def answers_loaded_def Let_def
      split: prod.splits option.splits sum.splits if_splits dest!: score_fst)

lemma collected_sound:
  assumes "\<And>addr p c q. f addr p = (Some c, q) \<Longrightarrow> fst c = addr \<and> Q addr"
    and "c \<in> set (snd (fold (\<lambda>addr (p, cs). case f addr p of (Some c, p1) \<Rightarrow> (p1, cs @ [c]) | (None, p1) \<Rightarrow> (p1, cs)) xs (p, [])))"
  shows "fst c \<in> set xs \<and> Q (fst c)"
proof -
  have "\<forall>c\<in>set (snd (fold (\<lambda>addr (p, cs). case f addr p of (Some c, p1) \<Rightarrow> (p1, cs @ [c]) | (None, p1) \<Rightarrow> (p1, cs)) xs (p, []))).
      fst c \<in> set xs \<and> Q (fst c)"
    by (rule fold_invariant) (auto split: prod.splits option.splits dest!: assms(1))
  then show ?thesis using assms(2) by blast
qed

lemma probe_all_sound:
  assumes "c \<in> set (snd (probe_all env tp p))"
  shows "fst c \<in> set (pv_order env tp) \<and> answers_loaded (pv_backend env 0 (fst c))"
  using assms unfolding probe_all_def
  by (rule collected_sound[where f="probeRunnerAddress env" and Q="\<lambda>a. answers_loaded (pv_backend env 0 a)", rotated])
    (rule probe_sound)

lemma fallback_all_sound:
  assumes "c \<in> set (snd (fallback_all env tp p))"
  shows "fst c \<in> set (pv_order env tp) \<and> answers_loaded (pv_backend env 1 (fst c))"
  using assms unfolding fallback_all_def
  by (rule collected_sound[where f="fallback_probe env" and Q="\<lambda>a. answers_loaded (pv_backend env 1 a)", rotated])
    (rule fallback_sound)

lemma best_fold:
  fixes b :: candidate
  defines "f \<equiv> (\<lambda>(c :: candidate) best. if snd c < snd best then c else best)"
  shows "fold f xs b \<in> insert b (set xs) \<and> (\<forall>c\<in>insert b (set xs). snd (fold f xs b) \<le> snd c)"
proof (induction xs arbitrary: b)
  case (Cons x xs)
  define b' where "b' = f x b"
  have "b' \<in> {b, x}" "snd b' \<le> snd b" "snd b' \<le> snd x" by (auto simp: b'_def f_def)
  moreover have "snd (fold f xs b') \<le> snd b'" "fold f xs b' \<in> insert b' (set xs)"
    "\<forall>c\<in>set xs. snd (fold f xs b') \<le> snd c" using Cons.IH[of b'] by simp_all
  ultimately have "fold f xs b' \<in> insert b (set (x # xs))"
    "\<forall>c\<in>insert b (set (x # xs)). snd (fold f xs b') \<le> snd c" by auto
  then show ?case by (simp add: b'_def)
qed simp

lemma best_candidate_min:
  assumes "cs \<noteq> []"
  shows "best_candidate cs \<in> set cs" and "c \<in> set cs \<Longrightarrow> snd (best_candidate cs) \<le> snd c"
  using best_fold[of "tl cs" "hd cs"] assms
  by (cases cs; simp only: best_candidate_def list.sel list.set; blast)+

text \<open>
  the pool sends a request only to an enabled runner of the registry, and only to one it has
  reason to believe in: its last probe was good and is younger than five seconds, or it answered in
  this call, to the probe or to the one of the fallback, that its backend is connected and has a
  model loaded. The order in which the probes finish does not matter.
\<close>

theorem pickRunner_sound:
  assumes "pickRunner env p = (Inr addr, q)" and "\<And>xs. set (pv_order env xs) = set xs"
  shows "addr \<in> set (GetEnabledAddresses (pl_reg p)) \<and>
    (probed_ok env p addr \<or> answers_loaded (pv_backend env 0 addr) \<or> answers_loaded (pv_backend env 1 addr))"
proof -
  let ?addrs = "GetEnabledAddresses (pl_reg p)"
  have ne: "?addrs \<noteq> []" using assms(1) by (auto simp: pickRunner_def)
  from pickRunner_stages[OF ne, of env] obtain p1 fc tp p2 pr p3 fd where
    c: "fold (classify env) ?addrs (p, [], []) = (p1, fc, tp)"
    and d: "(if tp = [] then (p1, []) else probe_all env tp p1) = (p2, pr)"
    and f: "(if fc @ pr = [] then fallback_all env ?addrs p2 else (p2, fc @ pr)) = (p3, fd)"
    and e: "pickRunner env p =
      (if fd = [] then (case anyRunnerRespondsWithoutLoadedModel env ?addrs p3 of
           (True, p4) \<Rightarrow> (Inl ErrRunnerModelNotLoaded, p4) | (False, p4) \<Rightarrow> (Inl NoRunnerAnswers, p4))
       else (Inr (fst (best_candidate fd)), p3))" .
  have "fd \<noteq> [] \<and> addr = fst (best_candidate fd)"
    using assms(1) e by (auto split: if_splits prod.splits bool.splits)
  then have best: "\<exists>c\<in>set fd. addr = fst c" using best_candidate_min(1) by blast
  have pr: "fst c \<in> set tp \<and> answers_loaded (pv_backend env 0 (fst c))" if "c \<in> set pr" for c
    using probe_all_sound[of c env tp p1] d that assms(2) by (auto split: if_splits)
  have fb: "fst c \<in> set ?addrs \<and> answers_loaded (pv_backend env 1 (fst c))"
    if "c \<in> set (snd (fallback_all env ?addrs p2))" for c
    using fallback_all_sound[OF that] assms(2) by simp
  have "\<forall>c\<in>set fd. fst c \<in> set ?addrs \<and>
      (probed_ok env p (fst c) \<or> answers_loaded (pv_backend env 0 (fst c)) \<or> answers_loaded (pv_backend env 1 (fst c)))"
  proof
    fix x assume "x \<in> set fd"
    then consider "x \<in> set fc" | "x \<in> set pr" | "x \<in> set (snd (fallback_all env ?addrs p2))"
      using f by (auto split: if_splits)
    then show "fst x \<in> set ?addrs \<and> (probed_ok env p (fst x) \<or>
        answers_loaded (pv_backend env 0 (fst x)) \<or> answers_loaded (pv_backend env 1 (fst x)))"
      using pr[of x] fb[of x] classify_all_sound[OF c] by cases (fast, fast, simp)
  qed
  then show ?thesis using best by auto
qed

lemma sample_pool_fields:
  "GetEnabledAddresses (pl_reg sample_pool) = [''a:1'', ''b:1'']"
  "pl_clients sample_pool = []" "pl_inflight sample_pool = Map.empty" "pl_counters sample_pool = []"
  "pl_probeCache sample_pool = Map.empty"
  by (simp_all add: sample_pool_def NewPool_def GetEnabledAddresses_def sample_runner_def)

definition sample_entry :: "int \<Rightarrow> probe_entry" where
  "sample_entry u = \<lparr>pe_ok = True, pe_models = [''m''], pe_maxGpuU = u, pe_probedAt = 10, pe_backoffUntil = 0, pe_failCount = 0\<rparr>"

lemma sample_pick:
  "pickRunner (sample_env True 10) sample_pool = (Inr ''b:1'',
     sample_pool\<lparr>pl_clients := [''a:1'', ''b:1''], pl_inflight := [''b:1'' \<mapsto> 0, ''a:1'' \<mapsto> 1], pl_counters := [0, 0],
       pl_probeCache := [''b:1'' \<mapsto> sample_entry 20, ''a:1'' \<mapsto> sample_entry 70]\<rparr>)"
  by (simp add: pickRunner_def sample_pool_fields classify_def probe_lookup_def no_entry_def probe_all_def
     sample_env_def probeRunnerAddress_def sample_backend_def svc_RunnerProbe_def svc_GetModels_def rpc_def getClient_def
     NewLLMRunnerService_def getOrCreateInflight_def candidateFromRunnerProbe_def maxGPUUtil_def runnerProbeModelLoaded_def
     is_loaded_def recordProbeSuccess_def score_def best_candidate_def sample_entry_def)

theorem pickRunner_sound_witness:
  "fst (pickRunner (sample_env True 10) sample_pool) = Inr ''b:1'' \<and>
   ''b:1'' \<in> set (GetEnabledAddresses (pl_reg sample_pool))"
  using pickRunner_sound[OF sample_pick] by (simp add: sample_pick) (simp add: sample_env_def)

section \<open>The least loaded runner\<close>

lemma getOrCreate_in_flight:
  assumes "getOrCreateInflight addr p = (i, q)" and "pool_inv p act"
  shows "pl_counters q ! i = in_flight p addr" and "in_flight q b = in_flight p b"
proof -
  have lt: "pl_inflight p a = Some j \<Longrightarrow> j < length (pl_counters p)" for a j
    using assms(2) by (simp add: pool_inv_def)
  have both: "pl_counters q ! i = in_flight p addr \<and> in_flight q b = in_flight p b"
  proof (cases "pl_inflight p addr")
    case None
    then show ?thesis
      using getOrCreate_new[OF assms(1) None] lt[of b]
      by (cases "b = addr") (auto simp: in_flight_def nth_append split: option.split)
  next
    case (Some j)
    then show ?thesis using getOrCreate_old[OF assms(1) Some] by (simp add: in_flight_def)
  qed
  then show "pl_counters q ! i = in_flight p addr" and "in_flight q b = in_flight p b" by simp_all
qed

lemma getClient_known: "addr \<in> set (pl_clients p) \<Longrightarrow> getClient be addr p = (None, p)"
  by (simp add: getClient_def)

text \<open>The score of a runner from the cached probe.\<close>

definition cached_score :: "Pool \<Rightarrow> string \<Rightarrow> int" where
  "cached_score p addr = in_flight p addr * 100 + pe_maxGpuU (probe_lookup p addr)"

lemma classify_cached:
  assumes "pool_inv p act" and "addr \<in> set (pl_clients p)" and "probed_ok env p addr"
  shows "\<exists>q. classify env addr (p, fc, tp) = (q, fc @ [(addr, cached_score p addr)], tp) \<and> grows p q \<and>
    pl_clients q = pl_clients p \<and> pl_probeCache q = pl_probeCache p \<and> (\<forall>b. in_flight q b = in_flight p b)"
proof -
  obtain i q where g: "getOrCreateInflight addr p = (i, q)" by fastforce
  have "pl_clients q = pl_clients p" using g by (auto simp: getOrCreateInflight_def split: option.splits)
  then show ?thesis
    using assms g getOrCreate_in_flight[OF g assms(1)] grows_getOrCreate[OF g] getOrCreate_cache[OF g]
    by (simp add: classify_def probed_ok_def getClient_known score_def cached_score_def)
qed

lemma classify_all_cached:
  assumes "pool_inv p act" and "\<forall>a\<in>set addrs. a \<in> set (pl_clients p) \<and> probed_ok env p a"
  shows "\<exists>q. fold (classify env) addrs (p, fc, tp) = (q, fc @ map (\<lambda>a. (a, cached_score p a)) addrs, tp) \<and>
    (\<forall>b. in_flight q b = in_flight p b) \<and> pl_probeCache q = pl_probeCache p"
  using assms
proof (induction addrs arbitrary: p fc)
  case (Cons a addrs)
  obtain q where q: "classify env a (p, fc, tp) = (q, fc @ [(a, cached_score p a)], tp)" and g: "grows p q"
    and same: "pl_clients q = pl_clients p" "pl_probeCache q = pl_probeCache p" "\<forall>b. in_flight q b = in_flight p b"
    using classify_cached[of p act a env fc tp] Cons.prems by auto
  have eq: "cached_score q = cached_score p" "probed_ok env q = probed_ok env p"
    using same by (simp_all add: cached_score_def probed_ok_def probe_lookup_def fun_eq_iff)
  have "pool_inv q act" using grows_inv(1)[OF g Cons.prems(1)] .
  then show ?case using Cons.IH[of q "fc @ [(a, cached_score p a)]"] Cons.prems(2) q same eq by simp
qed simp

text \<open>
  C35: among runners that were all probed well in the last five seconds the pool chooses the least
  loaded one, 100 for every request in flight plus the highest utilisation of a GPU, without asking
  any runner: the choice is the same whatever they would answer, and no counter and no probe changes.
\<close>

theorem pickRunner_least_loaded:
  assumes "pool_inv p act" and "GetEnabledAddresses (pl_reg p) \<noteq> []"
    and "\<And>a. a \<in> set (GetEnabledAddresses (pl_reg p)) \<Longrightarrow> a \<in> set (pl_clients p) \<and> probed_ok env p a"
  shows "\<exists>addr q. pickRunner env p = (Inr addr, q) \<and> addr \<in> set (GetEnabledAddresses (pl_reg p)) \<and>
    (\<forall>b\<in>set (GetEnabledAddresses (pl_reg p)). cached_score p addr \<le> cached_score p b) \<and>
    (\<forall>b. in_flight q b = in_flight p b) \<and> pl_probeCache q = pl_probeCache p"
proof -
  let ?addrs = "GetEnabledAddresses (pl_reg p)" and ?cs = "map (\<lambda>a. (a, cached_score p a)) (GetEnabledAddresses (pl_reg p))"
  obtain q where q: "fold (classify env) ?addrs (p, [], []) = (q, ?cs, [])"
    and same: "\<forall>b. in_flight q b = in_flight p b" "pl_probeCache q = pl_probeCache p"
    using classify_all_cached[OF assms(1), of ?addrs env "[]" "[]"] assms(3) by auto
  have ne: "?cs \<noteq> []" using assms(2) by simp
  have "pickRunner env p = (Inr (fst (best_candidate ?cs)), q)"
    using assms(2) q by (simp add: pickRunner_def Let_def)
  moreover have "best_candidate ?cs \<in> set ?cs" by (rule best_candidate_min(1)[OF ne])
  moreover have "snd (best_candidate ?cs) \<le> cached_score p b" if "b \<in> set ?addrs" for b
    using best_candidate_min(2)[OF ne, of "(b, cached_score p b)"] that by simp
  ultimately show ?thesis using same by (auto simp: image_iff)
qed

text \<open>Two runners probed a second ago, one of which has a request running.\<close>

definition busy_pool :: Pool where
  "busy_pool = fst (pool_exec (OpSend (sample_env True 10) (\<lambda>_. None)) (sample_pool, []))"

lemma busy_pool_eq:
  "busy_pool = sample_pool\<lparr>pl_clients := [''a:1'', ''b:1''], pl_inflight := [''b:1'' \<mapsto> 0, ''a:1'' \<mapsto> 1], pl_counters := [1, 0],
       pl_probeCache := [''b:1'' \<mapsto> sample_entry 20, ''a:1'' \<mapsto> sample_entry 70]\<rparr>"
  by (simp add: busy_pool_def pool_SendMessage_def sample_pick start_request_def getOrCreateInflight_def counter_Add_def started_def)

lemma busy_pool_values:
  "GetEnabledAddresses (pl_reg busy_pool) = [''a:1'', ''b:1'']"
  "a \<in> {''a:1'', ''b:1''} \<Longrightarrow> a \<in> set (pl_clients busy_pool) \<and> probed_ok (sample_env False 20) busy_pool a"
  "cached_score busy_pool ''a:1'' = 70" "cached_score busy_pool ''b:1'' = 120"
  "in_flight busy_pool ''a:1'' = 0" "in_flight busy_pool ''b:1'' = 1"
  by (auto simp: busy_pool_eq sample_pool_fields probed_ok_def sample_env_def runnerProbeTTL_def probe_lookup_def
      sample_entry_def cached_score_def in_flight_def)

lemma busy_pool_inv: "\<exists>act. pool_inv busy_pool act"
proof -
  have "pool_inv sample_pool []" by (simp add: sample_pool_def NewPool_def pool_inv_def)
  then show ?thesis unfolding busy_pool_def using pool_exec_inv(1) by blast
qed

theorem pickRunner_least_loaded_witness:
  "\<exists>q. pickRunner (sample_env False 20) busy_pool = (Inr ''a:1'', q) \<and> in_flight q ''b:1'' = 1 \<and> in_flight q ''a:1'' = 0"
proof -
  obtain act where "pool_inv busy_pool act" using busy_pool_inv by blast
  from pickRunner_least_loaded[OF this, of "sample_env False 20"] obtain addr q where
    "pickRunner (sample_env False 20) busy_pool = (Inr addr, q)" and "addr = ''a:1'' \<or> addr = ''b:1''"
    and "cached_score busy_pool addr \<le> cached_score busy_pool ''a:1''"
    and "in_flight q ''b:1'' = in_flight busy_pool ''b:1''" "in_flight q ''a:1'' = in_flight busy_pool ''a:1''"
    using busy_pool_values(1,2) by auto
  then show ?thesis using busy_pool_values(3-6) by auto
qed

section \<open>The models of all runners\<close>

lemma NewLLM_error: "NewLLMRunnerService be a [] = Inl e \<longleftrightarrow> be_Dial be \<noteq> None \<and> e = DialFailed (the (be_Dial be))"
  by (auto simp: NewLLMRunnerService_def Let_def split: option.split)

text \<open>What a runner contributes depends on the pool only through its own client.\<close>

lemma runner_models_stable:
  "runner_models be a p = (ms, q) \<Longrightarrow> fst (runner_models be b q) = fst (runner_models be b p)"
  by (cases "be_Dial (be a)"; cases "be_Dial (be b)")
    (auto simp: runner_models_def getClient_def NewLLMRunnerService_def Let_def getOrCreateInflight_def
      split: if_splits option.splits sum.splits)

lemma runner_models_fold:
  "fst (fold (\<lambda>addr (seen, p). let (ms, p1) = runner_models be addr p in (seen @ ms, p1)) addrs (seen, p)) =
     seen @ concat (map (\<lambda>a. fst (runner_models be a p)) addrs)"
proof (induction addrs arbitrary: seen p)
  case (Cons a addrs)
  obtain ms q where r: "runner_models be a p = (ms, q)" by fastforce
  show ?case using Cons.IH[of "seen @ ms" q] runner_models_stable[OF r] r by simp
qed simp

text \<open>
  the list of models is the sorted list, without repetition, of the non-empty names that the
  enabled runners answer, each asked over a connection it can open and that is alive; it does not
  depend on the order in which the goroutines finish, and it is an error exactly when it is empty.
\<close>

theorem GetModels_union:
  assumes "\<And>xs. set (order xs) = set xs"
  shows "fst (pool_GetModels be order p) =
    (let names = {m. m \<noteq> [] \<and> (\<exists>a\<in>set (GetEnabledAddresses (pl_reg p)).
           (a \<in> set (pl_clients p) \<or> be_Dial (be a) = None) \<and> svc_CheckConnection (be a) = Inr True \<and>
           (\<exists>ms. svc_GetModels (be a) = Inr ms \<and> m \<in> set ms))}
     in if GetEnabledAddresses (pl_reg p) = [] then Inl NoEnabledRunners
        else if names = {} then Inl NoModels else Inr (sorted_list_of_set names))"
proof -
  let ?addrs = "GetEnabledAddresses (pl_reg p)"
  define seen where "seen = concat (map (\<lambda>a. fst (runner_models be a p)) (order ?addrs))"
  define names where "names = {m. m \<noteq> [] \<and> (\<exists>a\<in>set ?addrs.
           (a \<in> set (pl_clients p) \<or> be_Dial (be a) = None) \<and> svc_CheckConnection (be a) = Inr True \<and>
           (\<exists>ms. svc_GetModels (be a) = Inr ms \<and> m \<in> set ms))}"
  have "set (fst (runner_models be a p)) = {m. m \<noteq> [] \<and>
      (a \<in> set (pl_clients p) \<or> be_Dial (be a) = None) \<and> svc_CheckConnection (be a) = Inr True \<and>
      (\<exists>ms. svc_GetModels (be a) = Inr ms \<and> m \<in> set ms)}" for a
    by (auto simp: runner_models_def getClient_def NewLLMRunnerService_def Let_def
        split: prod.splits option.splits sum.splits)
  then have seen: "set seen = names" by (auto simp: seen_def names_def assms)
  have "sort (remdups seen) = [] \<longleftrightarrow> seen = []" by (metis set_empty set_remdups set_sort)
  moreover obtain q where "fold (\<lambda>addr (seen, p). let (ms, p1) = runner_models be addr p in (seen @ ms, p1))
      (order ?addrs) ([], p) = (seen, q)"
    using runner_models_fold[of be "order ?addrs" "[]" p] unfolding seen_def by (metis append_Nil prod.collapse)
  ultimately have "fst (pool_GetModels be order p) = (if ?addrs = [] then Inl NoEnabledRunners
      else if seen = [] then Inl NoModels else Inr (sort (remdups seen)))"
    by (simp add: pool_GetModels_def)
  moreover have "sort (remdups seen) = sorted_list_of_set names"
    using sorted_list_of_set_sort_remdups[of seen] seen by simp
  moreover have "seen = [] \<longleftrightarrow> names = {}" using seen by auto
  ultimately show ?thesis unfolding names_def[symmetric] Let_def by simp
qed

theorem GetModels_union_witness:
  "fst (pool_GetModels (\<lambda>_. sample_backend False 0) rev sample_pool) = Inr [''m'']"
proof -
  have r: "GetEnabledAddresses (pl_reg sample_pool) = [''a:1'', ''b:1'']" by (simp add: sample_pool_fields)
  have b: "be_Dial (sample_backend False 0) = None" "svc_CheckConnection (sample_backend False 0) = Inr True"
    "svc_GetModels (sample_backend False 0) = Inr [''m'']"
    by (simp_all add: sample_backend_def svc_CheckConnection_def svc_RunnerProbe_def svc_GetModels_def rpc_def)
  have "{m :: string. m \<noteq> [] \<and> m = ''m''} = {''m''}" by auto
  then show ?thesis
    using GetModels_union[of rev "\<lambda>_. sample_backend False 0" sample_pool] by (simp add: r b) blast
qed

end
