(* ===== verification/ToolParse.thy ===== *)
theory ToolParse
  imports PromptMessages GoRegexp "HOL-Library.Sublist"
begin

text \<open>
  How the calls of tools are read from the answer of a model, the first half of
  \<open>pkg/toolloop/parse_resolve.go\<close>: the text is searched for a JSON list or object of calls in
  five ways, and what is found is brought into one form. The printing of numbers by
  \<open>encoding/json\<close> is the argument \<open>num\<close>, as in the theory of JSON: the text of a literal as
  float64 prints it, \<open>None\<close> out of range. The nesting of JSON is not limited to 10000 as in Go.
\<close>

section \<open>Rows of calls\<close>

record CohereActionRow =
  ca_ToolName :: string
  ca_Parameters :: string

datatype tool_error =
    EmptyCallList
  | BadCallFormat
  | BadArguments string
  | NotDeclared string

type_synonym num_printer = "string \<Rightarrow> string option"

definition NormalizeToolParameters :: "num_printer \<Rightarrow> string \<Rightarrow> string option" where
  "NormalizeToolParameters num raw0 =
     (let raw = TrimSpace raw0 in
      if raw = [] \<or> raw = ''null'' then Some ''{}''
      else if hd raw = CHR 0x22 then
        (case Unmarshal_string raw of
           None \<Rightarrow> None
         | Some enc \<Rightarrow> let encoded = TrimSpace enc in if encoded = [] then Some ''{}'' else remarshal num encoded)
      else remarshal num raw)"

fun NormalizeToolActionRows :: "num_printer \<Rightarrow> CohereActionRow list \<Rightarrow> tool_error + CohereActionRow list" where
  "NormalizeToolActionRows num [] = Inr []"
| "NormalizeToolActionRows num (row # rows) =
     (case NormalizeToolParameters num (ca_Parameters row) of
        None \<Rightarrow> Inl (BadArguments (TrimSpace (ca_ToolName row)))
      | Some params \<Rightarrow>
          (case NormalizeToolActionRows num rows of
             Inl e \<Rightarrow> Inl e
           | Inr out \<Rightarrow> Inr (\<lparr>ca_ToolName = TrimSpace (ca_ToolName row), ca_Parameters = params\<rparr> # out)))"

text \<open>\<open>json.Unmarshal\<close> into a slice of rows: an element of the wrong type makes it fail in the end.\<close>

definition decode_row :: "jv \<Rightarrow> CohereActionRow option" where
  "decode_row v =
     (case v of
        JNull \<Rightarrow> Some \<lparr>ca_ToolName = [], ca_Parameters = []\<rparr>
      | JObj ms \<Rightarrow>
          (case string_field ''tool_name'' ms of
             (n, ok) \<Rightarrow> if ok then Some \<lparr>ca_ToolName = n, ca_Parameters = raw_field ''parameters'' ms\<rparr> else None)
      | _ \<Rightarrow> None)"

definition Unmarshal_rows :: "string \<Rightarrow> CohereActionRow list option" where
  "Unmarshal_rows blob =
     (case json_parse blob of
        Some (JArr es) \<Rightarrow>
          if list_all (\<lambda>(raw, v). decode_row v \<noteq> None) es then Some (map (\<lambda>(raw, v). the (decode_row v)) es) else None
      | Some JNull \<Rightarrow> Some []
      | _ \<Rightarrow> None)"

text \<open>The three older forms of a single call differ in the names of their two fields.\<close>

definition legacy_call :: "string \<Rightarrow> string \<Rightarrow> string \<Rightarrow> CohereActionRow option" where
  "legacy_call name_field args_field blob =
     (case json_parse blob of
        Some (JObj ms) \<Rightarrow>
          (case string_field name_field ms of
             (n, ok) \<Rightarrow>
               let args = raw_field args_field ms
               in if ok \<and> TrimSpace n \<noteq> []
                  then Some \<lparr>ca_ToolName = TrimSpace n, ca_Parameters = (if args = [] \<or> args = ''null'' then ''{}'' else args)\<rparr>
                  else None)
      | _ \<Rightarrow> None)"

definition ParseCohereActionList :: "num_printer \<Rightarrow> string \<Rightarrow> tool_error + CohereActionRow list" where
  "ParseCohereActionList num blob0 =
     (let blob = TrimSpace blob0;
          legacy = (case legacy_call ''name'' ''arguments'' blob of
              Some row \<Rightarrow> NormalizeToolActionRows num [row]
            | None \<Rightarrow>
                (case legacy_call ''tool'' ''arguments'' blob of
                   Some row \<Rightarrow> NormalizeToolActionRows num [row]
                 | None \<Rightarrow>
                     (case legacy_call ''tool_name'' ''parameters'' blob of
                        Some row \<Rightarrow> NormalizeToolActionRows num [row]
                      | None \<Rightarrow> Inl BadCallFormat)))
      in if blob = [] then Inr []
         else
           case Unmarshal_rows blob of
             None \<Rightarrow> legacy
           | Some rows \<Rightarrow>
               if rows \<noteq> [] then NormalizeToolActionRows num rows
               else if HasPrefix (TrimSpace blob) ''['' then Inl EmptyCallList
               else legacy)"

definition ToolActionRowsHaveNames :: "CohereActionRow list \<Rightarrow> bool" where
  "ToolActionRowsHaveNames rows \<longleftrightarrow> list_ex (\<lambda>r. TrimSpace (ca_ToolName r) \<noteq> []) rows"

text \<open>The test the extractors share: the text parses, into at least one row and one name.\<close>

definition parses_as_calls :: "num_printer \<Rightarrow> string \<Rightarrow> bool" where
  "parses_as_calls num s \<longleftrightarrow>
     (case ParseCohereActionList num s of Inl e \<Rightarrow> False | Inr rows \<Rightarrow> rows \<noteq> [] \<and> ToolActionRowsHaveNames rows)"

section \<open>Searching an answer for calls\<close>

definition fence :: string where
  "fence = replicate 3 (CHR 0x60)"

text \<open>
  The expression of Cohere's actions up to its group: Action or its Russian word, in any case, a
  colon, white space, an opening fence with json, white space. The Russian letters fold to their
  capitals and, some of them, to a variant in the block of Cyrillic Extended-C.
\<close>

definition cyrillic_action :: regex where
  "cyrillic_action =
     foldr (\<lambda>alts r. RSeq (RRune (\<lambda>x. x \<in> set alts)) r)
       [[1044, 1076, 7297], [1045, 1077], [1049, 1081], [1057, 1089, 7299], [1058, 1090, 7300, 7301],
        [1042, 1074, 7296], [1048, 1080], [1045, 1077]] REmpty"

definition action_prefix :: regex where
  "action_prefix =
     RSeq (RAlt (re_lit_fold ''action'') cyrillic_action)
       (RSeq (re_lit '':'') (RSeq (RStar (RRune space_class))
         (RSeq (re_lit fence) (RSeq (re_lit_fold ''json'') (RStar (RRune space_class))))))"

text \<open>The group takes as little as it can: up to the first closing fence.\<close>

fun first_fenced :: "re_pos list \<Rightarrow> string option" where
  "first_fenced [] = None"
| "first_fenced (p # ps) =
     (case str_cut (concat (snd p)) fence of
        (front, _, ok) \<Rightarrow> if ok then Some front else first_fenced ps)"

fun action_submatch :: "rune option \<Rightarrow> string list \<Rightarrow> string option" where
  "action_submatch prev [] = first_fenced (re_match action_prefix (prev, []))"
| "action_submatch prev (x # xs) =
     (case first_fenced (re_match action_prefix (prev, x # xs)) of
        Some s \<Rightarrow> Some s
      | None \<Rightarrow> action_submatch (Some (chunk_rune x)) xs)"

definition ExtractCohereActionJSON :: "string \<Rightarrow> string" where
  "ExtractCohereActionJSON text =
     (case action_submatch None (chunks text) of None \<Rightarrow> [] | Some s \<Rightarrow> TrimSpace s)"

function ExtractFirstFencedToolArray :: "num_printer \<Rightarrow> string \<Rightarrow> string" where
  "ExtractFirstFencedToolArray num s =
     (case str_index s fence of
        None \<Rightarrow> []
      | Some start \<Rightarrow>
          let afterOpen = drop (start + 3) s;
              bodyStart = (case str_index afterOpen [CHR 0x0A] of
                  None \<Rightarrow> 0
                | Some nl \<Rightarrow>
                    let first = TrimSpace (take nl afterOpen)
                    in if first \<noteq> [] \<and> \<not> list_ex (\<lambda>c. c = CHR '' '' \<or> c = CHR 0x09) first then nl + 1 else 0);
              (front, _, ok) = str_cut (drop bodyStart afterOpen) fence
          in if \<not> ok then []
             else
               let raw = TrimSpace front; tr = TrimSpace raw
               in if (HasPrefix tr ''['' \<or> HasPrefix tr ''{'') \<and> parses_as_calls num raw then raw
                  else ExtractFirstFencedToolArray num afterOpen)"
  by pat_completeness auto
termination
proof (relation "measure (\<lambda>(num, s). length s)", simp, goal_cases)
  case (1 num s start afterOpen)
  then have "s = take start s @ fence @ drop (start + 3) s"
    using str_index_Some[of s fence start] by (simp add: fence_def)
  then have "length s = length (take start s @ fence @ drop (start + 3) s)" by (rule arg_cong)
  then show ?case using 1 by (simp add: fence_def)
qed

definition ExtractFirstJSONArray :: "num_printer \<Rightarrow> string \<Rightarrow> string" where
  "ExtractFirstJSONArray num text =
     (case str_cut text (fence @ ''json'') of
        (_, after, ok) \<Rightarrow>
          if \<not> ok then []
          else
            (case str_cut after fence of
               (front, _, ok2) \<Rightarrow>
                 if \<not> ok2 then []
                 else
                   let raw = TrimSpace front; tr = TrimSpace raw
                   in if \<not> HasPrefix tr ''['' \<and> \<not> HasPrefix tr ''{'' then []
                      else if \<not> parses_as_calls num raw then []
                      else raw))"

text \<open>
  The loop of the two leading extractors, over the depth and the two flags: the number of bytes up to
  the bracket that closes the first one.
\<close>

fun bracket_span :: "char \<Rightarrow> char \<Rightarrow> int \<Rightarrow> bool \<Rightarrow> bool \<Rightarrow> string \<Rightarrow> nat option" where
  "bracket_span op cl depth inString escape [] = None"
| "bracket_span op cl depth inString escape (b # s) =
     map_option Suc
       (if escape then bracket_span op cl depth inString False s
        else if inString then
          (if b = CHR 0x5C then bracket_span op cl depth inString True s
           else if b = CHR 0x22 then bracket_span op cl depth False escape s
           else bracket_span op cl depth inString escape s)
        else if b = CHR 0x22 then bracket_span op cl depth True escape s
        else if b = op then bracket_span op cl (depth + 1) inString escape s
        else if b = cl then
          (if depth - 1 = 0 then Some 0 else bracket_span op cl (depth - 1) inString escape s)
        else bracket_span op cl depth inString escape s)"

definition extract_leading :: "char \<Rightarrow> char \<Rightarrow> string \<Rightarrow> string" where
  "extract_leading op cl text =
     (let s = TrimSpace text in
      if s = [] \<or> hd s \<noteq> op then []
      else (case bracket_span op cl 0 False False s of None \<Rightarrow> [] | Some n \<Rightarrow> take n s))"

definition ExtractLeadingJSONArray :: "string \<Rightarrow> string" where
  "ExtractLeadingJSONArray text = extract_leading (CHR ''['') (CHR '']'') text"

definition ExtractLeadingJSONObject :: "string \<Rightarrow> string" where
  "ExtractLeadingJSONObject text = extract_leading (CHR ''{'') (CHR ''}'') text"

function ExtractEmbeddedJSONArray :: "num_printer \<Rightarrow> string \<Rightarrow> string" where
  "ExtractEmbeddedJSONArray num s =
     (case str_index s ''['' of
        None \<Rightarrow> []
      | Some idx \<Rightarrow>
          let candidate = ExtractLeadingJSONArray (drop idx s)
          in if candidate \<noteq> [] \<and> parses_as_calls num candidate then candidate
             else ExtractEmbeddedJSONArray num (drop (idx + 1) s))"
  by pat_completeness auto
termination
proof (relation "measure (\<lambda>(num, s). length s)", simp, goal_cases)
  case (1 num s idx)
  then have "s \<noteq> []" by (auto simp: str_index.simps[of "[]"] HasPrefix_iff)
  then show ?case by simp
qed

function ExtractEmbeddedJSONObject :: "num_printer \<Rightarrow> string \<Rightarrow> string" where
  "ExtractEmbeddedJSONObject num s =
     (case str_index s ''{'' of
        None \<Rightarrow> []
      | Some idx \<Rightarrow>
          let candidate = ExtractLeadingJSONObject (drop idx s)
          in if candidate \<noteq> [] \<and> parses_as_calls num candidate then candidate
             else ExtractEmbeddedJSONObject num (drop (idx + 1) s))"
  by pat_completeness auto
termination
proof (relation "measure (\<lambda>(num, s). length s)", simp, goal_cases)
  case (1 num s idx)
  then have "s \<noteq> []" by (auto simp: str_index.simps[of "[]"] HasPrefix_iff)
  then show ?case by simp
qed

declare ExtractFirstFencedToolArray.simps [simp del] ExtractEmbeddedJSONArray.simps [simp del]
  ExtractEmbeddedJSONObject.simps [simp del]

definition ExtractToolActionBlob :: "num_printer \<Rightarrow> string \<Rightarrow> string" where
  "ExtractToolActionBlob num text =
     (if ExtractCohereActionJSON text \<noteq> [] then ExtractCohereActionJSON text
      else if ExtractFirstJSONArray num text \<noteq> [] then ExtractFirstJSONArray num text
      else if ExtractFirstFencedToolArray num text \<noteq> [] then ExtractFirstFencedToolArray num text
      else if ExtractLeadingJSONArray text \<noteq> [] then ExtractLeadingJSONArray text
      else if ExtractLeadingJSONObject text \<noteq> [] \<and> parses_as_calls num (ExtractLeadingJSONObject text)
      then ExtractLeadingJSONObject text
      else if ExtractEmbeddedJSONArray num text \<noteq> [] then ExtractEmbeddedJSONArray num text
      else ExtractEmbeddedJSONObject num text)"

section \<open>Calls for the history\<close>

text \<open>A structure is written in the order of its fields.\<close>

definition openai_call :: "nat \<Rightarrow> CohereActionRow \<Rightarrow> gov" where
  "openai_call i c =
     GMap [(''id'', GStr (''call_'' @ itoa (int i + 1))), (''type'', GStr ''function''),
       (''function'', GMap [(''name'', GStr (ca_ToolName c)),
          (''arguments'', GStr (if TrimSpace (ca_Parameters c) = [] then ''{}'' else TrimSpace (ca_Parameters c)))])]"

definition ToolCallsToOpenAIJSON :: "CohereActionRow list \<Rightarrow> string" where
  "ToolCallsToOpenAIJSON calls = Marshal (GArr (map (\<lambda>(i, c). openai_call i c) (zip [0..<length calls] calls)))"

section \<open>The scan for the closing bracket\<close>

text \<open>
  \<open>moves\<close> relates two positions of the scan, each with its depth and whether it is inside a
  string: from the first the scan gets to the second without an end in between.
\<close>

definition moves :: "char \<Rightarrow> char \<Rightarrow> int \<times> bool \<Rightarrow> string \<Rightarrow> int \<times> bool \<Rightarrow> string \<Rightarrow> bool" where
  "moves op cl st s st' r \<longleftrightarrow> (\<exists>p. s = p @ r \<and>
     bracket_span op cl (fst st) (snd st) False s =
       map_option (\<lambda>n. length p + n) (bracket_span op cl (fst st') (snd st') False r))"

definition brackets :: "char \<Rightarrow> char \<Rightarrow> bool" where
  "brackets op cl \<longleftrightarrow> (op, cl) \<in> {(CHR ''['', CHR '']''), (CHR ''{'', CHR ''}'')}"

lemma moves_refl [simp]: "moves op cl st s st s"
  by (cases "bracket_span op cl (fst st) (snd st) False s") (auto simp: moves_def)

lemma moves_trans [trans]:
  assumes "moves op cl st s st' r" and "moves op cl st' r st'' t"
  shows "moves op cl st s st'' t"
proof -
  obtain p q where "s = p @ r" "r = q @ t"
    and "bracket_span op cl (fst st) (snd st) False s =
      map_option (\<lambda>n. length p + n) (bracket_span op cl (fst st') (snd st') False r)"
    and "bracket_span op cl (fst st') (snd st') False r =
      map_option (\<lambda>n. length q + n) (bracket_span op cl (fst st'') (snd st'') False t)"
    using assms by (auto simp: moves_def)
  then show ?thesis
    unfolding moves_def
    by (intro exI[of _ "p @ q"]) (cases "bracket_span op cl (fst st'') (snd st'') False t"; simp add: add.assoc)
qed

lemma moves_Cons:
  assumes "bracket_span op cl (fst st) (snd st) False (c # r) = map_option Suc (bracket_span op cl (fst st') (snd st') False r)"
  shows "moves op cl st (c # r) st' r"
  unfolding moves_def assms
  by (intro exI[of _ "[c]"]) (cases "bracket_span op cl (fst st') (snd st') False r"; simp)

lemma moves_plain: "c \<noteq> CHR 0x22 \<Longrightarrow> c \<noteq> op \<Longrightarrow> c \<noteq> cl \<Longrightarrow> moves op cl (d, False) (c # r) (d, False) r"
  by (rule moves_Cons) simp

lemma moves_quote: "moves op cl (d, False) (CHR 0x22 # r) (d, True) r" "moves op cl (d, True) (CHR 0x22 # r) (d, False) r"
  by (rule moves_Cons, simp)+

lemma moves_open: "brackets op cl \<Longrightarrow> moves op cl (d, False) (op # r) (d + 1, False) r"
  by (rule moves_Cons) (auto simp: brackets_def)

lemma moves_close: "brackets op cl \<Longrightarrow> d \<noteq> 1 \<Longrightarrow> moves op cl (d, False) (cl # r) (d - 1, False) r"
  by (rule moves_Cons) (auto simp: brackets_def)

lemma moves_inside: "c \<noteq> CHR 0x22 \<Longrightarrow> c \<noteq> CHR 0x5C \<Longrightarrow> moves op cl (d, True) (c # r) (d, True) r"
  by (rule moves_Cons) simp

lemma moves_escape: "moves op cl (d, True) (CHR 0x5C # e # r) (d, True) r"
  unfolding moves_def
  by (intro exI[of _ "[CHR 0x5C, e]"]) (cases "bracket_span op cl d True False r"; simp)

lemma moves_all:
  assumes "\<And>c r. c \<in> set p \<Longrightarrow> moves op cl st (c # r) st r"
  shows "moves op cl st (p @ r) st r"
  using assms
proof (induction p)
  case (Cons c p)
  then have "moves op cl st (c # p @ r) st (p @ r)" and "moves op cl st (p @ r) st r" by auto
  then show ?case by (auto intro: moves_trans)
qed simp

lemma continuation_ge: "cont_byte b \<Longrightarrow> 128 \<le> b" "second_ok b0 b \<Longrightarrow> 128 \<le> b"
  by (auto simp: cont_byte_def second_ok_def split: if_splits)

lemma decode_rune_conts: "list_all (\<lambda>c. 128 \<le> (byte c :: nat)) (take (snd (decode_rune (b # s)) - 1) s)"
  by (simp add: decode_rune.simps(2) Let_def continuation_ge split: list.split) (blast dest: continuation_ge(2))

lemma decode_rune_tail:
  assumes "c \<in> set (take (snd (decode_rune (b # s))) (b # s))"
  shows "c = b \<or> 128 \<le> (byte c :: nat)"
proof -
  obtain w where w: "snd (decode_rune (b # s)) = Suc w"
    using decode_rune_width_pos[of "b # s"] by (auto simp: gr0_conv_Suc)
  then show ?thesis using assms decode_rune_conts[of b s] by (auto simp: list_all_iff)
qed

text \<open>The body of a string.\<close>

lemma moves_hex4:
  assumes "hex4 t = Some v"
  shows "moves op cl (k, True) t (k, True) (drop 4 t)"
proof -
  have hex: "hex_value c \<noteq> None \<Longrightarrow> c \<noteq> CHR 0x22 \<and> c \<noteq> CHR 0x5C" for c
    by (auto simp: hex_value_def Let_def split: if_splits)
  obtain a b c d r where t: "t = [a, b, c, d] @ r"
    and "hex_value a \<noteq> None" "hex_value b \<noteq> None" "hex_value c \<noteq> None" "hex_value d \<noteq> None"
    using assms by (auto simp: hex4_def split: list.splits option.splits)
  then have "moves op cl (k, True) ([a, b, c, d] @ r) (k, True) r"
    using hex by (intro moves_all moves_inside) auto
  then show ?thesis using t by simp
qed

lemma moves_surrogate:
  assumes "surrogate_pair u t = Some v"
  shows "moves op cl (k, True) t (k, True) (drop 6 t)"
proof -
  obtain l where l: "hex4 (drop 2 t) = Some l" and h: "take 2 t = [CHR 0x5C, CHR ''u'']"
    using assms by (auto simp: surrogate_pair_def split: if_splits option.splits)
  then have "t = CHR 0x5C # CHR ''u'' # drop 2 t"
    by (metis append_Cons append_Nil append_take_drop_id)
  then have "moves op cl (k, True) t (k, True) (drop 2 t)" using moves_escape by metis
  from moves_trans[OF this moves_hex4[OF l]] show ?thesis by simp
qed

lemma moves_string:
  "json_str s = Some (d, r) \<Longrightarrow> moves op cl (k, True) s (k, False) r"
proof (induction s arbitrary: d rule: json_str.induct)
  case (1 s)
  show ?case
  proof (cases s)
    case (Cons c s1)
    consider "c = CHR 0x22" | "c = CHR 0x5C" | "c \<noteq> CHR 0x22" "c \<noteq> CHR 0x5C" by blast
    then show ?thesis
    proof cases
      case 1
      then have "s = CHR 0x22 # r" using Cons "1.prems" by (simp add: json_str.simps)
      then show ?thesis using moves_quote by simp
    next
      case 2
      then obtain e s2 where s1: "s1 = e # s2" using Cons "1.prems" by (cases s1) (auto simp: json_str_lone)
      have esc: "moves op cl (k, True) s (k, True) s2" using Cons 2 s1 moves_escape by simp
      show ?thesis
      proof (cases "e = CHR ''u''")
        case True
        then obtain u where u: "hex4 s2 = Some u" using Cons 2 s1 "1.prems"
          by (auto simp: json_str_escape_u split: option.splits)
        note IH = "1.IH"(1-3)[OF Cons _ 2 s1 True u]
        have four: "moves op cl (k, True) s (k, True) (drop 4 s2)"
          using moves_trans[OF esc moves_hex4[OF u]] .
        consider v d' where "55296 \<le> u \<and> u < 57344" "surrogate_pair u (drop 4 s2) = Some v"
            "json_str (drop 10 s2) = Some (d', r)"
          | d' where "json_str (drop 4 s2) = Some (d', r)"
              "55296 \<le> u \<and> u < 57344 \<longrightarrow> surrogate_pair u (drop 4 s2) = None"
          using Cons 2 s1 True u "1.prems"
          by (auto simp: json_str_escape_u split: option.splits if_splits)
        then show ?thesis
        proof cases
          case (1 v d')
          have "moves op cl (k, True) s (k, True) (drop 10 s2)"
            using moves_trans[OF four moves_surrogate[OF 1(2)]] by simp
          then show ?thesis using IH(2)[OF _ 1(1,2,3)] 2 moves_trans by simp
        next
          case (2 d')
          have "moves op cl (k, True) (drop 4 s2) (k, False) r"
            using IH(1)[OF _ _ _ 2(1)] IH(3)[OF _ _ 2(1)] 2(2) \<open>c = CHR 0x5C\<close>
            by (cases "55296 \<le> u \<and> u < 57344") simp_all
          then show ?thesis using moves_trans[OF four] by blast
        qed
      next
        case False
        then obtain b d' where "json_str s2 = Some (d', r)" "simple_escape e = Some b"
          using Cons 2 s1 False "1.prems" by (auto simp: json_str_escape split: option.splits if_splits)
        then show ?thesis using "1.IH"(4)[OF Cons _ 2 s1 False] 2 moves_trans[OF esc] by simp
      qed
    next
      case 3
      then obtain d' where d': "json_str (drop (snd (decode_rune s)) s) = Some (d', r)" "\<not> byte c < (32::nat)"
        using Cons 3 "1.prems" by (auto simp: json_str_plain split: if_splits)
      have "moves op cl (k, True) (take (snd (decode_rune s)) s @ drop (snd (decode_rune s)) s) (k, True) (drop (snd (decode_rune s)) s)"
        by (rule moves_all, rule moves_inside) (use decode_rune_tail[of "CHR 0x22" c s1] decode_rune_tail[of "CHR 0x5C" c s1] 3 Cons in auto)
      then show ?thesis using "1.IH"(5)[OF Cons 3 d'(2,1)] moves_trans by (metis append_take_drop_id)
    qed
  qed (use "1.prems" in \<open>simp add: json_str.simps[of "[]"]\<close>)
qed

text \<open>Numbers, literals and white space have no brackets and no quotes.\<close>

definition plain_char :: "char \<Rightarrow> bool" where
  "plain_char c \<longleftrightarrow> c \<noteq> CHR 0x22 \<and> c \<notin> {CHR ''['', CHR '']'', CHR ''{'', CHR ''}''}"

lemma moves_plain_string:
  assumes "brackets op cl" and "list_all plain_char p"
  shows "moves op cl (d, False) (p @ r) (d, False) r"
proof (rule moves_all)
  fix c r assume "c \<in> set p"
  then have "plain_char c" using assms(2) by (simp add: list_all_iff)
  then show "moves op cl (d, False) (c # r) (d, False) r"
    using assms(1) by (intro moves_plain) (auto simp: plain_char_def brackets_def)
qed

lemma moves_ws:
  assumes "brackets op cl"
  shows "moves op cl (d, False) s (d, False) (skip_ws s)"
proof -
  have "plain_char c" if "json_ws c" for c using that by (auto simp: json_ws_def plain_char_def)
  then have "list_all plain_char (takeWhile json_ws s)"
    by (auto simp: list_all_iff dest: set_takeWhileD)
  from moves_plain_string[OF assms this, of d "skip_ws s"] show ?thesis
    by (simp add: skip_ws_def)
qed

lemma digit_plain: "digit c \<Longrightarrow> plain_char c"
  by (auto simp: digit_def plain_char_def)

lemma digits_plain: "list_all plain_char (takeWhile digit s)"
  by (auto simp: list_all_iff dest: set_takeWhileD digit_plain)

lemma plain_char_simps [simp]:
  "plain_char (CHR ''.'')" "plain_char (CHR ''e'')" "plain_char (CHR ''E'')" "plain_char (CHR ''+'')"
  "plain_char (CHR ''-'')" "plain_char (CHR ''0'')" "plain_char (CHR '','')" "plain_char (CHR '':'')"
  by (simp_all add: plain_char_def)

lemma sign_plain: "(\<And>c. c \<in> signs \<Longrightarrow> plain_char c) \<Longrightarrow> list_all plain_char (opt_sign signs s)"
  by (simp add: opt_sign_def split: list.split)

lemma scan_frac_plain: "scan_frac s = Some (t, r) \<Longrightarrow> list_all plain_char t"
  by (cases s) (auto simp: scan_frac_def digits_plain split: if_splits)

lemma scan_int_plain: "scan_int s = Some (t, r) \<Longrightarrow> list_all plain_char t"
  by (cases s) (auto simp: scan_int_def digits_plain digit_plain split: if_splits)

lemma scan_exp_plain:
  assumes "scan_exp s = Some (t, r)"
  shows "list_all plain_char t"
proof (cases s)
  case (Cons c s1)
  have "list_all plain_char (opt_sign {CHR ''+'', CHR ''-''} s1)" by (rule sign_plain) auto
  then show ?thesis
    using assms Cons by (auto simp: scan_exp_cons Let_def digits_plain split: if_splits)
qed (use assms in \<open>simp add: scan_exp_def\<close>)

lemma scan_number_plain:
  assumes "scan_number s = Some (t, r)"
  shows "list_all plain_char t"
proof -
  obtain i r1 f r2 e where "scan_int (drop (length (opt_sign {CHR ''-''} s)) s) = Some (i, r1)"
    "scan_frac r1 = Some (f, r2)" "scan_exp r2 = Some (e, r)" "t = opt_sign {CHR ''-''} s @ i @ f @ e"
    using assms unfolding scan_number_def Let_def by (auto split: option.splits)
  moreover have "list_all plain_char (opt_sign {CHR ''-''} s)" by (rule sign_plain) simp
  ultimately show ?thesis using scan_int_plain scan_frac_plain scan_exp_plain by auto
qed

text \<open>Over a whole JSON value the scan is back at the same depth.\<close>

lemma moves_step:
  assumes "brackets op cl" and "skip_ws s = c # r" and "plain_char c"
  shows "moves op cl (d, False) s (d, False) r"
proof -
  have "moves op cl (d, False) s (d, False) (c # r)" using moves_ws[OF assms(1), of d s] assms(2) by simp
  also have "moves op cl (d, False) (c # r) (d, False) r"
    using moves_plain_string[OF assms(1), of "[c]" d r] assms(3) by simp
  finally show ?thesis .
qed

lemma moves_bracketed:
  assumes "brackets op cl" and "1 \<le> d" and "(o', c') \<in> {(CHR ''['', CHR '']''), (CHR ''{'', CHR ''}'')}"
    and "\<And>k. 1 \<le> k \<Longrightarrow> moves op cl (k, False) s (k, False) (c' # r)"
  shows "moves op cl (d, False) (o' # s) (d, False) r"
proof (cases "o' = op")
  case True
  then have c: "c' = cl" using assms(1,3) by (auto simp: brackets_def)
  have "moves op cl (d, False) (o' # s) (d + 1, False) s" using moves_open[OF assms(1)] True by simp
  moreover have "moves op cl (d + 1, False) s (d + 1, False) (c' # r)" using assms(2,4) by simp
  moreover have "moves op cl (d + 1, False) (c' # r) (d, False) r"
    using moves_close[OF assms(1), of "d + 1"] c assms(2) by simp
  ultimately show ?thesis by (blast intro: moves_trans)
next
  case False
  then have "moves op cl (d, False) (o' # s) (d, False) s" "moves op cl (d, False) (c' # r) (d, False) r"
    using assms(1,3) by (auto simp: brackets_def intro!: moves_plain)
  then show ?thesis using assms(4)[OF assms(2)] by (blast intro: moves_trans)
qed

lemma moves_parse:
  assumes "brackets op cl"
  shows "parse_value n s = Some (v, r) \<Longrightarrow> 1 \<le> d \<Longrightarrow> moves op cl (d, False) s (d, False) r"
    and "parse_elems n s = Some (es, r) \<Longrightarrow> 1 \<le> d \<Longrightarrow> moves op cl (d, False) s (d, False) (CHR '']'' # r)"
    and "parse_members n s = Some (ms, r) \<Longrightarrow> 1 \<le> d \<Longrightarrow> moves op cl (d, False) s (d, False) (CHR ''}'' # r)"
proof (induction n arbitrary: s v r es ms d)
  case (Suc n)
  note ws = moves_ws[OF assms]
  have quoted: "moves op cl (d, False) (CHR 0x22 # s1) (d, False) r'" if "json_str s1 = Some (k, r')" for s1 k r' d
    using moves_trans[OF moves_quote(1) moves_string[OF that]] .
  {
    case 1
    then show ?case
    proof (cases rule: parse_valueE)
      case (str m s1 d')
      then show ?thesis using quoted by blast
    next
      case (arr0 m s1)
      then show ?thesis using moves_bracketed[OF assms 1(2), of "CHR ''[''" "CHR '']''" s1 r] ws[of _ s1] by simp
    next
      case (arr m s1 d' r1 es')
      have "moves op cl (k, False) s1 (k, False) (CHR '']'' # r)" if "1 \<le> k" for k
        using moves_trans[OF ws[of k s1]] Suc.IH(2)[OF _ that] arr by simp
      then show ?thesis using moves_bracketed[OF assms 1(2), of "CHR ''[''" "CHR '']''" s1 r] arr by simp
    next
      case (obj0 m s1)
      then show ?thesis using moves_bracketed[OF assms 1(2), of "CHR ''{''" "CHR ''}''" s1 r] ws[of _ s1] by simp
    next
      case (obj m s1 d' r1 ms')
      have "moves op cl (k, False) s1 (k, False) (CHR ''}'' # r)" if "1 \<le> k" for k
        using moves_trans[OF ws[of k s1]] Suc.IH(3)[OF _ that] obj by simp
      then show ?thesis using moves_bracketed[OF assms 1(2), of "CHR ''{''" "CHR ''}''" s1 r] obj by simp
    next
      case (lit m l w)
      then have "list_all plain_char l" by (auto simp: plain_char_def)
      then show ?thesis using moves_plain_string[OF assms] lit by simp
    next
      case (num m t c s1)
      then show ?thesis
        using moves_plain_string[OF assms scan_number_plain] scan_number_split by metis
    qed
  next
    case 2
    then show ?case
    proof (cases rule: parse_elemsE)
      case (last m v r1)
      then show ?thesis using moves_trans[OF Suc.IH(1)[of s v r1 d] ws[of d r1]] 2(2) by simp
    next
      case (more m v r1 r2 es')
      then have "moves op cl (d, False) s (d, False) r1" using Suc.IH(1)[of s v r1 d] 2(2) by simp
      also have "moves op cl (d, False) r1 (d, False) r2" by (rule moves_step[OF assms more(3)]) simp
      also note ws[of d r2]
      also have "moves op cl (d, False) (skip_ws r2) (d, False) (CHR '']'' # r)"
        using Suc.IH(2)[of "skip_ws r2" es' r d] more 2(2) by simp
      finally show ?thesis .
    qed
  next
    case 3
    have member: "moves op cl (d, False) (CHR 0x22 # s1) (d, False) r1"
      if "json_str s1 = Some (k, s2)" "skip_ws s2 = CHR '':'' # s3" "parse_value n (skip_ws s3) = Some (v, r1)" for s1 k s2 s3 v r1
    proof -
      note quoted[OF that(1)]
      also have "moves op cl (d, False) s2 (d, False) s3" by (rule moves_step[OF assms that(2)]) simp
      also note ws[of d s3]
      also note Suc.IH(1)[OF that(3) 3(2)]
      finally show ?thesis .
    qed
    from 3(1) show ?case
    proof (cases rule: parse_membersE)
      case (last m s1 k s2 s3 v r1)
      then show ?thesis using moves_trans[OF member[of s1 k s2 s3 v r1] ws[of d r1]] by simp
    next
      case (more m s1 k s2 s3 v r1 r2 ms')
      then have "moves op cl (d, False) s (d, False) r1" using member[of s1 k s2 s3 v r1] by simp
      also have "moves op cl (d, False) r1 (d, False) r2" by (rule moves_step[OF assms more(6)]) simp
      also note ws[of d r2]
      also have "moves op cl (d, False) (skip_ws r2) (d, False) (CHR ''}'' # r)"
        using Suc.IH(3)[of "skip_ws r2" ms' r d] more 3(2) by simp
      finally show ?thesis .
    qed
  }
qed (simp_all add: parse_value.simps(1) parse_elems.simps(1) parse_members.simps(1))

lemma extract_leading_value:
  assumes "brackets op cl" and "TrimSpace text = op # s" and "moves op cl (1, False) s (1, False) (cl # r)"
  shows "extract_leading op cl text = raw_of (TrimSpace text) r"
proof -
  have ne: "op \<noteq> CHR 0x22" "cl \<noteq> op" "cl \<noteq> CHR 0x22" using assms(1) by (auto simp: brackets_def)
  obtain p where p: "s = p @ cl # r"
    and span: "bracket_span op cl 1 False False s = map_option (\<lambda>n. length p + n) (bracket_span op cl 1 False False (cl # r))"
    using assms(3) by (auto simp: moves_def)
  have "bracket_span op cl 0 False False (op # s) = Some (Suc (length p + 1))"
    using span ne by simp
  then show ?thesis
    unfolding extract_leading_def raw_of_def Let_def using assms(2) p by simp
qed

text \<open>
  A list of calls at the start of an answer is cut out whole, whatever text follows it. If the
  trimmed answer starts with a JSON array or object, in the grammar of \<open>encoding/json\<close>, then
  counting brackets outside strings finds exactly the bytes of that value: brackets and escaped
  quotes inside its strings do not end it early.
\<close>

lemma ExtractLeading_whole:
  assumes "parse_value n (TrimSpace text) = Some (v, r)"
  shows "(case v of
      JArr es \<Rightarrow> ExtractLeadingJSONArray text = raw_of (TrimSpace text) r
    | JObj ms \<Rightarrow> ExtractLeadingJSONObject text = raw_of (TrimSpace text) r
    | _ \<Rightarrow> ExtractLeadingJSONArray text = [] \<and> ExtractLeadingJSONObject text = [])"
  using assms
proof (cases rule: parse_valueE)
  case (arr0 m s1)
  then show ?thesis
    using extract_leading_value[of "CHR ''[''" "CHR '']''" "text" s1 r] moves_ws[of "CHR ''[''" "CHR '']''" 1 s1]
    by (simp add: ExtractLeadingJSONArray_def brackets_def)
next
  case (arr m s1 d r1 es)
  have "moves (CHR ''['') (CHR '']'') (1, False) s1 (1, False) (CHR '']'' # r)"
    using moves_trans[OF moves_ws moves_parse(2)] arr(3,5) by (simp add: brackets_def)
  then show ?thesis
    using extract_leading_value[of "CHR ''[''" "CHR '']''" "text" s1 r] arr by (simp add: ExtractLeadingJSONArray_def brackets_def)
next
  case (obj0 m s1)
  then show ?thesis
    using extract_leading_value[of "CHR ''{''" "CHR ''}''" "text" s1 r] moves_ws[of "CHR ''{''" "CHR ''}''" 1 s1]
    by (simp add: ExtractLeadingJSONObject_def brackets_def)
next
  case (obj m s1 d r1 ms)
  have "moves (CHR ''{'') (CHR ''}'') (1, False) s1 (1, False) (CHR ''}'' # r)"
    using moves_trans[OF moves_ws moves_parse(3)] obj(3,5) by (simp add: brackets_def)
  then show ?thesis
    using extract_leading_value[of "CHR ''{''" "CHR ''}''" "text" s1 r] obj by (simp add: ExtractLeadingJSONObject_def brackets_def)
next
  case (num m t c s1)
  then have "c \<noteq> CHR ''[''" "c \<noteq> CHR ''{''" by (auto simp: digit_def)
  then show ?thesis
    using num by (simp add: ExtractLeadingJSONArray_def ExtractLeadingJSONObject_def extract_leading_def Let_def)
qed (auto simp: ExtractLeadingJSONArray_def ExtractLeadingJSONObject_def extract_leading_def Let_def)

section \<open>Calls that were printed as JSON\<close>

lemma TrimSpace_enclosed:
  assumes "byte a < (128::nat)" "\<not> IsSpace (byte a)" and "byte b < (128::nat)" "\<not> IsSpace (byte b)"
  shows "TrimSpace (a # s @ b # t) = a # s @ b # trim_right t"
proof -
  have "chunks (a # s @ b # t) = [a] # chunks s @ [b] # chunks t"
    using assms by (simp add: chunks_before_ascii)
  then show ?thesis
    using assms by (simp add: TrimSpace_def trim_chunks_def trim_right_def dropWhile_append3 space_chunk_def decode_rune_1)
qed

lemma TrimSpace_quoted [simp]: "TrimSpace (json_quote s) = json_quote s"
  using TrimSpace_enclosed[of "CHR 0x22" "CHR 0x22" "json_esc s" "[]"]
  by (simp add: json_quote_def IsSpace_def trim_right_def)

lemma TrimSpace_arr: "TrimSpace (Marshal (GArr gs) @ t) = Marshal (GArr gs) @ trim_right t"
  using TrimSpace_enclosed[of "CHR ''[''" "CHR '']''" "Marshal_elems gs" t] by (simp add: IsSpace_def)

lemma TrimSpace_map: "TrimSpace (Marshal (GMap m) @ t) = Marshal (GMap m) @ trim_right t"
  using TrimSpace_enclosed[of "CHR ''{''" "CHR ''}''" "Marshal_members m" t] by (simp add: IsSpace_def)

lemma trim_right_Nil [simp]: "trim_right [] = []"
  by (simp add: trim_right_def)

lemma name_matches_ascii: "ascii k \<Longrightarrow> ascii f \<Longrightarrow> name_matches f k \<longleftrightarrow> map (fold_rune \<circ> byte) k = map (fold_rune \<circ> byte) f"
  by (simp add: name_matches_def runes_ascii)

lemma utf8_text_of_ascii: "ascii s \<Longrightarrow> utf8_text s"
  by (induction s) (simp_all add: utf8_text_ascii ascii_def, simp add: utf8_text_def)

text \<open>The names of fields that occur.\<close>

lemma field_names [simp]:
  "name_matches ''tool_name'' ''tool_name''" "name_matches ''parameters'' ''parameters''"
  "\<not> name_matches ''tool_name'' ''parameters''" "\<not> name_matches ''parameters'' ''tool_name''"
  "name_matches ''id'' ''id''" "\<not> name_matches ''id'' ''type''" "\<not> name_matches ''id'' ''function''"
  "name_matches ''type'' ''type''" "\<not> name_matches ''type'' ''id''" "\<not> name_matches ''type'' ''function''"
  "name_matches ''function'' ''function''" "\<not> name_matches ''function'' ''id''" "\<not> name_matches ''function'' ''type''"
  "name_matches ''name'' ''name''" "\<not> name_matches ''name'' ''arguments''"
  "name_matches ''arguments'' ''arguments''" "\<not> name_matches ''arguments'' ''name''"
  by (simp_all add: name_matches_ascii ascii_def fold_rune_def)

lemma remarshal_map: "wf_gov num (GMap m) \<Longrightarrow> remarshal num (Marshal (GMap m)) = Some (Marshal (GMap m))"
  by (simp only: remarshal_def json_parse_jv_of wf_gov_json to_any_jv_of option.case option.map)

lemma NormalizeToolParameters_map:
  assumes "wf_gov num (GMap m)"
  shows "NormalizeToolParameters num (Marshal (GMap m)) = Some (Marshal (GMap m))"
proof -
  have "Marshal (GMap m) = CHR ''{'' # Marshal_members m @ ''}''" by simp
  then have "Marshal (GMap m) \<noteq> []" "Marshal (GMap m) \<noteq> ''null''" "hd (Marshal (GMap m)) \<noteq> CHR 0x22" by simp_all
  then show ?thesis
    using TrimSpace_map[of m "[]"] remarshal_map[OF assms]
    by (simp only: NormalizeToolParameters_def Let_def append_Nil2 trim_right_Nil if_False if_True simp_thms)
qed

text \<open>What a model is asked to write: a list of objects with a name and an object of parameters.\<close>

definition call_json :: "string \<times> (string \<times> gov) list \<Rightarrow> gov" where
  "call_json c = GMap [(''tool_name'', GStr (fst c)), (''parameters'', GMap (snd c))]"

definition call_row :: "string \<times> (string \<times> gov) list \<Rightarrow> CohereActionRow" where
  "call_row c = \<lparr>ca_ToolName = fst c, ca_Parameters = Marshal (GMap (snd c))\<rparr>"

lemma decode_row_call: "decode_row (jv_of (call_json c)) = Some (call_row c)"
  by (simp add: decode_row_def call_json_def call_row_def string_field_def raw_field_def del: Marshal.simps)

lemma NormalizeToolActionRows_calls:
  "\<forall>c\<in>set cs. TrimSpace (fst c) = fst c \<and> wf_gov num (GMap (snd c)) \<Longrightarrow>
     NormalizeToolActionRows num (map call_row cs) = Inr (map call_row cs)"
  by (induction cs) (simp_all add: call_row_def NormalizeToolParameters_map del: Marshal.simps wf_gov.simps)

lemma call_json_wf:
  "utf8_text (fst c) \<Longrightarrow> wf_gov num (GMap (snd c)) \<Longrightarrow> json_wf (call_json c)"
  using wf_gov_json[of num "GMap (snd c)"] by (simp add: call_json_def utf8_text_of_ascii ascii_def)

lemma call_list_wf:
  assumes "\<forall>c\<in>set cs. utf8_text (fst c) \<and> TrimSpace (fst c) = fst c \<and> wf_gov num (GMap (snd c))"
  shows "json_wf (GArr (map call_json cs))"
proof -
  have "json_wf (call_json c)" if "c \<in> set cs" for c
    by (rule call_json_wf[of _ num]) (use assms that in blast)+
  then show ?thesis by simp
qed

lemma ParseCohereActionList_calls:
  assumes "cs \<noteq> []"
    and "\<forall>c\<in>set cs. utf8_text (fst c) \<and> TrimSpace (fst c) = fst c \<and> wf_gov num (GMap (snd c))"
  shows "ParseCohereActionList num (Marshal (GArr (map call_json cs))) = Inr (map call_row cs)"
proof -
  let ?blob = "Marshal (GArr (map call_json cs))"
  note wf = call_list_wf[OF assms(2)]
  have "json_parse ?blob = Some (JArr (map (\<lambda>g. (Marshal g, jv_of g)) (map call_json cs)))"
    using json_parse_jv_of[OF wf] by (simp only: jv_of.simps)
  then have rows: "Unmarshal_rows ?blob = Some (map call_row cs)"
    by (simp add: Unmarshal_rows_def decode_row_call comp_def list_all_iff del: Marshal.simps)
  have "TrimSpace ?blob = ?blob" using TrimSpace_arr[of "map call_json cs" "[]"] by (simp del: Marshal.simps)
  moreover have "?blob \<noteq> []" by simp
  moreover have "map call_row cs \<noteq> []" using assms(1) by simp
  moreover have "NormalizeToolActionRows num (map call_row cs) = Inr (map call_row cs)"
    by (rule NormalizeToolActionRows_calls) (use assms(2) in blast)
  ultimately show ?thesis
    using rows by (simp only: ParseCohereActionList_def Let_def if_False if_True option.case simp_thms)
qed

section \<open>Answers without a fence\<close>

lemma HasPrefix_append_left: "HasPrefix s (a @ b) \<Longrightarrow> HasPrefix s a"
  unfolding HasPrefix_iff by (metis append_assoc)

lemma str_index_None_iff: "str_index s sub = None \<longleftrightarrow> (\<forall>a b. s \<noteq> a @ sub @ b)"
proof (induction s)
  case Nil
  then show ?case by (auto simp: str_index.simps[of "[]"] HasPrefix_iff)
next
  case (Cons c s)
  have "(\<forall>a b. c # s \<noteq> a @ sub @ b) \<longleftrightarrow> \<not> HasPrefix (c # s) sub \<and> (\<forall>a b. s \<noteq> a @ sub @ b)"
    by (auto simp: HasPrefix_iff Cons_eq_append_conv)
  then show ?case using Cons.IH by (auto simp: str_index.simps[of "c # s"])
qed

lemma no_fence_part:
  assumes "str_index (a @ s @ b) sub = None"
  shows "str_index s sub = None"
  using assms unfolding str_index_None_iff by (metis append_assoc)

lemma no_fence_cut: "str_index s sub = None \<Longrightarrow> \<exists>x y. str_cut s sub = (x, y, False)"
  by (simp add: str_cut_def)

lemma first_fenced_None: "(\<And>p. p \<in> set ps \<Longrightarrow> str_index (concat (snd p)) fence = None) \<Longrightarrow> first_fenced ps = None"
  by (induction ps) (simp_all add: str_cut_def)

lemma action_submatch_None: "str_index (concat xs) fence = None \<Longrightarrow> action_submatch prev xs = None"
proof (induction xs arbitrary: prev)
  have tail: "first_fenced (re_match action_prefix (prev, xs)) = None" if "str_index (concat xs) fence = None" for prev xs
  proof (rule first_fenced_None)
    fix p assume "p \<in> set (re_match action_prefix (prev, xs))"
    then obtain ys where "xs = ys @ snd p" using re_match_suffix by fastforce
    then show "str_index (concat (snd p)) fence = None"
      using that no_fence_part[of "concat ys" "concat (snd p)" "[]"] by simp
  qed
  {
    case Nil
    then show ?case using tail by simp
  next
    case (Cons x xs)
    then show ?case using tail no_fence_part[of x "concat xs" "[]"] by simp
  }
qed

lemma no_fence_extractors:
  assumes "str_index text fence = None"
  shows "ExtractCohereActionJSON text = []" and "ExtractFirstJSONArray num text = []"
    and "ExtractFirstFencedToolArray num text = []"
proof -
  show "ExtractCohereActionJSON text = []"
    using action_submatch_None[of "chunks text"] assms by (simp add: ExtractCohereActionJSON_def concat_chunks)
  have "str_index text (fence @ ''json'') = None"
    using assms unfolding str_index_None_iff by (metis append_assoc)
  then show "ExtractFirstJSONArray num text = []"
    by (simp add: ExtractFirstJSONArray_def str_cut_def)
  show "ExtractFirstFencedToolArray num text = []"
    using assms by (simp add: ExtractFirstFencedToolArray.simps)
qed

text \<open>
  the calls a model writes are the calls that are read. If an answer without a fence starts with
  the JSON list of its calls, each with a trimmed name and an object of parameters, then whatever text
  follows, that list is the text that is cut out, and parsing it gives back the names and, byte for
  byte, the parameters in the printing of \<open>encoding/json\<close>.
\<close>

theorem answer_calls_read:
  assumes "cs \<noteq> []"
    and "\<forall>c\<in>set cs. utf8_text (fst c) \<and> TrimSpace (fst c) = fst c \<and> wf_gov num (GMap (snd c))"
    and "str_index (Marshal (GArr (map call_json cs)) @ tail) fence = None"
  shows "ExtractToolActionBlob num (Marshal (GArr (map call_json cs)) @ tail) = Marshal (GArr (map call_json cs))
    \<and> ParseCohereActionList num (Marshal (GArr (map call_json cs))) = Inr (map call_row cs)"
proof -
  let ?g = "GArr (map call_json cs)"
  note wf = call_list_wf[OF assms(2)]
  obtain n where "parse_value n (Marshal ?g @ trim_right tail) = Some (jv_of ?g, trim_right tail)"
    using parse_Marshal(1)[OF wf] by blast
  then have "ExtractLeadingJSONArray (Marshal ?g @ tail) = Marshal ?g"
    using ExtractLeading_whole[of n "Marshal ?g @ tail" "jv_of ?g" "trim_right tail"]
    by (simp add: TrimSpace_arr del: Marshal.simps)
  moreover have "Marshal ?g \<noteq> []" by simp
  ultimately have "ExtractToolActionBlob num (Marshal ?g @ tail) = Marshal ?g"
    by (simp add: ExtractToolActionBlob_def no_fence_extractors[OF assms(3)] del: Marshal.simps)
  then show ?thesis using ParseCohereActionList_calls[OF assms(1,2)] by simp
qed

lemma no_backtick: "CHR 0x60 \<notin> set s \<Longrightarrow> str_index s fence = None"
  by (auto simp: str_index_None_iff fence_def)

theorem answer_calls_read_witness:
  "ExtractToolActionBlob Some (Marshal (GArr (map call_json [(''web_search'', [(''query'', GStr ''x]'')])])) @ '' done.'') =
     Marshal (GArr (map call_json [(''web_search'', [(''query'', GStr ''x]'')])]))"
proof -
  have "str_index (Marshal (GArr (map call_json [(''web_search'', [(''query'', GStr ''x]'')])])) @ '' done.'') fence = None"
    by (rule no_backtick) (simp add: call_json_def json_quote_def json_esc_def esc_chunk_def decode_rune.simps)
  moreover have "TrimSpace ''web_search'' = ''web_search''" by (rule TrimSpace_solid) (simp add: IsSpace_def)
  ultimately show ?thesis
    using answer_calls_read[of "[(''web_search'', [(''query'', GStr ''x]'')])]" Some "'' done.''"]
    by (simp add: utf8_text_of_ascii ascii_def del: Marshal.simps append_Cons)
qed

section \<open>Calls in the history\<close>

definition openai_args :: "CohereActionRow \<Rightarrow> string" where
  "openai_args c = (if TrimSpace (ca_Parameters c) = [] then ''{}'' else TrimSpace (ca_Parameters c))"

lemma utf8_text_TrimSpace: "utf8_text s \<Longrightarrow> utf8_text (TrimSpace s)"
proof -
  assume s: "utf8_text s"
  have v: "\<forall>r\<in>set (runes s). valid_rune r" using runes_valid by blast
  then have "TrimSpace s = utf8 (trim_runes (runes s))" using TrimSpace_utf8 s by (metis utf8_text_def)
  moreover have "\<forall>r\<in>set (trim_runes (runes s)). valid_rune r" using v set_trim_runes by blast
  ultimately show ?thesis using utf8_text_utf8 by metis
qed

lemma openai_args_text: "utf8_text (ca_Parameters c) \<Longrightarrow> utf8_text (openai_args c)"
  by (simp add: openai_args_def utf8_text_TrimSpace utf8_text_of_ascii ascii_def)

lemma openai_call_eq:
  "openai_call i c = GMap [(''id'', GStr (''call_'' @ itoa (int i + 1))), (''type'', GStr ''function''),
     (''function'', GMap [(''name'', GStr (ca_ToolName c)), (''arguments'', GStr (openai_args c))])]"
  by (simp add: openai_call_def openai_args_def)

lemma openai_call_wf:
  assumes "utf8_text (ca_ToolName c)" and "utf8_text (ca_Parameters c)"
  shows "json_wf (openai_call i c)"
proof -
  have "ascii (''call_'' @ itoa (int i + 1))"
    using itoa_digits[of "int i + 1"] digits_ascii by (auto simp: ascii_def list_all_iff digit_def)
  then show ?thesis
    using assms by (simp add: openai_call_eq openai_args_text utf8_text_of_ascii del: append_Cons) (simp add: utf8_text_of_ascii ascii_def)
qed

lemma raw_call_openai: "raw_call (jv_of (openai_call i c)) = Some (''call_'' @ itoa (int i + 1), ca_ToolName c, json_quote (openai_args c))"
  by (simp add: raw_call_def openai_call_eq function_members_def function_ok_def string_field_def raw_field_def)

lemma call_arguments_quoted:
  assumes "utf8_text a" and "TrimSpace a = a" and "a \<noteq> []"
  shows "call_arguments dec (json_quote a) =
    (case dec a of None \<Rightarrow> [(''_raw'', GStr a)] | Some None \<Rightarrow> [] | Some (Some kvs) \<Rightarrow> kvs)"
proof -
  have "Unmarshal_string (json_quote a) = Some a"
    using json_parse_jv_of[of "GStr a"] assms(1) by (simp add: Unmarshal_string_def)
  moreover have "json_quote a \<noteq> []" "json_quote a \<noteq> ''null''" "hd (json_quote a) = CHR 0x22" by (simp_all add: json_quote_def)
  ultimately show ?thesis using assms(2,3) by (auto simp: call_arguments_def split: option.split)
qed

lemma openai_json_read:
  assumes "\<forall>c\<in>set calls. utf8_text (ca_ToolName c) \<and> utf8_text (ca_Parameters c)"
  shows "parseToolCallsJSON dec (ToolCallsToOpenAIJSON calls) =
    Some (map (\<lambda>(i, c). \<lparr>tc_ID = ''call_'' @ itoa (int i + 1), tc_Index = i, tc_Name = TrimSpace (ca_ToolName c),
        tc_Arguments = (case dec (openai_args c) of
            None \<Rightarrow> [(''_raw'', GStr (openai_args c))] | Some None \<Rightarrow> [] | Some (Some kvs) \<Rightarrow> kvs)\<rparr>)
      (zip [0..<length calls] calls))"
proof -
  define gs where "gs = map (\<lambda>(i, c). openai_call i c) (zip [0..<length calls] calls)"
  have call: "c \<in> set calls" if "(i, c) \<in> set (zip [0..<length calls] calls)" for i c
    using that by (rule set_zip_rightD)
  then have "json_wf (GArr gs)" using assms openai_call_wf by (auto simp: gs_def)
  then have p: "json_parse (Marshal (GArr gs)) = Some (JArr (map (\<lambda>g. (Marshal g, jv_of g)) gs))"
    using json_parse_jv_of by (metis jv_of.simps(5))
  have args: "call_arguments dec (json_quote (openai_args c)) =
      (case dec (openai_args c) of None \<Rightarrow> [(''_raw'', GStr (openai_args c))] | Some None \<Rightarrow> [] | Some (Some kvs) \<Rightarrow> kvs)"
    if "c \<in> set calls" for c
  proof (rule call_arguments_quoted)
    show "TrimSpace (openai_args c) = openai_args c" "openai_args c \<noteq> []"
      by (auto simp: openai_args_def TrimSpace_solid IsSpace_def)
  qed (use assms that openai_args_text in blast)
  have len: "length gs = length calls" by (simp add: gs_def)
  have nth: "gs ! i = openai_call i (calls ! i)" if "i < length calls" for i using that by (simp add: gs_def)
  have t: "TrimSpace (Marshal (GArr gs)) = Marshal (GArr gs)" using TrimSpace_arr[of gs "[]"] by (simp del: Marshal.simps)
  have ne: "Marshal (GArr gs) \<noteq> []" by simp
  have ok: "list_all (\<lambda>(r, v). raw_call v \<noteq> None) (map (\<lambda>g. (Marshal g, jv_of g)) gs)"
    by (auto simp: list_all_iff gs_def raw_call_openai)
  show ?thesis
    unfolding ToolCallsToOpenAIJSON_def gs_def[symmetric] parseToolCallsJSON_def Let_def t p option.case jv.case if_not_P[OF ne] if_P[OF ok]
    by (intro arg_cong[where f=Some] nth_equalityI) (simp_all add: len nth raw_call_openai args)
qed

text \<open>
  the calls written into the history for the model are the calls a chat template gets back. The
  JSON in the format of OpenAI that \<open>ToolCallsToOpenAIJSON\<close> prints is read by
  \<open>parseToolCallsJSON\<close> as the same calls in the same order, numbered from one, with the names
  trimmed and the arguments decoded from the very text of the parameters, an empty object if there was none.
\<close>

theorem openai_json_roundtrip:
  assumes "\<forall>c\<in>set calls. utf8_text (ca_ToolName c) \<and> utf8_text (ca_Parameters c)"
  shows "parseToolCallsJSON dec (ToolCallsToOpenAIJSON calls) =
    Some (map (\<lambda>(i, c). \<lparr>tc_ID = ''call_'' @ itoa (int i + 1), tc_Index = i, tc_Name = TrimSpace (ca_ToolName c),
        tc_Arguments = (case dec (openai_args c) of
            None \<Rightarrow> [(''_raw'', GStr (openai_args c))] | Some None \<Rightarrow> [] | Some (Some kvs) \<Rightarrow> kvs)\<rparr>)
      (zip [0..<length calls] calls))"
  using openai_json_read [OF assms] .

theorem openai_json_roundtrip_witness:
  "parseToolCallsJSON (\<lambda>a. Some None) (ToolCallsToOpenAIJSON [\<lparr>ca_ToolName = '' calc'', ca_Parameters = []\<rparr>]) =
    Some [\<lparr>tc_ID = ''call_1'', tc_Index = 0, tc_Name = ''calc'', tc_Arguments = []\<rparr>]"
proof -
  have "TrimSpace ''calc'' = ''calc''" by (rule TrimSpace_solid) (simp add: IsSpace_def)
  then show ?thesis
    using openai_json_roundtrip[of "[\<lparr>ca_ToolName = '' calc'', ca_Parameters = []\<rparr>]" "\<lambda>a. Some None"]
    by (simp add: utf8_text_of_ascii ascii_def itoa_def nat_digits.simps[of "Suc 0"] char_of_def bit_0)
qed

end
