(* ===== verification/ToolResolve.thy ===== *)
theory ToolResolve
  imports ToolParse ToolAlias RunnerRegistry RunnerClient
begin

text \<open>
  What becomes of a tool call once it is read: the second half of
  \<open>pkg/toolloop/parse_resolve.go\<close>, which finds the declared tool a name stands for,
  \<open>core.go\<close> and \<open>schema.go\<close>, which bound the time of a tool, report its errors and
  drop the arguments that its schema does not know. The log lines are left out, and so are the two
  readers of numbers, \<open>OptionalInt64Field\<close> and \<open>OptionalInt32Field\<close>, which go through
  float64.
\<close>

section \<open>Parameters of a generation\<close>

definition SamplingGenParamsForMCP :: "GenerationParams option \<Rightarrow> GenerationParams" where
  "SamplingGenParamsForMCP gp =
     (case gp of
        None \<Rightarrow> empty_params
      | Some g \<Rightarrow> g\<lparr>gp_Tools := [], gp_ResponseFormat := None, gp_RenderedPrompt := [], gp_ChatTemplateJinja := []\<rparr>)"

definition CloneGenParamsForToolCalls :: "GenerationParams option \<Rightarrow> GenerationParams option" where
  "CloneGenParamsForToolCalls gp =
     map_option (\<lambda>g. g\<lparr>gp_ResponseFormat := None, gp_RenderedPrompt := [], gp_ChatTemplateJinja := []\<rparr>) gp"

definition RunnerInferenceParams ::
  "('p, 't) template_lib \<Rightarrow> GenerationParams option \<Rightarrow> messages \<Rightarrow> GenerationParams option" where
  "RunnerInferenceParams lib gp ms =
     (case gp of
        None \<Rightarrow> None
      | Some g \<Rightarrow>
          let out = g\<lparr>gp_Tools := [], gp_ResponseFormat := None, gp_RenderedPrompt := [], gp_ChatTemplateJinja := []\<rparr>;
              rp = TrimSpace (gp_RenderedPrompt g); tmpl = TrimSpace (gp_ChatTemplateJinja g)
          in if rp \<noteq> [] then Some (out\<lparr>gp_RenderedPrompt := rp\<rparr>)
             else if tmpl = [] then Some out
             else
               case BuildChatPrompt lib tmpl (PrepareMessagesForRunner ms) of
                 Inl e \<Rightarrow> Some out
               | Inr p \<Rightarrow> Some (out\<lparr>gp_RenderedPrompt := p\<rparr>))"

section \<open>Names of tools\<close>

definition NormalizeToolName :: "string \<Rightarrow> string" where
  "NormalizeToolName s = ReplaceAll (ToLower (TrimSpace s)) ''-'' ''_''"

definition AllowedToolNameSet :: "Tool list \<Rightarrow> string set" where
  "AllowedToolNameSet tools = set (filter (\<lambda>n. n \<noteq> []) (map (\<lambda>t. NormalizeToolName (tool_Name t)) tools))"

text \<open>The declared tools of one MCP server, by their normalized names.\<close>

definition server_tools :: "int \<Rightarrow> Tool list \<Rightarrow> string list" where
  "server_tools sid tools =
     filter (\<lambda>c. c \<noteq> [] \<and> (case ParseToolAlias c of None \<Rightarrow> False | Some (tsid, orig) \<Rightarrow> tsid = sid))
       (map (\<lambda>t. NormalizeToolName (tool_Name t)) tools)"

definition TryRecoverSingleMCPServerToolAlias :: "GenerationParams option \<Rightarrow> string \<Rightarrow> (string \<times> int) option" where
  "TryRecoverSingleMCPServerToolAlias gp n =
     (case gp of
        None \<Rightarrow> None
      | Some g \<Rightarrow>
          (case mcp_alias_submatch n of
             None \<Rightarrow> None
           | Some (ds, hx) \<Rightarrow>
               (case ParseInt64 ds of
                  None \<Rightarrow> None
                | Some sid \<Rightarrow>
                    if sid \<le> 0 then None
                    else (case server_tools sid (gp_Tools g) of [c] \<Rightarrow> Some (c, sid) | _ \<Rightarrow> None))))"

text \<open>The first of the hits in the order of the sort, by server and then by name.\<close>

definition cand_less :: "int \<times> string \<Rightarrow> int \<times> string \<Rightarrow> bool" where
  "cand_less a b \<longleftrightarrow> (if fst a \<noteq> fst b then fst a < fst b else snd a < snd b)"

definition first_cand :: "(int \<times> string) list \<Rightarrow> int \<times> string" where
  "first_cand hits = fold (\<lambda>c best. if cand_less c best then c else best) (tl hits) (hd hits)"

definition tool_hits :: "Tool list \<Rightarrow> string \<Rightarrow> (int \<times> string) list" where
  "tool_hits tools n =
     concat (map (\<lambda>t. let canon = NormalizeToolName (tool_Name t) in
       if canon = [] \<or> canon \<notin> AllowedToolNameSet tools then []
       else
         case ParseToolAlias canon of
           None \<Rightarrow> []
         | Some (sid, orig) \<Rightarrow> if sid \<le> 0 then [] else if NormalizeToolName orig = n then [(sid, canon)] else []) tools)"

definition ResolveDeclaredToolName :: "GenerationParams option \<Rightarrow> string \<Rightarrow> string option" where
  "ResolveDeclaredToolName gp raw =
     (let n = NormalizeToolName raw in
      case gp of
        None \<Rightarrow> None
      | Some g \<Rightarrow>
          if n = [] then None
          else if n \<in> AllowedToolNameSet (gp_Tools g) then Some n
          else
            let hits = tool_hits (gp_Tools g) n
            in if hits = [] then map_option fst (TryRecoverSingleMCPServerToolAlias gp n)
               else Some (snd (first_cand hits)))"

definition IsDirectAnswerTool :: "string \<Rightarrow> bool" where
  "IsDirectAnswerTool name \<longleftrightarrow> NormalizeToolName name \<in> {''directly_answer'', ''directlyanswer''}"

definition FilterExecutableToolRows :: "CohereActionRow list \<Rightarrow> CohereActionRow list" where
  "FilterExecutableToolRows rows = filter (\<lambda>r. \<not> IsDirectAnswerTool (ca_ToolName r)) rows"

definition DirectAnswerText :: "string \<Rightarrow> string" where
  "DirectAnswerText params =
     (if params = [] then []
      else
        case Unmarshal_raw_map params of
          None \<Rightarrow> TrimSpace params
        | Some m \<Rightarrow>
            (case List.map_filter (\<lambda>key. Option.bind (map_of m key) Unmarshal_string) [''answer'', ''text'', ''message'', ''content''] of
               s # _ \<Rightarrow> TrimSpace s
             | [] \<Rightarrow> TrimSpace params))"

section \<open>Calls to run\<close>

record ExecutableToolCall =
  et_RequestedName :: string
  et_ResolvedName :: string
  et_Parameters :: string

fun ResolveExecutableToolCalls ::
  "GenerationParams option \<Rightarrow> CohereActionRow list \<Rightarrow> tool_error + ExecutableToolCall list" where
  "ResolveExecutableToolCalls gp [] = Inr []"
| "ResolveExecutableToolCalls gp (row # rows) =
     (case ResolveDeclaredToolName gp (ca_ToolName row) of
        None \<Rightarrow> Inl (NotDeclared (ca_ToolName row))
      | Some resolved \<Rightarrow>
          (case ResolveExecutableToolCalls gp rows of
             Inl e \<Rightarrow> Inl e
           | Inr out \<Rightarrow>
               Inr (\<lparr>et_RequestedName = ca_ToolName row, et_ResolvedName = resolved, et_Parameters = ca_Parameters row\<rparr> # out)))"

definition ExecutableCallsToActionRows :: "ExecutableToolCall list \<Rightarrow> CohereActionRow list" where
  "ExecutableCallsToActionRows calls = map (\<lambda>c. \<lparr>ca_ToolName = et_ResolvedName c, ca_Parameters = et_Parameters c\<rparr>) calls"

definition ToolCallNamesForLog :: "ExecutableToolCall list \<Rightarrow> string" where
  "ToolCallNamesForLog calls =
     (if calls = [] then []
      else
        str_join
          (map (\<lambda>c. let rn = TrimSpace (et_RequestedName c) in if rn = [] then ''(?)'' else rn) (take 12 calls) @
           (if 12 < length calls then [''...+'' @ itoa (int (length calls) - 12)] else [])) '','')"

section \<open>Bounds\<close>

definition MaxToolResultRunes :: nat where "MaxToolResultRunes = 8000"
definition MinToolExecSeconds :: int where "MinToolExecSeconds = 30"
definition MaxToolExecSeconds :: int where "MaxToolExecSeconds = 300"
definition DefaultToolExecSeconds :: int where "DefaultToolExecSeconds = 120"
definition DefaultToolLoopRounds :: int where "DefaultToolLoopRounds = 12"
definition MaxToolLoopRoundsCap :: int where "MaxToolLoopRoundsCap = 128"

definition MaxToolInvocationRounds_of :: "Registry option \<Rightarrow> int" where
  "MaxToolInvocationRounds_of reg =
     (let n = (case reg of
          None \<Rightarrow> DefaultToolLoopRounds
        | Some r \<Rightarrow>
            let hinted = MaxToolInvocationRounds (AggregateChatHints r)
            in if 0 < hinted then hinted else DefaultToolLoopRounds)
      in if n < 1 then 1 else if MaxToolLoopRoundsCap < n then MaxToolLoopRoundsCap else n)"

definition ToolExecutionDuration :: "int \<Rightarrow> duration" where
  "ToolExecutionDuration sessionTimeoutSec =
     (let s = (if sessionTimeoutSec \<le> 0 then DefaultToolExecSeconds else sessionTimeoutSec);
          s1 = (if s < MinToolExecSeconds then MinToolExecSeconds else s);
          s2 = (if MaxToolExecSeconds < s1 then MaxToolExecSeconds else s1)
      in s2 * go_second)"

text \<open>
  A function under a context: with no deadline it is called in place; with one, the first to end, the
  context or the function, decides, and a late result is dropped.
\<close>

definition RunFnWithContext :: "bool \<Rightarrow> bool \<Rightarrow> 'e \<Rightarrow> 'e + 'a \<Rightarrow> 'e + 'a" where
  "RunFnWithContext hasDeadline ctx_first ctx_err result =
     (if \<not> hasDeadline then result else if ctx_first then Inl ctx_err else result)"

text \<open>The texts for the model, as code points.\<close>

definition err_status :: string where
  "err_status = utf8 [1057, 1090, 1072, 1090, 1091, 1089, 58, 32, 101, 114, 114, 111, 114, 32, 1074, 1099, 1087, 1086, 1083,
      1085, 1077, 1085, 1080, 1103, 32, 1080, 1085, 1089, 1090, 1088, 1091, 1084, 1077, 1085, 1090, 1072, 46, 10]"

definition err_task :: string where
  "err_task = utf8 [1058, 1074, 1086, 1103, 32, 1079, 1072, 1076, 1072, 1095, 1072, 58, 32, 1082, 1088, 1072, 1090, 1082,
      1086, 32, 1080, 32, 1087, 1086, 45, 1088, 1091, 1089, 1089, 1082, 1080, 32, 1086, 1073, 1098, 1103, 1089,
      1085, 1080, 32, 1087, 1086, 1083, 1100, 1079, 1086, 1074, 1072, 1090, 1077, 1083, 1102, 44, 32, 1095, 1090,
      1086, 32, 1087, 1086, 1096, 1083, 1086, 32, 1085, 1077, 32, 1090, 1072, 1082, 32, 1080, 32, 1095, 1090, 1086,
      32, 1084, 1086, 1078, 1085, 1086, 32, 1089, 1076, 1077, 1083, 1072, 1090, 1100, 32, 40, 1087, 1086, 1074,
      1090, 1086, 1088, 1080, 1090, 1100, 32, 114, 101, 113, 117, 101, 115, 116, 44, 32, 1087, 1088, 1086, 1074,
      1077, 1088, 1080, 1090, 1100, 32, 1087, 1088, 1072, 1074, 1072, 44, 32, 1091, 1090, 1086, 1095, 1085, 1080,
      1090, 1100, 32, 1087, 1072, 1088, 1072, 1084, 1077, 1090, 1088, 1099, 41, 46, 10, 10]"

definition err_timeout :: string where
  "err_timeout = utf8 [1055, 1088, 1080, 1095, 1080, 1085, 1072, 58, 32, 1080, 1089, 1090, 1105, 1082, 32, 116, 105, 109, 101,
      111, 117, 116, 32, 1086, 1078, 1080, 1076, 1072, 1085, 1080, 1103, 32, 114, 101, 115, 112, 111, 110, 115, 101,
      1072, 32, 1080, 1085, 1089, 1090, 1088, 1091, 1084, 1077, 1085, 1090, 1072, 46, 10]"

definition err_cause :: string where
  "err_cause = utf8 [1055, 1088, 1080, 1095, 1080, 1085, 1072, 32, 40, 1090, 1077, 1093, 1085, 1080, 1095, 1077, 1089, 1082,
      1080, 41, 58, 32]"

definition err_requested :: string where
  "err_requested = utf8 [1047, 1072, 1087, 1088, 1086, 1096, 1077, 1085, 1085, 1086, 1077, 32, 1080, 1084, 1103, 32, 1080, 1085,
      1089, 1090, 1088, 1091, 1084, 1077, 1085, 1090, 1072, 58, 32]"

definition err_internal :: string where
  "err_internal = utf8 [10, 1042, 1085, 1091, 1090, 1088, 1077, 1085, 1085, 1077, 1077, 32, 1080, 1084, 1103, 58, 32]"

definition err_more :: string where
  "err_more = utf8 [10, 1044, 1086, 1087, 1086, 1083, 1085, 1080, 1090, 1077, 1083, 1100, 1085, 1086, 32, 1086, 1090, 32,
      1089, 1077, 1088, 1074, 1077, 1088, 1072, 32, 1080, 1083, 1080, 32, 1089, 1088, 1077, 1076, 1099, 32, 1074,
      1099, 1087, 1086, 1083, 1085, 1077, 1085, 1080, 1103, 58, 10]"

definition truncated_note :: string where
  "truncated_note = utf8 [10, 46, 46, 46, 40, 1086, 1073, 1088, 1077, 1079, 1072, 1085, 1086, 41]"

definition TruncateToolResult :: "string \<Rightarrow> string" where
  "TruncateToolResult s =
     (if RuneCount s \<le> MaxToolResultRunes then s
      else utf8 (take MaxToolResultRunes (runes s)) @ truncated_note)"

text \<open>An error is its text.\<close>

definition ErrorToolMessage :: "ExecutableToolCall \<Rightarrow> string option \<Rightarrow> string \<Rightarrow> bool \<Rightarrow> string" where
  "ErrorToolMessage call err partialResult deadlineExceeded =
     (let cause =
            (if deadlineExceeded then err_timeout
             else (case err of None \<Rightarrow> [] | Some e \<Rightarrow> err_cause @ TrimSpace e @ [CHR 0x0A]));
          pr = TrimSpace partialResult;
          errText = (case err of None \<Rightarrow> [] | Some e \<Rightarrow> TrimSpace e);
          more = (if pr \<noteq> [] \<and> pr \<noteq> errText then err_more @ pr @ [CHR 0x0A] else [])
      in TruncateToolResult (TrimSpace
           (err_status @ err_task @ cause @ err_requested @ TrimSpace (et_RequestedName call) @ err_internal @
            TrimSpace (et_ResolvedName call) @ [CHR 0x0A] @ more)))"

section \<open>Fields of arguments\<close>

datatype field_error = MissingField string | NotAString string

definition MustStringField :: "(string \<times> string) list \<Rightarrow> string \<Rightarrow> field_error + string" where
  "MustStringField m key =
     (case map_of m key of
        None \<Rightarrow> Inl (MissingField key)
      | Some v \<Rightarrow> (case Unmarshal_string v of None \<Rightarrow> Inl (NotAString key) | Some s \<Rightarrow> Inr (TrimSpace s)))"

definition OptionalStringField :: "(string \<times> string) list \<Rightarrow> string \<Rightarrow> string" where
  "OptionalStringField m key =
     (case map_of m key of
        None \<Rightarrow> []
      | Some v \<Rightarrow> (case Unmarshal_string v of None \<Rightarrow> [] | Some s \<Rightarrow> TrimSpace s))"

section \<open>Streams\<close>

text \<open>
  The consumer of the stream is a function with a state of its own that answers whether it takes the
  next chunk.
\<close>

fun DrainLLMStreamChannelForward ::
  "(LLMStreamChunk \<Rightarrow> 's \<Rightarrow> bool \<times> 's) \<Rightarrow> LLMStreamChunk list \<Rightarrow> string \<Rightarrow> bool \<Rightarrow> 's \<Rightarrow> string \<times> bool \<times> 's" where
  "DrainLLMStreamChannelForward forward [] b streamed s = (b, streamed, s)"
| "DrainLLMStreamChannelForward forward (c # ch) b streamed s =
     (let b1 = b @ ch_Content c in
      if ch_Content c = [] \<and> ch_ReasoningContent c = [] then DrainLLMStreamChannelForward forward ch b1 streamed s
      else
        case forward c s of
          (False, s1) \<Rightarrow> (b1 @ concat (map ch_Content ch), True, s1)
        | (True, s1) \<Rightarrow> DrainLLMStreamChannelForward forward ch b1 True s1)"

text \<open>The one chunk that ends a round of tools: the text again only if the client has not got it.\<close>

definition StreamToolRoundComplete :: "bool \<Rightarrow> string \<Rightarrow> string \<Rightarrow> string" where
  "StreamToolRoundComplete streamed modelFullTrimmed canonical =
     (if \<not> streamed then canonical else if canonical = modelFullTrimmed then [] else canonical)"

section \<open>Arguments against the schema\<close>

definition parametersJSONByName :: "GenerationParams option \<Rightarrow> string \<Rightarrow> string" where
  "parametersJSONByName gp resolvedToolName =
     (case gp of
        None \<Rightarrow> []
      | Some g \<Rightarrow>
          let want = TrimSpace resolvedToolName
          in if want = [] then []
             else
               case find (\<lambda>t. TrimSpace (tool_Name t) = want) (gp_Tools g) of
                 None \<Rightarrow> []
               | Some t \<Rightarrow> TrimSpace (tool_ParametersJSON t))"

definition Unmarshal_bool :: "string \<Rightarrow> bool option" where
  "Unmarshal_bool s = (case json_parse s of Some (JBool b) \<Rightarrow> Some b | Some JNull \<Rightarrow> Some False | _ \<Rightarrow> None)"

text \<open>The names a strict schema allows, \<open>None\<close> for one that is not strict.\<close>

definition TopLevelAllowedPropertyNames :: "string \<Rightarrow> string list option" where
  "TopLevelAllowedPropertyNames parametersJSON =
     (case Unmarshal_raw_map parametersJSON of
        None \<Rightarrow> None
      | Some root \<Rightarrow>
          if (case map_of root ''type'' of
                None \<Rightarrow> False
              | Some t \<Rightarrow> (case Unmarshal_string t of None \<Rightarrow> True | Some s \<Rightarrow> s \<noteq> [] \<and> s \<noteq> ''object''))
          then None
          else
            case map_of root ''properties'' of
              None \<Rightarrow> None
            | Some propsRaw \<Rightarrow>
                (case Unmarshal_raw_map propsRaw of
                   None \<Rightarrow> None
                 | Some props \<Rightarrow>
                     if props = [] then None
                     else
                       case map_of root ''additionalProperties'' of
                         None \<Rightarrow> None
                       | Some apRaw \<Rightarrow> if Unmarshal_bool apRaw = Some False then Some (map fst props) else None))"

text \<open>
  Printing a \<open>map[string]json.RawMessage\<close>: the values are compacted, that is, white space
  outside strings goes and what HTML could take for a tag is escaped.
\<close>

fun json_compact :: "bool \<Rightarrow> bool \<Rightarrow> string \<Rightarrow> string" where
  "json_compact inString escape [] = []"
| "json_compact inString escape (c # s) =
     (let inString' = (if escape then inString else if c = CHR 0x22 then \<not> inString else inString);
          escape' = (inString \<and> \<not> escape \<and> c = CHR 0x5C)
      in if c = CHR ''<'' \<or> c = CHR ''>'' \<or> c = CHR ''&'' then
           [CHR 0x5C, CHR ''u'', CHR ''0'', CHR ''0'', hex_digit (byte c div 16), hex_digit (byte c mod 16)]
             @ json_compact inString' escape' s
         else if c = CHR 0xE2 \<and> take 1 s = [CHR 0x80] \<and> take 1 (drop 1 s) \<in> {[CHR 0xA8], [CHR 0xA9]} then
           CHR 0x5C # ''u202'' @ [hex_digit (byte (s ! 1) mod 16)] @ json_compact inString' escape' (drop 2 s)
         else if \<not> inString \<and> json_ws c then json_compact inString' escape' s
         else c # json_compact inString' escape' s)"

fun Marshal_raw_members :: "(string \<times> string) list \<Rightarrow> string" where
  "Marshal_raw_members [] = []"
| "Marshal_raw_members [(k, raw)] = json_quote k @ '':'' @ json_compact False False raw"
| "Marshal_raw_members ((k, raw) # kr # m) =
     json_quote k @ '':'' @ json_compact False False raw @ '','' @ Marshal_raw_members (kr # m)"

definition Marshal_raw_map :: "(string \<times> string) list \<Rightarrow> string" where
  "Marshal_raw_map m = ''{'' @ Marshal_raw_members m @ ''}''"

definition PruneJSONArgsToSchema :: "string \<Rightarrow> string \<Rightarrow> string \<times> string list" where
  "PruneJSONArgsToSchema params parametersJSON =
     (case TopLevelAllowedPropertyNames parametersJSON of
        None \<Rightarrow> (params, [])
      | Some allowed \<Rightarrow>
          if allowed = [] \<or> params = [] then (params, [])
          else
            case Unmarshal_raw_map params of
              None \<Rightarrow> (params, [])
            | Some m \<Rightarrow>
                let dropped = filter (\<lambda>k. k \<notin> set allowed) (map fst m)
                in if dropped = [] then (params, [])
                   else (Marshal_raw_map (filter (\<lambda>(k, raw). k \<in> set allowed) m), sort dropped))"

definition MaybePruneArgsJSON :: "GenerationParams option \<Rightarrow> string \<Rightarrow> string \<Rightarrow> string" where
  "MaybePruneArgsJSON gp resolvedToolName params =
     (let pj = parametersJSONByName gp resolvedToolName
      in if pj = [] then params else fst (PruneJSONArgsToSchema params pj))"


section \<open>The name that is found\<close>

lemma cand_less_trans: "cand_less a b \<Longrightarrow> cand_less b c \<Longrightarrow> cand_less a c"
  by (auto simp: cand_less_def split: if_splits)

lemma not_cand_less_trans: "\<not> cand_less b a \<Longrightarrow> \<not> cand_less c b \<Longrightarrow> \<not> cand_less c a"
  by (auto simp: cand_less_def not_less split: if_splits)

lemma fold_first_cand:
  "fold (\<lambda>c best. if cand_less c best then c else best) cs b \<in> insert b (set cs) \<and>
   (\<forall>c\<in>insert b (set cs). \<not> cand_less c (fold (\<lambda>c best. if cand_less c best then c else best) cs b))"
proof (induction cs arbitrary: b)
  case Nil
  then show ?case by (simp add: cand_less_def)
next
  case (Cons a cs)
  define b' where "b' = (if cand_less a b then a else b)"
  define r where "r = fold (\<lambda>c best. if cand_less c best then c else best) cs b'"
  have IH: "r \<in> insert b' (set cs)" "\<forall>c\<in>insert b' (set cs). \<not> cand_less c r"
    using Cons.IH [of b'] by (simp_all add: r_def)
  have b': "\<not> cand_less a b'" "\<not> cand_less b b'" "b' \<in> {a, b}"
    by (auto simp: cand_less_def b'_def split: if_splits)
  have "\<not> cand_less b' r" using IH by simp
  then have "\<not> cand_less a r" "\<not> cand_less b r"
    using b' not_cand_less_trans by blast+
  moreover have "fold (\<lambda>c best. if cand_less c best then c else best) (a # cs) b = r"
    by (simp add: r_def b'_def)
  moreover have "r \<in> insert b (set (a # cs))" using IH b' by auto
  ultimately show ?case using IH by simp
qed

lemma first_cand_in: "hits \<noteq> [] \<Longrightarrow> first_cand hits \<in> set hits"
  using fold_first_cand [of "tl hits" "hd hits"] by (cases hits) (simp_all add: first_cand_def)

lemma first_cand_least: "c \<in> set hits \<Longrightarrow> \<not> cand_less c (first_cand hits)"
  using fold_first_cand [of "tl hits" "hd hits"] by (cases hits) (auto simp: first_cand_def)

text \<open>The aliases under which a short name is declared.\<close>

definition short_name_hits :: "Tool list \<Rightarrow> string \<Rightarrow> (int \<times> string) set" where
  "short_name_hits tools n =
     {(sid, canon). canon \<in> AllowedToolNameSet tools \<and> 0 < sid \<and>
        (\<exists>orig. ParseToolAlias canon = Some (sid, orig) \<and> NormalizeToolName orig = n)}"

lemma set_tool_hits: "set (tool_hits tools n) = short_name_hits tools n"
proof (rule set_eqI)
  fix h :: "int \<times> string"
  obtain sid c where h: "h = (sid, c)" by (cases h)
  have "h \<in> set (tool_hits tools n) \<longleftrightarrow>
    (\<exists>t\<in>set tools. NormalizeToolName (tool_Name t) = c \<and> c \<noteq> [] \<and> c \<in> AllowedToolNameSet tools \<and> 0 < sid \<and>
       (\<exists>orig. ParseToolAlias c = Some (sid, orig) \<and> NormalizeToolName orig = n))"
    unfolding h tool_hits_def set_concat set_map Let_def
    by (intro iffI; fastforce split: option.splits if_splits)
  also have "\<dots> \<longleftrightarrow> h \<in> short_name_hits tools n"
    unfolding h short_name_hits_def by (auto simp: AllowedToolNameSet_def)
  finally show "h \<in> set (tool_hits tools n) \<longleftrightarrow> h \<in> short_name_hits tools n" .
qed

lemma TryRecover_Some_iff:
  "TryRecoverSingleMCPServerToolAlias (Some g) n = Some (c, sid) \<longleftrightarrow>
     (\<exists>ds hx. mcp_alias_submatch n = Some (ds, hx) \<and> ParseInt64 ds = Some sid) \<and> 0 < sid \<and>
     server_tools sid (gp_Tools g) = [c]"
  by (auto simp: TryRecoverSingleMCPServerToolAlias_def not_le split: option.split list.split)

lemma server_tools_single:
  "server_tools sid tools = [c] \<Longrightarrow> c \<in> AllowedToolNameSet tools"
proof -
  assume "server_tools sid tools = [c]"
  then have "c \<in> set (server_tools sid tools)" by simp
  then show ?thesis by (auto simp: server_tools_def AllowedToolNameSet_def)
qed

text \<open>The declared names and the choice among the hits, as the three ways a name is found.\<close>

definition least_hit :: "Tool list \<Rightarrow> string \<Rightarrow> string \<Rightarrow> bool" where
  "least_hit tools n c \<longleftrightarrow>
     (\<exists>sid. (sid, c) \<in> short_name_hits tools n \<and>
        (\<forall>(sid', c') \<in> short_name_hits tools n. sid < sid' \<or> sid = sid' \<and> c \<le> c'))"

definition only_tool_of_server :: "Tool list \<Rightarrow> string \<Rightarrow> string \<Rightarrow> bool" where
  "only_tool_of_server tools n c \<longleftrightarrow>
     (\<exists>sid ds hx. mcp_alias_submatch n = Some (ds, hx) \<and> ParseInt64 ds = Some sid \<and> 0 < sid \<and>
        server_tools sid tools = [c])"

lemma least_hit_first:
  assumes "short_name_hits tools n \<noteq> {}"
  shows "least_hit tools n c \<longleftrightarrow> c = snd (first_cand (tool_hits tools n))"
proof -
  have ne: "tool_hits tools n \<noteq> []" using assms set_tool_hits [of tools n] by auto
  obtain sid d where fc: "first_cand (tool_hits tools n) = (sid, d)" by fastforce
  have i: "(sid, d) \<in> short_name_hits tools n"
    using first_cand_in [OF ne] by (simp add: fc set_tool_hits)
  have l: "sid < sid' \<or> sid = sid' \<and> d \<le> c'" if "(sid', c') \<in> short_name_hits tools n" for sid' c'
    using first_cand_least [of "(sid', c')" "tool_hits tools n"] that
    by (auto simp: fc set_tool_hits cand_less_def not_less split: if_splits)
  have "least_hit tools n d" unfolding least_hit_def using i l by blast
  moreover have "c = d" if "least_hit tools n c"
    using that i l unfolding least_hit_def by fastforce
  ultimately show ?thesis using fc by auto
qed

lemma only_tool_recovered:
  "only_tool_of_server (gp_Tools g) n c \<longleftrightarrow> map_option fst (TryRecoverSingleMCPServerToolAlias (Some g) n) = Some c"
  using TryRecover_Some_iff [of g n c] by (auto simp: only_tool_of_server_def)

lemma ResolveDeclaredToolName_Some:
  "ResolveDeclaredToolName (Some g) raw = Some c \<longleftrightarrow>
     (let n = NormalizeToolName raw; tools = gp_Tools g in
      n \<noteq> [] \<and>
      (if n \<in> AllowedToolNameSet tools then c = n
       else if short_name_hits tools n \<noteq> {} then least_hit tools n c
       else only_tool_of_server tools n c))"
proof -
  have "tool_hits tools n = [] \<longleftrightarrow> short_name_hits tools n = {}" for tools n
    by (metis set_empty set_tool_hits)
  then show ?thesis
    by (auto simp: ResolveDeclaredToolName_def Let_def least_hit_first only_tool_recovered)
qed

lemma least_hit_declared: "least_hit tools n c \<Longrightarrow> c \<in> AllowedToolNameSet tools"
  by (auto simp: least_hit_def short_name_hits_def)

lemma only_tool_declared: "only_tool_of_server tools n c \<Longrightarrow> c \<in> AllowedToolNameSet tools"
  using server_tools_single by (auto simp: only_tool_of_server_def)

lemma ResolveDeclaredToolName_declared:
  "ResolveDeclaredToolName (Some g) raw = Some c \<Longrightarrow> c \<in> AllowedToolNameSet (gp_Tools g)"
  using least_hit_declared only_tool_declared
  by (auto simp: ResolveDeclaredToolName_Some Let_def split: if_splits)

definition call_resolves :: "GenerationParams option \<Rightarrow> CohereActionRow \<Rightarrow> ExecutableToolCall \<Rightarrow> bool" where
  "call_resolves gp row c \<longleftrightarrow>
     et_RequestedName c = ca_ToolName row \<and> et_Parameters c = ca_Parameters row \<and>
     ResolveDeclaredToolName gp (ca_ToolName row) = Some (et_ResolvedName c)"

lemma call_resolves_iff:
  "ResolveDeclaredToolName gp (ca_ToolName row) = Some r \<Longrightarrow>
     call_resolves gp row c \<longleftrightarrow>
       c = \<lparr>et_RequestedName = ca_ToolName row, et_ResolvedName = r, et_Parameters = ca_Parameters row\<rparr>"
  by (cases c) (auto simp: call_resolves_def)

lemma ResolveExecutableToolCalls_Inr:
  "ResolveExecutableToolCalls gp rows = Inr calls \<longleftrightarrow> list_all2 (call_resolves gp) rows calls"
proof (induction rows arbitrary: calls)
  case (Cons row rows)
  show ?case
  proof (cases "ResolveDeclaredToolName gp (ca_ToolName row)")
    case None
    then show ?thesis by (auto simp: list_all2_Cons1 call_resolves_def)
  next
    case (Some r)
    show ?thesis
      by (cases "ResolveExecutableToolCalls gp rows")
        (auto simp: list_all2_Cons1 call_resolves_iff [OF Some] Some Cons.IH [symmetric])
  qed
qed (auto split: list.splits)


section \<open>Bounds and streams\<close>

lemma RuneCount_truncated_note: "RuneCount truncated_note = 14"
  unfolding RuneCount_def truncated_note_def
  by (subst runes_utf8) (simp_all add: valid_rune_def)

lemma RuneCount_TruncateToolResult:
  "RuneCount (TruncateToolResult s) = (if RuneCount s \<le> 8000 then RuneCount s else 8014)"
  by (simp add: TruncateToolResult_def MaxToolResultRunes_def RuneCount_take_append RuneCount_truncated_note)

text \<open>
  Whatever a tool, a runner or a session asks for, a tool's text for the model has at most 8014
  runes, a message takes between 1 and 128 rounds of tools, and one tool gets between 30 seconds and
  5 minutes.
\<close>

theorem tool_limits:
  "RuneCount (TruncateToolResult s) \<le> 8014 \<and> RuneCount (ErrorToolMessage call err partialResult late) \<le> 8014 \<and>
   MaxToolInvocationRounds_of reg \<in> {1..128} \<and>
   ToolExecutionDuration t \<in> {30 * go_second..300 * go_second}"
  by (auto simp: ErrorToolMessage_def RuneCount_TruncateToolResult MaxToolInvocationRounds_of_def Let_def
      DefaultToolLoopRounds_def MaxToolLoopRoundsCap_def ToolExecutionDuration_def
      DefaultToolExecSeconds_def MinToolExecSeconds_def MaxToolExecSeconds_def)

text \<open>The chunks that carry something, and those of them that the consumer gets.\<close>

definition solid_chunk :: "LLMStreamChunk \<Rightarrow> bool" where
  "solid_chunk c \<longleftrightarrow> ch_Content c \<noteq> [] \<or> ch_ReasoningContent c \<noteq> []"

fun until_refused :: "(LLMStreamChunk \<Rightarrow> bool) \<Rightarrow> LLMStreamChunk list \<Rightarrow> LLMStreamChunk list" where
  "until_refused ok [] = []"
| "until_refused ok (c # cs) = c # (if ok c then until_refused ok cs else [])"

lemma Drain_records:
  "DrainLLMStreamChannelForward (\<lambda>c got. (ok c, got @ [c])) ch b streamed got =
     (b @ concat (map ch_Content ch), streamed \<or> list_ex solid_chunk ch,
      got @ until_refused ok (filter solid_chunk ch))"
  by (induction ch arbitrary: b streamed got) (auto simp: Let_def solid_chunk_def)

lemma until_refused_prefix: "\<exists>rest. cs = until_refused ok cs @ rest"
  by (induction cs) auto

text \<open>
  Draining a stream of the model loses no text: it returns the whole text of the stream, even
  when the consumer stops taking chunks, and the consumer gets the chunks that carry something, in
  their order, up to the first that it refuses.
\<close>

theorem drain_keeps_text:
  "DrainLLMStreamChannelForward (\<lambda>c got. (ok c, got @ [c])) ch [] False [] =
     (concat (map ch_Content ch), list_ex solid_chunk ch, until_refused ok (filter solid_chunk ch))"
  by (simp add: Drain_records)

end
