(* ===== verification/LlmClient.thy ===== *)
theory LlmClient
  imports RunnerPool RunnerResolve CircuitBreaker RequestQueue SseStream
begin

text \<open>
  The client of the runners, \<open>pkg/llmclient/client.go\<close>: what a request goes through between the
  handlers and the pool. It waits for a slot of the request queue, goes to the runners whose circuit
  lets it through, one after the other, tells the breaker how each went, and gives the slot back when
  it fails or when the goroutine that forwards its stream ends. A \<open>Service\<close> is one that
  \<open>New\<close> has made: its registry is that of its pool and neither is nil, so the guards against nil
  are left out. Every call has an environment of its own: the clock, the runners and the callers'
  contexts as it meets them.
\<close>

section \<open>The service\<close>

record Service =
  ll_pool :: Pool
  ll_breaker :: "Breaker option"
  ll_retries :: int
  ll_streams :: SseRegistry
  ll_queue :: "Queue option"

record ReliabilityOptions =
  ro_RunnerRetries :: int
  ro_CircuitBreakerFailures :: int
  ro_CircuitBreakerCooldown :: duration
  ro_MaxConcurrentRequests :: int
  ro_QueueWaitTimeout :: duration

datatype llm_error =
    RunnersRequired
  | QueueTimedOut
  | QueueGaveUp
  | PoolFailed pool_error
  | CallerEnded
  | LmRunnerUnavailable
  | NoEnabledRunner
  | RunnerModelNotLoaded
  | NoRunnerToProbe
  | AddressEmpty

definition llm_New :: "RunnerState list \<Rightarrow> ReliabilityOptions \<Rightarrow> duration \<Rightarrow> llm_error + Service" where
  "llm_New runnerStates rel ttl =
     (if runnerStates = [] then Inl RunnersRequired
      else Inr \<lparr>ll_pool = NewPool (NewRegistry runnerStates),
                ll_breaker = Some (breaker_New (ro_CircuitBreakerFailures rel) (ro_CircuitBreakerCooldown rel)),
                ll_retries = ro_RunnerRetries rel,
                ll_streams = sse_NewRegistry ttl,
                ll_queue = Some (queue_New (ro_MaxConcurrentRequests rel) (ro_QueueWaitTimeout rel))\<rparr>)"

text \<open>Every branch of \<open>mapPoolError\<close> returns the error it got.\<close>

definition mapPoolError :: "llm_error \<Rightarrow> llm_error" where
  "mapPoolError e = e"

definition CircuitSnapshot :: "time \<Rightarrow> Service \<Rightarrow> (string \<rightharpoonup> string)" where
  "CircuitSnapshot now s = breaker_Snapshot now (ll_breaker s)"

section \<open>The choice of runners\<close>

text \<open>\<open>now j\<close> is the clock at the question to the breaker about the \<open>j\<close>-th address.\<close>

fun allowed_from :: "(nat \<Rightarrow> time) \<Rightarrow> nat \<Rightarrow> string list \<Rightarrow> Breaker option \<Rightarrow> string list \<times> Breaker option" where
  "allowed_from now j [] cb = ([], cb)"
| "allowed_from now j (addr # addrs) cb =
     (let (ok, cb1) = breaker_Allow (now j) addr cb; (out, cb2) = allowed_from now (Suc j) addrs cb1
      in (if ok then addr # out else out, cb2))"

definition eligibleRunners :: "(nat \<Rightarrow> time) \<Rightarrow> Service \<Rightarrow> string list \<times> Service" where
  "eligibleRunners now s =
     (let (out, cb) = allowed_from now 0 (GetEnabledAddresses (pl_reg (ll_pool s))) (ll_breaker s)
      in (out, s\<lparr>ll_breaker := cb\<rparr>))"

record StreamMeta =
  RunnerAttempts :: nat
  RunnerAddr :: string

text \<open>
  The world of one request: the wait for a slot; for the attempt \<open>i\<close> the runner as it answers,
  the outcome of the call, the two readings of the clock at a failure and whether the caller's
  context has ended after it; and the pool's own choice, where no runner is allowed.
\<close>

record send_env =
  se_wait :: wait_env
  se_now :: "nat \<Rightarrow> time"
  se_backend :: "nat \<Rightarrow> backend"
  se_sent :: "nat \<Rightarrow> client_error option"
  se_fail1 :: "nat \<Rightarrow> time"
  se_fail2 :: "nat \<Rightarrow> time"
  se_ended :: "nat \<Rightarrow> bool"
  se_pick :: pool_env
  se_pick_sent :: "string \<Rightarrow> client_error option"

text \<open>A stream that has started is the address and the counter of its request in the pool.\<close>

type_synonym started_stream = "string \<times> nat"

fun retry_from ::
  "send_env \<Rightarrow> string list \<Rightarrow> nat \<Rightarrow> nat \<Rightarrow> pool_error option \<Rightarrow> Service \<Rightarrow> (llm_error + StreamMeta \<times> started_stream) \<times> Service" where
  "retry_from env addrs 0 i lastErr s =
     (case lastErr of
        Some e \<Rightarrow> (Inl (mapPoolError (PoolFailed e)), s)
      | None \<Rightarrow> (Inl LmRunnerUnavailable, s))"
| "retry_from env addrs (Suc n) i lastErr s =
     (let addr = addrs ! (i mod length addrs) in
      case SendMessageOnRunner (se_backend env i) (se_sent env i) addr (ll_pool s) of
        (Inr st, p) \<Rightarrow>
          (Inr (\<lparr>RunnerAttempts = i, RunnerAddr = addr\<rparr>, st),
           s\<lparr>ll_pool := p, ll_breaker := breaker_RecordSuccess addr (ll_breaker s)\<rparr>)
      | (Inl e, p) \<Rightarrow>
          let s1 = s\<lparr>ll_pool := p,
                     ll_breaker := breaker_RecordFailure (se_fail1 env i) (se_fail2 env i) addr (ll_breaker s)\<rparr>
          in if se_ended env i then (Inl CallerEnded, s1) else retry_from env addrs n (Suc i) (Some e) s1)"

definition attempts_of :: "int \<Rightarrow> string list \<Rightarrow> nat" where
  "attempts_of retries addrs =
     (if 0 < retries \<and> retries < int (length addrs) then nat retries else length addrs)"

definition sendMessageWithRetry :: "send_env \<Rightarrow> Service \<Rightarrow> (llm_error + StreamMeta \<times> started_stream) \<times> Service" where
  "sendMessageWithRetry env s =
     (let (addrs, s1) = eligibleRunners (se_now env) s in
      if addrs = [] then
        (case pool_SendMessage (se_pick env) (se_pick_sent env) (ll_pool s1) of
           (Inl e, p) \<Rightarrow> (Inl (mapPoolError (PoolFailed e)), s1\<lparr>ll_pool := p\<rparr>)
         | (Inr st, p) \<Rightarrow> (Inr (\<lparr>RunnerAttempts = 0, RunnerAddr = []\<rparr>, st), s1\<lparr>ll_pool := p\<rparr>))
      else retry_from env addrs (attempts_of (ll_retries s1) addrs) 0 None s1)"

section \<open>Requests\<close>

text \<open>A call waits, fails, or leaves a stream running; only a stream holds a slot.\<close>

datatype 'a send_result = Waiting | Failed llm_error | Streaming 'a

definition release_slot :: "Service \<Rightarrow> Service" where
  "release_slot s = s\<lparr>ll_queue := queue_Release (ll_queue s)\<rparr>"

definition with_slot :: "wait_env \<Rightarrow> (Service \<Rightarrow> (llm_error + 'a) \<times> Service) \<Rightarrow> Service \<Rightarrow> 'a send_result \<times> Service" where
  "with_slot w call s =
     (case queue_Acquire w (ll_queue s) of
        Blocked \<Rightarrow> (Waiting, s)
      | ErrQueueTimeout \<Rightarrow> (Failed QueueTimedOut, s)
      | ErrCanceled \<Rightarrow> (Failed QueueGaveUp, s)
      | Acquired q \<Rightarrow>
          (case call (s\<lparr>ll_queue := q\<rparr>) of
             (Inl e, s1) \<Rightarrow> (Failed e, release_slot s1)
           | (Inr x, s1) \<Rightarrow> (Streaming x, s1)))"

definition SendMessageWithMeta :: "send_env \<Rightarrow> Service \<Rightarrow> (StreamMeta \<times> started_stream) send_result \<times> Service" where
  "SendMessageWithMeta env s = with_slot (se_wait env) (sendMessageWithRetry env) s"

definition llm_SendMessage :: "send_env \<Rightarrow> Service \<Rightarrow> started_stream send_result \<times> Service" where
  "llm_SendMessage env s =
     (case SendMessageWithMeta env s of
        (Streaming (m, st), s1) \<Rightarrow> (Streaming st, s1)
      | (Failed e, s1) \<Rightarrow> (Failed e, s1)
      | (Waiting, s1) \<Rightarrow> (Waiting, s1))"

definition llm_SendMessageOnRunner ::
  "wait_env \<Rightarrow> backend \<Rightarrow> client_error option \<Rightarrow> string \<Rightarrow> Service \<Rightarrow> started_stream send_result \<times> Service" where
  "llm_SendMessageOnRunner w be sent runnerAddr s =
     (let addr = TrimSpace runnerAddr in
      if addr = [] then (Failed AddressEmpty, s)
      else
        with_slot w
          (\<lambda>s1. case SendMessageOnRunner be sent addr (ll_pool s1) of
             (Inl e, p) \<Rightarrow> (Inl (mapPoolError (PoolFailed e)), s1\<lparr>ll_pool := p\<rparr>)
           | (Inr st, p) \<Rightarrow> (Inr st, s1\<lparr>ll_pool := p\<rparr>)) s)"

record CollectResult =
  cr_Content :: string
  cr_Reasoning :: string
  cr_Usage :: "StreamTokenUsage option"

text \<open>The loop over the stream of \<open>CollectMessage\<close>, and what it reports to \<open>onTokens\<close>.\<close>

fun collect_loop :: "LLMStreamChunk list \<Rightarrow> CollectResult \<Rightarrow> CollectResult" where
  "collect_loop [] r = r"
| "collect_loop (c # ch) r =
     collect_loop ch
       \<lparr>cr_Content = (if ch_Content c \<noteq> [] then cr_Content r @ ch_Content c else cr_Content r),
        cr_Reasoning = (if ch_ReasoningContent c \<noteq> [] then cr_Reasoning r @ ch_ReasoningContent c else cr_Reasoning r),
        cr_Usage = (if ch_Usage c \<noteq> None then ch_Usage c else cr_Usage r)\<rparr>"

definition collect_stream :: "LLMStreamChunk list \<Rightarrow> CollectResult" where
  "collect_stream ch = collect_loop ch \<lparr>cr_Content = [], cr_Reasoning = [], cr_Usage = None\<rparr>"

text \<open>What a caller of \<open>CollectMessage\<close> gets, with the stream that the chosen runner sends.\<close>

definition CollectMessage ::
  "send_env \<Rightarrow> LLMStreamChunk list \<Rightarrow> Service \<Rightarrow> CollectResult send_result \<times> started_stream option \<times> Service" where
  "CollectMessage env ch s =
     (case llm_SendMessage env s of
        (Waiting, s1) \<Rightarrow> (Waiting, None, s1)
      | (Failed e, s1) \<Rightarrow> (Failed e, None, s1)
      | (Streaming st, s1) \<Rightarrow> (Streaming (collect_stream ch), Some st, s1))"

section \<open>Readiness\<close>

fun model_ready_from :: "(nat \<Rightarrow> time) \<Rightarrow> (nat \<Rightarrow> backend) \<Rightarrow> nat \<Rightarrow> string list \<Rightarrow> Service \<Rightarrow> llm_error option \<times> Service" where
  "model_ready_from now be j [] s = (Some RunnerModelNotLoaded, s)"
| "model_ready_from now be j (addr # addrs) s =
     (let (ok, cb) = breaker_Allow (now j) addr (ll_breaker s); s1 = s\<lparr>ll_breaker := cb\<rparr> in
      if \<not> ok then model_ready_from now be (Suc j) addrs s1
      else
        case RequireChatModelLoaded (be j) addr (ll_pool s1) of
          (None, p) \<Rightarrow> (None, s1\<lparr>ll_pool := p\<rparr>)
        | (Some e, p) \<Rightarrow> model_ready_from now be (Suc j) addrs (s1\<lparr>ll_pool := p\<rparr>))"

definition ModelReady :: "(nat \<Rightarrow> time) \<Rightarrow> (nat \<Rightarrow> backend) \<Rightarrow> Service \<Rightarrow> llm_error option \<times> Service" where
  "ModelReady now be s =
     (let addrs = GetEnabledAddresses (pl_reg (ll_pool s)) in
      if addrs = [] then (Some NoEnabledRunner, s) else model_ready_from now be 0 addrs s)"

text \<open>The entries of the enabled runners, each probed through the pool in turn.\<close>

fun probe_entries :: "(string \<Rightarrow> backend) \<Rightarrow> RunnerInfo list \<Rightarrow> Pool \<Rightarrow> ResolveEntry list \<times> Pool" where
  "probe_entries be [] p = ([], p)"
| "probe_entries be (r # rs) p =
     (let addr = TrimSpace (ri_Address r) in
      if \<not> ri_Enabled r \<or> addr = [] then probe_entries be rs p
      else
        let (pr, p1) = ProbeLLMRunner (be addr) addr p; (es, p2) = probe_entries be rs p1
        in (\<lparr>re_ID = ri_ID r, re_Address = addr, re_Name = TrimSpace (ri_Name r),
             re_SelectedModel = TrimSpace (ri_SelectedModel r), re_Enabled = True,
             re_Connected = rp_Connected pr, re_Probed = True\<rparr> # es, p2))"

fun first_loaded ::
  "(nat \<Rightarrow> time) \<Rightarrow> (nat \<Rightarrow> backend) \<Rightarrow> nat \<Rightarrow> ResolveEntry list \<Rightarrow> Service \<Rightarrow> (RunnerProbeResult \<times> string) option \<times> Service" where
  "first_loaded now be j [] s = (None, s)"
| "first_loaded now be j (e # es) s =
     (let (ok, cb) = breaker_Allow (now j) (re_Address e) (ll_breaker s); s1 = s\<lparr>ll_breaker := cb\<rparr> in
      if \<not> ok then first_loaded now be (Suc j) es s1
      else if \<not> re_Connected e then first_loaded now be (Suc j) es s1
      else
        let (pr, p) = ProbeLLMRunner (be j) (re_Address e) (ll_pool s1); s2 = s1\<lparr>ll_pool := p\<rparr>
        in case rp_LoadedModel pr of
             Some lm \<Rightarrow> if ls_Loaded lm then (Some (pr, re_Address e), s2) else first_loaded now be (Suc j) es s2
           | None \<Rightarrow> first_loaded now be (Suc j) es s2)"

fun first_allowed ::
  "(nat \<Rightarrow> time) \<Rightarrow> (nat \<Rightarrow> backend) \<Rightarrow> nat \<Rightarrow> ResolveEntry list \<Rightarrow> Service \<Rightarrow> (RunnerProbeResult \<times> string) option \<times> Service" where
  "first_allowed now be j [] s = (None, s)"
| "first_allowed now be j (e # es) s =
     (let (ok, cb) = breaker_Allow (now j) (re_Address e) (ll_breaker s); s1 = s\<lparr>ll_breaker := cb\<rparr> in
      if \<not> ok then first_allowed now be (Suc j) es s1
      else
        let (pr, p) = ProbeLLMRunner (be j) (re_Address e) (ll_pool s1)
        in (Some (pr, re_Address e), s1\<lparr>ll_pool := p\<rparr>))"

definition ProbeBestRunner ::
  "(string \<Rightarrow> backend) \<Rightarrow> (nat \<Rightarrow> time) \<Rightarrow> (nat \<Rightarrow> backend) \<Rightarrow> Service \<Rightarrow> (llm_error + RunnerProbeResult \<times> string) \<times> Service" where
  "ProbeBestRunner be0 now be s =
     (let (entries, p) = probe_entries be0 (ListRunners (pl_reg (ll_pool s))) (ll_pool s); s0 = s\<lparr>ll_pool := p\<rparr> in
      case first_loaded now be 0 entries s0 of
        (Some x, s1) \<Rightarrow> (Inr x, s1)
      | (None, s1) \<Rightarrow>
          (case first_allowed now be (length entries) entries s1 of
             (Some x, s2) \<Rightarrow> (Inr x, s2)
           | (None, s2) \<Rightarrow> (Inl NoRunnerToProbe, s2)))"

definition ChatHints :: "Service \<Rightarrow> RunnerCoreHints" where
  "ChatHints s = AggregateChatHints (pl_reg (ll_pool s))"

text \<open>The calls that go straight to the pool.\<close>

definition on_pool :: "(Pool \<Rightarrow> 'a \<times> Pool) \<Rightarrow> Service \<Rightarrow> 'a \<times> Service" where
  "on_pool call s = (let (r, p) = call (ll_pool s) in (r, s\<lparr>ll_pool := p\<rparr>))"

definition llm_CheckConnection :: "(string \<Rightarrow> backend) \<Rightarrow> Service \<Rightarrow> bool \<times> Service" where
  "llm_CheckConnection be s = on_pool (pool_CheckConnection be) s"

definition llm_GetModels :: "(string \<Rightarrow> backend) \<Rightarrow> (string list \<Rightarrow> string list) \<Rightarrow> Service \<Rightarrow> (pool_error + string list) \<times> Service" where
  "llm_GetModels be order s = on_pool (pool_GetModels be order) s"

definition llm_Embed :: "pool_env \<Rightarrow> string \<Rightarrow> Service \<Rightarrow> (pool_error + float32 list) \<times> Service" where
  "llm_Embed env query s = on_pool (pool_Embed env query) s"

definition llm_Close :: "(string \<Rightarrow> backend) \<Rightarrow> Service \<Rightarrow> string option \<times> Service" where
  "llm_Close be s = on_pool (pool_Close be) s"

section \<open>Runs of the service\<close>

text \<open>
  The state of a run: the service, the requests the pool still counts, and the number of streams whose
  forwarder, which holds a slot, has not ended. The two goroutines of a stream, that of the pool and
  that of the service, end in either order.
\<close>

datatype llm_op =
    LSend send_env
  | LSendOn wait_env backend "client_error option" string
  | LForwarderEnds
  | LPoolEnds nat
  | LReady "nat \<Rightarrow> time" "nat \<Rightarrow> backend"
  | LProbe "string \<Rightarrow> backend" "nat \<Rightarrow> time" "nat \<Rightarrow> backend"
  | LCheck "string \<Rightarrow> backend"
  | LModels "string \<Rightarrow> backend" "string list \<Rightarrow> string list"
  | LEmbed pool_env string
  | LClose "string \<Rightarrow> backend"

type_synonym llm_state = "Service \<times> active \<times> nat"

definition opened :: "active \<Rightarrow> nat \<Rightarrow> started_stream send_result \<times> Service \<Rightarrow> llm_state" where
  "opened act n r = (case r of (Streaming st, s) \<Rightarrow> (s, st # act, Suc n) | (_, s) \<Rightarrow> (s, act, n))"

fun llm_exec :: "llm_op \<Rightarrow> llm_state \<Rightarrow> llm_state" where
  "llm_exec (LSend env) (s, act, n) = opened act n (llm_SendMessage env s)"
| "llm_exec (LSendOn w be sent addr) (s, act, n) = opened act n (llm_SendMessageOnRunner w be sent addr s)"
| "llm_exec LForwarderEnds (s, act, n) = (if n = 0 then (s, act, n) else (release_slot s, act, n - 1))"
| "llm_exec (LPoolEnds k) (s, act, n) =
     (if k < length act then (s\<lparr>ll_pool := finish_request (snd (act ! k)) (ll_pool s)\<rparr>, take k act @ drop (Suc k) act, n)
      else (s, act, n))"
| "llm_exec (LReady now be) (s, act, n) = (snd (ModelReady now be s), act, n)"
| "llm_exec (LProbe be0 now be) (s, act, n) = (snd (ProbeBestRunner be0 now be s), act, n)"
| "llm_exec (LCheck be) (s, act, n) = (snd (llm_CheckConnection be s), act, n)"
| "llm_exec (LModels be order) (s, act, n) = (snd (llm_GetModels be order s), act, n)"
| "llm_exec (LEmbed env query) (s, act, n) = (snd (llm_Embed env query s), act, n)"
| "llm_exec (LClose be) (s, act, n) = (snd (llm_Close be s), act, n)"

definition slots_exact :: "nat \<Rightarrow> Queue option \<Rightarrow> bool" where
  "slots_exact n q \<longleftrightarrow> (\<exists>qu. q = Some qu \<and> queue_inv qu \<and> sem_len qu = n)"

fun llm_inv :: "nat \<Rightarrow> llm_state \<Rightarrow> bool" where
  "llm_inv cap (s, act, n) \<longleftrightarrow>
     slots_exact n (ll_queue s) \<and> queue_Capacity (ll_queue s) = cap \<and> pool_inv (ll_pool s) act"

text \<open>A call that leaves the queue alone and starts at most the one request that it returns.\<close>

definition request_of :: "llm_error + 'a \<times> started_stream \<Rightarrow> pool_error + started_stream" where
  "request_of r = (case r of Inl e \<Rightarrow> Inl ContextEnded | Inr (x, st) \<Rightarrow> Inr st)"

lemma starts_Inl: "starts p (Inl e, q) \<longleftrightarrow> grows p q"
  by (simp add: starts_def)

lemma retry_from_effect:
  "retry_from env addrs n i lastErr s = (r, s') \<Longrightarrow>
     ll_queue s' = ll_queue s \<and> starts (ll_pool s) (request_of r, ll_pool s')"
proof (induction n arbitrary: i lastErr s)
  case 0
  then show ?case by (auto simp: request_of_def starts_Inl split: option.splits)
next
  case (Suc n)
  obtain t p where sm: "SendMessageOnRunner (se_backend env i) (se_sent env i) (addrs ! (i mod length addrs)) (ll_pool s) = (t, p)"
    by fastforce
  have st: "starts (ll_pool s) (t, p)" using starts_SendMessageOnRunner sm by metis
  show ?case
  proof (cases t)
    case (Inr x)
    with Suc.prems sm st show ?thesis by (auto simp: request_of_def Let_def)
  next
    case (Inl e)
    then have g: "grows (ll_pool s) p" using st by (simp add: starts_Inl)
    show ?thesis
    proof (cases "se_ended env i")
      case True
      with Suc.prems sm Inl g show ?thesis by (auto simp: request_of_def starts_Inl Let_def)
    next
      case False
      with Suc.prems sm Inl Suc.IH show ?thesis
        by (auto simp: Let_def intro: starts_after [OF g]) (fastforce intro: starts_after [OF g])+
    qed
  qed
qed

lemma eligibleRunners_same:
  "eligibleRunners now s = (out, s') \<Longrightarrow> \<exists>cb. s' = s\<lparr>ll_breaker := cb\<rparr>"
  by (auto simp: eligibleRunners_def Let_def split: prod.splits)

lemma sendMessageWithRetry_effect:
  assumes "sendMessageWithRetry env s = (r, s')"
  shows "ll_queue s' = ll_queue s \<and> starts (ll_pool s) (request_of r, ll_pool s')"
proof -
  obtain addrs s1 cb where el: "eligibleRunners (se_now env) s = (addrs, s1)" and s1: "s1 = s\<lparr>ll_breaker := cb\<rparr>"
    using eligibleRunners_same by (metis surj_pair)
  show ?thesis
  proof (cases "addrs = []")
    case True
    obtain t p where t: "pool_SendMessage (se_pick env) (se_pick_sent env) (ll_pool s) = (t, p)" by fastforce
    have "starts (ll_pool s) (t, p)" using starts_SendMessage t by metis
    with True assms el s1 t show ?thesis
      by (cases t) (auto simp: sendMessageWithRetry_def request_of_def starts_Inl)
  next
    case False
    with assms el s1 retry_from_effect [of env addrs _ 0 None s1 r s'] show ?thesis
      by (simp add: sendMessageWithRetry_def)
  qed
qed

text \<open>A quiet operation leaves the queue alone and only creates counters.\<close>

definition quiet :: "Service \<Rightarrow> Service \<Rightarrow> bool" where
  "quiet s s' \<longleftrightarrow> ll_queue s' = ll_queue s \<and> grows (ll_pool s) (ll_pool s')"

lemma quiet_trans: "quiet s t \<Longrightarrow> quiet t u \<Longrightarrow> quiet s u"
  by (auto simp: quiet_def intro: grows_trans)

lemma quiet_pool: "grows (ll_pool s) p \<Longrightarrow> quiet s (s\<lparr>ll_breaker := cb, ll_pool := p\<rparr>)"
  by (simp add: quiet_def)

lemma quiet_refl: "quiet s s" "quiet s (s\<lparr>ll_breaker := cb\<rparr>)"
  by (simp_all add: quiet_def)

lemma model_ready_quiet: "quiet s (snd (model_ready_from now be j addrs s))"
proof (induction addrs arbitrary: j s)
  case (Cons a addrs)
  obtain ok cb where al: "breaker_Allow (now j) a (ll_breaker s) = (ok, cb)" by fastforce
  obtain e p where rq: "RequireChatModelLoaded (be j) a (ll_pool s) = (e, p)" by fastforce
  note g = quiet_pool [OF grows_require [OF rq], of cb]
  show ?case
    using al rq g quiet_trans [OF g Cons.IH] quiet_trans [OF quiet_refl(2) Cons.IH]
    by (cases ok; cases e) simp_all
qed (simp add: quiet_def)

lemma ModelReady_quiet: "quiet s (snd (ModelReady now be s))"
  using model_ready_quiet by (simp add: ModelReady_def Let_def quiet_refl)

lemma probe_entries_grows: "grows p (snd (probe_entries be rs p))"
proof (induction rs arbitrary: p)
  case (Cons r rs)
  obtain pr p1 where pr: "ProbeLLMRunner (be (TrimSpace (ri_Address r))) (TrimSpace (ri_Address r)) p = (pr, p1)"
    by fastforce
  then have "grows p p1" using ProbeLLMRunner_grows by (metis snd_conv)
  then show ?case
    using pr Cons.IH [of p1] Cons.IH [of p] by (auto simp: Let_def split: prod.splits intro: grows_trans)
qed simp

lemma probe_step_quiet:
  "ProbeLLMRunner be addr (ll_pool s) = (pr, p) \<Longrightarrow> quiet s (s\<lparr>ll_breaker := cb, ll_pool := p\<rparr>)"
  using ProbeLLMRunner_grows [of "ll_pool s" be addr] by (simp add: quiet_pool)

lemma first_loaded_quiet: "quiet s (snd (first_loaded now be j es s))"
proof (induction es arbitrary: j s)
  case (Cons e es)
  obtain ok cb where al: "breaker_Allow (now j) (re_Address e) (ll_breaker s) = (ok, cb)" by fastforce
  obtain pr p where pr: "ProbeLLMRunner (be j) (re_Address e) (ll_pool s) = (pr, p)" by fastforce
  note g = probe_step_quiet [OF pr, of cb]
  show ?case
    using al pr g quiet_trans [OF g Cons.IH] quiet_trans [OF quiet_refl(2) Cons.IH]
    by (auto simp: Let_def split: option.splits)
qed (simp add: quiet_def)

lemma first_allowed_quiet: "quiet s (snd (first_allowed now be j es s))"
proof (induction es arbitrary: j s)
  case (Cons e es)
  obtain ok cb where al: "breaker_Allow (now j) (re_Address e) (ll_breaker s) = (ok, cb)" by fastforce
  obtain pr p where pr: "ProbeLLMRunner (be j) (re_Address e) (ll_pool s) = (pr, p)" by fastforce
  note g = probe_step_quiet [OF pr, of cb]
  show ?case
    using al pr g quiet_trans [OF quiet_refl(2) Cons.IH] by (auto simp: Let_def)
qed (simp add: quiet_def)

lemma ProbeBestRunner_quiet: "quiet s (snd (ProbeBestRunner be0 now be s))"
proof -
  obtain es p where es: "probe_entries be0 (ListRunners (pl_reg (ll_pool s))) (ll_pool s) = (es, p)" by fastforce
  have 0: "quiet s (s\<lparr>ll_pool := p\<rparr>)"
    using probe_entries_grows [of "ll_pool s" be0 "ListRunners (pl_reg (ll_pool s))"] es by (simp add: quiet_def)
  obtain x s1 where fl: "first_loaded now be 0 es (s\<lparr>ll_pool := p\<rparr>) = (x, s1)" by fastforce
  have 1: "quiet s s1" using quiet_trans [OF 0 first_loaded_quiet [of _ now be 0 es]] fl by (metis snd_conv)
  have 2: "quiet s (snd (first_allowed now be (length es) es s1))"
    by (rule quiet_trans [OF 1 first_allowed_quiet])
  show ?thesis using es fl 1 2 by (auto simp: ProbeBestRunner_def Let_def split: option.splits prod.splits)
qed

lemma quiet_inv: "quiet s s' \<Longrightarrow> llm_inv cap (s, act, n) \<Longrightarrow> llm_inv cap (s', act, n)"
  by (simp add: quiet_def grows_def)

lemma release_slot_exact: "slots_exact n q \<Longrightarrow> slots_exact (n - 1) (queue_Release q)"
  using queue_slots.release_ok by (auto simp: slots_exact_def queue_Release_put_back)

lemma capacity_Release: "queue_Capacity (queue_Release q) = queue_Capacity q"
  by (auto simp: queue_Capacity_def queue_Release_def split: option.split)

lemma acquire_exact:
  assumes "slots_exact n q" and "queue_Acquire w q = Acquired q'"
  shows "slots_exact (Suc n) q' \<and> queue_Capacity q' = queue_Capacity q"
proof -
  obtain qu where q: "q = Some qu" "queue_inv qu" "sem_len qu = n" using assms(1) by (auto simp: slots_exact_def)
  then obtain q1 where "q' = Some q1" "queue_try qu = Some q1" using queue_Acquire_Acquired assms(2) by blast
  with q queue_slots.acquire_Some [of qu q1] show ?thesis by (simp add: slots_exact_def queue_Capacity_def)
qed

text \<open>A bracketed call keeps the invariant: the slot stays taken exactly when a stream is returned.\<close>

lemma with_slot_inv:
  assumes inv: "llm_inv cap (s, act, n)"
    and call: "\<And>s0 r s1. call s0 = (r, s1) \<Longrightarrow>
      ll_queue s1 = ll_queue s0 \<and> starts (ll_pool s0) (case r of Inl e \<Rightarrow> Inl ContextEnded | Inr x \<Rightarrow> Inr (st x), ll_pool s1)"
  shows "case with_slot w call s of
      (Streaming x, s1) \<Rightarrow> llm_inv cap (s1, st x # act, Suc n)
    | (_, s1) \<Rightarrow> llm_inv cap (s1, act, n)"
proof (cases "queue_Acquire w (ll_queue s)")
  case (Acquired q)
  obtain r s1 where r: "call (s\<lparr>ll_queue := q\<rparr>) = (r, s1)" by fastforce
  have ex: "slots_exact (Suc n) q" "queue_Capacity q = cap" and pool: "pool_inv (ll_pool s) act"
    using acquire_exact [OF _ Acquired] inv by auto
  have c: "ll_queue s1 = q"
    "starts (ll_pool s) (case r of Inl e \<Rightarrow> Inl ContextEnded | Inr x \<Rightarrow> Inr (st x), ll_pool s1)"
    using call [OF r] by simp_all
  note si = started_inv(1) [OF c(2) pool]
  show ?thesis
  proof (cases r)
    case (Inl e)
    then show ?thesis
      using Acquired r c(1) ex si release_slot_exact [OF ex(1)]
      by (simp add: with_slot_def release_slot_def started_def capacity_Release)
  next
    case (Inr x)
    then show ?thesis using Acquired r c(1) ex si by (simp add: with_slot_def started_def)
  qed
qed (use inv in \<open>simp_all add: with_slot_def\<close>)

lemma SendMessage_inv:
  assumes "llm_inv cap (s, act, n)"
  shows "llm_inv cap (opened act n (llm_SendMessage env s))"
proof -
  have "case with_slot (se_wait env) (sendMessageWithRetry env) s of
      (Streaming x, s1) \<Rightarrow> llm_inv cap (s1, snd x # act, Suc n) | (_, s1) \<Rightarrow> llm_inv cap (s1, act, n)"
    by (rule with_slot_inv [OF assms])
      (use sendMessageWithRetry_effect in \<open>fastforce simp: request_of_def split: sum.splits prod.splits\<close>)
  then show ?thesis
    by (auto simp: llm_SendMessage_def SendMessageWithMeta_def opened_def split: send_result.splits prod.splits)
qed

lemma SendMessageOnRunner_inv:
  assumes "llm_inv cap (s, act, n)"
  shows "llm_inv cap (opened act n (llm_SendMessageOnRunner w be sent addr s))"
proof (cases "TrimSpace addr = []")
  case True
  then show ?thesis using assms by (simp add: llm_SendMessageOnRunner_def opened_def)
next
  case False
  let ?call = "\<lambda>s1. case SendMessageOnRunner be sent (TrimSpace addr) (ll_pool s1) of
       (Inl e, p) \<Rightarrow> (Inl (mapPoolError (PoolFailed e)), s1\<lparr>ll_pool := p\<rparr>)
     | (Inr st, p) \<Rightarrow> (Inr st, s1\<lparr>ll_pool := p\<rparr>)"
  have "ll_queue s1 = ll_queue s0 \<and> starts (ll_pool s0) (case r of Inl e \<Rightarrow> Inl ContextEnded | Inr x \<Rightarrow> Inr (id x), ll_pool s1)"
    if "?call s0 = (r, s1)" for s0 r s1
    using that starts_SendMessageOnRunner [of "ll_pool s0" be sent "TrimSpace addr"]
    by (auto simp: starts_Inl split: prod.splits sum.splits)
  then have "case with_slot w ?call s of
      (Streaming x, s1) \<Rightarrow> llm_inv cap (s1, id x # act, Suc n) | (_, s1) \<Rightarrow> llm_inv cap (s1, act, n)"
    by (rule with_slot_inv [OF assms])
  moreover have "llm_SendMessageOnRunner w be sent addr s = with_slot w ?call s"
    using False by (simp add: llm_SendMessageOnRunner_def)
  ultimately show ?thesis
    by (cases "with_slot w ?call s"; cases "fst (with_slot w ?call s)") (simp_all add: opened_def)
qed

lemma Embed_inv:
  assumes "pool_inv p act"
  shows "pool_inv (snd (pool_Embed env query p)) act"
proof -
  obtain r q where r: "start_embed env p = (r, q)" by fastforce
  show ?thesis
  proof (cases r)
    case (Inl e)
    then show ?thesis using started_inv(1) [OF starts_embed assms, of env] r by (simp add: pool_Embed_def started_def)
  next
    case (Inr x)
    obtain a i where x: "x = (a, i)" by fastforce
    have "pool_inv q ((a, i) # act)"
      using started_inv(1) [OF starts_embed assms, of env] r Inr x by (simp add: started_def)
    from finished_inv(1) [OF _ this, of 0] show ?thesis using r Inr x by (simp add: pool_Embed_def)
  qed
qed

lemma llm_exec_inv [inv_intros]:
  assumes "llm_inv cap st"
  shows "llm_inv cap (llm_exec op st)"
proof -
  obtain s act n where st: "st = (s, act, n)" by (cases st) auto
  have inv: "slots_exact n (ll_queue s)" "queue_Capacity (ll_queue s) = cap" "pool_inv (ll_pool s) act"
    using assms st by simp_all
  show ?thesis
  proof (cases op)
    case (LSend env)
    then show ?thesis using SendMessage_inv [OF assms [unfolded st]] st by simp
  next
    case (LSendOn w be sent addr)
    then show ?thesis using SendMessageOnRunner_inv [OF assms [unfolded st]] st by simp
  next
    case LForwarderEnds
    then show ?thesis using st inv release_slot_exact [OF inv(1)] by (auto simp: release_slot_def capacity_Release)
  next
    case (LPoolEnds k)
    then show ?thesis using st inv finished_inv(1) [OF _ inv(3)] by simp
  next
    case (LReady now be)
    then show ?thesis using st quiet_inv [OF ModelReady_quiet assms [unfolded st]] by simp
  next
    case (LProbe be0 now be)
    then show ?thesis using st quiet_inv [OF ProbeBestRunner_quiet assms [unfolded st]] by simp
  next
    case (LCheck be)
    then show ?thesis
      using st inv grows_inv(1) [OF quiet_grows(2) inv(3)] by (simp add: llm_CheckConnection_def on_pool_def Let_def split_beta)
  next
    case (LModels be order)
    then show ?thesis
      using st inv grows_inv(1) [OF quiet_grows(3) inv(3)] by (simp add: llm_GetModels_def on_pool_def Let_def split_beta)
  next
    case (LEmbed env query)
    then show ?thesis using st inv Embed_inv [OF inv(3)] by (simp add: llm_Embed_def on_pool_def Let_def split_beta)
  next
    case (LClose be)
    then show ?thesis using st inv pool_Close_inv [OF inv(3)] by (simp add: llm_Close_def on_pool_def Let_def split_beta)
  qed
qed

lemma llm_inv_New:
  assumes "llm_New rs rel ttl = Inr s"
  shows "llm_inv (queue_Capacity (ll_queue s)) (s, [], 0)"
proof -
  have "pool_inv (NewPool reg) []" for reg
    by (simp add: pool_inv_def NewPool_def)
  then show ?thesis
    using assms queue_inv_New
    by (auto simp: llm_New_def slots_exact_def split: if_splits) (simp_all add: queue_New_def)
qed

text \<open>
  C2: Over every sequence of the client's operations - requests that wait, time out, are refused, fail
  at every runner or stream, streams that end, readiness checks, probes, embeddings, closing - the slots
  taken in the request queue are exactly the streams whose forwarder has not ended, never more than the
  capacity, and the load the pool sees at an address is never negative and never above the requests
  running there.
\<close>

theorem service_slots_exact:
  assumes "llm_New rs rel ttl = Inr s0"
  shows "case fold llm_exec ops (s0, [], 0) of (s, act, n) \<Rightarrow>
     queue_InFlight (ll_queue s) = n \<and> n \<le> queue_Capacity (ll_queue s0) \<and>
     0 \<le> in_flight (ll_pool s) addr \<and> in_flight (ll_pool s) addr \<le> running act addr"
proof -
  obtain s act n where f: "fold llm_exec ops (s0, [], 0) = (s, act, n)" by (metis prod_cases3)
  have "llm_inv (queue_Capacity (ll_queue s0)) (fold llm_exec ops (s0, [], 0))"
    by (rule fold_invariant [where P = "llm_inv (queue_Capacity (ll_queue s0))"])
      (use llm_inv_New [OF assms] llm_exec_inv in auto)
  then have q: "slots_exact n (ll_queue s)" "queue_Capacity (ll_queue s) = queue_Capacity (ll_queue s0)"
    and p: "pool_inv (ll_pool s) act" using f by auto
  have "n \<le> queue_Capacity (ll_queue s)" "queue_InFlight (ll_queue s) = n"
    using q(1) queue_slots.within by (auto simp: slots_exact_def queue_InFlight_def queue_Capacity_def)
  then show ?thesis using f q(2) in_flight_le_running [OF p, of addr] by simp
qed

text \<open>A service with one runner, a slot and an environment in which the runner cannot be reached.\<close>

definition one_slot :: ReliabilityOptions where
  "one_slot = \<lparr>ro_RunnerRetries = 2, ro_CircuitBreakerFailures = 1, ro_CircuitBreakerCooldown = 10,
      ro_MaxConcurrentRequests = 1, ro_QueueWaitTimeout = 5\<rparr>"

theorem service_slots_exact_witness:
  "\<exists>s0. llm_New [sample_runner 1 ''a'' True None] one_slot 0 = Inr s0 \<and>
     (case fold llm_exec [LReady (\<lambda>_. 0) (\<lambda>_. sample_backend True 0), LForwarderEnds] (s0, [], 0) of
        (s, act, n) \<Rightarrow> queue_InFlight (ll_queue s) = n \<and> n \<le> 1)"
proof -
  obtain s0 where s0: "llm_New [sample_runner 1 ''a'' True None] one_slot 0 = Inr s0"
    by (simp add: llm_New_def)
  moreover from s0 have "queue_Capacity (ll_queue s0) = 1"
    by (auto simp: llm_New_def one_slot_def queue_New_def queue_Capacity_def)
  ultimately show ?thesis
    using service_slots_exact [OF s0, where addr = "''a''"
        and ops = "[LReady (\<lambda>_. 0) (\<lambda>_. sample_backend True 0), LForwarderEnds]"]
    by (auto split: prod.splits)
qed

section \<open>Retries and the breaker\<close>

lemma Allow_other:
  "addr \<noteq> addr' \<Longrightarrow> fst (breaker_Allow t addr (snd (breaker_Allow t' addr' cb))) = fst (breaker_Allow t addr cb)"
  by (auto simp: breaker_Allow_def split: option.splits)

lemma allowed_from_filter:
  "distinct addrs \<Longrightarrow> fst (allowed_from now j addrs cb) =
     map snd (filter (\<lambda>(j, addr). fst (breaker_Allow (now j) addr cb)) (enumerate j addrs))"
proof (induction addrs arbitrary: j cb)
  case (Cons a addrs)
  let ?cb = "snd (breaker_Allow (now j) a cb)"
  have "filter (\<lambda>(j, addr). fst (breaker_Allow (now j) addr ?cb)) (enumerate (Suc j) addrs) =
      filter (\<lambda>(j, addr). fst (breaker_Allow (now j) addr cb)) (enumerate (Suc j) addrs)"
  proof (rule filter_cong [OF refl])
    fix x assume "x \<in> set (enumerate (Suc j) addrs)"
    then have "snd x \<in> set (map snd (enumerate (Suc j) addrs))" by (metis in_set_conv_nth image_eqI list.set_map)
    then have "snd x \<in> set addrs" by simp
    then have "snd x \<noteq> a" using Cons.prems by auto
    then show "(\<lambda>(j, addr). fst (breaker_Allow (now j) addr ?cb)) x = (\<lambda>(j, addr). fst (breaker_Allow (now j) addr cb)) x"
      by (simp add: Allow_other split_beta)
  qed
  moreover have "fst (allowed_from now (Suc j) addrs ?cb) =
      map snd (filter (\<lambda>(j, addr). fst (breaker_Allow (now j) addr ?cb)) (enumerate (Suc j) addrs))"
    using Cons by simp
  ultimately show ?case by (simp add: Let_def case_prod_unfold)
qed simp

text \<open>The addresses that the breaker lets through, in the order of the registry.\<close>

definition passed :: "(nat \<Rightarrow> time) \<Rightarrow> Service \<Rightarrow> string list" where
  "passed now s =
     map snd (filter (\<lambda>(j, addr). fst (breaker_Allow (now j) addr (ll_breaker s)))
       (enumerate 0 (GetEnabledAddresses (pl_reg (ll_pool s)))))"

definition fails :: "send_env \<Rightarrow> string list \<Rightarrow> nat \<Rightarrow> nat \<Rightarrow> (breaker_op \<times> string) list" where
  "fails env addrs i k = map (\<lambda>j. (OpFailure (se_fail1 env j) (se_fail2 env j), addrs ! j)) [i..<k]"

definition retry_outcome ::
  "send_env \<Rightarrow> string list \<Rightarrow> nat \<Rightarrow> nat \<Rightarrow> nat \<Rightarrow> (llm_error + StreamMeta \<times> started_stream) \<Rightarrow> (breaker_op \<times> string) list \<Rightarrow> bool" where
  "retry_outcome env addrs i n k r es \<longleftrightarrow>
     (case r of
        Inr (m, st) \<Rightarrow> k < n \<and> m = \<lparr>RunnerAttempts = k, RunnerAddr = addrs ! k\<rparr> \<and> fst st = TrimSpace (addrs ! k) \<and>
          es = fails env addrs i k @ [(OpSuccess, addrs ! k)]
      | Inl e \<Rightarrow> es = fails env addrs i k \<and>
          (if k = n \<and> \<not> se_ended env (k - 1) then \<exists>pe. e = PoolFailed pe else se_ended env (k - 1) \<and> e = CallerEnded))"

lemma SendMessageOnRunner_addr:
  "SendMessageOnRunner be sent addr p = (Inr st, p1) \<Longrightarrow> fst st = TrimSpace addr"
  by (auto simp: SendMessageOnRunner_def Let_def split: if_splits prod.splits option.splits sum.splits)

lemma fails_Suc: "i < k \<Longrightarrow>
    fails env addrs i k = (OpFailure (se_fail1 env i) (se_fail2 env i), addrs ! i) # fails env addrs (Suc i) k"
  by (simp add: fails_def upt_conv_Cons)

lemma retry_from_outcome:
  assumes "retry_from env addrs d i lastErr s = (r, s')" and "i + d \<le> length addrs" and "0 < d"
  shows "\<exists>k es. i \<le> k \<and> k \<le> i + d \<and> (k = i \<longrightarrow> (\<exists>x. r = Inr x)) \<and> retry_outcome env addrs i (i + d) k r es \<and>
     ll_breaker s' = breaker_run es (ll_breaker s)"
  using assms
proof (induction d arbitrary: i lastErr s)
  case (Suc d)
  have a: "addrs ! (i mod length addrs) = addrs ! i" using Suc.prems(2) by simp
  obtain t p where sm: "SendMessageOnRunner (se_backend env i) (se_sent env i) (addrs ! i) (ll_pool s) = (t, p)"
    by fastforce
  show ?case
  proof (cases t)
    case (Inr st)
    then have "r = Inr (\<lparr>RunnerAttempts = i, RunnerAddr = addrs ! i\<rparr>, st)"
      "ll_breaker s' = breaker_RecordSuccess (addrs ! i) (ll_breaker s)"
      using Suc.prems(1) sm a by (auto simp: Let_def)
    then show ?thesis
      using SendMessageOnRunner_addr [of _ _ _ _ st p] sm Inr
      by (intro exI [of _ i] exI [of _ "[(OpSuccess, addrs ! i)]"]) (simp add: retry_outcome_def fails_def)
  next
    case (Inl e)
    define s1 where "s1 = s\<lparr>ll_pool := p,
        ll_breaker := breaker_RecordFailure (se_fail1 env i) (se_fail2 env i) (addrs ! i) (ll_breaker s)\<rparr>"
    have f1: "fails env addrs i (Suc i) = [(OpFailure (se_fail1 env i) (se_fail2 env i), addrs ! i)]"
      by (simp add: fails_def)
    show ?thesis
    proof (cases "se_ended env i")
      case True
      then have "r = Inl CallerEnded" "s' = s1" using Suc.prems(1) sm a Inl by (auto simp: Let_def s1_def)
      then show ?thesis
        using True f1
        by (intro exI [of _ "Suc i"] exI [of _ "fails env addrs i (Suc i)"]) (simp add: retry_outcome_def s1_def)
    next
      case False
      then have rec: "retry_from env addrs d (Suc i) (Some e) s1 = (r, s')"
        using Suc.prems(1) sm a Inl by (simp add: Let_def s1_def)
      show ?thesis
      proof (cases d)
        case 0
        then have "r = Inl (PoolFailed e)" "s' = s1" using rec by (simp_all add: mapPoolError_def)
        then show ?thesis
          using False f1 0
          by (intro exI [of _ "Suc i"] exI [of _ "fails env addrs i (Suc i)"]) (simp add: retry_outcome_def s1_def)
      next
        case (Suc d')
        with Suc.IH [OF rec] Suc.prems(2) obtain k es where k: "Suc i \<le> k" "k \<le> i + Suc d"
          "retry_outcome env addrs (Suc i) (i + Suc d) k r es" "ll_breaker s' = breaker_run es (ll_breaker s1)"
          by auto
        let ?es = "(OpFailure (se_fail1 env i) (se_fail2 env i), addrs ! i) # es"
        have "retry_outcome env addrs i (i + Suc d) k r ?es"
          using k(1,3) by (auto simp: retry_outcome_def fails_Suc split: sum.splits if_splits)
        moreover have "ll_breaker s' = breaker_run ?es (ll_breaker s)" using k(4) by (simp add: s1_def)
        ultimately show ?thesis using k(1,2) by (intro exI [of _ k] exI [of _ ?es]) simp
      qed
    qed
  qed
qed simp


definition one_runner :: Service where
  "one_runner = \<lparr>ll_pool = NewPool [(''a'', sample_runner 1 ''a'' True None)], ll_breaker = Some (breaker_New 1 10),
     ll_retries = 2, ll_streams = sse_NewRegistry 0, ll_queue = None\<rparr>"

definition gone_env :: send_env where
  "gone_env = \<lparr>se_wait = live_env, se_now = (\<lambda>_. 0), se_backend = (\<lambda>_. sample_backend False 0), se_sent = (\<lambda>_. None),
     se_fail1 = (\<lambda>_. 1), se_fail2 = (\<lambda>_. 1), se_ended = (\<lambda>_. True), se_pick = sample_env False 0, se_pick_sent = (\<lambda>_. None)\<rparr>"


section \<open>The stream between the runner and the caller\<close>

text \<open>
  Two goroutines stand between a runner's stream and the caller: that of the pool
  (\<open>forwardStream\<close>), which holds the runner's counter, and that of the service
  (\<open>forwardWithQueueRelease\<close>), which holds the slot. Each copies one channel into a new one of
  capacity 100, and gives back what it holds when its input is closed and empty. The caller reads and
  may leave, as \<open>writeRunnerSSE\<close> does when its client is gone.
\<close>

record pipe =
  pi_src :: "LLMStreamChunk list"
  pi_mid :: "LLMStreamChunk list"
  pi_hand :: "LLMStreamChunk option"
  pi_out :: "LLMStreamChunk list"
  pi_got :: "LLMStreamChunk list"
  pi_counted :: bool
  pi_slot :: bool
  pi_gone :: bool

definition pipe_start :: "LLMStreamChunk list \<Rightarrow> pipe" where
  "pipe_start ch = \<lparr>pi_src = ch, pi_mid = [], pi_hand = None, pi_out = [], pi_got = [],
     pi_counted = True, pi_slot = True, pi_gone = False\<rparr>"

inductive pipe_step :: "pipe \<Rightarrow> pipe \<Rightarrow> bool" where
  pool_puts: "pi_src p = c # cs \<Longrightarrow> length (pi_mid p) < 100 \<Longrightarrow>
     pipe_step p (p\<lparr>pi_src := cs, pi_mid := pi_mid p @ [c]\<rparr>)"
| pool_ends: "pi_src p = [] \<Longrightarrow> pi_counted p \<Longrightarrow> pipe_step p (p\<lparr>pi_counted := False\<rparr>)"
| takes: "pi_hand p = None \<Longrightarrow> pi_mid p = c # cs \<Longrightarrow> pipe_step p (p\<lparr>pi_hand := Some c, pi_mid := cs\<rparr>)"
| puts: "pi_hand p = Some c \<Longrightarrow> length (pi_out p) < 100 \<Longrightarrow>
     pipe_step p (p\<lparr>pi_hand := None, pi_out := pi_out p @ [c]\<rparr>)"
| releases: "pi_hand p = None \<Longrightarrow> pi_mid p = [] \<Longrightarrow> \<not> pi_counted p \<Longrightarrow> pi_slot p \<Longrightarrow>
     pipe_step p (p\<lparr>pi_slot := False\<rparr>)"
| reads: "\<not> pi_gone p \<Longrightarrow> pi_out p = c # cs \<Longrightarrow> pipe_step p (p\<lparr>pi_out := cs, pi_got := pi_got p @ [c]\<rparr>)"
| leaves: "\<not> pi_gone p \<Longrightarrow> pipe_step p (p\<lparr>pi_gone := True\<rparr>)"

inductive_cases pipe_stepE: "pipe_step p q"

definition pipe_inv :: "LLMStreamChunk list \<Rightarrow> pipe \<Rightarrow> bool" where
  "pipe_inv ch p \<longleftrightarrow>
     pi_got p @ pi_out p @ (case pi_hand p of None \<Rightarrow> [] | Some c \<Rightarrow> [c]) @ pi_mid p @ pi_src p = ch \<and>
     length (pi_mid p) \<le> 100 \<and> length (pi_out p) \<le> 100 \<and>
     (\<not> pi_counted p \<longrightarrow> pi_src p = []) \<and>
     (\<not> pi_slot p \<longrightarrow> \<not> pi_counted p \<and> pi_hand p = None \<and> pi_mid p = [])"

lemma pipe_inv_start: "pipe_inv ch (pipe_start ch)"
  by (simp add: pipe_inv_def pipe_start_def)

lemma pipe_inv_step [inv_intros]: "pipe_step p q \<Longrightarrow> pipe_inv ch p \<Longrightarrow> pipe_inv ch q"
  by (induction rule: pipe_step.induct) (auto simp: pipe_inv_def)

lemma pipe_inv_reachable: "pipe_step\<^sup>*\<^sup>* (pipe_start ch) p \<Longrightarrow> pipe_inv ch p"
  by (induction rule: rtranclp_induct) (auto intro: pipe_inv_start pipe_inv_step)

text \<open>Every step lowers this measure, so the goroutines and the caller always come to rest.\<close>

definition pipe_work :: "pipe \<Rightarrow> nat" where
  "pipe_work p = 5 * length (pi_src p) + 4 * length (pi_mid p) + (if pi_hand p = None then 0 else 3) + 2 * length (pi_out p) +
     of_bool (pi_counted p) + of_bool (pi_slot p) + of_bool (\<not> pi_gone p)"

lemma pipe_step_work: "pipe_step p q \<Longrightarrow> pipe_work q < pipe_work p"
  by (induction rule: pipe_step.induct) (auto simp: pipe_work_def)

lemma pipe_run_bounded: "(pipe_step ^^ n) p q \<Longrightarrow> n + pipe_work q \<le> pipe_work p"
proof (induction n arbitrary: q)
  case (Suc n)
  then obtain r where "(pipe_step ^^ n) p r" "pipe_step r q" by auto
  then show ?case using Suc.IH [of r] pipe_step_work [of r q] by linarith
qed simp

text \<open>At rest: no step is left but that the caller leaves.\<close>

definition at_rest :: "pipe \<Rightarrow> bool" where
  "at_rest p \<longleftrightarrow> (\<forall>q. pipe_step p q \<longrightarrow> q = p\<lparr>pi_gone := True\<rparr>)"

lemma at_rest_facts:
  assumes "at_rest p"
  shows "pi_src p \<noteq> [] \<Longrightarrow> 100 \<le> length (pi_mid p)"
    and "pi_src p = [] \<Longrightarrow> \<not> pi_counted p"
    and "pi_hand p = None \<Longrightarrow> pi_mid p = []"
    and "pi_hand p \<noteq> None \<Longrightarrow> 100 \<le> length (pi_out p)"
    and "pi_hand p = None \<Longrightarrow> pi_mid p = [] \<Longrightarrow> \<not> pi_counted p \<Longrightarrow> \<not> pi_slot p"
    and "\<not> pi_gone p \<Longrightarrow> pi_out p = []"
proof -
  have no: "pipe_step p q \<Longrightarrow> q = p\<lparr>pi_gone := True\<rparr>" for q using assms by (simp add: at_rest_def)
  show "pi_src p \<noteq> [] \<Longrightarrow> 100 \<le> length (pi_mid p)"
    using no [OF pool_puts] by (cases p; cases "pi_src p") (fastforce simp: not_less)+
  show "pi_src p = [] \<Longrightarrow> \<not> pi_counted p"
    using no [OF pool_ends] by (cases p) fastforce
  show "pi_hand p = None \<Longrightarrow> pi_mid p = []"
    using no [OF takes] by (cases p; cases "pi_mid p") fastforce+
  show "pi_hand p \<noteq> None \<Longrightarrow> 100 \<le> length (pi_out p)"
    using no [OF puts] by (cases p) (fastforce simp: not_less)
  show "pi_hand p = None \<Longrightarrow> pi_mid p = [] \<Longrightarrow> \<not> pi_counted p \<Longrightarrow> \<not> pi_slot p"
    using no [OF releases] by (cases p) fastforce
  show "\<not> pi_gone p \<Longrightarrow> pi_out p = []"
    using no [OF reads] by (cases p; cases "pi_out p") fastforce+
qed

text \<open>
  C14: Every stream comes to rest after at most five steps per chunk and three more. If its caller
  stays, it has then read the whole stream in order, and counter and slot are given back. If the caller
  leaves, the slot is given back exactly when at most 100 chunks were left unread, and the runner's
  counter exactly when at most 201 were: a client that goes away with more pending takes a slot of the
  request queue with it.
\<close>

theorem stream_comes_to_rest:
  assumes "(pipe_step ^^ n) (pipe_start ch) p"
  shows "n \<le> 5 * length ch + 3 \<and> (\<exists>left. ch = pi_got p @ left) \<and>
     (at_rest p \<longrightarrow>
        (if pi_gone p then (pi_slot p \<longleftrightarrow> length (pi_got p) + 100 < length ch) \<and>
            (pi_counted p \<longleftrightarrow> length (pi_got p) + 201 < length ch)
         else pi_got p = ch \<and> \<not> pi_slot p \<and> \<not> pi_counted p))"
proof -
  have inv: "pipe_inv ch p"
    using assms by (intro pipe_inv_reachable) (simp add: relpowp_imp_rtranclp)
  let ?hand = "case pi_hand p of None \<Rightarrow> [] | Some c \<Rightarrow> [c]"
  have ch: "ch = pi_got p @ pi_out p @ ?hand @ pi_mid p @ pi_src p" using inv by (simp add: pipe_inv_def)
  have len: "length ch = length (pi_got p) + length (pi_out p) + length ?hand + length (pi_mid p) + length (pi_src p)"
    by (subst ch) simp
  have caps: "length (pi_mid p) \<le> 100" "length (pi_out p) \<le> 100" and closed: "\<not> pi_counted p \<longrightarrow> pi_src p = []"
    and slot: "\<not> pi_slot p \<longrightarrow> \<not> pi_counted p \<and> pi_hand p = None \<and> pi_mid p = []"
    using inv by (simp_all add: pipe_inv_def)
  have "n \<le> 5 * length ch + 3" using pipe_run_bounded [OF assms] by (simp add: pipe_work_def pipe_start_def)
  moreover have "if pi_gone p then (pi_slot p \<longleftrightarrow> length (pi_got p) + 100 < length ch) \<and>
            (pi_counted p \<longleftrightarrow> length (pi_got p) + 201 < length ch)
         else pi_got p = ch \<and> \<not> pi_slot p \<and> \<not> pi_counted p" if rest: "at_rest p"
  proof (cases "pi_hand p")
    case None
    then have "pi_mid p = []" "pi_src p = []" "\<not> pi_counted p" "\<not> pi_slot p"
      using at_rest_facts [OF rest] by fastforce+
    then show ?thesis using None len ch caps at_rest_facts(6) [OF rest] by auto
  next
    case (Some c)
    then have "length (pi_out p) = 100" "pi_gone p" "pi_slot p"
      using at_rest_facts(4,6) [OF rest] caps slot by fastforce+
    moreover have "pi_counted p \<longleftrightarrow> pi_src p \<noteq> []" using at_rest_facts(2) [OF rest] closed by blast
    ultimately show ?thesis using Some len caps at_rest_facts(1) [OF rest] by (cases "pi_src p") auto
  qed
  ultimately show ?thesis using ch by blast
qed

theorem stream_comes_to_rest_witness:
  "\<exists>p. (pipe_step ^^ 2) (pipe_start []) p \<and> at_rest p \<and> \<not> pi_slot p \<and> \<not> pi_counted p"
proof -
  let ?p = "\<lambda>counted slot. (pipe_start [])\<lparr>pi_counted := counted, pi_slot := slot\<rparr>"
  have "pipe_step (pipe_start []) (?p False True)"
    using pool_ends [of "pipe_start []"] by (simp add: pipe_start_def)
  moreover have "pipe_step (?p False True) (?p False False)"
    using releases [of "?p False True"] by (simp add: pipe_start_def)
  ultimately have run: "(pipe_step ^^ 2) (pipe_start []) (?p False False)"
    by (auto simp: numeral_2_eq_2)
  have rest: "at_rest (?p False False)"
    by (auto simp: at_rest_def pipe_start_def elim!: pipe_stepE)
  show ?thesis
    using stream_comes_to_rest [OF run] run rest by (metis pipe_start_def pipe.select_convs(8) pipe.update_convs(6,7))
qed

end
