(* ===== verification/GoNumbers.thy ===== *)
theory GoNumbers
  imports GoPrelude "HOL-Library.Word"
begin

text \<open>
  Go's narrowing conversions: \<open>int32(x)\<close> of an \<open>int\<close>, which keeps the low 32 bits, and
  \<open>float32(x)\<close> of a \<open>float64\<close>, which rounds to the nearest value, ties to even. Floating-point
  numbers are their bits.
\<close>

definition go_int32 :: "int \<Rightarrow> int" where
  "go_int32 x = signed_take_bit 31 x"

lemma go_int32_id: "- (2 ^ 31) \<le> x \<Longrightarrow> x < 2 ^ 31 \<Longrightarrow> go_int32 x = x"
  by (simp add: go_int32_def signed_take_bit_int_eq_self)

lemma go_int32_bounds: "- (2 ^ 31) \<le> go_int32 x \<and> go_int32 x < 2 ^ 31"
  using signed_take_bit_int_greater_eq_minus_exp [of 31 x] signed_take_bit_int_less_exp [of 31 x]
  by (simp add: go_int32_def)

type_synonym float64 = "64 word"

text \<open>Division by a power of two, rounded to the nearest integer, ties to even.\<close>

definition round_shift :: "nat \<Rightarrow> nat \<Rightarrow> nat" where
  "round_shift sig sh =
     (let q = sig div 2 ^ sh; r = 2 * (sig mod 2 ^ sh)
      in if 2 ^ sh < r \<or> (r = 2 ^ sh \<and> odd q) then q + 1 else q)"

text \<open>A carry out of the fraction goes into the exponent, and out of the largest exponent to infinity.\<close>

definition go_float32 :: "float64 \<Rightarrow> 32 word" where
  "go_float32 w =
     (let n = unat w; s = n div 2 ^ 63; e = (n div 2 ^ 52) mod 2 ^ 11; m = n mod 2 ^ 52 in
      word_of_nat (s * 2 ^ 31 +
        (if e = 2047 then 255 * 2 ^ 23 + (if m = 0 then 0 else 2 ^ 22 + m div 2 ^ 29 mod 2 ^ 22)
         else if 897 \<le> e then min (255 * 2 ^ 23) (round_shift ((e - 896) * 2 ^ 52 + m) 29)
         else if e = 0 then round_shift m 925
         else round_shift (2 ^ 52 + m) (926 - e))))"

text \<open>\<open>x > 0\<close>: not negative, not zero and not a NaN.\<close>

definition float32_pos :: "32 word \<Rightarrow> bool" where
  "float32_pos w \<longleftrightarrow> 0 < unat w \<and> unat w \<le> 255 * 2 ^ 23"

lemma go_float32_examples:
  "go_float32 0x3FB999999999999A = 0x3DCCCCCD" "go_float32 0x3FC999999999999A = 0x3E4CCCCD"
  "go_float32 0x4000000000000000 = 0x40000000" "go_float32 0xBFF0000000000000 = 0xBF800000"
  "go_float32 0x7FEFFFFFFFFFFFFF = 0x7F800000" "go_float32 0 = 0"
  by (simp_all add: go_float32_def round_shift_def)

end
