(* ===== verification/ChatStream.thy ===== *)
theory ChatStream
  imports ChatMessages RunnerClient GoNumbers
begin

text \<open>
  The stream to a client and the view of stored messages, \<open>pkg/chatstream\<close>: the chunks
  (\<open>chunk_types.go\<close>), the forwarding of a model's stream (\<open>forward.go\<close>) and the grouping of
  messages into chains of tool calls (\<open>tool_partition.go\<close>). A float64 is its 64 bits.
\<close>

section \<open>Chunks\<close>

datatype StreamChunkKind =
    StreamChunkKindText
  | StreamChunkKindToolStatus
  | StreamChunkKindNotice
  | StreamChunkKindReasoning
  | StreamChunkKindRAGMeta

record RAGChunkPreview =
  rk_ChunkIndex :: int
  rk_Score :: float64
  rk_IsNeighbor :: bool
  rk_HeadingPath :: string
  rk_PdfPageStart :: int
  rk_PdfPageEnd :: int
  rk_Excerpt :: string

record RAGSourcesPayload =
  rg_Mode :: string
  rg_FileID :: int
  rg_TopK :: int
  rg_NeighborWindow :: int
  rg_DeepRAGMapCalls :: int
  rg_DroppedByBudget :: int
  rg_FullDocumentExcerpt :: string
  rg_Chunks :: "RAGChunkPreview list"

record ChatStreamChunk =
  cs_Kind :: StreamChunkKind
  cs_Text :: string
  cs_ToolName :: string
  cs_MessageID :: int
  cs_RAGMode :: string
  cs_RAGSourcesJSON :: string
  cs_RAGSources :: "RAGSourcesPayload option"

definition stream_chunk :: "StreamChunkKind \<Rightarrow> string \<Rightarrow> ChatStreamChunk" where
  "stream_chunk kind t = \<lparr>cs_Kind = kind, cs_Text = t, cs_ToolName = [], cs_MessageID = 0, cs_RAGMode = [],
     cs_RAGSourcesJSON = [], cs_RAGSources = None\<rparr>"

text \<open>
  Forwarding: \<open>takes k\<close> tells whether the \<open>k\<close>-th send succeeds before the context ends. The
  result is what was sent and the text collected.
\<close>

fun ForwardLLMStreamChunks ::
  "(nat \<Rightarrow> bool) \<Rightarrow> int \<Rightarrow> LLMStreamChunk list \<Rightarrow> ChatStreamChunk list \<Rightarrow> string \<Rightarrow> ChatStreamChunk list \<times> string" where
  "ForwardLLMStreamChunks takes mid [] out content = (out, content)"
| "ForwardLLMStreamChunks takes mid (c # ch) out content =
     (let r = (stream_chunk StreamChunkKindReasoning (ch_ReasoningContent c))\<lparr>cs_MessageID := mid\<rparr>;
          t = (stream_chunk StreamChunkKindText (ch_Content c))\<lparr>cs_MessageID := mid\<rparr>
      in if ch_ReasoningContent c \<noteq> [] \<and> \<not> takes (length out) then (out, content)
         else
           let out1 = (if ch_ReasoningContent c \<noteq> [] then out @ [r] else out)
           in if ch_Content c = [] then ForwardLLMStreamChunks takes mid ch out1 content
              else if \<not> takes (length out1) then (out1, content @ ch_Content c)
              else ForwardLLMStreamChunks takes mid ch (out1 @ [t]) (content @ ch_Content c))"

section \<open>Chains of tool calls\<close>

record ToolSegment =
  ts_LeadIndex :: nat
  ts_ToolStart :: nat
  ts_ToolEnd :: nat

record ToolChainGroup =
  tg_Segments :: "ToolSegment list"
  tg_FinalAssistantIdx :: "nat option"

datatype PartitionElement = SingleIndex nat | Chain ToolChainGroup

definition assistantHasToolCalls :: "Message option \<Rightarrow> bool" where
  "assistantHasToolCalls m \<longleftrightarrow>
     (case m of None \<Rightarrow> False
      | Some msg \<Rightarrow> msg_Role msg = MessageRoleAssistant \<and> TrimSpace (msg_ToolCallsJSON msg) \<noteq> [])"

definition is_tool_message :: "Message option \<Rightarrow> bool" where
  "is_tool_message m \<longleftrightarrow> (case m of None \<Rightarrow> False | Some msg \<Rightarrow> msg_Role msg = MessageRoleTool)"

definition is_assistant :: "Message option \<Rightarrow> bool" where
  "is_assistant m \<longleftrightarrow> (case m of None \<Rightarrow> False | Some msg \<Rightarrow> msg_Role msg = MessageRoleAssistant)"

text \<open>The loop that walks over the tool messages from \<open>te\<close> on.\<close>

function tools_end :: "messages \<Rightarrow> nat \<Rightarrow> nat" where
  "tools_end msgs te = (if te < length msgs \<and> is_tool_message (msgs ! te) then tools_end msgs (Suc te) else te)"
  by pat_completeness auto
termination tools_end by (relation "measure (\<lambda>(msgs, te). length msgs - te)") auto

declare tools_end.simps [simp del]

lemma tools_end_ge: "te \<le> tools_end msgs te"
proof (induction msgs te rule: tools_end.induct)
  case (1 msgs te)
  then show ?case by (subst tools_end.simps) auto
qed

function consume_from :: "messages \<Rightarrow> nat \<Rightarrow> nat \<Rightarrow> ToolSegment list \<Rightarrow> ToolChainGroup option \<times> nat" where
  "consume_from msgs start cur segs =
     (if length msgs \<le> cur \<or> \<not> assistantHasToolCalls (msgs ! cur) then
        (if segs = [] then (None, start + 1)
         else (Some \<lparr>tg_Segments = segs, tg_FinalAssistantIdx = None\<rparr>, cur))
      else
        let te = tools_end msgs (cur + 1) in
        if te = cur + 1 then
          (if segs = [] then (None, cur + 1)
           else (Some \<lparr>tg_Segments = segs, tg_FinalAssistantIdx = None\<rparr>, cur))
        else
          let segs1 = segs @ [\<lparr>ts_LeadIndex = cur, ts_ToolStart = cur + 1, ts_ToolEnd = te - 1\<rparr>] in
          if length msgs \<le> te then (Some \<lparr>tg_Segments = segs1, tg_FinalAssistantIdx = None\<rparr>, length msgs)
          else if \<not> is_assistant (msgs ! te) then (Some \<lparr>tg_Segments = segs1, tg_FinalAssistantIdx = None\<rparr>, te)
          else if assistantHasToolCalls (msgs ! te) then consume_from msgs start te segs1
          else (Some \<lparr>tg_Segments = segs1, tg_FinalAssistantIdx = Some te\<rparr>, te + 1))"
  by pat_completeness auto
termination consume_from
proof (relation "measure (\<lambda>(msgs, start, cur, segs). length msgs - cur)")
  show "((msgs, start, te, segs1), (msgs, start, cur, segs)) \<in> measure (\<lambda>(msgs, start, cur, segs). length msgs - cur)"
    if "te = tools_end msgs (cur + 1)" "\<not> length msgs \<le> te" for msgs start te segs1 cur and segs :: "ToolSegment list"
    using that tools_end_ge [of "cur + 1" msgs] by auto
qed simp

declare consume_from.simps [simp del]

definition consumeToolChain :: "messages \<Rightarrow> nat \<Rightarrow> ToolChainGroup option \<times> nat" where
  "consumeToolChain msgs start = consume_from msgs start start []"

text \<open>Where a chain ends: after its start.\<close>

lemma consume_from_next:
  assumes "if segs = [] then cur = start else start < cur"
  shows "start < snd (consume_from msgs start cur segs)"
  using assms
proof (induction msgs start cur segs rule: consume_from.induct)
  case (1 msgs start cur segs)
  define te where "te = tools_end msgs (cur + 1)"
  define segs1 where "segs1 = segs @ [\<lparr>ts_LeadIndex = cur, ts_ToolStart = cur + 1, ts_ToolEnd = te - 1\<rparr>]"
  have te: "cur + 1 \<le> te" by (simp only: te_def tools_end_ge)
  have "start \<le> cur" using 1(2) by (auto split: if_splits)
  then have lt: "start < te" using te by simp
  show ?case
  proof (cases "length msgs \<le> cur \<or> \<not> assistantHasToolCalls (msgs ! cur) \<or> te = cur + 1 \<or> length msgs \<le> te \<or>
      \<not> is_assistant (msgs ! te) \<or> \<not> assistantHasToolCalls (msgs ! te)")
    case True
    then show ?thesis
      using 1(2) te lt \<open>start \<le> cur\<close> unfolding consume_from.simps [of msgs start cur segs] Let_def te_def [symmetric]
      by (auto split: if_splits)
  next
    case False
    then have "consume_from msgs start cur segs = consume_from msgs start te segs1"
      unfolding consume_from.simps [of msgs start cur segs] Let_def te_def [symmetric] segs1_def by simp
    moreover have "start < snd (consume_from msgs start te segs1)"
      using False lt by (intro 1(1)) (auto simp: te_def segs1_def)
    ultimately show ?thesis by simp
  qed
qed

function partition_from :: "messages \<Rightarrow> nat \<Rightarrow> PartitionElement list" where
  "partition_from msgs i =
     (if length msgs \<le> i then []
      else if \<not> assistantHasToolCalls (msgs ! i) then SingleIndex i # partition_from msgs (i + 1)
      else
        case consumeToolChain msgs i of
          (None, nxt) \<Rightarrow> SingleIndex i # partition_from msgs nxt
        | (Some g, nxt) \<Rightarrow> Chain g # partition_from msgs nxt)"
  by pat_completeness auto
termination partition_from
proof (relation "measure (\<lambda>(msgs, i). length msgs - i)", goal_cases)
  case (3 msgs i g nxt)
  then have "i < nxt" using consume_from_next [of "[]" i i msgs] by (metis consumeToolChain_def snd_conv)
  then show ?case using 3 by auto
next
  case (4 msgs i g nxt x)
  then have "i < nxt" using consume_from_next [of "[]" i i msgs] by (metis consumeToolChain_def snd_conv)
  then show ?case using 4 by auto
qed auto

declare partition_from.simps [simp del]

definition PartitionMessagesForToolChainUI :: "messages \<Rightarrow> PartitionElement list" where
  "PartitionMessagesForToolChainUI msgs = partition_from msgs 0"

section \<open>The chains are exact\<close>

lemma upt_split: "i \<le> j \<Longrightarrow> j \<le> k \<Longrightarrow> [i..<j] @ [j..<k] = [i..<k]"
  using upt_add_eq_append [of i j "k - j"] by simp

definition segment_indices :: "ToolSegment \<Rightarrow> nat list" where
  "segment_indices s = [ts_LeadIndex s..<Suc (ts_ToolEnd s)]"

definition chain_indices :: "ToolSegment list \<Rightarrow> nat option \<Rightarrow> nat list" where
  "chain_indices segs fin = concat (map segment_indices segs) @ (case fin of None \<Rightarrow> [] | Some f \<Rightarrow> [f])"

fun element_indices :: "PartitionElement \<Rightarrow> nat list" where
  "element_indices (SingleIndex i) = [i]"
| "element_indices (Chain g) = chain_indices (tg_Segments g) (tg_FinalAssistantIdx g)"

definition segment_ok :: "messages \<Rightarrow> ToolSegment \<Rightarrow> bool" where
  "segment_ok msgs s \<longleftrightarrow>
     assistantHasToolCalls (msgs ! ts_LeadIndex s) \<and> ts_ToolStart s = ts_LeadIndex s + 1 \<and>
     ts_ToolStart s \<le> ts_ToolEnd s \<and> ts_ToolEnd s < length msgs \<and>
     (\<forall>j. ts_ToolStart s \<le> j \<and> j \<le> ts_ToolEnd s \<longrightarrow> is_tool_message (msgs ! j)) \<and>
     (ts_ToolEnd s + 1 < length msgs \<longrightarrow> \<not> is_tool_message (msgs ! (ts_ToolEnd s + 1)))"

definition group_ok :: "messages \<Rightarrow> ToolChainGroup \<Rightarrow> bool" where
  "group_ok msgs g \<longleftrightarrow>
     tg_Segments g \<noteq> [] \<and> list_all (segment_ok msgs) (tg_Segments g) \<and>
     (case tg_FinalAssistantIdx g of None \<Rightarrow> True
      | Some f \<Rightarrow> f < length msgs \<and> is_assistant (msgs ! f) \<and> \<not> assistantHasToolCalls (msgs ! f))"

fun element_ok :: "messages \<Rightarrow> PartitionElement \<Rightarrow> bool" where
  "element_ok msgs (SingleIndex i) \<longleftrightarrow>
     (assistantHasToolCalls (msgs ! i) \<longrightarrow> Suc i = length msgs \<or> \<not> is_tool_message (msgs ! Suc i))"
| "element_ok msgs (Chain g) \<longleftrightarrow> group_ok msgs g"

lemma tools_end_exact:
  "te \<le> length msgs \<Longrightarrow> tools_end msgs te \<le> length msgs \<and>
     (\<forall>j. te \<le> j \<and> j < tools_end msgs te \<longrightarrow> is_tool_message (msgs ! j)) \<and>
     (tools_end msgs te < length msgs \<longrightarrow> \<not> is_tool_message (msgs ! tools_end msgs te))"
proof (induction msgs te rule: tools_end.induct)
  case (1 msgs te)
  show ?case
  proof (cases "te < length msgs \<and> is_tool_message (msgs ! te)")
    case True
    then have e: "tools_end msgs te = tools_end msgs (Suc te)" by (subst tools_end.simps) simp
    have "is_tool_message (msgs ! j)" if "te \<le> j" "j < tools_end msgs (Suc te)" for j
      using that 1 True by (cases "j = te") auto
    then show ?thesis using 1 True unfolding e by auto
  next
    case False
    then have "tools_end msgs te = te" by (subst tools_end.simps) auto
    then show ?thesis using False 1(2) by auto
  qed
qed

definition chain_result :: "messages \<Rightarrow> nat \<Rightarrow> nat \<Rightarrow> ToolSegment list \<Rightarrow> ToolChainGroup option \<times> nat \<Rightarrow> bool" where
  "chain_result msgs start cur segs r \<longleftrightarrow>
     (case r of
        (None, nxt) \<Rightarrow> segs = [] \<and> nxt = start + 1 \<and>
          (Suc cur = length msgs \<or> \<not> is_tool_message (msgs ! Suc cur))
      | (Some g, nxt) \<Rightarrow> group_ok msgs g \<and> nxt \<le> length msgs \<and> cur \<le> nxt \<and>
          chain_indices (tg_Segments g) (tg_FinalAssistantIdx g) = chain_indices segs None @ [cur..<nxt])"

lemma consume_from_result:
  assumes "cur < length msgs" and "assistantHasToolCalls (msgs ! cur)" and "list_all (segment_ok msgs) segs"
    and "segs = [] \<Longrightarrow> cur = start"
  shows "chain_result msgs start cur segs (consume_from msgs start cur segs)"
  using assms
proof (induction msgs start cur segs rule: consume_from.induct)
  case (1 msgs start cur segs)
  define te where "te = tools_end msgs (cur + 1)"
  define seg where "seg = \<lparr>ts_LeadIndex = cur, ts_ToolStart = cur + 1, ts_ToolEnd = te - 1\<rparr>"
  have ge: "cur + 1 \<le> te" by (simp only: te_def tools_end_ge)
  have te: "te \<le> length msgs" "\<And>j. cur + 1 \<le> j \<Longrightarrow> j < te \<Longrightarrow> is_tool_message (msgs ! j)"
    "te < length msgs \<Longrightarrow> \<not> is_tool_message (msgs ! te)"
    using tools_end_exact [of "cur + 1" msgs] 1(2) by (auto simp: te_def)
  have eq: "consume_from msgs start cur segs =
     (if te = cur + 1 then
        (if segs = [] then (None, cur + 1) else (Some \<lparr>tg_Segments = segs, tg_FinalAssistantIdx = None\<rparr>, cur))
      else if length msgs \<le> te then (Some \<lparr>tg_Segments = segs @ [seg], tg_FinalAssistantIdx = None\<rparr>, length msgs)
      else if \<not> is_assistant (msgs ! te) then (Some \<lparr>tg_Segments = segs @ [seg], tg_FinalAssistantIdx = None\<rparr>, te)
      else if assistantHasToolCalls (msgs ! te) then consume_from msgs start te (segs @ [seg])
      else (Some \<lparr>tg_Segments = segs @ [seg], tg_FinalAssistantIdx = Some te\<rparr>, te + 1))"
    using 1(2,3) unfolding consume_from.simps [of msgs start cur segs] Let_def te_def [symmetric] seg_def by simp
  show ?case
  proof (cases "te = cur + 1")
    case True
    then show ?thesis
      using eq 1(2-5) te(1,3) by (auto simp: chain_result_def group_ok_def chain_indices_def)
  next
    case False
    then have lt: "cur + 1 < te" using ge by simp
    have ok: "segment_ok msgs seg"
      using 1(3) te lt by (auto simp: segment_ok_def seg_def)
    have ind: "chain_indices (segs @ [seg]) None = chain_indices segs None @ [cur..<te]"
      using lt by (simp add: chain_indices_def segment_indices_def seg_def)
    have snoc: "[cur..<te] @ [te..<n] = [cur..<n]" if "te \<le> n" for n
      using that lt by (simp add: upt_split)
    consider "length msgs \<le> te" | "te < length msgs" "\<not> is_assistant (msgs ! te)"
      | "te < length msgs" "is_assistant (msgs ! te)" "\<not> assistantHasToolCalls (msgs ! te)"
      | "te < length msgs" "is_assistant (msgs ! te)" "assistantHasToolCalls (msgs ! te)" by linarith
    then show ?thesis
    proof cases
      case 1
      then have "te = length msgs" using te(1) by simp
      then show ?thesis using eq False ok ind lt \<open>list_all (segment_ok msgs) segs\<close>
        by (simp add: chain_result_def group_ok_def)
    next
      case 2
      then show ?thesis using eq False ok ind lt \<open>list_all (segment_ok msgs) segs\<close>
        by (simp add: chain_result_def group_ok_def)
    next
      case 3
      have "chain_indices (segs @ [seg]) (Some te) = chain_indices segs None @ [cur..<te + 1]"
        using ind lt by (simp add: chain_indices_def)
      then show ?thesis using 3 eq False ok lt \<open>list_all (segment_ok msgs) segs\<close>
        by (simp add: chain_result_def group_ok_def)
    next
      case 4
      have "chain_result msgs start te (segs @ [seg]) (consume_from msgs start te (segs @ [seg]))"
        using 4 False ok 1(2,3) \<open>list_all (segment_ok msgs) segs\<close>
        by (intro 1(1)) (simp_all add: te_def seg_def)
      moreover have "consume_from msgs start cur segs = consume_from msgs start te (segs @ [seg])"
        using eq 4 False by simp
      ultimately show ?thesis
        using ind lt snoc by (auto simp: chain_result_def split: prod.splits option.splits)
    qed
  qed
qed

lemma partition_from_exact:
  "i \<le> length msgs \<Longrightarrow> concat (map element_indices (partition_from msgs i)) = [i..<length msgs] \<and>
     list_all (element_ok msgs) (partition_from msgs i)"
proof (induction msgs i rule: partition_from.induct)
  case (1 msgs i)
  show ?case
  proof (cases "length msgs \<le> i")
    case True
    then show ?thesis using 1 by (subst (1 2) partition_from.simps) simp
  next
    case lt: False
    show ?thesis
    proof (cases "assistantHasToolCalls (msgs ! i)")
      case False
      then have "partition_from msgs i = SingleIndex i # partition_from msgs (i + 1)"
        using lt by (subst partition_from.simps) simp
      then show ?thesis using 1(1) lt False by (simp add: upt_conv_Cons)
    next
      case True
      obtain g nxt where c: "consumeToolChain msgs i = (g, nxt)" by fastforce
      then have r: "chain_result msgs i i [] (g, nxt)"
        using consume_from_result [of i msgs "[]" i] lt True by (simp add: consumeToolChain_def)
      have "i < nxt" using consume_from_next [of "[]" i i msgs] c by (metis consumeToolChain_def snd_conv)
      show ?thesis
      proof (cases g)
        case None
        then have "partition_from msgs i = SingleIndex i # partition_from msgs nxt"
          using lt True c by (subst partition_from.simps) simp
        moreover have "nxt = i + 1" using r None by (simp add: chain_result_def)
        ultimately show ?thesis
          using 1(2) [OF lt _ c [symmetric] ] r None lt True by (simp add: chain_result_def upt_conv_Cons)
      next
        case (Some grp)
        then have "partition_from msgs i = Chain grp # partition_from msgs nxt"
          using lt True c by (subst partition_from.simps) simp
        moreover have "[i..<nxt] @ [nxt..<length msgs] = [i..<length msgs]"
          using \<open>i < nxt\<close> r Some by (simp add: chain_result_def upt_split)
        ultimately show ?thesis
          using 1(3) [OF lt _ c [symmetric] ] r Some True by (simp add: chain_result_def chain_indices_def)
      qed
    qed
  qed
qed

text \<open>
  The view of the messages loses and doubles none: the elements cover the indices of all messages,
  each once and in order. Every chain consists of answers with calls, each followed by all of its tool
  messages and nothing else, with at most a final answer without calls; an answer with calls stands
  alone only when no tool message follows it.
\<close>

theorem partition_exact:
  "concat (map element_indices (PartitionMessagesForToolChainUI msgs)) = [0..<length msgs] \<and>
   list_all (element_ok msgs) (PartitionMessagesForToolChainUI msgs)"
  using partition_from_exact [of 0 msgs] by (simp add: PartitionMessagesForToolChainUI_def)

end
