(* ===== verification/AgentLoop.thy ===== *)
theory AgentLoop
  imports ToolResolve ChatStream
begin

text \<open>
  The two loops that let a model call tools. \<open>pkg/agent/loop.go\<close> runs a conversation that is
  stored: the model answers, its calls are resolved and run side by side, the results go back to the
  model, until it answers without calls or the rounds are used up. \<open>service/chat_mcp_loop.go\<close> is
  the variant of the chat, which stores nothing and aborts the other calls when one fails. The runner,
  the tools, the store, the client and the cap of the history are the world of a run: what each of them
  answers, by the number of the call. The texts of the errors are an argument, since they quote in the
  way of \<open>%q\<close>. A panic of a tool is not modelled.
\<close>

section \<open>Messages\<close>

definition NewMessage :: "int \<Rightarrow> string \<Rightarrow> string \<Rightarrow> time \<Rightarrow> time \<Rightarrow> Message" where
  "NewMessage sid content role created updated =
     \<lparr>msg_Id = 0, msg_SessionId = sid, msg_Content = content, msg_Role = role, msg_AttachmentName = [],
      msg_AttachmentMime = [], msg_AttachmentFileID = None, msg_AttachmentContent = [], msg_ToolCallID = [],
      msg_ToolName = [], msg_ToolCallsJSON = [], msg_CreatedAt = created, msg_UpdatedAt = updated, msg_DeletedAt = None\<rparr>"

definition MessageCarriesRunnerVisionBytes :: "Message option \<Rightarrow> bool" where
  "MessageCarriesRunnerVisionBytes m =
     (case m of
        None \<Rightarrow> False
      | Some msg \<Rightarrow>
          if msg_AttachmentContent msg = [] then False
          else
            let mt = ToLower (TrimSpace (msg_AttachmentMime msg))
            in if IsAllowedChatImageMIME mt \<or> HasPrefix mt ''image/'' then True
               else mt = [] \<and> IsImageAttachment (msg_AttachmentName msg))"

definition LastUserMessageHasVisionAttachment :: "messages \<Rightarrow> bool" where
  "LastUserMessageHasVisionAttachment ms =
     (case find (\<lambda>m. case m of None \<Rightarrow> False | Some msg \<Rightarrow> msg_Role msg = MessageRoleUser) (rev ms) of
        None \<Rightarrow> False
      | Some m \<Rightarrow> MessageCarriesRunnerVisionBytes m)"

section \<open>The world and the state of a run\<close>

text \<open>An error of a tool is its text and whether it is the end of a deadline.\<close>

type_synonym exec_error = "string \<times> bool"

text \<open>The environment that the executor is called with, \<open>toolloop.LoopEnv\<close>.\<close>

record LoopEnv =
  le_RunnerAddr :: string
  le_ResolvedModel :: string
  le_SamplingModel :: string
  le_StopSequences :: "string list"
  le_TimeoutSeconds :: int
  le_SamplingGen :: GenerationParams
  le_UserTurnHasVisionImage :: bool

datatype agent_error =
    LlmFailed string
  | EmptyAnswer
  | StoreFailed string
  | Unresolved tool_error
  | CapFailed string
  | TooManyRounds int

text \<open>
  A round: the answer of the model; when the goroutine of each tool gets to its first step, whether the
  context of the request has ended then and whether it sees an abort; what the executor answers to the
  \<open>i\<close>-th call; the clock.
\<close>

record round_world =
  rw_answer :: "string + LLMStreamChunk list"
  rw_start :: "nat \<Rightarrow> nat"
  rw_ended :: "nat \<Rightarrow> bool"
  rw_sees_abort :: "nat \<Rightarrow> bool"
  rw_execute :: "nat \<Rightarrow> duration \<Rightarrow> ExecutableToolCall \<Rightarrow> LoopEnv \<Rightarrow> string \<times> exec_error option"
  rw_now :: time

record loop_world =
  lw_rounds :: "nat \<Rightarrow> round_world"
  lw_accepts :: "nat \<Rightarrow> bool"
  lw_create :: "nat \<Rightarrow> string option"
  lw_id :: "nat \<Rightarrow> int"
  lw_ctx_error :: exec_error
  lw_status_refused :: string
  lw_text :: "agent_error \<Rightarrow> string"
  lw_num :: num_printer

record Config =
  cf_SessionID :: int
  cf_RunnerAddr :: string
  cf_SelectedModel :: string
  cf_InitialHistory :: messages
  cf_StopSequences :: "string list"
  cf_TimeoutSeconds :: int
  cf_GenParams :: "GenerationParams option"
  cf_MaxRounds :: int
  cf_SamplingModel :: string
  cf_ToolDisplayName :: "(string \<Rightarrow> string \<Rightarrow> string) option"
  cf_Cap :: "(messages \<Rightarrow> nat \<Rightarrow> string + messages \<times> bool) option"
  cf_Preface :: "ChatStreamChunk list"

text \<open>What a run has done: chunks sent, sends tried, messages stored, creations tried, calls run.\<close>

record loop_state =
  ls_sent :: "ChatStreamChunk list"
  ls_sends :: nat
  ls_stored :: "Message list"
  ls_creates :: nat
  ls_executed :: "ExecutableToolCall list"

definition fresh_state :: loop_state where
  "fresh_state = \<lparr>ls_sent = [], ls_sends = 0, ls_stored = [], ls_creates = 0, ls_executed = []\<rparr>"

definition agent_send :: "loop_world \<Rightarrow> ChatStreamChunk \<Rightarrow> loop_state \<Rightarrow> bool \<times> loop_state" where
  "agent_send w chunk st =
     (let ok = lw_accepts w (ls_sends st)
      in (ok, st\<lparr>ls_sends := Suc (ls_sends st), ls_sent := (if ok then ls_sent st @ [chunk] else ls_sent st)\<rparr>))"

definition sendErr :: "loop_world \<Rightarrow> agent_error \<Rightarrow> loop_state \<Rightarrow> loop_state" where
  "sendErr w e st =
     (let s = lw_text w e
      in snd (agent_send w (stream_chunk StreamChunkKindText (if s = [] then ''error'' else s)) st))"

text \<open>\<open>Store.Create\<close> gives the message its number.\<close>

definition store_create :: "loop_world \<Rightarrow> Message \<Rightarrow> loop_state \<Rightarrow> (string + Message) \<times> loop_state" where
  "store_create w m st =
     (let k = ls_creates st; st1 = st\<lparr>ls_creates := Suc k\<rparr> in
      case lw_create w k of
        Some e \<Rightarrow> (Inl e, st1)
      | None \<Rightarrow> let m1 = m\<lparr>msg_Id := lw_id w k\<rparr> in (Inr m1, st1\<lparr>ls_stored := ls_stored st @ [m1]\<rparr>))"

definition forwardToClient :: "loop_world \<Rightarrow> LLMStreamChunk \<Rightarrow> loop_state \<Rightarrow> bool \<times> loop_state" where
  "forwardToClient w c st =
     (let (ok, st1) =
            (if ch_ReasoningContent c \<noteq> []
             then agent_send w (stream_chunk StreamChunkKindReasoning (ch_ReasoningContent c)) st
             else (True, st))
      in if \<not> ok then (False, st1)
         else if ch_Content c \<noteq> [] then agent_send w (stream_chunk StreamChunkKindText (ch_Content c)) st1
         else (True, st1))"

definition persistAndComplete ::
  "loop_world \<Rightarrow> time \<Rightarrow> int \<Rightarrow> string \<Rightarrow> bool \<Rightarrow> loop_state \<Rightarrow> string option \<times> loop_state" where
  "persistAndComplete w now sid content streamed st =
     (case store_create w (NewMessage sid content MessageRoleAssistant now now) st of
        (Inl e, st1) \<Rightarrow> (Some e, st1)
      | (Inr am, st1) \<Rightarrow>
          (None, snd (agent_send w
             ((stream_chunk StreamChunkKindText (StreamToolRoundComplete streamed content content))\<lparr>cs_MessageID := msg_Id am\<rparr>) st1)))"

section \<open>The tools of a round\<close>

type_synonym outcomes = "nat \<Rightarrow> string \<times> exec_error option"

definition no_outcomes :: outcomes where
  "no_outcomes = (\<lambda>_. ([], None))"

definition status_prefix :: string where
  "status_prefix = utf8 [1042, 1099, 1087, 1086, 1083, 1085, 1103, 1077, 1090, 1089, 1103, 58, 32]"

definition tools_failed_notice :: string where
  "tools_failed_notice = utf8 [1054, 1076, 1080, 1085, 32, 1080, 1083, 1080, 32, 1085, 1077, 1089, 1082, 1086, 1083, 1100, 1082, 1086,
     32, 1080, 1085, 1089, 1090, 1088, 1091, 1084, 1077, 1085, 1090, 1086, 1074, 32, 1079, 1072, 1074, 1077,
     1088, 1096, 1080, 1083, 1080, 1089, 1100, 32, 1089, 32, 1086, 1096, 1080, 1073, 1082, 1086, 1081, 46, 32,
     1060, 1086, 1088, 1084, 1080, 1088, 1091, 1102, 32, 1087, 1086, 1085, 1103, 1090, 1085, 1099, 1081, 32,
     114, 101, 115, 112, 111, 110, 115, 101, 46, 46, 46]"

definition HistoryTruncatedClientNotice :: string where
  "HistoryTruncatedClientNotice = utf8 [1063, 1072, 1089, 1090, 1100, 32, 1073, 1086, 1083, 1077, 1077, 32, 1089, 1090, 1072, 1088, 1086, 1081,
     32, 1087, 1077, 1088, 1077, 1087, 1080, 1089, 1082, 1080, 32, 1085, 1077, 32, 1087, 1077, 1088, 1077,
     1076, 1072, 1085, 1072, 32, 1084, 1086, 1076, 1077, 1083, 1080, 32, 1080, 1079, 45, 1079, 1072, 32, 1083,
     1080, 1084, 1080, 1090, 1072, 32, 1086, 1094, 1077, 1085, 1082, 1080, 32, 1090, 1086, 1082, 1077, 1085,
     1086, 1074, 46]"

definition status_chunk :: "Config \<Rightarrow> ExecutableToolCall \<Rightarrow> ChatStreamChunk" where
  "status_chunk cfg call =
     (let st = (case cf_ToolDisplayName cfg of
                  None \<Rightarrow> et_ResolvedName call
                | Some f \<Rightarrow> f (et_ResolvedName call) (et_RequestedName call))
      in (stream_chunk StreamChunkKindToolStatus (status_prefix @ st))\<lparr>cs_ToolName := st\<rparr>)"

definition loop_env :: "Config \<Rightarrow> GenerationParams \<Rightarrow> bool \<Rightarrow> LoopEnv" where
  "loop_env cfg gp vision =
     \<lparr>le_RunnerAddr = cf_RunnerAddr cfg, le_ResolvedModel = cf_SelectedModel cfg, le_SamplingModel = cf_SamplingModel cfg,
      le_StopSequences = cf_StopSequences cfg, le_TimeoutSeconds = cf_TimeoutSeconds cfg,
      le_SamplingGen = SamplingGenParamsForMCP (Some gp), le_UserTurnHasVisionImage = vision\<rparr>"

definition start_order :: "round_world \<Rightarrow> nat \<Rightarrow> nat list" where
  "start_order rw n = sort_key (rw_start rw) [0..<n]"

text \<open>
  The goroutines in the order of their first steps, the check of the context and the sending of the
  status, which a mutex makes one step; \<open>aborted\<close> is whether a status was refused before.
\<close>

fun run_tools ::
  "loop_world \<Rightarrow> round_world \<Rightarrow> Config \<Rightarrow> LoopEnv \<Rightarrow> ExecutableToolCall list \<Rightarrow> nat list \<Rightarrow> bool \<Rightarrow> outcomes \<Rightarrow> loop_state
     \<Rightarrow> outcomes \<times> loop_state" where
  "run_tools w rw cfg env calls [] aborted out st = (out, st)"
| "run_tools w rw cfg env calls (i # is) aborted out st =
     (if rw_ended rw i \<or> (aborted \<and> rw_sees_abort rw i)
      then run_tools w rw cfg env calls is aborted (out(i := ([], Some (lw_ctx_error w)))) st
      else
        case agent_send w (status_chunk cfg (calls ! i)) st of
          (False, st1) \<Rightarrow> run_tools w rw cfg env calls is True (out(i := ([], Some (lw_status_refused w, False)))) st1
        | (True, st1) \<Rightarrow>
            run_tools w rw cfg env calls is aborted
              (out(i := rw_execute rw i (ToolExecutionDuration (cf_TimeoutSeconds cfg)) (calls ! i) env))
              (st1\<lparr>ls_executed := ls_executed st1 @ [calls ! i]\<rparr>))"

definition tool_result :: "ExecutableToolCall \<Rightarrow> string \<times> exec_error option \<Rightarrow> string" where
  "tool_result call oc =
     (case oc of
        (res, Some (e, deadline)) \<Rightarrow> ErrorToolMessage call (Some e) res deadline
      | (res, None) \<Rightarrow> TruncateToolResult res)"

definition tool_message :: "int \<Rightarrow> time \<Rightarrow> nat \<Rightarrow> ExecutableToolCall \<Rightarrow> string \<Rightarrow> Message" where
  "tool_message sid now i call result =
     (NewMessage sid result MessageRoleTool now now)
       \<lparr>msg_ToolName := et_ResolvedName call, msg_ToolCallID := ''call_'' @ itoa (int i + 1)\<rparr>"

definition tool_messages :: "int \<Rightarrow> time \<Rightarrow> ExecutableToolCall list \<Rightarrow> outcomes \<Rightarrow> Message list" where
  "tool_messages sid now calls out =
     map (\<lambda>(i, call). tool_message sid now i call (tool_result call (out i))) (zip [0..<length calls] calls)"

fun store_all :: "loop_world \<Rightarrow> Message list \<Rightarrow> loop_state \<Rightarrow> (string + Message list) \<times> loop_state" where
  "store_all w [] st = (Inr [], st)"
| "store_all w (m # ms) st =
     (case store_create w m st of
        (Inl e, st1) \<Rightarrow> (Inl e, st1)
      | (Inr m1, st1) \<Rightarrow>
          (case store_all w ms st1 of
             (Inl e, st2) \<Rightarrow> (Inl e, st2)
           | (Inr ms1, st2) \<Rightarrow> (Inr (m1 # ms1), st2)))"

text \<open>
  How a round or a run ends: the answer is stored; an error was sent to the client; the store failed
  in a round with calls, which nobody reports; the client is gone before the start; or the history
  goes on.
\<close>

datatype round_end = Answered | Reported agent_error | Unreported string | Refused | Goes_on messages

definition answer_round :: "loop_world \<Rightarrow> time \<Rightarrow> int \<Rightarrow> string \<Rightarrow> bool \<Rightarrow> loop_state \<Rightarrow> round_end \<times> loop_state" where
  "answer_round w now sid content streamed st =
     (case persistAndComplete w now sid content streamed st of
        (None, st1) \<Rightarrow> (Answered, st1)
      | (Some e, st1) \<Rightarrow> (Unreported e, st1))"

definition call_round ::
  "loop_world \<Rightarrow> round_world \<Rightarrow> Config \<Rightarrow> GenerationParams \<Rightarrow> messages \<Rightarrow> string \<Rightarrow> bool \<Rightarrow> ExecutableToolCall list \<Rightarrow> loop_state
     \<Rightarrow> round_end \<times> loop_state" where
  "call_round w rw cfg gp history full vision calls st =
     (let sid = cf_SessionID cfg; now = rw_now rw;
          (out, st1) = run_tools w rw cfg (loop_env cfg gp vision) calls (start_order rw (length calls)) False no_outcomes st;
          st2 = (if list_ex (\<lambda>i. snd (out i) \<noteq> None) [0..<length calls]
                 then snd (agent_send w (stream_chunk StreamChunkKindNotice tools_failed_notice) st1) else st1);
          assist = (NewMessage sid full MessageRoleAssistant now now)
            \<lparr>msg_ToolCallsJSON := ToolCallsToOpenAIJSON (ExecutableCallsToActionRows calls)\<rparr>
      in case store_all w (assist # tool_messages sid now calls out) st2 of
           (Inl e, st3) \<Rightarrow> (Reported (StoreFailed e), sendErr w (StoreFailed e) st3)
         | (Inr added, st3) \<Rightarrow>
             let hist = history @ map Some added in
             (case cf_Cap cfg of
                None \<Rightarrow> (Goes_on hist, st3)
              | Some cap \<Rightarrow>
                  (case cap hist (length added) of
                     Inl e \<Rightarrow> (Reported (CapFailed e), sendErr w (CapFailed e) st3)
                   | Inr (hist1, trimmed) \<Rightarrow>
                       (Goes_on hist1,
                        if trimmed then snd (agent_send w (stream_chunk StreamChunkKindNotice HistoryTruncatedClientNotice) st3)
                        else st3))))"

definition runToolRound ::
  "loop_world \<Rightarrow> round_world \<Rightarrow> Config \<Rightarrow> GenerationParams \<Rightarrow> messages \<Rightarrow> string \<Rightarrow> string \<Rightarrow> bool \<Rightarrow> bool \<Rightarrow> loop_state
     \<Rightarrow> round_end \<times> loop_state" where
  "runToolRound w rw cfg gp history full blob streamed vision st =
     (let answer = (\<lambda>content. answer_round w (rw_now rw) (cf_SessionID cfg) content streamed st) in
      case ParseCohereActionList (lw_num w) blob of
        Inl e \<Rightarrow> answer full
      | Inr rows \<Rightarrow>
          if rows = [] then answer full
          else if length rows = 1 \<and> IsDirectAnswerTool (ca_ToolName (hd rows)) then
            let ans = DirectAnswerText (ca_Parameters (hd rows)) in answer (if ans = [] then full else ans)
          else if FilterExecutableToolRows rows = [] then answer full
          else
            case ResolveExecutableToolCalls (Some gp) (FilterExecutableToolRows rows) of
              Inl e \<Rightarrow> (Reported (Unresolved e), sendErr w (Unresolved e) st)
            | Inr calls \<Rightarrow> call_round w rw cfg gp history full vision calls st)"

section \<open>The loop\<close>

text \<open>One round: the model's answer, drained to the client, and what follows from it.\<close>

definition agent_round ::
  "loop_world \<Rightarrow> round_world \<Rightarrow> Config \<Rightarrow> GenerationParams \<Rightarrow> bool \<Rightarrow> messages \<Rightarrow> loop_state \<Rightarrow> round_end \<times> loop_state" where
  "agent_round w rw cfg gp vision history st =
     (case rw_answer rw of
        Inl e \<Rightarrow> (Reported (LlmFailed e), sendErr w (LlmFailed e) st)
      | Inr ch \<Rightarrow>
          (case DrainLLMStreamChannelForward (forwardToClient w) ch [] False st of
             (raw, streamed, st1) \<Rightarrow>
               let full = TrimSpace raw; blob = ExtractToolActionBlob (lw_num w) full in
               if full = [] then (Reported EmptyAnswer, sendErr w EmptyAnswer st1)
               else if blob = [] then
                 (case persistAndComplete w (rw_now rw) (cf_SessionID cfg) full streamed st1 of
                    (None, st2) \<Rightarrow> (Answered, st2)
                  | (Some e, st2) \<Rightarrow> (Reported (StoreFailed e), sendErr w (StoreFailed e) st2))
               else runToolRound w rw cfg gp history full blob streamed vision st1))"

fun agent_rounds ::
  "loop_world \<Rightarrow> Config \<Rightarrow> GenerationParams \<Rightarrow> bool \<Rightarrow> int \<Rightarrow> nat \<Rightarrow> nat \<Rightarrow> messages \<Rightarrow> loop_state \<Rightarrow> round_end \<times> loop_state" where
  "agent_rounds w cfg gp vision maxRounds 0 r history st =
     (Reported (TooManyRounds maxRounds), sendErr w (TooManyRounds maxRounds) st)"
| "agent_rounds w cfg gp vision maxRounds (Suc n) r history st =
     (case agent_round w (lw_rounds w r) cfg gp vision history st of
        (Goes_on history1, st1) \<Rightarrow> agent_rounds w cfg gp vision maxRounds n (Suc r) history1 st1
      | (e, st1) \<Rightarrow> (e, st1))"

fun send_preface :: "loop_world \<Rightarrow> ChatStreamChunk list \<Rightarrow> loop_state \<Rightarrow> bool \<times> loop_state" where
  "send_preface w [] st = (True, st)"
| "send_preface w (c # cs) st =
     (case agent_send w c st of (False, st1) \<Rightarrow> (False, st1) | (True, st1) \<Rightarrow> send_preface w cs st1)"

definition runLoop :: "loop_world \<Rightarrow> Config \<Rightarrow> GenerationParams \<Rightarrow> int \<Rightarrow> round_end \<times> loop_state" where
  "runLoop w cfg g maxRounds =
     (case send_preface w (cf_Preface cfg) fresh_state of
        (False, st) \<Rightarrow> (Refused, st)
      | (True, st) \<Rightarrow>
          agent_rounds w cfg (the (CloneGenParamsForToolCalls (Some g)))
            (LastUserMessageHasVisionAttachment (cf_InitialHistory cfg)) maxRounds (nat maxRounds) 0
            (cf_InitialHistory cfg) st)"

datatype config_error = NoTools | NoRunnerAddr

definition config_validate :: "Config \<Rightarrow> config_error option" where
  "config_validate cfg =
     (if (case cf_GenParams cfg of None \<Rightarrow> True | Some g \<Rightarrow> gp_Tools g = []) then Some NoTools
      else if TrimSpace (cf_RunnerAddr cfg) = [] then Some NoRunnerAddr
      else None)"

definition bounded_rounds :: "int \<Rightarrow> int" where
  "bounded_rounds maxRounds =
     (let n = (if maxRounds \<le> 0 then DefaultToolLoopRounds else maxRounds)
      in if MaxToolLoopRoundsCap < n then MaxToolLoopRoundsCap else n)"

definition agent_Run :: "loop_world \<Rightarrow> Config \<Rightarrow> config_error + round_end \<times> loop_state" where
  "agent_Run w cfg =
     (case config_validate cfg of
        Some e \<Rightarrow> Inl e
      | None \<Rightarrow> Inr (runLoop w cfg (the (cf_GenParams cfg)) (bounded_rounds (cf_MaxRounds cfg))))"

section \<open>What a run leaves\<close>

lemma agent_send_state [simp]:
  "ls_stored (snd (agent_send w c st)) = ls_stored st"
  "ls_executed (snd (agent_send w c st)) = ls_executed st"
  by (simp_all add: agent_send_def Let_def)

lemma sendErr_state [simp]:
  "ls_stored (sendErr w e st) = ls_stored st" "ls_executed (sendErr w e st) = ls_executed st"
  by (simp_all add: sendErr_def Let_def)

lemma forwardToClient_state:
  "ls_stored (snd (forwardToClient w c st)) = ls_stored st \<and> ls_executed (snd (forwardToClient w c st)) = ls_executed st"
  by (auto simp: forwardToClient_def Let_def split_beta)

text \<open>What every step of the consumer keeps, draining keeps.\<close>

lemma drain_keeps:
  assumes "\<And>c s. f (snd (forward c s)) = f s"
    and "DrainLLMStreamChannelForward forward ch b streamed s = (raw, streamed', s')"
  shows "f s' = f s"
  using assms(2)
proof (induction ch arbitrary: b streamed s)
  case (Cons c ch)
  show ?case
  proof (cases "ch_Content c = [] \<and> ch_ReasoningContent c = []")
    case True
    then show ?thesis using Cons by simp
  next
    case False
    obtain ok s1 where fw: "forward c s = (ok, s1)" by fastforce
    then have "f s1 = f s" using assms(1) [of c s] by simp
    then show ?thesis using Cons False fw by (cases ok) (auto simp: Let_def split: if_splits)
  qed
qed simp

lemma drain_state:
  assumes "DrainLLMStreamChannelForward (forwardToClient w) ch b streamed st = (raw, streamed', st')"
  shows "ls_stored st' = ls_stored st \<and> ls_executed st' = ls_executed st"
  using drain_keeps [of "\<lambda>st. (ls_stored st, ls_executed st)", OF _ assms] forwardToClient_state by simp

lemma set_start_order: "set (start_order rw n) = {..<n}"
  by (auto simp: start_order_def)

lemma run_tools_state:
  assumes "run_tools w rw cfg env calls is aborted out st = (out', st')" and "set is \<subseteq> {..<length calls}"
  shows "ls_stored st' = ls_stored st \<and> (\<exists>xs. ls_executed st' = ls_executed st @ xs \<and> set xs \<subseteq> set calls)"
  using assms
proof (induction "is" arbitrary: aborted out st)
  case (Cons i "is")
  show ?case
  proof (cases "rw_ended rw i \<or> (aborted \<and> rw_sees_abort rw i)")
    case True
    then show ?thesis using Cons by auto
  next
    case False
    obtain ok st1 where s: "agent_send w (status_chunk cfg (calls ! i)) st = (ok, st1)" by fastforce
    then have same: "ls_stored st1 = ls_stored st" "ls_executed st1 = ls_executed st"
      using agent_send_state by (metis snd_conv)+
    have "calls ! i \<in> set calls" using Cons.prems(2) by simp
    show ?thesis
    proof (cases ok)
      case True
      then have "ls_stored st' = ls_stored st \<and>
          (\<exists>xs. ls_executed st' = (ls_executed st @ [calls ! i]) @ xs \<and> set xs \<subseteq> set calls)"
        using Cons.IH [of _ _ "st1\<lparr>ls_executed := ls_executed st1 @ [calls ! i]\<rparr>"] Cons.prems False s same by simp
      then obtain xs where "ls_stored st' = ls_stored st" "ls_executed st' = (ls_executed st @ [calls ! i]) @ xs"
        "set xs \<subseteq> set calls" by blast
      then show ?thesis using \<open>calls ! i \<in> set calls\<close> by (intro conjI exI [of _ "(calls ! i) # xs"]) auto
    next
      case fail: False
      then show ?thesis using Cons.IH [of _ _ st1] Cons.prems False s same by simp
    qed
  qed
qed auto

text \<open>Messages as they are stored: numbered, else as given.\<close>

definition stored_as :: "Message \<Rightarrow> Message \<Rightarrow> bool" where
  "stored_as m m1 \<longleftrightarrow> (\<exists>i. m1 = m\<lparr>msg_Id := i\<rparr>)"

lemma store_create_Inr:
  "store_create w m st = (Inr m1, st1) \<Longrightarrow>
     stored_as m m1 \<and> ls_stored st1 = ls_stored st @ [m1] \<and> ls_executed st1 = ls_executed st"
  by (auto simp: store_create_def stored_as_def Let_def split: option.splits)

lemma store_create_Inl:
  "store_create w m st = (Inl e, st1) \<Longrightarrow> ls_stored st1 = ls_stored st \<and> ls_executed st1 = ls_executed st"
  by (auto simp: store_create_def Let_def split: option.splits)

lemma store_all_Inr:
  "store_all w ms st = (Inr ms1, st1) \<Longrightarrow>
     list_all2 stored_as ms ms1 \<and> ls_stored st1 = ls_stored st @ ms1 \<and> ls_executed st1 = ls_executed st"
proof (induction ms arbitrary: st ms1)
  case (Cons m ms)
  then show ?case
    by (auto split: prod.splits sum.splits dest!: store_create_Inr)
qed simp

lemma store_all_executed: "ls_executed (snd (store_all w ms st)) = ls_executed st"
proof (induction ms arbitrary: st)
  case (Cons m ms)
  obtain r st1 where s: "store_create w m st = (r, st1)" by fastforce
  then have "ls_executed st1 = ls_executed st"
    using store_create_Inr store_create_Inl by (cases r) blast+
  then show ?case using Cons.IH [of st1] s by (auto split: sum.splits prod.splits)
qed simp

text \<open>An answer with its calls and the results of the calls, as a round stores them.\<close>

definition round_group :: "Tool list \<Rightarrow> Message list \<Rightarrow> bool" where
  "round_group tools g \<longleftrightarrow>
     (\<exists>assist results calls. g = assist # results \<and> calls \<noteq> [] \<and>
        msg_Role assist = MessageRoleAssistant \<and>
        msg_ToolCallsJSON assist = ToolCallsToOpenAIJSON (ExecutableCallsToActionRows calls) \<and>
        list_all2 (\<lambda>(i, c) m. msg_Role m = MessageRoleTool \<and> msg_ToolCallID m = ''call_'' @ itoa (int i + 1) \<and>
          msg_ToolName m = et_ResolvedName c \<and> et_ResolvedName c \<in> AllowedToolNameSet tools \<and>
          RuneCount (msg_Content m) \<le> 8014) (zip [0..<length calls] calls) results)"

lemma RuneCount_tool_result: "RuneCount (tool_result call oc) \<le> 8014"
  by (auto simp: tool_result_def ErrorToolMessage_def RuneCount_TruncateToolResult Let_def split: prod.split option.split)

lemma tool_messages_shape:
  "list_all2 stored_as (tool_messages sid now calls out) results \<Longrightarrow>
     list_all2 (\<lambda>(i, c) m. msg_Role m = MessageRoleTool \<and> msg_ToolCallID m = ''call_'' @ itoa (int i + 1) \<and>
       msg_ToolName m = et_ResolvedName c \<and> RuneCount (msg_Content m) \<le> 8014) (zip [0..<length calls] calls) results"
  unfolding tool_messages_def list_all2_map1
  by (erule list_all2_mono) (auto simp: stored_as_def tool_message_def NewMessage_def RuneCount_tool_result)

lemma call_round_goes_on:
  assumes "call_round w rw cfg gp history full vision calls st = (Goes_on hist, st')"
  shows "\<exists>assist results. ls_stored st' = ls_stored st @ assist # results \<and>
     msg_Role assist = MessageRoleAssistant \<and> msg_Content assist = full \<and>
     msg_ToolCallsJSON assist = ToolCallsToOpenAIJSON (ExecutableCallsToActionRows calls) \<and>
     list_all2 (\<lambda>(i, c) m. msg_Role m = MessageRoleTool \<and> msg_ToolCallID m = ''call_'' @ itoa (int i + 1) \<and>
       msg_ToolName m = et_ResolvedName c \<and> RuneCount (msg_Content m) \<le> 8014) (zip [0..<length calls] calls) results \<and>
     (cf_Cap cfg = None \<longrightarrow> hist = history @ map Some (assist # results))"
proof -
  let ?sid = "cf_SessionID cfg" and ?now = "rw_now rw"
  obtain out st1 where rt: "run_tools w rw cfg (loop_env cfg gp vision) calls (start_order rw (length calls)) False no_outcomes st = (out, st1)"
    by fastforce
  define st2 where "st2 = (if list_ex (\<lambda>i. snd (out i) \<noteq> None) [0..<length calls]
       then snd (agent_send w (stream_chunk StreamChunkKindNotice tools_failed_notice) st1) else st1)"
  define assist where "assist = (NewMessage ?sid full MessageRoleAssistant ?now ?now)
       \<lparr>msg_ToolCallsJSON := ToolCallsToOpenAIJSON (ExecutableCallsToActionRows calls)\<rparr>"
  have st2: "ls_stored st2 = ls_stored st"
    using run_tools_state [OF rt] set_start_order by (simp add: st2_def)
  obtain r st3 where sa: "store_all w (assist # tool_messages ?sid ?now calls out) st2 = (r, st3)" by fastforce
  note def = assms [unfolded call_round_def Let_def rt prod.case st2_def [symmetric] assist_def [symmetric] sa]
  obtain added where r: "r = Inr added" using def by (cases r) auto
  then have added: "list_all2 stored_as (assist # tool_messages ?sid ?now calls out) added"
    and st3: "ls_stored st3 = ls_stored st2 @ added" using store_all_Inr sa by blast+
  have "ls_stored st' = ls_stored st3 \<and> (cf_Cap cfg = None \<longrightarrow> hist = history @ map Some added)"
    using def r by (auto split: option.splits sum.splits prod.splits if_splits)
  moreover obtain a results where "added = a # results" "stored_as assist a"
    "list_all2 stored_as (tool_messages ?sid ?now calls out) results"
    using added by (auto simp: list_all2_Cons1)
  ultimately show ?thesis
    using st2 st3 tool_messages_shape
    by (intro exI [of _ a] exI [of _ results]) (auto simp: stored_as_def assist_def NewMessage_def)
qed

lemma call_round_executed:
  "\<exists>xs. ls_executed (snd (call_round w rw cfg gp history full vision calls st)) = ls_executed st @ xs \<and> set xs \<subseteq> set calls"
proof -
  let ?sid = "cf_SessionID cfg" and ?now = "rw_now rw"
  obtain out st1 where rt: "run_tools w rw cfg (loop_env cfg gp vision) calls (start_order rw (length calls)) False no_outcomes st = (out, st1)"
    by fastforce
  define st2 where "st2 = (if list_ex (\<lambda>i. snd (out i) \<noteq> None) [0..<length calls]
       then snd (agent_send w (stream_chunk StreamChunkKindNotice tools_failed_notice) st1) else st1)"
  define ms where "ms = (NewMessage ?sid full MessageRoleAssistant ?now ?now)
       \<lparr>msg_ToolCallsJSON := ToolCallsToOpenAIJSON (ExecutableCallsToActionRows calls)\<rparr> # tool_messages ?sid ?now calls out"
  obtain r st3 where sa: "store_all w ms st2 = (r, st3)" by fastforce
  have "ls_executed st3 = ls_executed st1"
    using store_all_executed [of w ms st2] sa by (simp add: st2_def)
  moreover have "ls_executed (snd (call_round w rw cfg gp history full vision calls st)) = ls_executed st3"
    unfolding call_round_def Let_def rt prod.case st2_def [symmetric] ms_def [symmetric] sa
    by (auto split: sum.splits option.splits prod.splits)
  ultimately show ?thesis using run_tools_state [OF rt] set_start_order by simp
qed

lemma ToolCallsToOpenAIJSON_nonempty: "TrimSpace (ToolCallsToOpenAIJSON cs) \<noteq> []"
  using TrimSpace_arr [of _ "[]"] by (simp add: ToolCallsToOpenAIJSON_def del: Marshal.simps) simp

text \<open>A round with calls: it only runs declared calls, and what it stores when it goes on is a group.\<close>

definition plain_answer :: "Message \<Rightarrow> bool" where
  "plain_answer m \<longleftrightarrow> msg_Role m = MessageRoleAssistant \<and> msg_ToolCallsJSON m = []"

definition declared_calls :: "Tool list \<Rightarrow> ExecutableToolCall list \<Rightarrow> bool" where
  "declared_calls tools calls \<longleftrightarrow> (\<forall>c\<in>set calls. et_ResolvedName c \<in> AllowedToolNameSet tools)"

definition round_post :: "Tool list \<Rightarrow> loop_state \<Rightarrow> round_end \<times> loop_state \<Rightarrow> bool" where
  "round_post tools st r \<longleftrightarrow>
     (\<exists>xs. ls_executed (snd r) = ls_executed st @ xs \<and> declared_calls tools xs) \<and>
     (case fst r of
        Goes_on hist \<Rightarrow> \<exists>g. round_group tools g \<and> ls_stored (snd r) = ls_stored st @ g
      | Answered \<Rightarrow> \<exists>m. plain_answer m \<and> ls_stored (snd r) = ls_stored st @ [m]
      | _ \<Rightarrow> True)"

lemma round_post_quiet:
  "ls_executed st' = ls_executed st \<Longrightarrow> (\<And>h. e \<noteq> Goes_on h) \<Longrightarrow> e \<noteq> Answered \<Longrightarrow> round_post tools st (e, st')"
  by (auto simp: round_post_def declared_calls_def split: round_end.split intro: exI [of _ "[]"])

lemma persist_state:
  "persistAndComplete w now sid content streamed st = (None, st') \<Longrightarrow>
     \<exists>m. plain_answer m \<and> ls_stored st' = ls_stored st @ [m]"
  by (auto simp: persistAndComplete_def split: prod.splits sum.splits dest!: store_create_Inr)
    (auto simp: stored_as_def plain_answer_def NewMessage_def)

lemma persist_executed: "ls_executed (snd (persistAndComplete w now sid content streamed st)) = ls_executed st"
proof -
  obtain r st1 where s: "store_create w (NewMessage sid content MessageRoleAssistant now now) st = (r, st1)" by fastforce
  then have "ls_executed st1 = ls_executed st"
    using store_create_Inr store_create_Inl by (cases r) blast+
  then show ?thesis using s by (simp add: persistAndComplete_def split: sum.split)
qed

lemma answer_round_post: "round_post tools st (answer_round w now sid content streamed st)"
proof -
  obtain e st1 where p: "persistAndComplete w now sid content streamed st = (e, st1)" by fastforce
  then have ex: "ls_executed st1 = ls_executed st" using persist_executed by (metis snd_conv)
  show ?thesis
  proof (cases e)
    case None
    then show ?thesis
      using p ex persist_state [of w now sid content streamed st st1]
      by (auto simp: answer_round_def round_post_def declared_calls_def intro: exI [of _ "[]"])
  next
    case (Some x)
    then show ?thesis using p ex by (auto simp: answer_round_def intro: round_post_quiet)
  qed
qed

lemma resolved_declared:
  "ResolveExecutableToolCalls (Some gp) rows = Inr calls \<Longrightarrow> declared_calls (gp_Tools gp) calls \<and> length calls = length rows"
  unfolding ResolveExecutableToolCalls_Inr declared_calls_def
  by (auto simp: call_resolves_def list_all2_conv_all_nth in_set_conv_nth) (metis ResolveDeclaredToolName_declared)

lemma call_round_post:
  assumes "declared_calls (gp_Tools gp) calls" and "calls \<noteq> []"
  shows "round_post (gp_Tools gp) st (call_round w rw cfg gp history full vision calls st)"
proof -
  obtain e st' where r: "call_round w rw cfg gp history full vision calls st = (e, st')" by fastforce
  have ex: "\<exists>xs. ls_executed st' = ls_executed st @ xs \<and> declared_calls (gp_Tools gp) xs"
    using call_round_executed [of w rw cfg gp history full vision calls st] r assms(1)
    by (auto simp: declared_calls_def)
  have "e \<noteq> Answered"
    using r by (auto simp: call_round_def Let_def split: prod.splits sum.splits option.splits)
  moreover have "\<exists>g. round_group (gp_Tools gp) g \<and> ls_stored st' = ls_stored st @ g" if e: "e = Goes_on hist" for hist
  proof -
    obtain assist results where g: "ls_stored st' = ls_stored st @ assist # results" "msg_Role assist = MessageRoleAssistant"
      "msg_ToolCallsJSON assist = ToolCallsToOpenAIJSON (ExecutableCallsToActionRows calls)"
      and res: "list_all2 (\<lambda>(i, c) m. msg_Role m = MessageRoleTool \<and> msg_ToolCallID m = ''call_'' @ itoa (int i + 1) \<and>
          msg_ToolName m = et_ResolvedName c \<and> RuneCount (msg_Content m) \<le> 8014) (zip [0..<length calls] calls) results"
      using call_round_goes_on [OF r [unfolded e]] by blast
    have "list_all2 (\<lambda>(i, c) m. msg_Role m = MessageRoleTool \<and> msg_ToolCallID m = ''call_'' @ itoa (int i + 1) \<and>
          msg_ToolName m = et_ResolvedName c \<and> et_ResolvedName c \<in> AllowedToolNameSet (gp_Tools gp) \<and>
          RuneCount (msg_Content m) \<le> 8014) (zip [0..<length calls] calls) results"
      using res assms(1) by (auto simp: list_all2_conv_all_nth declared_calls_def)
    then have "round_group (gp_Tools gp) (assist # results)"
      using g assms(2) unfolding round_group_def by blast
    then show ?thesis using g(1) by blast
  qed
  ultimately show ?thesis using r ex by (auto simp: round_post_def split: round_end.split)
qed

lemma runToolRound_post: "round_post (gp_Tools gp) st (runToolRound w rw cfg gp history full blob streamed vision st)"
proof (cases "ParseCohereActionList (lw_num w) blob")
  case (Inl e)
  then show ?thesis by (simp add: runToolRound_def Let_def answer_round_post)
next
  case (Inr rows)
  let ?rs = "FilterExecutableToolRows rows"
  have "round_post (gp_Tools gp) st
     (case ResolveExecutableToolCalls (Some gp) ?rs of
        Inl e \<Rightarrow> (Reported (Unresolved e), sendErr w (Unresolved e) st)
      | Inr calls \<Rightarrow> call_round w rw cfg gp history full vision calls st)" if "?rs \<noteq> []"
    using that call_round_post resolved_declared
    by (auto split: sum.split intro!: round_post_quiet) fastforce
  then show ?thesis using Inr by (simp add: runToolRound_def Let_def answer_round_post)
qed

lemma round_post_from:
  "ls_stored st1 = ls_stored st \<Longrightarrow> ls_executed st1 = ls_executed st \<Longrightarrow> round_post tools st1 r \<Longrightarrow> round_post tools st r"
  by (cases "fst r") (simp_all add: round_post_def)

lemma agent_round_post: "round_post (gp_Tools gp) st (agent_round w rw cfg gp vision history st)"
proof (cases "rw_answer rw")
  case (Inl e)
  then show ?thesis by (auto simp: agent_round_def intro: round_post_quiet)
next
  case (Inr ch)
  obtain raw streamed st1 where d: "DrainLLMStreamChannelForward (forwardToClient w) ch [] False st = (raw, streamed, st1)"
    by (metis prod_cases3)
  note same = drain_state [OF d, THEN conjunct1] drain_state [OF d, THEN conjunct2]
  define full where "full = TrimSpace raw"
  define blob where "blob = ExtractToolActionBlob (lw_num w) full"
  obtain e st2 where p: "persistAndComplete w (rw_now rw) (cf_SessionID cfg) full streamed st1 = (e, st2)" by fastforce
  have "agent_round w rw cfg gp vision history st =
     (if full = [] then (Reported EmptyAnswer, sendErr w EmptyAnswer st1)
      else if blob = [] then (case e of None \<Rightarrow> (Answered, st2) | Some e \<Rightarrow> (Reported (StoreFailed e), sendErr w (StoreFailed e) st2))
      else runToolRound w rw cfg gp history full blob streamed vision st1)"
    using Inr d p by (simp add: agent_round_def Let_def full_def [symmetric] blob_def [symmetric])
  moreover have "round_post (gp_Tools gp) st1 (case e of None \<Rightarrow> (Answered, st2) | Some e \<Rightarrow> (Reported (StoreFailed e), sendErr w (StoreFailed e) st2))"
    using p persist_executed [of w "rw_now rw" "cf_SessionID cfg" full streamed st1]
      persist_state [of w "rw_now rw" "cf_SessionID cfg" full streamed st1 st2]
    by (cases e) (auto simp: round_post_def declared_calls_def intro: exI [of _ "[]"])
  moreover have "round_post (gp_Tools gp) st1 (Reported EmptyAnswer, sendErr w EmptyAnswer st1)"
    by (rule round_post_quiet) simp_all
  ultimately show ?thesis
    using round_post_from [OF same] runToolRound_post by simp
qed

text \<open>A run: groups, and when it is answered a plain answer after them.\<close>

definition run_post :: "Tool list \<Rightarrow> nat \<Rightarrow> loop_state \<Rightarrow> round_end \<times> loop_state \<Rightarrow> bool" where
  "run_post tools n st r \<longleftrightarrow>
     (\<forall>h. fst r \<noteq> Goes_on h) \<and>
     (\<exists>xs. ls_executed (snd r) = ls_executed st @ xs \<and> declared_calls tools xs) \<and>
     (fst r = Answered \<longrightarrow> (\<exists>gs m. length gs < n \<and> list_all (round_group tools) gs \<and> plain_answer m \<and>
        ls_stored (snd r) = ls_stored st @ concat gs @ [m]))"

lemma agent_rounds_post:
  "run_post (gp_Tools gp) n st (agent_rounds w cfg gp vision maxRounds n r history st)"
proof (induction n arbitrary: r history st)
  case 0
  then show ?case by (auto simp: run_post_def declared_calls_def intro: exI [of _ "[]"])
next
  case (Suc n)
  obtain e st1 where ar: "agent_round w (lw_rounds w r) cfg gp vision history st = (e, st1)" by fastforce
  have post: "round_post (gp_Tools gp) st (e, st1)" using agent_round_post ar by metis
  show ?case
  proof (cases "\<exists>h. e = Goes_on h")
    case True
    then obtain h where e: "e = Goes_on h" by blast
    define res where "res = agent_rounds w cfg gp vision maxRounds n (Suc r) h st1"
    have eq: "agent_rounds w cfg gp vision maxRounds (Suc n) r history st = res" using ar e by (simp add: res_def)
    have IH: "run_post (gp_Tools gp) n st1 res" unfolding res_def by (rule Suc.IH)
    obtain g where g: "round_group (gp_Tools gp) g" "ls_stored st1 = ls_stored st @ g"
      using post e by (auto simp: round_post_def)
    obtain xs where xs: "ls_executed st1 = ls_executed st @ xs" "declared_calls (gp_Tools gp) xs"
      using post by (auto simp: round_post_def)
    obtain ys where ys: "ls_executed (snd res) = ls_executed st1 @ ys" "declared_calls (gp_Tools gp) ys"
      using IH by (auto simp: run_post_def)
    have "\<exists>gs m. length gs < Suc n \<and> list_all (round_group (gp_Tools gp)) gs \<and> plain_answer m \<and>
        ls_stored (snd res) = ls_stored st @ concat gs @ [m]" if ans: "fst res = Answered"
    proof -
      obtain gs m where "length gs < n" "list_all (round_group (gp_Tools gp)) gs" "plain_answer m"
        "ls_stored (snd res) = ls_stored st1 @ concat gs @ [m]" using IH ans unfolding run_post_def by blast
      then show ?thesis using g by (intro exI [of _ "g # gs"] exI [of _ m]) simp
    qed
    moreover have "declared_calls (gp_Tools gp) (xs @ ys)" using xs ys by (auto simp: declared_calls_def)
    ultimately show ?thesis using eq IH xs ys by (simp add: run_post_def)
  next
    case False
    then have "agent_rounds w cfg gp vision maxRounds (Suc n) r history st = (e, st1)"
      using ar by (cases e) simp_all
    then show ?thesis using post False by (cases e) (auto simp: round_post_def run_post_def intro: exI [of _ "[]"])
  qed
qed

lemma send_preface_state:
  "ls_stored (snd (send_preface w cs st)) = ls_stored st \<and> ls_executed (snd (send_preface w cs st)) = ls_executed st"
proof (induction cs arbitrary: st)
  case (Cons c cs)
  obtain ok st1 where s: "agent_send w c st = (ok, st1)" by fastforce
  then have "ls_stored st1 = ls_stored st" "ls_executed st1 = ls_executed st" using agent_send_state by (metis snd_conv)+
  then show ?case using Cons.IH [of st1] s by (cases ok) simp_all
qed simp

lemma agent_Run_post:
  assumes "agent_Run w cfg = Inr r"
  shows "\<exists>g. cf_GenParams cfg = Some g \<and> run_post (gp_Tools g) (nat (bounded_rounds (cf_MaxRounds cfg))) fresh_state r"
proof -
  obtain g where g: "cf_GenParams cfg = Some g" and r: "r = runLoop w cfg g (bounded_rounds (cf_MaxRounds cfg))"
    using assms by (auto simp: agent_Run_def config_validate_def split: option.splits if_splits)
  obtain ok st where p: "send_preface w (cf_Preface cfg) fresh_state = (ok, st)" by fastforce
  have same: "ls_stored st = ls_stored fresh_state" "ls_executed st = ls_executed fresh_state"
    using send_preface_state [of w "cf_Preface cfg" fresh_state] p by simp_all
  let ?gp = "the (CloneGenParamsForToolCalls (Some g))"
  have tools: "gp_Tools ?gp = gp_Tools g" by (simp add: CloneGenParamsForToolCalls_def)
  show ?thesis
  proof (cases ok)
    case True
    then show ?thesis
      using g r p same agent_rounds_post [of ?gp "nat (bounded_rounds (cf_MaxRounds cfg))" st w cfg
          "LastUserMessageHasVisionAttachment (cf_InitialHistory cfg)" "bounded_rounds (cf_MaxRounds cfg)" 0 "cf_InitialHistory cfg"]
      by (simp add: runLoop_def tools run_post_def)
  next
    case False
    then show ?thesis using g r p same by (auto simp: runLoop_def run_post_def declared_calls_def intro: exI [of _ "[]"])
  qed
qed

section \<open>The stored conversation as the client sees it\<close>

text \<open>The segments of groups that stand one after the other from an index on.\<close>

fun group_segments :: "nat \<Rightarrow> Message list list \<Rightarrow> ToolSegment list" where
  "group_segments k [] = []"
| "group_segments k (g # gs) =
     \<lparr>ts_LeadIndex = k, ts_ToolStart = k + 1, ts_ToolEnd = k + length g - 1\<rparr> # group_segments (k + length g) gs"

lemma round_group_shape:
  assumes "round_group tools g"
  shows "\<exists>a rs. g = a # rs \<and> rs \<noteq> [] \<and> assistantHasToolCalls (Some a) \<and> (\<forall>m\<in>set rs. is_tool_message (Some m))"
proof -
  obtain a rs calls where g: "g = a # rs" "calls \<noteq> []" "msg_Role a = MessageRoleAssistant"
    "msg_ToolCallsJSON a = ToolCallsToOpenAIJSON (ExecutableCallsToActionRows calls)"
    and all: "list_all2 (\<lambda>(i, c) m. msg_Role m = MessageRoleTool \<and> msg_ToolCallID m = ''call_'' @ itoa (int i + 1) \<and>
          msg_ToolName m = et_ResolvedName c \<and> et_ResolvedName c \<in> AllowedToolNameSet tools \<and>
          RuneCount (msg_Content m) \<le> 8014) (zip [0..<length calls] calls) rs"
    using assms unfolding round_group_def by blast
  have "length rs = length calls" using list_all2_lengthD [OF all] by simp
  moreover have "msg_Role m = MessageRoleTool" if "m \<in> set rs" for m
    using all that by (fastforce simp: list_all2_conv_all_nth in_set_conv_nth)
  ultimately show ?thesis
    using g by (intro exI [of _ a] exI [of _ rs]) (auto simp: assistantHasToolCalls_def is_tool_message_def ToolCallsToOpenAIJSON_nonempty)
qed

lemma tools_end_block:
  assumes "\<forall>m\<in>set rs. is_tool_message (Some m)" and "post \<noteq> []" and "\<not> is_tool_message (Some (hd post))"
  shows "tools_end (map Some (pre @ rs @ post)) (length pre) = length pre + length rs"
  using assms(1)
proof (induction rs arbitrary: pre)
  case Nil
  have "map Some (pre @ post) ! length pre = Some (hd post)"
    using assms(2) by (cases post) (simp_all add: nth_append)
  then show ?case using assms(3) by (subst tools_end.simps) simp
next
  case (Cons r rs)
  have "tools_end (map Some (pre @ r # rs @ post)) (length pre) = tools_end (map Some (pre @ r # rs @ post)) (Suc (length pre))"
    using Cons.prems by (subst tools_end.simps) (simp add: nth_append)
  then show ?case using Cons.IH [of "pre @ [r]"] Cons.prems by simp
qed

lemma plain_answer_shape:
  assumes "plain_answer m"
  shows "is_assistant (Some m)" "\<not> assistantHasToolCalls (Some m)" "\<not> is_tool_message (Some m)"
  using assms by (simp_all add: plain_answer_def is_assistant_def assistantHasToolCalls_def is_tool_message_def role_defs)

lemma calls_not_tool: "assistantHasToolCalls (Some m) \<Longrightarrow> is_assistant (Some m) \<and> \<not> is_tool_message (Some m)"
  by (simp add: assistantHasToolCalls_def is_assistant_def is_tool_message_def role_defs)

text \<open>A run of groups and a plain answer is consumed as one chain.\<close>

lemma consume_groups:
  assumes "gs \<noteq> []" and "list_all (round_group tools) gs" and "plain_answer m"
  shows "consume_from (map Some (pre @ concat gs @ [m])) start (length pre) segs =
    (Some \<lparr>tg_Segments = segs @ group_segments (length pre) gs, tg_FinalAssistantIdx = Some (length pre + length (concat gs))\<rparr>,
     length pre + length (concat gs) + 1)"
  using assms(1,2)
proof (induction gs arbitrary: pre segs)
  case (Cons g gs)
  obtain a rs where g: "g = a # rs" "rs \<noteq> []" "assistantHasToolCalls (Some a)" "\<forall>m\<in>set rs. is_tool_message (Some m)"
    using round_group_shape Cons.prems by fastforce
  define post where "post = concat gs @ [m]"
  define msgs where "msgs = map Some (pre @ a # rs @ post)"
  have eq: "map Some (pre @ concat (g # gs) @ [m]) = msgs" by (simp add: msgs_def post_def g)
  have hd: "\<not> is_tool_message (Some (hd post))" "is_assistant (Some (hd post))"
    "assistantHasToolCalls (Some (hd post)) \<longleftrightarrow> gs \<noteq> []"
  proof -
    consider "gs = []" | h gs' b rs' where "gs = h # gs'" "h = b # rs'" "assistantHasToolCalls (Some b)"
      using round_group_shape Cons.prems by (cases gs) fastforce+
    then show "\<not> is_tool_message (Some (hd post))" "is_assistant (Some (hd post))"
      "assistantHasToolCalls (Some (hd post)) \<longleftrightarrow> gs \<noteq> []"
      by (cases; use plain_answer_shape [OF assms(3)] calls_not_tool in \<open>simp add: post_def\<close>)+
  qed
  have ne: "post \<noteq> []" by (simp add: post_def)
  define te where "te = length pre + 1 + length rs"
  have te: "tools_end msgs (length pre + 1) = te"
    using tools_end_block [OF g(4) ne hd(1), of "pre @ [a]"] by (simp add: msgs_def te_def)
  have lead: "msgs ! length pre = Some a" "length pre < length msgs" by (simp_all add: msgs_def nth_append)
  have at: "msgs ! te = Some (hd post)" "te < length msgs"
    using ne by (cases post; simp add: msgs_def te_def nth_append)+
  have lg: "te = length pre + length g" "te - 1 = length pre + length g - 1" "te \<noteq> length pre + 1"
    using g(1,2) by (simp_all add: te_def)
  let ?segs = "segs @ [\<lparr>ts_LeadIndex = length pre, ts_ToolStart = length pre + 1, ts_ToolEnd = te - 1\<rparr>]"
  have step: "consume_from msgs start (length pre) segs =
      (if gs = [] then (Some \<lparr>tg_Segments = ?segs, tg_FinalAssistantIdx = Some te\<rparr>, te + 1)
       else consume_from msgs start te ?segs)"
    unfolding consume_from.simps [of msgs start "length pre" segs] Let_def te
    using lead at g(3) hd lg(3) by simp
  show ?case
  proof (cases "gs = []")
    case True
    then show ?thesis using eq step lg by simp
  next
    case False
    have "msgs = map Some ((pre @ g) @ concat gs @ [m])" by (simp add: msgs_def post_def g(1))
    then show ?thesis
      using Cons.IH [of "pre @ g" ?segs] Cons.prems False eq step lg by simp
  qed
qed simp

lemma partition_conversation:
  assumes "list_all (round_group tools) gs" and "plain_answer m"
  shows "PartitionMessagesForToolChainUI (map Some (concat gs @ [m])) =
    (if gs = [] then [SingleIndex 0]
     else [Chain \<lparr>tg_Segments = group_segments 0 gs, tg_FinalAssistantIdx = Some (length (concat gs))\<rparr>])"
proof -
  let ?msgs = "map Some (concat gs @ [m])"
  have fin: "partition_from ?msgs (length (concat gs) + 1) = []" by (subst partition_from.simps) simp
  show ?thesis
  proof (cases gs)
    case Nil
    then show ?thesis
      using fin plain_answer_shape [OF assms(2)] unfolding PartitionMessagesForToolChainUI_def
      by (subst partition_from.simps) simp
  next
    case (Cons g gs')
    then obtain a rs where "g = a # rs" "assistantHasToolCalls (Some a)"
      using round_group_shape assms(1) by fastforce
    then have first: "assistantHasToolCalls (?msgs ! 0)" using Cons by simp
    have "consumeToolChain ?msgs 0 =
      (Some \<lparr>tg_Segments = group_segments 0 gs, tg_FinalAssistantIdx = Some (length (concat gs))\<rparr>, length (concat gs) + 1)"
      using consume_groups [OF _ assms, of "[]" 0 "[]"] Cons by (simp add: consumeToolChain_def)
    then show ?thesis
      using first fin Cons unfolding PartitionMessagesForToolChainUI_def
      by (subst partition_from.simps) simp
  qed
qed

text \<open>
  C5: What a run that ends with an answer has stored is a conversation the client can show: at most one
  group per round, each an answer with its calls followed by exactly one result per call, in order, with
  the number and the name of its call, and then the final answer without calls. The view of the messages
  turns it into a single chain that ends with that answer.
\<close>

theorem answered_run_is_one_chain:
  assumes "agent_Run w cfg = Inr (Answered, st)"
  shows "\<exists>g gs m. cf_GenParams cfg = Some g \<and> ls_stored st = concat gs @ [m] \<and>
     length gs < nat (bounded_rounds (cf_MaxRounds cfg)) \<and> list_all (round_group (gp_Tools g)) gs \<and> plain_answer m \<and>
     PartitionMessagesForToolChainUI (map Some (ls_stored st)) =
       (if gs = [] then [SingleIndex 0]
        else [Chain \<lparr>tg_Segments = group_segments 0 gs, tg_FinalAssistantIdx = Some (length (concat gs))\<rparr>])"
proof -
  obtain g gs m where "cf_GenParams cfg = Some g" "length gs < nat (bounded_rounds (cf_MaxRounds cfg))"
    "list_all (round_group (gp_Tools g)) gs" "plain_answer m" "ls_stored st = concat gs @ [m]"
    using agent_Run_post [OF assms] by (auto simp: run_post_def fresh_state_def)
  then show ?thesis using partition_conversation by metis
qed

text \<open>A world in which the model answers in plain text, and one in which the context has ended.\<close>

definition plain_round :: round_world where
  "plain_round = \<lparr>rw_answer = Inr [\<lparr>ch_Content = ''ok'', ch_ReasoningContent = [], ch_Usage = None\<rparr>],
     rw_start = (\<lambda>i. i), rw_ended = (\<lambda>_. True), rw_sees_abort = (\<lambda>_. True), rw_execute = (\<lambda>_ _ _ _. ([], None)), rw_now = 7\<rparr>"

definition plain_world :: loop_world where
  "plain_world = \<lparr>lw_rounds = (\<lambda>_. plain_round), lw_accepts = (\<lambda>_. True), lw_create = (\<lambda>_. None), lw_id = int,
     lw_ctx_error = (''context canceled'', False), lw_status_refused = ''refused'', lw_text = (\<lambda>_. ''error''), lw_num = Some\<rparr>"

definition plain_config :: Config where
  "plain_config = \<lparr>cf_SessionID = 1, cf_RunnerAddr = ''a'', cf_SelectedModel = [], cf_InitialHistory = [],
     cf_StopSequences = [], cf_TimeoutSeconds = 0,
     cf_GenParams = Some (empty_params\<lparr>gp_Tools := [\<lparr>tool_Name = ''t'', tool_Description = [], tool_ParametersJSON = []\<rparr>]\<rparr>),
     cf_MaxRounds = 2, cf_SamplingModel = [], cf_ToolDisplayName = None, cf_Cap = None, cf_Preface = []\<rparr>"

lemma no_bracket: "x \<notin> set s \<Longrightarrow> str_index s [x] = None"
  by (auto simp: str_index_None_iff)

lemma plain_text_no_calls:
  assumes "CHR 0x60 \<notin> set s" and "CHR ''['' \<notin> set s" and "CHR ''{'' \<notin> set s" and "TrimSpace s = s"
  shows "ExtractToolActionBlob num s = []"
proof -
  have "s = [] \<or> hd s \<noteq> CHR ''['' \<and> hd s \<noteq> CHR ''{''" using assms(2,3) by (cases s) auto
  then have "ExtractLeadingJSONArray s = []" "ExtractLeadingJSONObject s = []"
    unfolding ExtractLeadingJSONArray_def ExtractLeadingJSONObject_def extract_leading_def Let_def assms(4) by auto
  moreover have "ExtractEmbeddedJSONArray num s = []" "ExtractEmbeddedJSONObject num s = []"
    by (subst ExtractEmbeddedJSONArray.simps, simp only: no_bracket [OF assms(2)] option.case)
      (subst ExtractEmbeddedJSONObject.simps, simp only: no_bracket [OF assms(3)] option.case)
  ultimately show ?thesis
    using no_fence_extractors [OF no_backtick [OF assms(1)]] by (simp add: ExtractToolActionBlob_def)
qed

theorem answered_run_is_one_chain_witness:
  "\<exists>st gs m. agent_Run plain_world plain_config = Inr (Answered, st) \<and> ls_stored st = concat gs @ [m] \<and>
     length gs < 2 \<and> plain_answer m"
proof -
  have a: "TrimSpace ''a'' = ''a''" "TrimSpace ''ok'' = ''ok''" by (rule TrimSpace_solid; simp add: IsSpace_def)+
  have "ExtractToolActionBlob Some ''ok'' = []" by (rule plain_text_no_calls) (simp_all add: a)
  then have "\<exists>st. agent_round plain_world plain_round plain_config gp vision h st0 = (Answered, st)" for gp vision h st0
    by (simp add: agent_round_def plain_round_def plain_world_def plain_config_def forwardToClient_def agent_send_def
        persistAndComplete_def store_create_def a Let_def)
  moreover have "lw_rounds plain_world r = plain_round" for r by (simp add: plain_world_def)
  ultimately have "\<exists>st. agent_rounds plain_world plain_config gp vision 2 (Suc (Suc 0)) 0 h st0 = (Answered, st)" for gp vision h st0
    by (simp del: agent_rounds.simps(1)) (metis (no_types, lifting) case_prod_conv round_end.case(1))
  then obtain st where st: "agent_Run plain_world plain_config = Inr (Answered, st)"
    by (force simp: agent_Run_def config_validate_def runLoop_def plain_config_def bounded_rounds_def a MaxToolLoopRoundsCap_def
        CloneGenParamsForToolCalls_def numeral_2_eq_2)
  then obtain gs m where "ls_stored st = concat gs @ [m]" "length gs < 2" "plain_answer m"
    using answered_run_is_one_chain [OF st] by (auto simp: plain_config_def bounded_rounds_def MaxToolLoopRoundsCap_def)
  with st show ?thesis by blast
qed

text \<open>
  C6: However the model answers, whichever tools fail, time out or are aborted, and wherever the client
  or the store give up, a run comes to an end within its rounds, at most 128, and every call that it has
  run goes to a tool declared for the conversation.
\<close>

theorem run_executes_only_declared:
  "case agent_Run w cfg of
     Inl e \<Rightarrow> True
   | Inr (e, st) \<Rightarrow> (\<forall>h. e \<noteq> Goes_on h) \<and> 1 \<le> bounded_rounds (cf_MaxRounds cfg) \<and> bounded_rounds (cf_MaxRounds cfg) \<le> 128 \<and>
       list_all (\<lambda>c. et_ResolvedName c \<in> AllowedToolNameSet (gp_Tools (the (cf_GenParams cfg)))) (ls_executed st)"
proof (cases "agent_Run w cfg")
  case (Inr r)
  obtain e st where r: "r = (e, st)" by fastforce
  have "1 \<le> bounded_rounds (cf_MaxRounds cfg)" "bounded_rounds (cf_MaxRounds cfg) \<le> 128"
    by (simp_all add: bounded_rounds_def DefaultToolLoopRounds_def MaxToolLoopRoundsCap_def Let_def)
  then show ?thesis
    using Inr r agent_Run_post [OF Inr] by (auto simp: run_post_def fresh_state_def declared_calls_def list_all_iff)
qed simp



end
