(* ===== verification/ChatMcpLoop.thy ===== *)
theory ChatMcpLoop
  imports AgentLoop
begin

text \<open>
  The tool loop of the chat, \<open>service/chat_mcp_loop.go\<close>, and the events it sends to a client,
  \<open>delivery/chat_mcp_sse.go\<close>. It is the loop of \<open>AgentLoop\<close> without a store: the tools of a round
  run side by side and each reports its start and its end; the first that fails aborts the others. The
  registry of tools, the choice of the runner, the runner's answers and the tools are the world of a run.
\<close>

section \<open>The loop\<close>

record ChatToolEvent =
  te_Phase :: string
  te_Tool :: string
  te_OK :: bool
  te_Text :: string

definition defaultChatToolRounds :: int where "defaultChatToolRounds = 5"

definition NewChatMCPLoop_rounds :: "int \<Rightarrow> int" where
  "NewChatMCPLoop_rounds maxRounds = (if maxRounds \<le> 0 then defaultChatToolRounds else maxRounds)"

text \<open>A cut at 120 bytes, which may fall inside a character.\<close>

definition truncateToolPreview :: "string \<Rightarrow> string" where
  "truncateToolPreview s0 = (let s = TrimSpace s0 in if length s \<le> 120 then s else take 120 s @ ''...'')"

text \<open>
  A round: the answer; for each tool the time at which its goroutine begins and how long it runs, what
  it sees of the context when it begins, and what the executor answers.
\<close>

record chat_round =
  cw_answer :: "string + LLMStreamChunk list"
  cw_begin :: "nat \<Rightarrow> nat"
  cw_length :: "nat \<Rightarrow> nat"
  cw_ended :: "nat \<Rightarrow> bool"
  cw_sees_abort :: "nat \<Rightarrow> bool"
  cw_execute :: "nat \<Rightarrow> duration \<Rightarrow> ExecutableToolCall \<Rightarrow> string \<times> exec_error option"

record chat_world =
  cx_tools :: "string + Tool list"
  cx_runner :: "string + string"
  cx_gone :: "nat \<Rightarrow> string option"
  cx_rounds :: "nat \<Rightarrow> chat_round"
  cx_ctx_error :: exec_error
  cx_takes :: "LLMStreamChunk \<Rightarrow> bool"
  cx_num :: num_printer

text \<open>What a run has seen and done: the histories shown to the model, the events, the calls run.\<close>

record chat_state =
  cm_reasoning :: string
  cm_usage :: "StreamTokenUsage option"
  cm_asked :: "messages list"
  cm_events :: "ChatToolEvent list"
  cm_executed :: "ExecutableToolCall list"

definition chat_fresh :: chat_state where
  "chat_fresh = \<lparr>cm_reasoning = [], cm_usage = None, cm_asked = [], cm_events = [], cm_executed = []\<rparr>"

definition chat_forward :: "chat_world \<Rightarrow> LLMStreamChunk \<Rightarrow> chat_state \<Rightarrow> bool \<times> chat_state" where
  "chat_forward w c st =
     (cx_takes w c,
      st\<lparr>cm_reasoning := (if ch_ReasoningContent c \<noteq> [] then cm_reasoning st @ ch_ReasoningContent c else cm_reasoning st),
         cm_usage := (if ch_Usage c \<noteq> None then ch_Usage c else cm_usage st)\<rparr>)"

section \<open>Tools side by side\<close>

datatype tool_step = Begins nat | Finishes nat

fun step_time :: "chat_round \<Rightarrow> tool_step \<Rightarrow> nat" where
  "step_time cw (Begins i) = cw_begin cw i"
| "step_time cw (Finishes i) = cw_begin cw i + 1 + cw_length cw i"

text \<open>The steps of the goroutines in the order of time.\<close>

definition tool_schedule :: "chat_round \<Rightarrow> nat \<Rightarrow> tool_step list" where
  "tool_schedule cw n = sort_key (step_time cw) (map Begins [0..<n] @ map Finishes [0..<n])"

definition emitTool :: "string \<Rightarrow> string \<Rightarrow> bool \<Rightarrow> string \<Rightarrow> chat_state \<Rightarrow> chat_state" where
  "emitTool phase tool ok preview st =
     st\<lparr>cm_events := cm_events st @ [\<lparr>te_Phase = phase, te_Tool = tool, te_OK = ok, te_Text = preview\<rparr>]\<rparr>"

fun chat_tool_steps ::
  "chat_world \<Rightarrow> chat_round \<Rightarrow> duration \<Rightarrow> ExecutableToolCall list \<Rightarrow> tool_step list \<Rightarrow> bool \<Rightarrow> nat list \<Rightarrow> outcomes
     \<Rightarrow> chat_state \<Rightarrow> outcomes \<times> chat_state" where
  "chat_tool_steps w cw d calls [] aborted running out st = (out, st)"
| "chat_tool_steps w cw d calls (Begins i # steps) aborted running out st =
     (if cw_ended cw i \<or> (aborted \<and> cw_sees_abort cw i)
      then chat_tool_steps w cw d calls steps aborted running (out(i := ([], Some (cx_ctx_error w)))) st
      else
        chat_tool_steps w cw d calls steps aborted (i # running) out
          ((emitTool ''start'' (et_ResolvedName (calls ! i)) False [] st)\<lparr>cm_executed := cm_executed st @ [calls ! i]\<rparr>))"
| "chat_tool_steps w cw d calls (Finishes i # steps) aborted running out st =
     (if i \<notin> set running then chat_tool_steps w cw d calls steps aborted running out st
      else
        let (res, err) = cw_execute cw i d (calls ! i)
        in chat_tool_steps w cw d calls steps (aborted \<or> err \<noteq> None) running (out(i := (res, err)))
             (emitTool ''done'' (et_ResolvedName (calls ! i)) (err = None) (truncateToolPreview res) st))"

section \<open>Rounds\<close>

definition chat_message :: "string \<Rightarrow> string \<Rightarrow> Message" where
  "chat_message content role = NewMessage 0 content role 0 0"

datatype chat_error =
    ToolsFailed string
  | NoMcpTools
  | RunnerFailed string
  | ContextGone string
  | SendFailed string
  | ModelEmpty
  | NotResolved tool_error
  | TooManyIterations int

datatype chat_end = ChatAnswer string | ChatFailed chat_error | ChatGoesOn messages

definition chat_call_round ::
  "chat_world \<Rightarrow> chat_round \<Rightarrow> int \<Rightarrow> messages \<Rightarrow> string \<Rightarrow> ExecutableToolCall list \<Rightarrow> chat_state \<Rightarrow> chat_end \<times> chat_state" where
  "chat_call_round w cw timeoutSeconds history full calls st =
     (let (out, st1) = chat_tool_steps w cw (ToolExecutionDuration timeoutSeconds) calls (tool_schedule cw (length calls))
            False [] no_outcomes st;
          assist = (chat_message full MessageRoleAssistant)
            \<lparr>msg_ToolCallsJSON := ToolCallsToOpenAIJSON (ExecutableCallsToActionRows calls)\<rparr>
      in (ChatGoesOn (history @ map Some (assist # tool_messages 0 0 calls out)), st1))"

definition chat_after_answer ::
  "chat_world \<Rightarrow> chat_round \<Rightarrow> int \<Rightarrow> GenerationParams \<Rightarrow> messages \<Rightarrow> string \<Rightarrow> chat_state \<Rightarrow> chat_end \<times> chat_state" where
  "chat_after_answer w cw timeoutSeconds gp history full st =
     (let blob = ExtractToolActionBlob (cx_num w) full in
      if full = [] then (ChatFailed ModelEmpty, st)
      else if blob = [] then (ChatAnswer full, st)
      else
        case ParseCohereActionList (cx_num w) blob of
          Inl e \<Rightarrow> (ChatAnswer full, st)
        | Inr rows \<Rightarrow>
            if rows = [] then (ChatAnswer full, st)
            else if length rows = 1 \<and> IsDirectAnswerTool (ca_ToolName (hd rows)) then
              let ans = DirectAnswerText (ca_Parameters (hd rows)) in (ChatAnswer (if ans = [] then full else ans), st)
            else if FilterExecutableToolRows rows = [] then (ChatAnswer full, st)
            else
              case ResolveExecutableToolCalls (Some gp) (FilterExecutableToolRows rows) of
                Inl e \<Rightarrow> (ChatFailed (NotResolved e), st)
              | Inr calls \<Rightarrow> chat_call_round w cw timeoutSeconds history full calls st)"

fun chat_rounds ::
  "chat_world \<Rightarrow> int \<Rightarrow> GenerationParams \<Rightarrow> int \<Rightarrow> nat \<Rightarrow> nat \<Rightarrow> messages \<Rightarrow> chat_state \<Rightarrow> chat_end \<times> chat_state" where
  "chat_rounds w timeoutSeconds gp maxRounds 0 r history st = (ChatFailed (TooManyIterations maxRounds), st)"
| "chat_rounds w timeoutSeconds gp maxRounds (Suc n) r history st =
     (case cx_gone w r of
        Some e \<Rightarrow> (ChatFailed (ContextGone e), st)
      | None \<Rightarrow>
          let cw = cx_rounds w r; st1 = st\<lparr>cm_asked := cm_asked st @ [history]\<rparr> in
          case cw_answer cw of
            Inl e \<Rightarrow> (ChatFailed (SendFailed e), st1)
          | Inr ch \<Rightarrow>
              (case DrainLLMStreamChannelForward (chat_forward w) ch [] False st1 of
                 (raw, streamed, st2) \<Rightarrow>
                   (case chat_after_answer w cw timeoutSeconds gp history (TrimSpace raw) st2 of
                      (ChatGoesOn history1, st3) \<Rightarrow> chat_rounds w timeoutSeconds gp maxRounds n (Suc r) history1 st3
                    | (e, st3) \<Rightarrow> (e, st3))))"

definition ChatMCPLoop_Run ::
  "chat_world \<Rightarrow> int \<Rightarrow> messages \<Rightarrow> int \<Rightarrow> GenerationParams \<Rightarrow> chat_end \<times> chat_state" where
  "ChatMCPLoop_Run w maxRounds ms timeoutSeconds genParams =
     (case cx_tools w of
        Inl e \<Rightarrow> (ChatFailed (ToolsFailed e), chat_fresh)
      | Inr tools \<Rightarrow>
          if tools = [] then (ChatFailed NoMcpTools, chat_fresh)
          else
            case cx_runner w of
              Inl e \<Rightarrow> (ChatFailed (RunnerFailed e), chat_fresh)
            | Inr addr \<Rightarrow>
                chat_rounds w timeoutSeconds ((the (CloneGenParamsForToolCalls (Some genParams)))\<lparr>gp_Tools := tools\<rparr>)
                  maxRounds (nat maxRounds) 0 ms chat_fresh)"

section \<open>What the model is shown\<close>

text \<open>A group that has not been stored: the same shape.\<close>

lemma tool_messages_group:
  assumes "declared_calls tools calls" and "calls \<noteq> []" and "msg_Role assist = MessageRoleAssistant"
    and "msg_ToolCallsJSON assist = ToolCallsToOpenAIJSON (ExecutableCallsToActionRows calls)"
  shows "round_group tools (assist # tool_messages sid now calls out)"
proof -
  have "list_all2 stored_as ms ms" for ms
    by (rule list_all2_refl) (auto simp: stored_as_def intro!: exI [of _ "msg_Id _"] Message.equality)
  note shape = tool_messages_shape [OF this [of "tool_messages sid now calls out"]]
  have "list_all2 (\<lambda>(i, c) m. msg_Role m = MessageRoleTool \<and> msg_ToolCallID m = ''call_'' @ itoa (int i + 1) \<and>
      msg_ToolName m = et_ResolvedName c \<and> et_ResolvedName c \<in> AllowedToolNameSet tools \<and>
      RuneCount (msg_Content m) \<le> 8014) (zip [0..<length calls] calls) (tool_messages sid now calls out)"
    using shape assms(1) by (auto simp: list_all2_conv_all_nth declared_calls_def)
  then show ?thesis using assms(2-4) unfolding round_group_def by blast
qed

lemma tool_schedule_in: "set (tool_schedule cw n) = Begins ` {..<n} \<union> Finishes ` {..<n}"
  by (auto simp: tool_schedule_def atLeast0LessThan)

lemma emitTool_state [simp]:
  "cm_asked (emitTool p t ok x st) = cm_asked st" "cm_executed (emitTool p t ok x st) = cm_executed st"
  by (simp_all add: emitTool_def)

lemma chat_tool_steps_state:
  assumes "chat_tool_steps w cw d calls steps aborted running out st = (out', st')"
    and "\<forall>i. Begins i \<in> set steps \<longrightarrow> i < length calls"
  shows "cm_asked st' = cm_asked st \<and> (\<exists>xs. cm_executed st' = cm_executed st @ xs \<and> set xs \<subseteq> set calls)"
  using assms
proof (induction steps arbitrary: aborted running out st)
  case (Cons step steps)
  show ?case
  proof (cases step)
    case (Begins i)
    then have "calls ! i \<in> set calls" using Cons.prems(2) by simp
    show ?thesis
    proof (cases "cw_ended cw i \<or> (aborted \<and> cw_sees_abort cw i)")
      case True
      then show ?thesis using Cons Begins by simp
    next
      case False
      let ?st = "(emitTool ''start'' (et_ResolvedName (calls ! i)) False [] st)\<lparr>cm_executed := cm_executed st @ [calls ! i]\<rparr>"
      have "chat_tool_steps w cw d calls steps aborted (i # running) out ?st = (out', st')"
        using Cons.prems(1) unfolding Begins chat_tool_steps.simps(2) if_not_P [OF False] .
      then have "cm_asked st' = cm_asked ?st \<and> (\<exists>xs. cm_executed st' = cm_executed ?st @ xs \<and> set xs \<subseteq> set calls)"
        by (rule Cons.IH) (use Cons.prems(2) in simp)
      then obtain xs where "cm_asked st' = cm_asked st" "cm_executed st' = cm_executed st @ (calls ! i) # xs"
        "set xs \<subseteq> set calls" by auto
      then show ?thesis using \<open>calls ! i \<in> set calls\<close> by (intro conjI exI [of _ "(calls ! i) # xs"]) auto
    qed
  next
    case (Finishes i)
    obtain res err where x: "cw_execute cw i d (calls ! i) = (res, err)" by fastforce
    let ?st = "emitTool ''done'' (et_ResolvedName (calls ! i)) (err = None) (truncateToolPreview res) st"
    have later: "\<forall>i. Begins i \<in> set steps \<longrightarrow> i < length calls" using Cons.prems(2) by simp
    show ?thesis
    proof (cases "i \<in> set running")
      case True
      then have "chat_tool_steps w cw d calls steps (aborted \<or> err \<noteq> None) running (out(i := (res, err))) ?st = (out', st')"
        using Cons.prems(1) unfolding Finishes chat_tool_steps.simps(3) x Let_def prod.case by simp
      from Cons.IH [OF this later] show ?thesis by simp
    next
      case False
      then show ?thesis using Cons.prems(1) Cons.IH [OF _ later, of aborted running out st] Finishes by simp
    qed
  qed
qed simp

lemma chat_drain_state:
  assumes "DrainLLMStreamChannelForward (chat_forward w) ch b streamed st = (raw, streamed', st')"
  shows "cm_asked st' = cm_asked st \<and> cm_executed st' = cm_executed st"
  using drain_keeps [of "\<lambda>st. (cm_asked st, cm_executed st)", OF _ assms] by (simp add: chat_forward_def)

definition chat_post :: "Tool list \<Rightarrow> messages \<Rightarrow> chat_state \<Rightarrow> chat_end \<times> chat_state \<Rightarrow> bool" where
  "chat_post tools history st r \<longleftrightarrow>
     cm_asked (snd r) = cm_asked st \<and>
     (\<exists>xs. cm_executed (snd r) = cm_executed st @ xs \<and> declared_calls tools xs) \<and>
     (case fst r of ChatGoesOn h \<Rightarrow> \<exists>g. round_group tools g \<and> h = history @ map Some g | _ \<Rightarrow> True)"

lemma chat_post_same: "(\<And>h. e \<noteq> ChatGoesOn h) \<Longrightarrow> chat_post tools history st (e, st)"
  by (cases e) (auto simp: chat_post_def declared_calls_def)

lemma chat_call_round_post:
  assumes "declared_calls tools calls" and "calls \<noteq> []"
  shows "chat_post tools history st (chat_call_round w cw t history full calls st)"
proof -
  obtain out st1 where s: "chat_tool_steps w cw (ToolExecutionDuration t) calls (tool_schedule cw (length calls)) False [] no_outcomes st = (out, st1)"
    by fastforce
  have "round_group tools ((chat_message full MessageRoleAssistant)
      \<lparr>msg_ToolCallsJSON := ToolCallsToOpenAIJSON (ExecutableCallsToActionRows calls)\<rparr> # tool_messages 0 0 calls out)"
    by (rule tool_messages_group [OF assms]) (simp_all add: chat_message_def NewMessage_def)
  then show ?thesis
    using chat_tool_steps_state [OF s] assms(1)
    by (auto simp: chat_call_round_def s chat_post_def tool_schedule_in declared_calls_def subset_iff)
qed

lemma chat_after_answer_post:
  "chat_post (gp_Tools gp) history st (chat_after_answer w cw t gp history full st)"
proof -
  have "chat_post (gp_Tools gp) history st
     (case ResolveExecutableToolCalls (Some gp) (FilterExecutableToolRows rows) of
        Inl e \<Rightarrow> (ChatFailed (NotResolved e), st)
      | Inr calls \<Rightarrow> chat_call_round w cw t history full calls st)" if "FilterExecutableToolRows rows \<noteq> []" for rows
    using that resolved_declared
    by (auto split: sum.split intro!: chat_post_same chat_call_round_post) fastforce
  then show ?thesis
    by (auto simp: chat_after_answer_def Let_def split: sum.split intro!: chat_post_same)
qed

definition chat_run_post :: "Tool list \<Rightarrow> messages \<Rightarrow> nat \<Rightarrow> chat_state \<Rightarrow> chat_end \<times> chat_state \<Rightarrow> bool" where
  "chat_run_post tools history n st r \<longleftrightarrow>
     (\<forall>h. fst r \<noteq> ChatGoesOn h) \<and>
     (\<exists>xs. cm_executed (snd r) = cm_executed st @ xs \<and> declared_calls tools xs) \<and>
     (\<exists>hs. cm_asked (snd r) = cm_asked st @ hs \<and> length hs \<le> n \<and>
        list_all (\<lambda>h. \<exists>gs. h = history @ map Some (concat gs) \<and> list_all (round_group tools) gs) hs)"

lemma chat_rounds_post:
  "chat_run_post (gp_Tools gp) history n st (chat_rounds w t gp maxRounds n r history st)"
proof (induction n arbitrary: r history st)
  case 0
  then show ?case by (auto simp: chat_run_post_def declared_calls_def intro!: exI [of _ "[]"])
next
  case (Suc n)
  let ?P = "chat_run_post (gp_Tools gp)"
  let ?st1 = "st\<lparr>cm_asked := cm_asked st @ [history]\<rparr>"
  have base: "list_all (\<lambda>h. \<exists>gs. h = history @ map Some (concat gs) \<and> list_all (round_group (gp_Tools gp)) gs) [history]"
    by (auto intro: exI [of _ "[]"])
  show ?case
  proof (cases "cx_gone w r")
    case (Some e)
    then show ?thesis by (auto simp: chat_run_post_def declared_calls_def intro!: exI [of _ "[]"])
  next
    case None
    show ?thesis
    proof (cases "cw_answer (cx_rounds w r)")
      case (Inl e)
      then show ?thesis using None base
        by (auto simp: chat_run_post_def declared_calls_def Let_def intro!: exI [of _ "[history]"] exI [of _ "[]"])
    next
      case (Inr ch)
      obtain raw streamed st2 where d: "DrainLLMStreamChannelForward (chat_forward w) ch [] False ?st1 = (raw, streamed, st2)"
        by (metis prod_cases3)
      obtain e st3 where a: "chat_after_answer w (cx_rounds w r) t gp history (TrimSpace raw) st2 = (e, st3)" by fastforce
      have post: "chat_post (gp_Tools gp) history st2 (e, st3)" using chat_after_answer_post a by metis
      have asked: "cm_asked st3 = cm_asked st @ [history]"
        using post chat_drain_state [OF d] by (simp add: chat_post_def)
      obtain xs where xs: "cm_executed st3 = cm_executed st @ xs" "declared_calls (gp_Tools gp) xs"
        using post chat_drain_state [OF d] by (auto simp: chat_post_def)
      have eq: "chat_rounds w t gp maxRounds (Suc n) r history st =
          (case e of ChatGoesOn h \<Rightarrow> chat_rounds w t gp maxRounds n (Suc r) h st3 | _ \<Rightarrow> (e, st3))"
        using None Inr d a by (simp add: Let_def split: chat_end.split)
      show ?thesis
      proof (cases "\<exists>h. e = ChatGoesOn h")
        case True
        then obtain h where e: "e = ChatGoesOn h" by blast
        then obtain g where g: "round_group (gp_Tools gp) g" "h = history @ map Some g"
          using post by (auto simp: chat_post_def)
        define res where "res = chat_rounds w t gp maxRounds n (Suc r) h st3"
        have IH: "?P h n st3 res" unfolding res_def by (rule Suc.IH)
        obtain ys where ys: "cm_executed (snd res) = cm_executed st3 @ ys" "declared_calls (gp_Tools gp) ys"
          using IH by (auto simp: chat_run_post_def)
        obtain hs where hs: "cm_asked (snd res) = cm_asked st3 @ hs" "length hs \<le> n"
          "list_all (\<lambda>h'. \<exists>gs. h' = h @ map Some (concat gs) \<and> list_all (round_group (gp_Tools gp)) gs) hs"
          using IH by (auto simp: chat_run_post_def)
        have "\<exists>gs'. h @ map Some (concat gs) = history @ map Some (concat gs') \<and> list_all (round_group (gp_Tools gp)) gs'"
          if "list_all (round_group (gp_Tools gp)) gs" for gs
          using that g by (intro exI [of _ "g # gs"]) simp
        then have "list_all (\<lambda>h'. \<exists>gs. h' = history @ map Some (concat gs) \<and> list_all (round_group (gp_Tools gp)) gs) hs"
          using hs(3) by (fastforce simp: list_all_iff)
        moreover have "declared_calls (gp_Tools gp) (xs @ ys)" using xs ys by (auto simp: declared_calls_def)
        ultimately show ?thesis
          using eq e IH xs ys hs asked base
          by (auto simp: chat_run_post_def simp flip: res_def intro!: exI [of _ "xs @ ys"] exI [of _ "history # hs"])
      next
        case False
        then have "chat_rounds w t gp maxRounds (Suc n) r history st = (e, st3)"
          using eq by (cases e) simp_all
        then show ?thesis using False xs asked base
          by (auto simp: chat_run_post_def intro!: exI [of _ xs] exI [of _ "[history]"])
      qed
    qed
  qed
qed

text \<open>
  C12: Whatever the tools do and in whatever order they start, fail and are aborted, the chat loop asks
  the model at most once per round, every history it shows is the conversation followed by complete
  groups - an answer with its calls, then one result per call in the order of the calls, with the call's
  number and name and at most 8014 runes - and only declared tools are run.
\<close>

theorem chat_loop_histories:
  "case cx_tools w of
     Inl e \<Rightarrow> cm_asked (snd (ChatMCPLoop_Run w maxRounds ms timeout gp)) = []
   | Inr tools \<Rightarrow>
       list_all (\<lambda>h. \<exists>gs. h = ms @ map Some (concat gs) \<and> list_all (round_group tools) gs)
         (cm_asked (snd (ChatMCPLoop_Run w maxRounds ms timeout gp))) \<and>
       length (cm_asked (snd (ChatMCPLoop_Run w maxRounds ms timeout gp))) \<le> nat maxRounds \<and>
       list_all (\<lambda>c. et_ResolvedName c \<in> AllowedToolNameSet tools) (cm_executed (snd (ChatMCPLoop_Run w maxRounds ms timeout gp)))"
proof (cases "cx_tools w")
  case (Inr tools)
  let ?gp = "(the (CloneGenParamsForToolCalls (Some gp)))\<lparr>gp_Tools := tools\<rparr>"
  have "chat_run_post tools ms (nat maxRounds) chat_fresh (ChatMCPLoop_Run w maxRounds ms timeout gp)"
    using Inr chat_rounds_post [of ?gp ms "nat maxRounds" chat_fresh w timeout maxRounds 0]
    by (auto simp: ChatMCPLoop_Run_def chat_run_post_def chat_fresh_def declared_calls_def split: sum.split)
  then show ?thesis using Inr by (auto simp: chat_run_post_def chat_fresh_def declared_calls_def list_all_iff)
qed (simp add: ChatMCPLoop_Run_def chat_fresh_def)

section \<open>The numbers of the events\<close>

text \<open>
  \<open>emit\<close> of \<open>writeChatMCPLoopSSE\<close> numbers an event with a plain counter and appends it to the
  replay session; no lock guards it. Its steps in one goroutine: read the counter, write it back
  incremented, build the event from it, append. The goroutines of the tools all call it.
\<close>

datatype emit_pc = Idle | HasRead nat | Incremented | Built nat

record emitter =
  em_counter :: nat
  em_pc :: "nat \<Rightarrow> emit_pc"
  em_log :: "nat list"

definition emit_start :: emitter where
  "emit_start = \<lparr>em_counter = 0, em_pc = (\<lambda>_. Idle), em_log = []\<rparr>"

inductive emit_by :: "nat \<Rightarrow> emitter \<Rightarrow> emitter \<Rightarrow> bool" for t :: nat where
  emit_reads: "em_pc s t = Idle \<Longrightarrow> emit_by t s (s\<lparr>em_pc := (em_pc s)(t := HasRead (em_counter s))\<rparr>)"
| emit_writes: "em_pc s t = HasRead n \<Longrightarrow>
     emit_by t s (s\<lparr>em_counter := Suc n, em_pc := (em_pc s)(t := Incremented)\<rparr>)"
| emit_builds: "em_pc s t = Incremented \<Longrightarrow> emit_by t s (s\<lparr>em_pc := (em_pc s)(t := Built (em_counter s))\<rparr>)"
| emit_appends: "em_pc s t = Built n \<Longrightarrow> emit_by t s (s\<lparr>em_log := em_log s @ [n], em_pc := (em_pc s)(t := Idle)\<rparr>)"

definition emit_step :: "emitter \<Rightarrow> emitter \<Rightarrow> bool" where
  "emit_step s s' \<longleftrightarrow> (\<exists>t. emit_by t s s')"

text \<open>With a single goroutine the counter is one ahead of the log while an event is on its way.\<close>

definition serial_inv :: "nat \<Rightarrow> emitter \<Rightarrow> bool" where
  "serial_inv t s \<longleftrightarrow> em_log s = [1..<Suc (length (em_log s))] \<and>
     (case em_pc s t of
        Idle \<Rightarrow> em_counter s = length (em_log s)
      | HasRead n \<Rightarrow> em_counter s = length (em_log s) \<and> n = em_counter s
      | Incremented \<Rightarrow> em_counter s = Suc (length (em_log s))
      | Built n \<Rightarrow> em_counter s = Suc (length (em_log s)) \<and> n = em_counter s)"

lemma serial_inv_step: "emit_by t s s' \<Longrightarrow> serial_inv t s \<Longrightarrow> serial_inv t s'"
  by (induction rule: emit_by.induct) (auto simp: serial_inv_def)

lemma serial_inv_run: "(emit_by t)\<^sup>*\<^sup>* emit_start s \<Longrightarrow> serial_inv t s"
proof (induction rule: rtranclp_induct)
  case base
  then show ?case by (simp add: emit_start_def serial_inv_def)
next
  case (step y z)
  then show ?case using serial_inv_step by blast
qed

text \<open>
  Events sent by one goroutine are numbered 1, 2, 3 and so on. Two goroutines, such as those of two
  tools of one round, can send two events with the same number, and a client that resumes after that
  number misses one of them.
\<close>

theorem event_numbers:
  "((emit_by t)\<^sup>*\<^sup>* emit_start s \<longrightarrow> em_log s = [1..<Suc (length (em_log s))]) \<and>
   (\<exists>s. emit_step\<^sup>*\<^sup>* emit_start s \<and> em_log s = [1, 1])"
proof (intro conjI impI)
  show "(emit_by t)\<^sup>*\<^sup>* emit_start s \<Longrightarrow> em_log s = [1..<Suc (length (em_log s))]"
    using serial_inv_run unfolding serial_inv_def by blast
next
  let ?s = "\<lambda>c p q l. \<lparr>em_counter = c, em_pc = (\<lambda>_. Idle)(0 := p, 1 := q), em_log = l\<rparr>"
  have "emit_step (?s 0 Idle Idle []) (?s 0 (HasRead 0) Idle [])"
    using emit_reads [of "?s 0 Idle Idle []" 0] by (auto simp: emit_step_def fun_upd_twist)
  moreover have "emit_step (?s 0 (HasRead 0) Idle []) (?s 0 (HasRead 0) (HasRead 0) [])"
    using emit_reads [of "?s 0 (HasRead 0) Idle []" 1] by (auto simp: emit_step_def)
  moreover have "emit_step (?s 0 (HasRead 0) (HasRead 0) []) (?s 1 Incremented (HasRead 0) [])"
    using emit_writes [of "?s 0 (HasRead 0) (HasRead 0) []" 0 0] by (auto simp: emit_step_def fun_upd_twist)
  moreover have "emit_step (?s 1 Incremented (HasRead 0) []) (?s 1 Incremented Incremented [])"
    using emit_writes [of "?s 1 Incremented (HasRead 0) []" 1 0] by (auto simp: emit_step_def)
  moreover have "emit_step (?s 1 Incremented Incremented []) (?s 1 (Built 1) Incremented [])"
    using emit_builds [of "?s 1 Incremented Incremented []" 0] by (auto simp: emit_step_def fun_upd_twist)
  moreover have "emit_step (?s 1 (Built 1) Incremented []) (?s 1 (Built 1) (Built 1) [])"
    using emit_builds [of "?s 1 (Built 1) Incremented []" 1] by (auto simp: emit_step_def)
  moreover have "emit_step (?s 1 (Built 1) (Built 1) []) (?s 1 Idle (Built 1) [1])"
    using emit_appends [of "?s 1 (Built 1) (Built 1) []" 0 1] by (auto simp: emit_step_def fun_upd_twist)
  moreover have "emit_step (?s 1 Idle (Built 1) [1]) (?s 1 Idle Idle [1, 1])"
    using emit_appends [of "?s 1 Idle (Built 1) [1]" 1 1] by (auto simp: emit_step_def)
  ultimately have "emit_step\<^sup>*\<^sup>* (?s 0 Idle Idle []) (?s 1 Idle Idle [1, 1])"
    by (meson converse_rtranclp_into_rtranclp rtranclp.rtrancl_refl)
  moreover have "?s 0 Idle Idle [] = emit_start" by (simp add: emit_start_def fun_eq_iff)
  ultimately show "\<exists>s. emit_step\<^sup>*\<^sup>* emit_start s \<and> em_log s = [1, 1]"
    by (intro exI [of _ "?s 1 Idle Idle [1, 1]"]) simp
qed

theorem event_numbers_witness:
  "\<exists>s. (emit_by 0)\<^sup>*\<^sup>* emit_start s \<and> em_log s = [1]"
proof -
  let ?s = "\<lambda>c p l. \<lparr>em_counter = c, em_pc = (\<lambda>_. Idle)(0 := p), em_log = l\<rparr>"
  have "emit_by 0 (?s 0 Idle []) (?s 0 (HasRead 0) [])"
    using emit_reads [of "?s 0 Idle []" 0] by simp
  moreover have "emit_by 0 (?s 0 (HasRead 0) []) (?s 1 Incremented [])"
    using emit_writes [of "?s 0 (HasRead 0) []" 0 0] by simp
  moreover have "emit_by 0 (?s 1 Incremented []) (?s 1 (Built 1) [])"
    using emit_builds [of "?s 1 Incremented []" 0] by simp
  moreover have "emit_by 0 (?s 1 (Built 1) []) (?s 1 Idle [1])"
    using emit_appends [of "?s 1 (Built 1) []" 0 1] by simp
  ultimately have run: "(emit_by 0)\<^sup>*\<^sup>* (?s 0 Idle []) (?s 1 Idle [1])"
    by (meson converse_rtranclp_into_rtranclp rtranclp.rtrancl_refl)
  have start: "?s 0 Idle [] = emit_start" by (simp add: emit_start_def fun_eq_iff)
  have "em_log (?s 1 Idle [1]) = [1..<Suc (length (em_log (?s 1 Idle [1])))]"
    using event_numbers [of 0 "?s 1 Idle [1]"] run unfolding start by blast
  then show ?thesis using run unfolding start by (intro exI [of _ "?s 1 Idle [1]"]) simp
qed

end
