(* ===== verification/GoPaths.thy ===== *)
theory GoPaths
  imports GoStrings
begin

text \<open>
  Slash-separated paths as \<open>path/filepath\<close> treats them on Unix: \<open>strings.Split\<close> at a byte,
  \<open>Clean\<close> and \<open>Join\<close>, and the words of \<open>strings.Fields\<close>. \<open>ToSlash\<close> and \<open>FromSlash\<close>
  are the identity there. The lemmas say that cleaning a rooted path leaves no way up in it and that
  cleaning twice is cleaning once.
\<close>

fun split_on :: "char \<Rightarrow> string \<Rightarrow> string list" where
  "split_on c [] = [[]]"
| "split_on c (a # s) =
     (if a = c then [] # split_on c s
      else case split_on c s of [] \<Rightarrow> [[a]] | p # ps \<Rightarrow> (a # p) # ps)"

lemma split_on_not_Nil [simp]: "split_on c s \<noteq> []"
  by (induction s) (auto split: list.split)

lemma split_on_no_sep: "p \<in> set (split_on c s) \<Longrightarrow> c \<notin> set p"
  by (induction s arbitrary: p) (auto split: list.splits if_splits)

lemma join_split_on: "str_join (split_on c s) [c] = s"
proof (induction s)
  case (Cons a s)
  obtain p ps where sp: "split_on c s = p # ps" by (cases "split_on c s") simp_all
  with Cons show ?case by (cases ps) auto
qed simp

lemma split_on_word: "c \<notin> set p \<Longrightarrow> split_on c p = [p]"
  by (induction p) auto

lemma split_on_append: "c \<notin> set p \<Longrightarrow> split_on c (p @ c # s) = p # split_on c s"
  by (induction p) auto

lemma split_on_join:
  "ps \<noteq> [] \<Longrightarrow> \<forall>p\<in>set ps. c \<notin> set p \<Longrightarrow> split_on c (str_join ps [c]) = ps"
  by (induction ps "[c]" rule: str_join.induct) (simp_all add: split_on_word split_on_append)

lemma split_on_two: "split_on c (s @ c # t) = split_on c s @ split_on c t"
proof (induction s)
  case (Cons a s)
  obtain p ps where sp: "split_on c s = p # ps" by (cases "split_on c s") simp_all
  with Cons show ?case by auto
qed simp

section \<open>Clean and Join\<close>

text \<open>
  One element of a path against the elements kept so far, the last first: an empty element and a dot
  go, and a way up takes the last element with it, unless there is none to take.
\<close>

definition clean_step :: "bool \<Rightarrow> string \<Rightarrow> string list \<Rightarrow> string list" where
  "clean_step rooted p kept =
     (if p = [] \<or> p = ''.'' then kept
      else if p = ''..'' then
        (if kept \<noteq> [] \<and> hd kept \<noteq> ''..'' then tl kept else if rooted then kept else p # kept)
      else p # kept)"

definition clean_parts :: "bool \<Rightarrow> string list \<Rightarrow> string list" where
  "clean_parts rooted ps = rev (fold (clean_step rooted) ps [])"

definition is_rooted :: "string \<Rightarrow> bool" where
  "is_rooted p \<longleftrightarrow> p \<noteq> [] \<and> hd p = CHR ''/''"

definition filepath_Clean :: "string \<Rightarrow> string" where
  "filepath_Clean p =
     (let out = (if is_rooted p then ''/'' else []) @ str_join (clean_parts (is_rooted p) (split_on (CHR ''/'') p)) ''/''
      in if out = [] then ''.'' else out)"

definition filepath_Join :: "string list \<Rightarrow> string" where
  "filepath_Join elems =
     (let es = dropWhile (\<lambda>e. e = []) elems in if es = [] then [] else filepath_Clean (str_join es ''/''))"

text \<open>Go joins from the first element that is not empty, empty ones after it included; \<open>Clean\<close> drops those.\<close>

text \<open>\<open>strings.Fields\<close>: the words between runs of white space.\<close>

fun fields_of :: "string list \<Rightarrow> string \<Rightarrow> string list" where
  "fields_of [] w = (if w = [] then [] else [w])"
| "fields_of (c # cs) w =
     (if space_chunk c then (if w = [] then [] else [w]) @ fields_of cs [] else fields_of cs (w @ c))"

definition str_fields :: "string \<Rightarrow> string list" where
  "str_fields s = fields_of (chunks s) []"

section \<open>What is left of a path\<close>

text \<open>Elements that cleaning leaves alone: names, after ways up where the path is not rooted.\<close>

definition plain_part :: "string \<Rightarrow> bool" where
  "plain_part p \<longleftrightarrow> p \<noteq> [] \<and> p \<noteq> ''.'' \<and> p \<noteq> ''..'' \<and> CHR ''/'' \<notin> set p"

definition kept_ok :: "bool \<Rightarrow> string list \<Rightarrow> bool" where
  "kept_ok rooted kept \<longleftrightarrow>
     (\<exists>names ups. kept = names @ ups \<and> list_all plain_part names \<and> list_all (\<lambda>p. p = ''..'') ups \<and> (rooted \<longrightarrow> ups = []))"

lemma kept_ok_Nil [simp]: "kept_ok rooted []"
  unfolding kept_ok_def by (intro exI [of _ "[]"]) simp

lemma clean_step_ok:
  assumes "kept_ok rooted kept" and "CHR ''/'' \<notin> set p"
  shows "kept_ok rooted (clean_step rooted p kept)"
proof -
  obtain names ups where k: "kept = names @ ups" "list_all plain_part names" "list_all (\<lambda>p. p = ''..'') ups" "rooted \<longrightarrow> ups = []"
    using assms(1) unfolding kept_ok_def by blast
  consider "p = [] \<or> p = ''.''" | "p = ''..''" | "plain_part p" using assms(2) unfolding plain_part_def by blast
  then show ?thesis
  proof cases
    case 1
    then show ?thesis using assms(1) by (auto simp: clean_step_def)
  next
    case 2
    show ?thesis
    proof (cases names)
      case Nil
      then have "clean_step rooted p kept = [] @ (if rooted then ups else ''..'' # ups)"
        using 2 k by (cases ups) (auto simp: clean_step_def)
      then show ?thesis unfolding kept_ok_def using k
        by (intro exI [of _ "[]"] exI [of _ "if rooted then ups else ''..'' # ups"]) auto
    next
      case (Cons n ns)
      then have "clean_step rooted p kept = ns @ ups" using 2 k by (auto simp: clean_step_def plain_part_def)
      then show ?thesis unfolding kept_ok_def using k Cons by (intro exI [of _ ns] exI [of _ ups]) auto
    qed
  next
    case 3
    then have "clean_step rooted p kept = (p # names) @ ups" using k by (auto simp: clean_step_def plain_part_def)
    then show ?thesis unfolding kept_ok_def using k 3 by (intro exI [of _ "p # names"] exI [of _ ups]) auto
  qed
qed

lemma clean_fold_ok:
  "kept_ok rooted kept \<Longrightarrow> \<forall>p\<in>set ps. CHR ''/'' \<notin> set p \<Longrightarrow> kept_ok rooted (fold (clean_step rooted) ps kept)"
  by (induction ps arbitrary: kept) (simp_all add: clean_step_ok)

lemma clean_parts_rooted:
  "\<forall>p\<in>set ps. CHR ''/'' \<notin> set p \<Longrightarrow> list_all plain_part (clean_parts True ps)"
  using clean_fold_ok [of True "[]" ps] unfolding kept_ok_def clean_parts_def by (auto simp: list_all_iff)

lemma clean_fold_plain: "list_all plain_part ps \<Longrightarrow> fold (clean_step rooted) ps kept = rev ps @ kept"
  by (induction ps arbitrary: kept) (auto simp: clean_step_def plain_part_def)

lemma clean_parts_plain: "list_all plain_part ps \<Longrightarrow> clean_parts rooted ps = ps"
  by (simp add: clean_parts_def clean_fold_plain)

lemma clean_parts_Nil_part: "clean_parts rooted ([] # ps) = clean_parts rooted ps"
  by (simp add: clean_parts_def clean_step_def)

lemma clean_parts_append_plain:
  "list_all plain_part ps \<Longrightarrow> clean_parts rooted (ps @ qs) = rev (fold (clean_step rooted) qs (rev ps))"
  by (simp add: clean_parts_def clean_fold_plain)

text \<open>A rooted path that is clean already: a slash and names.\<close>

definition rooted_path :: "string list \<Rightarrow> string" where
  "rooted_path ps = CHR ''/'' # str_join ps ''/''"

lemma rooted_path_split:
  "list_all plain_part ps \<Longrightarrow> ps \<noteq> [] \<Longrightarrow> split_on (CHR ''/'') (rooted_path ps) = [] # ps"
  using split_on_join [of ps "CHR ''/''"] by (auto simp: rooted_path_def list_all_iff plain_part_def)

lemma Clean_rooted:
  assumes "is_rooted p"
  shows "filepath_Clean p = rooted_path (clean_parts True (split_on (CHR ''/'') p))"
  using assms by (simp add: filepath_Clean_def rooted_path_def Let_def)

lemma Clean_rooted_plain: "is_rooted p \<Longrightarrow> \<exists>ps. filepath_Clean p = rooted_path ps \<and> list_all plain_part ps"
  using Clean_rooted clean_parts_rooted [of "split_on (CHR ''/'') p"] split_on_no_sep by blast

lemma is_rooted_path [simp]: "is_rooted (rooted_path ps)"
  by (simp add: is_rooted_def rooted_path_def)

lemma Clean_rooted_path:
  assumes "list_all plain_part ps"
  shows "filepath_Clean (rooted_path ps) = rooted_path ps"
proof (cases "ps = []")
  case True
  then show ?thesis by (simp add: Clean_rooted) (simp add: rooted_path_def clean_parts_def clean_step_def)
next
  case False
  then show ?thesis using assms
    by (simp add: Clean_rooted rooted_path_split clean_parts_Nil_part clean_parts_plain)
qed

text \<open>Whether one rooted path lies in another can be read off the text.\<close>

lemma rooted_path_inside:
  assumes "list_all plain_part ps" "list_all plain_part qs" "ps \<noteq> []"
  shows "HasPrefix (rooted_path qs) (rooted_path ps @ ''/'') \<longleftrightarrow> (\<exists>rest. rest \<noteq> [] \<and> qs = ps @ rest)"
proof
  assume "HasPrefix (rooted_path qs) (rooted_path ps @ ''/'')"
  then obtain t where t: "rooted_path qs = rooted_path ps @ CHR ''/'' # t" by (auto simp: HasPrefix_iff)
  have qne: "qs \<noteq> []" using t by (auto simp: rooted_path_def)
  have "[] # qs = ([] # ps) @ split_on (CHR ''/'') t"
    using arg_cong [OF t, of "split_on (CHR ''/'')"] assms qne by (simp add: rooted_path_split split_on_two)
  then show "\<exists>rest. rest \<noteq> [] \<and> qs = ps @ rest" by (intro exI [of _ "split_on (CHR ''/'') t"]) simp
next
  assume "\<exists>rest. rest \<noteq> [] \<and> qs = ps @ rest"
  then obtain rest where r: "rest \<noteq> []" "qs = ps @ rest" by blast
  have "str_join (ps @ rest) ''/'' = str_join ps ''/'' @ ''/'' @ str_join rest ''/''"
    using assms(3) r(1)
  proof (induction ps "''/''" rule: str_join.induct)
    case (2 x)
    then show ?case by (cases rest) simp_all
  qed simp_all
  then show "HasPrefix (rooted_path qs) (rooted_path ps @ ''/'')"
    using r by (simp add: HasPrefix_def rooted_path_def)
qed

end
