(* ===== verification/AgentGuard.thy ===== *)
theory AgentGuard
  imports GoPaths GoJson ToolAlias
begin

text \<open>
  What an agent of the editor may do: the policy on tool calls of \<open>service/agent_policy.go\<close>, the
  sandbox of \<open>service/sandbox.go\<close>, the steps of a session of \<open>service/agent_session.go\<close> and
  the tools it knows, \<open>service/agent_tools.go\<close>. A nil policy, sandbox or store is \<open>None\<close>. The
  arguments of a call are a Go map from names to values, \<open>None\<close> where it is nil; \<open>sprint\<close> is
  \<open>fmt.Sprint\<close> of a value that is no string. The file system is what \<open>os.Stat\<close> answers, a process
  what \<open>exec\<close> reports. Symbolic links are outside: paths are compared as texts, as the code does.
\<close>

section \<open>Commands\<close>

definition reason_empty :: string where
  "reason_empty = utf8 [1087, 1091, 1089, 1090, 1072, 1103, 32, 1082, 1086, 1084, 1072, 1085, 1076, 1072]"

definition reason_not_allowed :: string where
  "reason_not_allowed = utf8 [1082, 1086, 1084, 1072, 1085, 1076, 1072, 32, 1085, 1077, 32, 1074, 32, 1089, 1087,
     1080, 1089, 1082, 1077, 32, 1088, 1072, 1079, 1088, 1077, 1096, 1105, 1085, 1085, 1099,
     1093, 32, 115, 97, 110, 100, 98, 111, 120]"

definition reason_blocked :: string where
  "reason_blocked = utf8 [1082, 1086, 1084, 1072, 1085, 1076, 1072, 32, 1079, 1072, 1073, 1083, 1086, 1082, 1080,
     1088, 1086, 1074, 1072, 1085, 1072, 32, 1087, 1086, 1083, 1080, 1090, 1080, 1082, 1086,
     1081]"

definition reason_escape :: string where
  "reason_escape = utf8 [1074, 1099, 1093, 1086, 1076, 32, 1079, 1072, 32, 1087, 1088, 1077, 1076, 1077, 1083,
     1099, 32, 1082, 1072, 1090, 1072, 1083, 1086, 1075, 1072, 32, 1079, 1072, 1087, 1088,
     1077, 1097, 1105, 1085]"

definition reason_outside :: string where
  "reason_outside = utf8 [1087, 1091, 1090, 1100, 32, 1074, 1085, 1077, 32, 1088, 1072, 1079, 1088, 1077, 1096,
     1105, 1085, 1085, 1086, 1075, 1086, 32, 1089, 1087, 1080, 1089, 1082, 1072]"

lemmas reason_defs = reason_empty_def reason_not_allowed_def reason_blocked_def reason_escape_def reason_outside_def

lemma reason_not_Nil [simp]:
  "reason_empty \<noteq> []" "reason_not_allowed \<noteq> []" "reason_blocked \<noteq> []" "reason_escape \<noteq> []" "reason_outside \<noteq> []"
  by (simp_all add: reason_defs utf8_def encode_rune_def)

definition validateAllowedCommand :: "string \<Rightarrow> string list \<Rightarrow> string" where
  "validateAllowedCommand command allowed =
     (let cmd = ToLower (TrimSpace command); fields = str_fields cmd in
      if fields = [] then reason_empty
      else
        let bin = hd fields in
        if list_ex (\<lambda>a. let p = ToLower (TrimSpace a) in p \<noteq> [] \<and> (bin = p \<or> HasPrefix bin p)) allowed
        then [] else reason_not_allowed)"

section \<open>The policy\<close>

record AgentPolicy =
  ap_allowedPaths :: "string list"
  ap_blockedCommands :: "string list"
  ap_allowedCommands :: "string list"

definition NewAgentPolicy :: "string list \<Rightarrow> string list \<Rightarrow> string list \<Rightarrow> AgentPolicy" where
  "NewAgentPolicy allowedPaths blockedCommands allowedCommands =
     \<lparr>ap_allowedPaths = allowedPaths, ap_blockedCommands = blockedCommands, ap_allowedCommands = allowedCommands\<rparr>"

type_synonym call_args = "(string \<times> gov) list option"

record AgentToolCall =
  tc_Tool :: string
  tc_ID :: string
  tc_Args :: call_args

definition argString :: "(gov \<Rightarrow> string) \<Rightarrow> call_args \<Rightarrow> string \<Rightarrow> string" where
  "argString sprint args key =
     (case args of
        None \<Rightarrow> []
      | Some m \<Rightarrow>
          (case map_of m key of
             None \<Rightarrow> []
           | Some GNull \<Rightarrow> []
           | Some (GStr s) \<Rightarrow> s
           | Some v \<Rightarrow> sprint v))"

definition validateCommand :: "(gov \<Rightarrow> string) \<Rightarrow> AgentPolicy \<Rightarrow> call_args \<Rightarrow> string" where
  "validateCommand sprint p args =
     (let cmd = ToLower (TrimSpace (argString sprint args ''command'')) in
      if cmd = [] then reason_empty
      else if list_ex (\<lambda>blocked. str_contains cmd (ToLower blocked)) (ap_blockedCommands p) then reason_blocked
      else if ap_allowedCommands p \<noteq> [] then validateAllowedCommand cmd (ap_allowedCommands p)
      else [])"

definition absoluteAllowed :: "AgentPolicy \<Rightarrow> string \<Rightarrow> bool" where
  "absoluteAllowed p path =
     list_ex (\<lambda>a. let prefix = TrimSpace a in prefix \<noteq> [] \<and> HasPrefix path prefix) (ap_allowedPaths p)"

definition allowed_dir :: "string \<Rightarrow> string" where
  "allowed_dir a = TrimSuffix (TrimPrefix (TrimSpace a) ''./'') ''/''"

definition validatePathArg :: "(gov \<Rightarrow> string) \<Rightarrow> AgentPolicy \<Rightarrow> call_args \<Rightarrow> string \<Rightarrow> string" where
  "validatePathArg sprint p args key =
     (if ap_allowedPaths p = [] then []
      else
        let path = TrimSpace (argString sprint args key);
            up = HasPrefix path ''../'' \<or> str_contains path ''/../''
        in
          if path = [] then []
          else if (up \<or> HasPrefix path ''/'') \<and> \<not> absoluteAllowed p path \<and> up then reason_escape
          else if list_ex (\<lambda>a. let prefix = allowed_dir a in
                    prefix \<noteq> [] \<and> (path = prefix \<or> HasPrefix path (prefix @ ''/''))) (ap_allowedPaths p)
          then [] else reason_outside)"

definition validateCall :: "(gov \<Rightarrow> string) \<Rightarrow> AgentPolicy \<Rightarrow> AgentToolCall \<Rightarrow> string" where
  "validateCall sprint p call =
     (if ParseToolAlias (tc_Tool call) \<noteq> None then []
      else if tc_Tool call = ''run_command'' then validateCommand sprint p (tc_Args call)
      else if tc_Tool call \<in> {''list_dir'', ''glob_search''} then validatePathArg sprint p (tc_Args call) ''dir''
      else validatePathArg sprint p (tc_Args call) ''path'')"

definition blocked_line :: "AgentToolCall \<Rightarrow> string \<Rightarrow> string" where
  "blocked_line call reason = tc_Tool call @ '' ('' @ tc_ID call @ ''): '' @ reason"

definition FilterCalls :: "(gov \<Rightarrow> string) \<Rightarrow> AgentPolicy option \<Rightarrow> AgentToolCall list \<Rightarrow> AgentToolCall list \<times> string list" where
  "FilterCalls sprint p calls =
     (case p of
        None \<Rightarrow> (calls, [])
      | Some pol \<Rightarrow>
          fold (\<lambda>call (out, blocked).
            let reason = validateCall sprint pol call in
            if reason \<noteq> [] then (out, blocked @ [blocked_line call reason]) else (out @ [call], blocked))
            calls ([], []))"

definition ValidateRunCommand :: "(gov \<Rightarrow> string) \<Rightarrow> AgentPolicy \<Rightarrow> string \<Rightarrow> string" where
  "ValidateRunCommand sprint p command = validateCommand sprint p (Some [(''command'', GStr command)])"

lemma FilterCalls_eq:
  "FilterCalls sprint (Some p) calls =
     (filter (\<lambda>c. validateCall sprint p c = []) calls,
      map (\<lambda>c. blocked_line c (validateCall sprint p c)) (filter (\<lambda>c. validateCall sprint p c \<noteq> []) calls))"
proof -
  have "fold (\<lambda>call (out, blocked).
          let reason = validateCall sprint p call in
          if reason \<noteq> [] then (out, blocked @ [blocked_line call reason]) else (out @ [call], blocked)) calls (o1, b1)
      = (o1 @ filter (\<lambda>c. validateCall sprint p c = []) calls,
         b1 @ map (\<lambda>c. blocked_line c (validateCall sprint p c)) (filter (\<lambda>c. validateCall sprint p c \<noteq> []) calls))" for o1 b1
    by (induction calls arbitrary: o1 b1) (simp_all add: Let_def)
  then show ?thesis by (simp add: FilterCalls_def)
qed

section \<open>The sandbox\<close>

record AgentSandboxConfig =
  sb_Enabled :: "bool option"
  sb_WorkspaceRoot :: string
  sb_MaxOutputBytes :: int
  sb_CommandTimeoutSec :: int

record CommandSandbox =
  cs_root :: string
  cs_allowed :: "string list"
  cs_maxOutput :: int
  cs_timeout :: duration

definition NewCommandSandbox :: "AgentSandboxConfig \<Rightarrow> string list \<Rightarrow> CommandSandbox option" where
  "NewCommandSandbox cfg allowed =
     (if (case sb_Enabled cfg of None \<Rightarrow> False | Some e \<Rightarrow> \<not> e) \<or> TrimSpace (sb_WorkspaceRoot cfg) = [] then None
      else
        Some \<lparr>cs_root = filepath_Clean (sb_WorkspaceRoot cfg), cs_allowed = allowed,
              cs_maxOutput = (if sb_MaxOutputBytes cfg \<le> 0 then 65536 else sb_MaxOutputBytes cfg),
              cs_timeout = (if sb_CommandTimeoutSec cfg \<le> 0 then 120 else sb_CommandTimeoutSec cfg) * go_second\<rparr>)"

datatype sandbox_error = SandboxOff | EmptyCommand | CommandRefused string | OutsideRoot | StatFailed string | NotADirectory | RunError string

text \<open>\<open>stat p\<close> is the answer of \<open>os.Stat\<close>: an error, or whether \<open>p\<close> is a directory.\<close>

definition resolveCwd :: "(string \<Rightarrow> string + bool) \<Rightarrow> CommandSandbox \<Rightarrow> string \<Rightarrow> sandbox_error + string" where
  "resolveCwd stat s cwd0 =
     (let cwd = TrimSpace cwd0 in
      if cwd = [] then Inr (cs_root s)
      else
        let clean = filepath_Clean (filepath_Join [cs_root s, TrimPrefix cwd ''/'']); root = cs_root s @ ''/'' in
        if clean \<noteq> cs_root s \<and> \<not> HasPrefix clean root then Inl OutsideRoot
        else
          case stat clean of
            Inl e \<Rightarrow> Inl (StatFailed e)
          | Inr isDir \<Rightarrow> if isDir then Inr clean else Inl NotADirectory)"

definition truncateOutput :: "string \<Rightarrow> int \<Rightarrow> string" where
  "truncateOutput s mx =
     (if mx \<le> 0 \<or> int (length s) \<le> mx then s
      else take (nat mx) s @ utf8 [10, 46, 46, 46, 91, 1086, 1073, 1088, 1077, 1079, 1072, 1085, 1086, 93])"

text \<open>A command to run and where, and what became of it: its output and how it ended.\<close>

record sandbox_cmd =
  sc_command :: string
  sc_dir :: string
  sc_env :: "string list"
  sc_timeout :: duration

datatype run_end = Exited int | RunFailed string

definition sandbox_Run ::
  "(string \<Rightarrow> string + bool) \<Rightarrow> (sandbox_cmd \<Rightarrow> string \<times> string \<times> run_end) \<Rightarrow> CommandSandbox option \<Rightarrow> string \<Rightarrow> string
     \<Rightarrow> sandbox_cmd option \<times> string \<times> string \<times> int \<times> sandbox_error option" where
  "sandbox_Run stat exec sandbox command0 cwd =
     (case sandbox of
        None \<Rightarrow> (None, [], [], -1, Some SandboxOff)
      | Some s \<Rightarrow>
          let command = TrimSpace command0 in
          if command = [] then (None, [], [], -1, Some EmptyCommand)
          else if validateAllowedCommand command (cs_allowed s) \<noteq> []
          then (None, [], [], -1, Some (CommandRefused (validateAllowedCommand command (cs_allowed s))))
          else
            case resolveCwd stat s cwd of
              Inl e \<Rightarrow> (None, [], [], -1, Some e)
            | Inr workDir \<Rightarrow>
                let cmd = \<lparr>sc_command = command, sc_dir = workDir,
                           sc_env = [''PATH=/usr/local/bin:/usr/bin:/bin'', ''HOME='' @ cs_root s], sc_timeout = cs_timeout s\<rparr>;
                    (out, err, e) = exec cmd;
                    stdout = truncateOutput out (cs_maxOutput s); stderr = truncateOutput err (cs_maxOutput s)
                in case e of
                     Exited code \<Rightarrow> (Some cmd, stdout, stderr, code, None)
                   | RunFailed m \<Rightarrow> (Some cmd, stdout, stderr, -1, Some (RunError m)))"

section \<open>Sessions\<close>

record AgentSession =
  as_StepCount :: int
  as_Goal :: string
  as_LastSummary :: string

record AgentSessionStore =
  at_sessions :: "string \<rightharpoonup> AgentSession"
  at_maxSteps :: int

record AgentStepResponse =
  ar_Finish :: bool
  ar_Summary :: string
  ar_Calls :: "AgentToolCall list"
  ar_Step :: int
  ar_Blocked :: "string list"

definition no_response :: AgentStepResponse where
  "no_response = \<lparr>ar_Finish = False, ar_Summary = [], ar_Calls = [], ar_Step = 0, ar_Blocked = []\<rparr>"

definition NewAgentSessionStore :: "int \<Rightarrow> AgentSessionStore" where
  "NewAgentSessionStore maxSteps = \<lparr>at_sessions = Map.empty, at_maxSteps = (if maxSteps \<le> 0 then 30 else maxSteps)\<rparr>"

definition limit_summary :: string where
  "limit_summary = utf8 [1044, 1086, 1089, 1090, 1080, 1075, 1085, 1091, 1090, 32, 1083, 1080, 1084, 1080, 1090,
     32, 1096, 1072, 1075, 1086, 1074, 32, 1072, 1075, 1077, 1085, 1090, 1072]"

definition BeginStep ::
  "string \<Rightarrow> string \<Rightarrow> AgentSessionStore option \<Rightarrow> (int \<times> AgentStepResponse \<times> bool) \<times> AgentSessionStore option" where
  "BeginStep sessionID goal store =
     (case store of
        None \<Rightarrow> ((0, no_response, False), None)
      | Some st \<Rightarrow>
          if sessionID = [] then ((0, no_response, False), store)
          else
            let s0 = (case at_sessions st sessionID of
                        Some s \<Rightarrow> s
                      | None \<Rightarrow> \<lparr>as_StepCount = 0, as_Goal = goal, as_LastSummary = []\<rparr>);
                s1 = (if goal \<noteq> [] then s0\<lparr>as_Goal := goal\<rparr> else s0);
                step = as_StepCount s1 + 1;
                st1 = st\<lparr>at_sessions := (at_sessions st)(sessionID \<mapsto> s1\<lparr>as_StepCount := step\<rparr>)\<rparr>
            in if at_maxSteps st < step
               then ((step, no_response\<lparr>ar_Finish := True, ar_Summary := limit_summary, ar_Step := step\<rparr>, True), Some st1)
               else ((step, no_response, False), Some st1))"

definition session_Reset :: "string \<Rightarrow> AgentSessionStore option \<Rightarrow> AgentSessionStore option" where
  "session_Reset sessionID store =
     (case store of
        None \<Rightarrow> None
      | Some st \<Rightarrow> if sessionID = [] then store else Some (st\<lparr>at_sessions := (at_sessions st)(sessionID := None)\<rparr>))"

definition SetSummary :: "string \<Rightarrow> string \<Rightarrow> AgentSessionStore option \<Rightarrow> AgentSessionStore option" where
  "SetSummary sessionID summary0 store =
     (case store of
        None \<Rightarrow> None
      | Some st \<Rightarrow>
          let summary = TrimSpace summary0 in
          if sessionID = [] \<or> summary = [] then store
          else
            case at_sessions st sessionID of
              None \<Rightarrow> store
            | Some s \<Rightarrow> Some (st\<lparr>at_sessions := (at_sessions st)(sessionID \<mapsto> s\<lparr>as_LastSummary := summary\<rparr>)\<rparr>))"

definition ContextHint :: "string \<Rightarrow> AgentSessionStore option \<Rightarrow> string" where
  "ContextHint sessionID store =
     (case store of
        None \<Rightarrow> []
      | Some st \<Rightarrow>
          if sessionID = [] then []
          else
            case at_sessions st sessionID of
              None \<Rightarrow> []
            | Some s \<Rightarrow>
                let step = utf8 [1096, 1072, 1075, 32] @ itoa (as_StepCount s) @ ''/'' @ itoa (at_maxSteps st)
                in if as_LastSummary s \<noteq> [] then step @ utf8 [44, 32, 1087, 1086, 1089, 1083, 1077, 1076, 1085, 1080, 1081, 32, 1080, 1090, 1086,
     1075, 58, 32] @ as_LastSummary s
                   else if as_Goal s \<noteq> [] then step @ utf8 [44, 32, 1094, 1077, 1083, 1100, 58, 32] @ as_Goal s
                   else step)"

section \<open>Known tools\<close>

definition agentToolNames :: "string list" where
  "agentToolNames =
     [''list_dir'', ''read_file'', ''glob_search'', ''search_content'', ''apply_patch'', ''create_file'',
      ''edit_file'', ''rename_file'', ''delete_file'', ''run_command'']"

text \<open>What the code asks the registry of MCP servers: whether an alias names one of its servers, and whether it has a tool.\<close>

record mcp_view =
  mv_ServerExistsByAlias :: "string \<Rightarrow> bool"
  mv_HasTool :: "string \<Rightarrow> bool"

definition IsKnownAgentTool :: "string \<Rightarrow> mcp_view option \<Rightarrow> bool" where
  "IsKnownAgentTool name0 mcp \<longleftrightarrow>
     (let name = TrimSpace name0 in
      name \<in> set agentToolNames
      \<or> (ParseToolAlias name \<noteq> None \<and> (case mcp of None \<Rightarrow> False | Some v \<Rightarrow> mv_ServerExistsByAlias v name))
      \<or> (case mcp of None \<Rightarrow> False | Some v \<Rightarrow> mv_HasTool v name))"

definition filterAgentToolCalls :: "mcp_view option \<Rightarrow> AgentToolCall list \<Rightarrow> AgentToolCall list" where
  "filterAgentToolCalls mcp calls = filter (\<lambda>c. IsKnownAgentTool (tc_Tool c) mcp) calls"

section \<open>What the list of commands admits\<close>

text \<open>A word of ASCII characters without white space and capitals.\<close>

definition command_word :: "string \<Rightarrow> bool" where
  "command_word a \<longleftrightarrow> a \<noteq> [] \<and> list_all (\<lambda>c. byte c < (128::nat) \<and> \<not> IsSpace (byte c) \<and> rune_lower (byte c) = byte c) a"

lemma command_word_ascii: "command_word a \<Longrightarrow> ascii a"
  by (simp add: command_word_def ascii_def list_all_iff)

lemma chunks_ascii_append: "ascii a \<Longrightarrow> chunks (a @ t) = map (\<lambda>c. [c]) a @ chunks t"
  by (induction a) (simp_all add: ascii_def)

lemma solid_chunk: "byte c < (128::nat) \<Longrightarrow> \<not> IsSpace (byte c) \<Longrightarrow> \<not> space_chunk [c]"
  by (simp add: space_chunk_def decode_rune_1)

lemma command_word_solid: "command_word a \<Longrightarrow> c \<in> set (map (\<lambda>c. [c]) a) \<Longrightarrow> \<not> space_chunk c"
  by (auto simp: command_word_def list_all_iff solid_chunk)

lemma TrimSpace_word_append: "command_word a \<Longrightarrow> \<exists>u. TrimSpace (a @ t) = a @ u"
proof -
  assume a: "command_word a"
  let ?as = "map (\<lambda>c. [c]) a"
  obtain x xs where xs: "?as = x # xs" using a by (cases a) (auto simp: command_word_def)
  have front: "dropWhile space_chunk (?as @ chunks t) = ?as @ chunks t"
    using command_word_solid [OF a, of x] unfolding xs by simp
  obtain y ys where ys: "rev ?as = y # ys" using xs by (cases "rev ?as") simp_all
  then have y: "\<not> space_chunk y" using command_word_solid [OF a, of y] by (metis list.set_intros(1) set_rev)
  have keep: "dropWhile space_chunk (rev ?as) = rev ?as" unfolding ys using y by simp
  have "dropWhile space_chunk (rev (chunks t) @ rev ?as) = dropWhile space_chunk (rev (chunks t)) @ rev ?as"
  proof (cases "\<forall>c\<in>set (chunks t). space_chunk c")
    case True
    then have "dropWhile space_chunk (rev (chunks t)) = []" by simp
    then show ?thesis using keep True by (simp add: dropWhile_append)
  next
    case False
    then show ?thesis by (auto simp: dropWhile_append)
  qed
  then have "trim_chunks (?as @ chunks t) = ?as @ rev (dropWhile space_chunk (rev (chunks t)))"
    by (simp add: trim_chunks_def front)
  moreover have "concat ?as = a" by (induction a) simp_all
  ultimately show ?thesis
    unfolding TrimSpace_def chunks_ascii_append [OF command_word_ascii [OF a]] by simp
qed

lemma ToLower_word_append: "command_word a \<Longrightarrow> \<exists>u. ToLower (a @ t) = a @ u"
proof -
  assume a: "command_word a"
  then have asc: "ascii a" by (rule command_word_ascii)
  have "map rune_lower (map byte a) = map byte a"
    using a by (intro map_idI) (auto simp: command_word_def list_all_iff)
  then have "ToLower (a @ t) = utf8 (map byte a) @ utf8 (map rune_lower (runes t))"
    by (simp only: ToLower_def runes_ascii_append [OF asc] map_append) (simp add: utf8_def)
  then show ?thesis using utf8_ascii [OF asc] by simp
qed

lemma fields_of_grow: "w \<noteq> [] \<Longrightarrow> \<exists>x ws. fields_of cs w = (w @ x) # ws"
proof (induction cs arbitrary: w)
  case (Cons c cs)
  then show ?case using Cons.IH [of "w @ c"] by (cases "space_chunk c") (fastforce)+
qed simp

lemma fields_of_word: "command_word a \<Longrightarrow> fields_of (map (\<lambda>c. [c]) a @ cs) w = fields_of cs (w @ a)"
proof -
  assume "command_word a"
  then have "list_all (\<lambda>c. \<not> space_chunk [c]) a" by (auto simp: command_word_def list_all_iff solid_chunk)
  then show ?thesis by (induction a arbitrary: w) simp_all
qed

lemma str_fields_word: "command_word a \<Longrightarrow> \<exists>x ws. str_fields (a @ t) = (a @ x) # ws"
  using fields_of_grow [of a "chunks t"] fields_of_word [of a "chunks t" "[]"]
  by (auto simp: str_fields_def chunks_ascii_append command_word_ascii command_word_def)

lemma validateAllowedCommand_word:
  assumes "command_word a" and "a' \<in> set allowed" and "ToLower (TrimSpace a') = a"
  shows "validateAllowedCommand (a @ t) allowed = []"
proof -
  obtain u where u: "TrimSpace (a @ t) = a @ u" using TrimSpace_word_append [OF assms(1)] by blast
  obtain v where v: "ToLower (a @ u) = a @ v" using ToLower_word_append [OF assms(1)] by blast
  obtain x ws where f: "str_fields (a @ v) = (a @ x) # ws" using str_fields_word [OF assms(1)] by blast
  have "a \<noteq> []" using assms(1) by (simp add: command_word_def)
  then have "list_ex (\<lambda>b. let p = ToLower (TrimSpace b) in p \<noteq> [] \<and> (a @ x = p \<or> HasPrefix (a @ x) p)) allowed"
    using assms(2,3) by (auto simp: list_ex_iff intro!: bexI [of _ a'])
  then show ?thesis by (simp add: validateAllowedCommand_def u v f Let_def)
qed

lemma command_word_fixed: "command_word a \<Longrightarrow> ToLower (TrimSpace a) = a"
proof -
  assume a: "command_word a"
  then have "map rune_lower (map byte a) = map byte a"
    by (intro map_idI) (auto simp: command_word_def list_all_iff)
  moreover have "TrimSpace a = a" using a by (intro TrimSpace_solid) (auto simp: command_word_def list_all_iff)
  ultimately show ?thesis
    using command_word_ascii [OF a] by (simp only: ToLower_def runes_ascii utf8_ascii)
qed

lemma command_word_go [simp]: "command_word ''go''"
  by (simp add: command_word_def IsSpace_def rune_lower_def)

section \<open>The sandbox stays inside its root\<close>

lemma filepath_Join_rooted:
  assumes "list_all plain_part names" and "c \<noteq> []"
  shows "\<exists>qs. filepath_Join [rooted_path names, c] = rooted_path qs \<and> list_all plain_part qs"
proof -
  have "is_rooted (rooted_path names @ ''/'' @ c)" by (simp add: is_rooted_def rooted_path_def)
  from Clean_rooted_plain [OF this] show ?thesis by (simp add: filepath_Join_def Let_def rooted_path_def)
qed

lemma resolveCwd_inside:
  assumes "cs_root s = rooted_path names" and "list_all plain_part names" and "resolveCwd stat s cwd = Inr d"
  shows "\<exists>rest. d = rooted_path (names @ rest) \<and> list_all plain_part (names @ rest) \<and> (TrimSpace cwd \<noteq> [] \<longrightarrow> stat d = Inr True)"
proof (cases "TrimSpace cwd = []")
  case True
  then show ?thesis using assms by (intro exI [of _ "[]"]) (simp add: resolveCwd_def)
next
  case False
  let ?c = "TrimPrefix (TrimSpace cwd) ''/''"
  have "\<exists>qs. filepath_Join [rooted_path names, ?c] = rooted_path qs \<and> list_all plain_part qs"
    using filepath_Join_rooted [OF assms(2)] Clean_rooted_plain [of "rooted_path names @ ''/''"]
    by (cases "?c = []") (auto simp: filepath_Join_def Let_def rooted_path_def is_rooted_def)
  then obtain qs where qs: "filepath_Join [rooted_path names, ?c] = rooted_path qs" "list_all plain_part qs" by blast
  then have clean: "filepath_Clean (filepath_Join [cs_root s, ?c]) = rooted_path qs"
    using assms(1) Clean_rooted_path by simp
  have inside: "rooted_path qs = rooted_path names \<or> HasPrefix (rooted_path qs) (rooted_path names @ ''/'')"
    and d: "d = rooted_path qs" and dir: "stat d = Inr True"
    using assms(1,3) False clean by (auto simp: resolveCwd_def Let_def split: if_splits sum.splits)
  have "\<exists>rest. rooted_path qs = rooted_path (names @ rest) \<and> list_all plain_part (names @ rest)"
  proof (cases "rooted_path qs = rooted_path names")
    case True
    then show ?thesis using assms(2) by (intro exI [of _ "[]"]) simp
  next
    case other: False
    show ?thesis
    proof (cases "names = []")
      case True
      then show ?thesis using qs(2) by (intro exI [of _ qs]) simp
    next
      case False
      then show ?thesis using inside other rooted_path_inside [OF assms(2) qs(2)] qs(2) by auto
    qed
  qed
  with d dir show ?thesis by auto
qed

lemma truncateOutput_bound: "0 < mx \<Longrightarrow> int (length (truncateOutput s mx)) \<le> mx + 22"
  by (simp add: truncateOutput_def utf8_def encode_rune_def)

lemma sandbox_Run_runs:
  assumes "sandbox_Run stat exec (Some s) command cwd = (Some cmd, out, err, code, e)"
  shows "sc_command cmd = TrimSpace command \<and> validateAllowedCommand (sc_command cmd) (cs_allowed s) = []
    \<and> resolveCwd stat s cwd = Inr (sc_dir cmd) \<and> sc_timeout cmd = cs_timeout s
    \<and> out = truncateOutput (fst (exec cmd)) (cs_maxOutput s) \<and> err = truncateOutput (fst (snd (exec cmd))) (cs_maxOutput s)"
  using assms
  by (auto simp: sandbox_Run_def Let_def case_prod_unfold split: if_splits sum.splits run_end.splits)

lemma NewCommandSandbox_Some:
  "NewCommandSandbox cfg allowed = Some s \<Longrightarrow>
     cs_root s = filepath_Clean (sb_WorkspaceRoot cfg) \<and> cs_allowed s = allowed \<and> 0 < cs_maxOutput s \<and> 0 < cs_timeout s"
  by (auto simp: NewCommandSandbox_def split: if_splits)

text \<open>
  C28: Whatever command and directory a request names, the sandbox of a rooted workspace runs only a
  command that its list admits, under a time limit, in a directory that exists and whose path is the
  cleaned root followed by plain names - no way up, no empty element - so it lies in the root; and what it
  returns of an output is at most the limit and a notice of 22 bytes.
\<close>

theorem sandbox_stays_inside:
  assumes "is_rooted (sb_WorkspaceRoot cfg)" and "NewCommandSandbox cfg allowed = Some s"
    and "sandbox_Run stat exec (Some s) command cwd = (Some cmd, out, err, code, e)"
  shows "(\<exists>names rest. filepath_Clean (sb_WorkspaceRoot cfg) = rooted_path names \<and> sc_dir cmd = rooted_path (names @ rest)
      \<and> list_all plain_part (names @ rest) \<and> (TrimSpace cwd \<noteq> [] \<longrightarrow> stat (sc_dir cmd) = Inr True))
    \<and> validateAllowedCommand (sc_command cmd) allowed = [] \<and> 0 < sc_timeout cmd
    \<and> int (length out) \<le> cs_maxOutput s + 22 \<and> int (length err) \<le> cs_maxOutput s + 22"
proof -
  obtain names where names: "filepath_Clean (sb_WorkspaceRoot cfg) = rooted_path names" "list_all plain_part names"
    using Clean_rooted_plain [OF assms(1)] by blast
  note s = NewCommandSandbox_Some [OF assms(2)] and run = sandbox_Run_runs [OF assms(3)]
  then show ?thesis
    using resolveCwd_inside [of s names stat cwd "sc_dir cmd"] names truncateOutput_bound by auto
qed

theorem sandbox_stays_inside_witness:
  "\<exists>s cmd out err. NewCommandSandbox \<lparr>sb_Enabled = None, sb_WorkspaceRoot = ''/w/./p/'', sb_MaxOutputBytes = 0, sb_CommandTimeoutSec = 0\<rparr>
      [''go''] = Some s
    \<and> sandbox_Run (\<lambda>p. Inr True) (\<lambda>c. (''ok'', [], Exited 0)) (Some s) ''go test'' ''/a/../src'' = (Some cmd, out, err, 0, None)
    \<and> sc_dir cmd = ''/w/p/src'' \<and> 0 < sc_timeout cmd"
proof -
  let ?cfg = "\<lparr>sb_Enabled = None, sb_WorkspaceRoot = ''/w/./p/'', sb_MaxOutputBytes = 0, sb_CommandTimeoutSec = 0\<rparr>"
  let ?s = "\<lparr>cs_root = ''/w/p'', cs_allowed = [''go''], cs_maxOutput = 65536, cs_timeout = 120000000000\<rparr>"
  let ?cmd = "\<lparr>sc_command = ''go test'', sc_dir = ''/w/p/src'',
           sc_env = [''PATH=/usr/local/bin:/usr/bin:/bin'', ''HOME=/w/p''], sc_timeout = 120000000000\<rparr>"
  have new: "NewCommandSandbox ?cfg [''go''] = Some ?s" by code_simp
  have trim: "TrimSpace ''go test'' = ''go test''" by (simp add: TrimSpace_eval)
  have cmd: "validateAllowedCommand ''go test'' [''go''] = []"
    using validateAllowedCommand_word [of "''go''" "''go''" "[''go'']" "'' test''"] command_word_fixed [of "''go''"] by simp
  have dir: "resolveCwd (\<lambda>p. Inr True) ?s ''/a/../src'' = Inr ''/w/p/src''" by code_simp
  have run: "sandbox_Run (\<lambda>p. Inr True) (\<lambda>c. (''ok'', [], Exited 0)) (Some ?s) ''go test'' ''/a/../src'' = (Some ?cmd, ''ok'', [], 0, None)"
    by (simp add: sandbox_Run_def trim cmd dir truncateOutput_def)
  have rooted: "is_rooted (sb_WorkspaceRoot ?cfg)" by code_simp
  have t: "0 < sc_timeout ?cmd" using sandbox_stays_inside [OF rooted new run] by (elim conjE)
  show ?thesis
    by (rule exI [of _ ?s], rule exI [of _ ?cmd], rule exI [of _ "''ok''"], rule exI [of _ "[]"])
      (intro conjI new run t, simp)
qed

text \<open>
  An entry of the list of commands admits every command that begins with it, whatever follows: with
  \<open>go\<close> in the list, \<open>go test; rm -rf /\<close> is run by the shell too, and so is \<open>gorilla\<close>.
\<close>

theorem allowed_prefix_admits_all:
  assumes "command_word a" and "a \<in> set allowed"
  shows "validateAllowedCommand (a @ rest) allowed = []"
  using validateAllowedCommand_word [OF assms] command_word_fixed [OF assms(1)] by blast

theorem allowed_prefix_admits_all_witness:
  "validateAllowedCommand ''go test; rm -rf /'' [''go''] = []"
  using allowed_prefix_admits_all [of "''go''" "[''go'']" "'' test; rm -rf /''"] by simp

section \<open>What the list of paths admits\<close>

lemma str_join_append: "ps \<noteq> [] \<Longrightarrow> rest \<noteq> [] \<Longrightarrow> str_join (ps @ rest) sep = str_join ps sep @ sep @ str_join rest sep"
proof (induction ps sep rule: str_join.induct)
  case (2 x sep)
  then show ?case by (cases rest) simp_all
qed simp_all

text \<open>A path is a directory or begins with it and a slash iff its elements begin with those of the directory.\<close>

lemma path_within:
  "path = d \<or> HasPrefix path (d @ ''/'') \<longleftrightarrow> (\<exists>rest. split_on (CHR ''/'') path = split_on (CHR ''/'') d @ rest)" (is "?l \<longleftrightarrow> ?r")
proof
  assume ?l
  then show ?r
  proof
    assume "HasPrefix path (d @ ''/'')"
    then obtain t where "path = d @ CHR ''/'' # t" by (auto simp: HasPrefix_iff)
    then show ?r by (simp add: split_on_two)
  qed simp
next
  assume ?r
  then obtain rest where r: "split_on (CHR ''/'') path = split_on (CHR ''/'') d @ rest" by blast
  have path: "path = str_join (split_on (CHR ''/'') d @ rest) ''/''"
    using join_split_on [of "CHR ''/''" path] unfolding r by (rule sym)
  show ?l
  proof (cases "rest = []")
    case True
    then show ?thesis using path by (simp add: join_split_on)
  next
    case False
    then have "path = d @ ''/'' @ str_join rest ''/''"
      using path by (simp add: str_join_append join_split_on)
    then show ?thesis by (simp add: HasPrefix_iff)
  qed
qed

definition up_path :: "string \<Rightarrow> bool" where
  "up_path path \<longleftrightarrow> HasPrefix path ''../'' \<or> str_contains path ''/../''"

lemma Clean_up_again:
  assumes "plain_part d" and "\<not> is_rooted t"
  shows "filepath_Clean (d @ ''/../'' @ t) = filepath_Clean t"
proof -
  have d: "split_on (CHR ''/'') d = [d]" using assms(1) by (intro split_on_word) (simp add: plain_part_def)
  have "split_on (CHR ''/'') (d @ CHR ''/'' # ''..'' @ CHR ''/'' # t) = [d] @ [''..''] @ split_on (CHR ''/'') t"
    unfolding split_on_two d by simp
  then have "clean_parts False (split_on (CHR ''/'') (d @ ''/../'' @ t)) = clean_parts False (split_on (CHR ''/'') t)"
    using assms(1) by (simp add: clean_parts_def clean_step_def plain_part_def)
  moreover have "\<not> is_rooted (d @ ''/../'' @ t)" using assms(1) by (cases d) (auto simp: is_rooted_def plain_part_def)
  ultimately show ?thesis using assms(2) by (simp add: filepath_Clean_def)
qed



section \<open>The limit of steps\<close>

datatype session_op = OpBegin string string | OpReset string | OpSummary string string

fun session_exec :: "session_op \<Rightarrow> AgentSessionStore option \<Rightarrow> AgentSessionStore option" where
  "session_exec (OpBegin sid goal) st = snd (BeginStep sid goal st)"
| "session_exec (OpReset sid) st = session_Reset sid st"
| "session_exec (OpSummary sid summary) st = SetSummary sid summary st"

text \<open>The steps of a session since it was last reset.\<close>

fun begun :: "string \<Rightarrow> session_op \<Rightarrow> int \<Rightarrow> int" where
  "begun sid (OpBegin s _) n = (if s = sid then n + 1 else n)"
| "begun sid (OpReset s) n = (if s = sid then 0 else n)"
| "begun sid (OpSummary _ _) n = n"

definition session_steps :: "string \<Rightarrow> AgentSessionStore \<Rightarrow> int" where
  "session_steps sid st = (case at_sessions st sid of None \<Rightarrow> 0 | Some s \<Rightarrow> as_StepCount s)"

lemma session_exec_steps:
  assumes "sid \<noteq> []"
  shows "\<exists>st'. session_exec op (Some st) = Some st' \<and> at_maxSteps st' = at_maxSteps st
    \<and> session_steps sid st' = begun sid op (session_steps sid st)"
  using assms
  by (cases op) (auto simp: BeginStep_def session_Reset_def SetSummary_def session_steps_def Let_def split: option.splits)

lemma session_run_steps:
  "sid \<noteq> [] \<Longrightarrow> \<exists>st'. fold session_exec ops (Some st) = Some st' \<and> at_maxSteps st' = at_maxSteps st
    \<and> session_steps sid st' = fold (begun sid) ops (session_steps sid st)"
proof (induction ops arbitrary: st)
  case (Cons op ops)
  obtain st1 where st1: "session_exec op (Some st) = Some st1" "at_maxSteps st1 = at_maxSteps st"
      "session_steps sid st1 = begun sid op (session_steps sid st)"
    using session_exec_steps [OF Cons.prems] by blast
  show ?case using Cons.IH [OF Cons.prems, of st1] st1 by simp
qed simp

text \<open>
  However the operations on the sessions are interleaved, the next step of a session has the number of
  its steps since it was last reset and one, and it is stopped exactly when that exceeds the limit.
\<close>

theorem agent_steps_limited:
  assumes "sid \<noteq> []"
  shows "case fst (BeginStep sid goal (fold session_exec ops (Some (NewAgentSessionStore m)))) of
      (step, resp, stop) \<Rightarrow>
        step = fold (begun sid) ops 0 + 1 \<and> (stop \<longleftrightarrow> at_maxSteps (NewAgentSessionStore m) < step)
        \<and> (stop \<longrightarrow> ar_Finish resp \<and> ar_Calls resp = [] \<and> ar_Step resp = step)"
proof -
  obtain st where st: "fold session_exec ops (Some (NewAgentSessionStore m)) = Some st"
      "at_maxSteps st = at_maxSteps (NewAgentSessionStore m)" "session_steps sid st = fold (begun sid) ops 0"
    using session_run_steps [OF assms, of ops "NewAgentSessionStore m"]
    by (auto simp: session_steps_def NewAgentSessionStore_def)
  then show ?thesis using assms unfolding st(1)
    by (auto simp: BeginStep_def Let_def session_steps_def no_response_def split: option.splits)
qed

theorem agent_steps_limited_witness:
  "fst (fst (BeginStep ''s'' [] (fold session_exec [OpBegin ''s'' ''g'', OpBegin ''t'' [], OpReset ''t''] (Some (NewAgentSessionStore 1))))) = 2"
  using agent_steps_limited [where sid = "''s''" and goal = "[]" and m = 1
      and ops = "[OpBegin ''s'' ''g'', OpBegin ''t'' [], OpReset ''t'']"]
  by (simp add: case_prod_unfold)

end
