(* ===== verification/McpRegistry.thy ===== *)
theory McpRegistry
  imports ToolResolve "HOL-Library.AList"
begin

text \<open>
  The registry of MCP servers, \<open>pkg/mcpregistry\<close>: which configured servers it takes
  (\<open>mcpclient/domain\<close>), the tools they declare, the tools it offers a model, and to which server a
  call goes. The map of servers is an association list; the order in which Go iterates over it is an
  argument, as are what a server declares (\<open>ListToolsCached\<close>) and what a tool answers (\<open>CallTool\<close>),
  and the quoting of \<open>%q\<close>. A nil registry is \<open>None\<close>. The lock makes each reading and each writing
  of the tools one step.
\<close>

section \<open>Servers\<close>

record ServerConfig =
  sv_ID :: int
  sv_Name :: string
  sv_Enabled :: "bool option"
  sv_Transport :: string
  sv_URL :: string
  sv_Headers :: "(string \<times> string) list"
  sv_TimeoutSeconds :: int

record MCPServer =
  ms_ID :: int
  ms_UserID :: "int option"
  ms_Name :: string
  ms_Enabled :: bool
  ms_Transport :: string
  ms_Command :: string
  ms_ArgsJSON :: string
  ms_EnvJSON :: string
  ms_URL :: string
  ms_HeadersJSON :: string
  ms_TimeoutSeconds :: int

definition NormalizeMCPServer :: "MCPServer \<Rightarrow> MCPServer" where
  "NormalizeMCPServer s =
     s\<lparr>ms_Name := TrimSpace (ms_Name s),
       ms_Transport := (let t = ToLower (TrimSpace (ms_Transport s)) in if t = [] then ''sse'' else t),
       ms_Command := TrimSpace (ms_Command s), ms_URL := TrimSpace (ms_URL s)\<rparr>"

datatype server_error = BadTransport | BadTimeout

definition ValidateMCPServerStructure :: "MCPServer option \<Rightarrow> server_error option" where
  "ValidateMCPServerStructure s =
     (case s of
        None \<Rightarrow> None
      | Some srv \<Rightarrow>
          let tr = (let t = ToLower (TrimSpace (ms_Transport srv)) in if t = [] then ''sse'' else t); ts = ms_TimeoutSeconds srv in
          if tr \<notin> {''sse'', ''streamable''} then Some BadTransport
          else if ts \<noteq> 0 \<and> (ts < 1 \<or> 600 < ts) then Some BadTimeout
          else None)"

definition toMCPServerDomain :: "ServerConfig \<Rightarrow> MCPServer option" where
  "toMCPServerDomain cfg =
     (if sv_ID cfg \<le> 0 then None
      else if (case sv_Enabled cfg of None \<Rightarrow> False | Some e \<Rightarrow> \<not> e) then None
      else
        let name = (let n = TrimSpace (sv_Name cfg) in if n = [] then ''mcp-'' @ itoa (sv_ID cfg) else n);
            headersJSON = (if sv_Headers cfg = [] then [] else Marshal (GMap (map (map_prod id GStr) (sv_Headers cfg))));
            timeout = (if sv_TimeoutSeconds cfg \<le> 0 then 120 else sv_TimeoutSeconds cfg);
            srv = NormalizeMCPServer
              \<lparr>ms_ID = sv_ID cfg, ms_UserID = None, ms_Name = name, ms_Enabled = True, ms_Transport = TrimSpace (sv_Transport cfg),
               ms_Command = [], ms_ArgsJSON = [], ms_EnvJSON = [], ms_URL = TrimSpace (sv_URL cfg),
               ms_HeadersJSON = headersJSON, ms_TimeoutSeconds = timeout\<rparr>
        in if ValidateMCPServerStructure (Some srv) \<noteq> None then None else Some srv)"

record ToolInfo =
  ti_Alias :: string
  ti_ServerID :: int
  ti_ServerName :: string
  ti_Name :: string
  ti_Description :: string
  ti_ParametersJSON :: string

record McpRegistry =
  rg_servers :: "(int \<times> MCPServer) list"
  rg_tools :: "ToolInfo list"

definition mcp_New :: "ServerConfig list \<Rightarrow> McpRegistry" where
  "mcp_New servers =
     \<lparr>rg_servers = fold (\<lambda>s m. case toMCPServerDomain s of None \<Rightarrow> m | Some srv \<Rightarrow> AList.update (ms_ID srv) srv m) servers [],
      rg_tools = []\<rparr>"

definition mcp_Enabled :: "McpRegistry option \<Rightarrow> bool" where
  "mcp_Enabled r = (case r of None \<Rightarrow> False | Some reg \<Rightarrow> rg_servers reg \<noteq> [])"

definition mcp_ServerCount :: "McpRegistry option \<Rightarrow> nat" where
  "mcp_ServerCount r = (case r of None \<Rightarrow> 0 | Some reg \<Rightarrow> length (rg_servers reg))"

section \<open>Tools\<close>

record DeclaredTool =
  dt_Name :: string
  dt_Description :: string
  dt_ParametersJSON :: string

definition tool_infos :: "MCPServer \<Rightarrow> DeclaredTool list \<Rightarrow> ToolInfo list" where
  "tool_infos srv declared =
     map (\<lambda>t. \<lparr>ti_Alias = ToolAlias (ms_ID srv) (dt_Name t), ti_ServerID = ms_ID srv, ti_ServerName = ms_Name srv,
               ti_Name = dt_Name t, ti_Description = TrimSpace (dt_Description t), ti_ParametersJSON = dt_ParametersJSON t\<rparr>) declared"

definition mcp_Refresh ::
  "(MCPServer list \<Rightarrow> MCPServer list) \<Rightarrow> (MCPServer \<Rightarrow> string + DeclaredTool list) \<Rightarrow> McpRegistry option \<Rightarrow> McpRegistry option" where
  "mcp_Refresh order list_tools r =
     map_option (\<lambda>reg. reg\<lparr>rg_tools :=
       concat (map (\<lambda>srv. case list_tools srv of Inl e \<Rightarrow> [] | Inr declared \<Rightarrow> tool_infos srv declared)
         (order (map snd (rg_servers reg))))\<rparr>) r"

definition ListTools :: "McpRegistry option \<Rightarrow> ToolInfo list" where
  "ListTools r = (case r of None \<Rightarrow> [] | Some reg \<Rightarrow> rg_tools reg)"

definition allowed_ids :: "int list \<Rightarrow> int set" where
  "allowed_ids serverIDs = set (filter (\<lambda>i. 0 < i) serverIDs)"

definition ToolsPromptBlockForServers :: "(string \<Rightarrow> string) \<Rightarrow> int list \<Rightarrow> McpRegistry option \<Rightarrow> string" where
  "ToolsPromptBlockForServers quote serverIDs r =
     (let tools = ListTools r; allowed = allowed_ids serverIDs in
      if tools = [] then []
      else
        TrimSpace (''MCP tools (use exact alias in calls[].tool):'' @ [CHR 0x0A] @
          concat (map (\<lambda>t.
            if allowed \<noteq> {} \<and> ti_ServerID t \<notin> allowed then []
            else ''- '' @ ti_Alias t @ '' ('' @ ti_Name t @ '' on server '' @ quote (ti_ServerName t) @ '')''
                 @ (if ti_Description t \<noteq> [] then '': '' @ ti_Description t else []) @ [CHR 0x0A]) tools)))"

definition ToolsPromptBlock :: "(string \<Rightarrow> string) \<Rightarrow> McpRegistry option \<Rightarrow> string" where
  "ToolsPromptBlock quote r = ToolsPromptBlockForServers quote [] r"

text \<open>The nil registry is the receiver of neither of the next two where the code calls them.\<close>

definition ServerExistsByAlias :: "string \<Rightarrow> McpRegistry \<Rightarrow> bool" where
  "ServerExistsByAlias alias reg =
     (case ParseToolAlias alias of None \<Rightarrow> False | Some (sid, _) \<Rightarrow> map_of (rg_servers reg) sid \<noteq> None)"

definition HasTool :: "string \<Rightarrow> McpRegistry \<Rightarrow> bool" where
  "HasTool name0 reg =
     (let name = TrimSpace name0 in
      if name = [] then False
      else if ParseToolAlias name \<noteq> None then ServerExistsByAlias name reg
      else list_ex (\<lambda>t. ti_Alias t = name \<or> ti_Name t = name) (ListTools (Some reg)))"

record CallRequest =
  cq_Tool :: string
  cq_ServerID :: int
  cq_Name :: string
  cq_Arguments :: "(string \<times> gov) list option"

datatype call_error = NoRegistry | UnknownAlias string | NoTarget | NoServer int | ToolError string

definition mcp_Call ::
  "(MCPServer \<Rightarrow> string \<Rightarrow> string \<Rightarrow> string + string) \<Rightarrow> CallRequest \<Rightarrow> McpRegistry option \<Rightarrow> call_error + string" where
  "mcp_Call call_tool req r =
     (case r of
        None \<Rightarrow> Inl NoRegistry
      | Some reg \<Rightarrow>
          let alias = TrimSpace (cq_Tool req) in
          if alias \<noteq> [] \<and> ParseToolAlias alias = None then Inl (UnknownAlias alias)
          else
            let (serverID, toolName) =
                  (if alias \<noteq> [] then the (ParseToolAlias alias) else (cq_ServerID req, TrimSpace (cq_Name req)))
            in
              if serverID \<le> 0 \<or> toolName = [] then Inl NoTarget
              else
                case map_of (rg_servers reg) serverID of
                  None \<Rightarrow> Inl (NoServer serverID)
                | Some srv \<Rightarrow>
                    (case call_tool srv toolName (Marshal (GMap (case cq_Arguments req of None \<Rightarrow> [] | Some m \<Rightarrow> m))) of
                       Inl e \<Rightarrow> Inl (ToolError e)
                     | Inr out \<Rightarrow> Inr out))"

text \<open>The loop of \<open>GenerationTools\<close>: the names taken so far are passed along.\<close>

fun generation_tools :: "int set \<Rightarrow> ToolInfo list \<Rightarrow> string list \<Rightarrow> Tool list" where
  "generation_tools allowed [] names = []"
| "generation_tools allowed (t # ts) names =
     (if allowed \<noteq> {} \<and> ti_ServerID t \<notin> allowed then generation_tools allowed ts names
      else
        let n = NormalizeToolName (ti_Alias t) in
        if n \<in> set names then generation_tools allowed ts names
        else
          let desc = TrimSpace (ti_Description t);
              desc = (if ti_ServerName t \<noteq> [] then ''[MCP '' @ ti_ServerName t @ ''] '' @ desc else desc)
          in \<lparr>tool_Name = ti_Alias t, tool_Description = TrimSpace desc, tool_ParametersJSON = ti_ParametersJSON t\<rparr>
             # generation_tools allowed ts (n # names))"

definition GenerationTools ::
  "(MCPServer list \<Rightarrow> MCPServer list) \<Rightarrow> (MCPServer \<Rightarrow> string + DeclaredTool list) \<Rightarrow> int list \<Rightarrow> McpRegistry option
     \<Rightarrow> (call_error + Tool list) \<times> McpRegistry option" where
  "GenerationTools order list_tools serverIDs r =
     (case r of
        None \<Rightarrow> (Inl NoRegistry, None)
      | Some reg \<Rightarrow>
          let r1 = mcp_Refresh order list_tools r in
          (Inr (generation_tools (allowed_ids serverIDs) (ListTools r1) []), r1))"

section \<open>The servers of a registry\<close>

definition mcp_registry_inv :: "McpRegistry \<Rightarrow> bool" where
  "mcp_registry_inv reg \<longleftrightarrow> distinct (map fst (rg_servers reg)) \<and>
     list_all (\<lambda>(i, s). 0 < i \<and> ms_ID s = i \<and> ms_Enabled s \<and> ms_Transport s \<in> {''sse'', ''streamable''}
       \<and> 1 \<le> ms_TimeoutSeconds s \<and> ms_TimeoutSeconds s \<le> 600) (rg_servers reg)"

lemma validated_server:
  assumes "ValidateMCPServerStructure (Some (NormalizeMCPServer s)) = None"
  shows "ms_Transport (NormalizeMCPServer s) \<in> {''sse'', ''streamable''} \<and>
    (ms_TimeoutSeconds s = 0 \<or> 1 \<le> ms_TimeoutSeconds s \<and> ms_TimeoutSeconds s \<le> 600)"
proof -
  let ?t = "ToLower (TrimSpace (ms_Transport s))"
  have "?t = [] \<or> ?t \<in> {''sse'', ''streamable''}"
    using assms by (cases "?t = []") (simp_all add: ValidateMCPServerStructure_def NormalizeMCPServer_def Let_def split: if_splits)
  moreover have "ms_TimeoutSeconds s = 0 \<or> 1 \<le> ms_TimeoutSeconds s \<and> ms_TimeoutSeconds s \<le> 600"
    using assms by (auto simp: ValidateMCPServerStructure_def NormalizeMCPServer_def Let_def split: if_splits)
  ultimately show ?thesis by (auto simp: NormalizeMCPServer_def Let_def)
qed

lemma NormalizeMCPServer_fields [simp]:
  "ms_ID (NormalizeMCPServer s) = ms_ID s" "ms_Enabled (NormalizeMCPServer s) = ms_Enabled s"
  "ms_TimeoutSeconds (NormalizeMCPServer s) = ms_TimeoutSeconds s"
  by (simp_all add: NormalizeMCPServer_def)

lemma toMCPServerDomain_Some:
  assumes "toMCPServerDomain cfg = Some srv"
  shows "0 < sv_ID cfg \<and> ms_ID srv = sv_ID cfg \<and> ms_Enabled srv \<and> ms_Transport srv \<in> {''sse'', ''streamable''}
    \<and> 1 \<le> ms_TimeoutSeconds srv \<and> ms_TimeoutSeconds srv \<le> 600"
proof -
  obtain s where s: "srv = NormalizeMCPServer s" "ValidateMCPServerStructure (Some (NormalizeMCPServer s)) = None"
      "ms_ID s = sv_ID cfg" "ms_Enabled s" "0 < ms_TimeoutSeconds s"
    using assms unfolding toMCPServerDomain_def Let_def
    by (auto split: if_splits simp del: NormalizeMCPServer_fields)
  have "0 < sv_ID cfg" using assms by (auto simp: toMCPServerDomain_def split: if_splits)
  then show ?thesis using s validated_server [OF s(2)] by auto
qed

lemma set_AList_update: "x \<in> set (AList.update k v m) \<Longrightarrow> x = (k, v) \<or> x \<in> set m"
  by (induction m) (auto split: if_splits)

lemma mcp_New_inv: "mcp_registry_inv (mcp_New servers)"
proof -
  let ?step = "\<lambda>s m. case toMCPServerDomain s of None \<Rightarrow> m | Some srv \<Rightarrow> AList.update (ms_ID srv) srv m"
  have "mcp_registry_inv \<lparr>rg_servers = fold ?step servers m, rg_tools = []\<rparr>" if "mcp_registry_inv \<lparr>rg_servers = m, rg_tools = []\<rparr>" for m
    using that
  proof (induction servers arbitrary: m)
    case (Cons s servers)
    have "mcp_registry_inv \<lparr>rg_servers = ?step s m, rg_tools = []\<rparr>"
    proof (cases "toMCPServerDomain s")
      case (Some srv)
      then show ?thesis using Cons.prems toMCPServerDomain_Some [OF Some]
        by (auto simp: mcp_registry_inv_def list_all_iff distinct_update dest!: set_AList_update)
    qed (use Cons.prems in simp)
    then show ?case using Cons.IH by simp
  qed simp
  then show ?thesis by (simp add: mcp_New_def mcp_registry_inv_def)
qed

lemma mcp_registry_inv_refresh:
  "mcp_Refresh order list_tools (Some reg) = Some reg' \<Longrightarrow> rg_servers reg' = rg_servers reg"
  by (auto simp: mcp_Refresh_def)

section \<open>The tools offered\<close>

lemma ReplaceAll_absent: "c \<notin> set s \<Longrightarrow> ReplaceAll s [c] new = s"
proof (induction s)
  case (Cons a s)
  then show ?case by (subst ReplaceAll.simps) (auto simp: HasPrefix_def)
qed (subst ReplaceAll.simps, simp)

lemma NormalizeToolName_ToolAlias: "0 < sid \<Longrightarrow> NormalizeToolName (ToolAlias sid name) = ToolAlias sid name"
proof -
  assume sid: "0 < sid"
  have "byte c < (128::nat) \<and> \<not> (65 \<le> (byte c :: nat) \<and> (byte c :: nat) \<le> 90) \<and> c \<noteq> CHR ''-''" if "c \<in> set (ToolAlias sid name)" for c
    using ToolAlias_chars [OF sid that] by (auto simp: digit_def hex_low_def)
  then have "ToLower (ToolAlias sid name) = ToolAlias sid name" "CHR ''-'' \<notin> set (ToolAlias sid name)"
    by (auto intro!: ToLower_lower)
  then show ?thesis using sid by (simp add: NormalizeToolName_def ReplaceAll_absent)
qed

lemma generation_tools_names:
  assumes "\<forall>t\<in>set ts. NormalizeToolName (ti_Alias t) = ti_Alias t"
  shows "distinct (map tool_Name (generation_tools allowed ts names)) \<and>
    set (map tool_Name (generation_tools allowed ts names))
      = {ti_Alias t |t. t \<in> set ts \<and> (allowed = {} \<or> ti_ServerID t \<in> allowed)} - set names"
  using assms
proof (induction ts arbitrary: names)
  case (Cons t ts)
  then have IH: "distinct (map tool_Name (generation_tools allowed ts ns)) \<and>
      set (map tool_Name (generation_tools allowed ts ns))
        = {ti_Alias t |t. t \<in> set ts \<and> (allowed = {} \<or> ti_ServerID t \<in> allowed)} - set ns" for ns by simp
  have t: "NormalizeToolName (ti_Alias t) = ti_Alias t" using Cons.prems by simp
  show ?case
  proof (cases "allowed \<noteq> {} \<and> ti_ServerID t \<notin> allowed \<or> ti_Alias t \<in> set names")
    case True
    then have "generation_tools allowed (t # ts) names = generation_tools allowed ts names" using t by auto
    then show ?thesis using IH [of names] True by auto
  next
    case False
    then have "map tool_Name (generation_tools allowed (t # ts) names)
        = ti_Alias t # map tool_Name (generation_tools allowed ts (ti_Alias t # names))" using t by (auto simp: Let_def)
    then show ?thesis using IH [of "ti_Alias t # names"] False by auto
  qed
qed simp

lemma listed_tools:
  "set (concat (map (\<lambda>srv. case list_tools srv of Inl e \<Rightarrow> [] | Inr ds \<Rightarrow> tool_infos srv ds) srvs))
    = {t. \<exists>srv\<in>set srvs. \<exists>ds. list_tools srv = Inr ds \<and> t \<in> set (tool_infos srv ds)}"
  by (induction srvs) (auto split: sum.splits)

lemma refreshed_tools:
  assumes "mcp_registry_inv reg" and "set (order (map snd (rg_servers reg))) = set (map snd (rg_servers reg))"
  shows "set (ListTools (mcp_Refresh order list_tools (Some reg)))
    = {t. \<exists>srv ds. map_of (rg_servers reg) (ms_ID srv) = Some srv \<and> list_tools srv = Inr ds \<and> t \<in> set (tool_infos srv ds)}"
proof -
  have mem: "srv \<in> set (map snd (rg_servers reg)) \<longleftrightarrow> map_of (rg_servers reg) (ms_ID srv) = Some srv" for srv
    using assms(1) by (auto simp: mcp_registry_inv_def list_all_iff intro!: map_of_is_SomeI dest: map_of_SomeD) (metis map_of_SomeD snd_conv image_eqI)
  have "ListTools (mcp_Refresh order list_tools (Some reg))
      = concat (map (\<lambda>srv. case list_tools srv of Inl e \<Rightarrow> [] | Inr ds \<Rightarrow> tool_infos srv ds) (order (map snd (rg_servers reg))))"
    by (simp add: ListTools_def mcp_Refresh_def)
  then show ?thesis by (simp only: listed_tools assms(2) Bex_def mem) auto
qed

lemma mcp_registry_servers:
  "mcp_registry_inv reg \<Longrightarrow> map_of (rg_servers reg) i = Some srv \<Longrightarrow> 0 < i \<and> ms_ID srv = i"
  by (auto simp: mcp_registry_inv_def list_all_iff dest!: map_of_SomeD)

lemma mcp_New_ids: "map_of (rg_servers (mcp_New servers)) i = Some srv \<Longrightarrow> \<exists>c\<in>set servers. sv_ID c = i"
proof -
  let ?step = "\<lambda>s m. case toMCPServerDomain s of None \<Rightarrow> m | Some srv \<Rightarrow> AList.update (ms_ID srv) srv m"
  have "map_of (fold ?step servers m) i = Some srv \<Longrightarrow> map_of m i = Some srv \<or> (\<exists>c\<in>set servers. sv_ID c = i)" for m
  proof (induction servers arbitrary: m)
    case (Cons s servers)
    then show ?case
      using toMCPServerDomain_Some [of s]
      by (cases "toMCPServerDomain s") (force simp: update_conv' split: if_splits)+
  qed simp
  from this [of "[]"] show "map_of (rg_servers (mcp_New servers)) i = Some srv \<Longrightarrow> \<exists>c\<in>set servers. sv_ID c = i"
    by (simp add: mcp_New_def)
qed

lemma call_by_alias:
  assumes "mcp_registry_inv reg" and "map_of (rg_servers reg) (ms_ID srv) = Some srv" and "ms_ID srv < 2 ^ 63" and "name \<noteq> []"
  shows "mcp_Call call_tool \<lparr>cq_Tool = ToolAlias (ms_ID srv) name, cq_ServerID = sid, cq_Name = other, cq_Arguments = Some args\<rparr> (Some reg)
    = (case call_tool srv name (Marshal (GMap args)) of Inl e \<Rightarrow> Inl (ToolError e) | Inr out \<Rightarrow> Inr out)"
proof -
  have pos: "0 < ms_ID srv" using mcp_registry_servers [OF assms(1,2)] by simp
  have "ToolAlias (ms_ID srv) name \<noteq> []" by (simp add: ToolAlias_def)
  then show ?thesis
    using ParseToolAlias_ToolAlias [OF pos assms(3,4)] pos assms(2,4) by (simp add: mcp_Call_def Let_def)
qed

text \<open>
  C19: Whatever servers are configured and in whatever order they answer, the tools offered to a model have
  distinct names, and these are the aliases of exactly the tools that the servers of the registry declare -
  those named by the session, or all where it names no positive id; and a call by such a name goes to the
  server that declared the tool, with the tool's own name and its arguments.
\<close>

theorem offered_tools_routed:
  assumes "\<forall>c\<in>set servers. sv_ID c < 2 ^ 63"
    and "set (order (map snd (rg_servers (mcp_New servers)))) = set (map snd (rg_servers (mcp_New servers)))"
    and "GenerationTools order list_tools serverIDs (Some (mcp_New servers)) = (Inr tools, Some reg)"
  shows "distinct (map tool_Name tools) \<and>
    set (map tool_Name tools) = {ToolAlias (ms_ID srv) (dt_Name d) |srv d ds.
       map_of (rg_servers reg) (ms_ID srv) = Some srv \<and> list_tools srv = Inr ds \<and> d \<in> set ds
       \<and> (list_ex (\<lambda>i. 0 < i) serverIDs \<longrightarrow> ms_ID srv \<in> set serverIDs)} \<and>
    (\<forall>srv d args. map_of (rg_servers reg) (ms_ID srv) = Some srv \<and> dt_Name d \<noteq> [] \<longrightarrow>
       mcp_Call call_tool \<lparr>cq_Tool = ToolAlias (ms_ID srv) (dt_Name d), cq_ServerID = 0, cq_Name = [], cq_Arguments = Some args\<rparr> (Some reg)
         = (case call_tool srv (dt_Name d) (Marshal (GMap args)) of Inl e \<Rightarrow> Inl (ToolError e) | Inr out \<Rightarrow> Inr out))"
proof -
  let ?r = "mcp_New servers"
  have inv: "mcp_registry_inv ?r" by (rule mcp_New_inv)
  have reg: "mcp_Refresh order list_tools (Some ?r) = Some reg"
    and tools: "tools = generation_tools (allowed_ids serverIDs) (ListTools (Some reg)) []"
    using assms(3) by (auto simp: GenerationTools_def Let_def)
  have srvs: "rg_servers reg = rg_servers ?r" using mcp_registry_inv_refresh [OF reg] .
  then have inv': "mcp_registry_inv reg" using inv by (simp add: mcp_registry_inv_def)
  have listed: "set (ListTools (Some reg)) = {t. \<exists>srv ds. map_of (rg_servers reg) (ms_ID srv) = Some srv \<and> list_tools srv = Inr ds
      \<and> t \<in> set (tool_infos srv ds)}"
    using refreshed_tools [where order = order and list_tools = list_tools, OF inv assms(2)] unfolding reg srvs .
  have norm: "\<forall>t\<in>set (ListTools (Some reg)). NormalizeToolName (ti_Alias t) = ti_Alias t"
  proof
    fix t
    assume "t \<in> set (ListTools (Some reg))"
    then obtain srv ds where s: "map_of (rg_servers reg) (ms_ID srv) = Some srv" "t \<in> set (tool_infos srv ds)"
      unfolding listed by blast
    have "0 < ms_ID srv" using mcp_registry_servers [OF inv' s(1)] by simp
    then show "NormalizeToolName (ti_Alias t) = ti_Alias t"
      using s(2) by (auto simp: tool_infos_def NormalizeToolName_ToolAlias)
  qed
  have allowed: "allowed_ids serverIDs = {} \<or> ms_ID srv \<in> allowed_ids serverIDs
      \<longleftrightarrow> (list_ex (\<lambda>i. 0 < i) serverIDs \<longrightarrow> ms_ID srv \<in> set serverIDs)"
    if "map_of (rg_servers reg) (ms_ID srv) = Some srv" for srv
    using mcp_registry_servers [OF inv' that] by (auto simp: allowed_ids_def list_ex_iff)
  have names: "set (map tool_Name tools) = {ToolAlias (ms_ID srv) (dt_Name d) |srv d ds.
       map_of (rg_servers reg) (ms_ID srv) = Some srv \<and> list_tools srv = Inr ds \<and> d \<in> set ds
       \<and> (list_ex (\<lambda>i. 0 < i) serverIDs \<longrightarrow> ms_ID srv \<in> set serverIDs)}"
  proof (intro set_eqI)
    fix x
    let ?A = "allowed_ids serverIDs"
    have "x \<in> set (map tool_Name tools) \<longleftrightarrow> (\<exists>t\<in>set (ListTools (Some reg)). ti_Alias t = x \<and> (?A = {} \<or> ti_ServerID t \<in> ?A))"
      using generation_tools_names [OF norm, of ?A "[]"] unfolding tools [symmetric] by auto
    also have "\<dots> \<longleftrightarrow> (\<exists>srv ds. map_of (rg_servers reg) (ms_ID srv) = Some srv \<and> list_tools srv = Inr ds
        \<and> (\<exists>t\<in>set (tool_infos srv ds). ti_Alias t = x \<and> (?A = {} \<or> ti_ServerID t \<in> ?A)))"
      unfolding listed by blast
    also have "\<dots> \<longleftrightarrow> (\<exists>srv ds. map_of (rg_servers reg) (ms_ID srv) = Some srv \<and> list_tools srv = Inr ds
        \<and> (\<exists>d\<in>set ds. ToolAlias (ms_ID srv) (dt_Name d) = x) \<and> (list_ex (\<lambda>i. 0 < i) serverIDs \<longrightarrow> ms_ID srv \<in> set serverIDs))"
      by (intro iff_exI conj_cong refl) (auto simp: tool_infos_def allowed)
    finally show "x \<in> set (map tool_Name tools) \<longleftrightarrow> x \<in> {ToolAlias (ms_ID srv) (dt_Name d) |srv d ds.
       map_of (rg_servers reg) (ms_ID srv) = Some srv \<and> list_tools srv = Inr ds \<and> d \<in> set ds
       \<and> (list_ex (\<lambda>i. 0 < i) serverIDs \<longrightarrow> ms_ID srv \<in> set serverIDs)}"
      by (simp only: mem_Collect_eq) blast
  qed
  have "ms_ID srv < 2 ^ 63" if "map_of (rg_servers reg) (ms_ID srv) = Some srv" for srv
    using mcp_New_ids [of servers] that assms(1) unfolding srvs by fastforce
  then have calls: "\<forall>srv d args. map_of (rg_servers reg) (ms_ID srv) = Some srv \<and> dt_Name d \<noteq> [] \<longrightarrow>
       mcp_Call call_tool \<lparr>cq_Tool = ToolAlias (ms_ID srv) (dt_Name d), cq_ServerID = 0, cq_Name = [], cq_Arguments = Some args\<rparr> (Some reg)
         = (case call_tool srv (dt_Name d) (Marshal (GMap args)) of Inl e \<Rightarrow> Inl (ToolError e) | Inr out \<Rightarrow> Inr out)"
    using call_by_alias [OF inv'] by blast
  show ?thesis
    using generation_tools_names [OF norm, of "allowed_ids serverIDs" "[]"] names calls
    unfolding tools [symmetric] by blast
qed

theorem offered_tools_routed_witness:
  "\<exists>tools reg. GenerationTools id (\<lambda>s. Inr [\<lparr>dt_Name = ''ls'', dt_Description = [], dt_ParametersJSON = []\<rparr>]) []
      (Some (mcp_New [\<lparr>sv_ID = 7, sv_Name = ''fs'', sv_Enabled = None, sv_Transport = ''sse'', sv_URL = [], sv_Headers = [], sv_TimeoutSeconds = 0\<rparr>]))
      = (Inr tools, Some reg) \<and> distinct (map tool_Name tools)
      \<and> mcp_Call (\<lambda>s n a. Inr (n @ a)) \<lparr>cq_Tool = ToolAlias 7 ''ls'', cq_ServerID = 0, cq_Name = [], cq_Arguments = Some []\<rparr> (Some reg) = Inr ''ls{}''"
proof -
  let ?c = "\<lparr>sv_ID = 7, sv_Name = ''fs'', sv_Enabled = None, sv_Transport = ''sse'', sv_URL = [], sv_Headers = [], sv_TimeoutSeconds = 0\<rparr>"
  let ?srv = "\<lparr>ms_ID = 7, ms_UserID = None, ms_Name = ''fs'', ms_Enabled = True, ms_Transport = ''sse'', ms_Command = [], ms_ArgsJSON = [],
    ms_EnvJSON = [], ms_URL = [], ms_HeadersJSON = [], ms_TimeoutSeconds = 120\<rparr>"
  let ?d = "\<lparr>dt_Name = ''ls'', dt_Description = [], dt_ParametersJSON = []\<rparr>"
  let ?list = "\<lambda>s :: MCPServer. (Inr [?d] :: string + DeclaredTool list)"
  have trim: "TrimSpace ''fs'' = ''fs''" "TrimSpace ''sse'' = ''sse''" by (rule TrimSpace_solid; simp add: IsSpace_def)+
  have low: "ToLower ''sse'' = ''sse''" by (rule ToLower_lower) simp
  have srv: "toMCPServerDomain ?c = Some ?srv"
    by (simp add: toMCPServerDomain_def NormalizeMCPServer_def ValidateMCPServerStructure_def trim low)
  have reg: "mcp_New [?c] = \<lparr>rg_servers = [(7, ?srv)], rg_tools = []\<rparr>" by (simp add: mcp_New_def srv)
  let ?reg = "\<lparr>rg_servers = [(7, ?srv)], rg_tools = tool_infos ?srv [?d]\<rparr>"
  let ?tools = "generation_tools (allowed_ids []) (tool_infos ?srv [?d]) []"
  have gen: "GenerationTools id ?list [] (Some (mcp_New [?c])) = (Inr ?tools, Some ?reg)"
    by (simp add: GenerationTools_def mcp_Refresh_def ListTools_def reg)
  have ids: "\<forall>c\<in>set [?c]. sv_ID c < 2 ^ 63" by simp
  have order: "set (id (map snd (rg_servers (mcp_New [?c])))) = set (map snd (rg_servers (mcp_New [?c])))" by simp
  note all = offered_tools_routed [where call_tool = "\<lambda>s n a. Inr (n @ a)", OF ids order gen]
  have "mcp_Call (\<lambda>s n a. Inr (n @ a)) \<lparr>cq_Tool = ToolAlias (ms_ID ?srv) (dt_Name ?d), cq_ServerID = 0, cq_Name = [], cq_Arguments = Some []\<rparr>
      (Some ?reg) = Inr ''ls{}''"
    by (subst conjunct2 [OF conjunct2 [OF all], rule_format, of ?srv ?d "[]"]) simp_all
  then show ?thesis using gen conjunct1 [OF all] by auto
qed

end
