(* ===== verification/McpContent.thy ===== *)
theory McpContent
  imports McpRegistry
begin

text \<open>
  What an MCP server answers and how the model reads it: \<open>tool_result_content.go\<close>,
  \<open>llm_reply_limits.go\<close>, \<open>effective_servers.go\<close> and \<open>vision.go\<close> of
  \<open>pkg/mcpclient\<close>. The types of the protocol are those of its SDK, reduced to the fields the code
  reads; a piece of content of a kind the code does not name is what \<open>json.Marshal\<close> makes of it.
  The quoting of \<open>%q\<close> is an argument.
\<close>

section \<open>Base64\<close>

definition b64_char :: "nat \<Rightarrow> char" where
  "b64_char n =
     (if n < 26 then char_of (65 + n) else if n < 52 then char_of (71 + n)
      else if n < 62 then char_of (n - 4) else if n = 62 then CHR ''+'' else CHR ''/'')"

fun base64 :: "string \<Rightarrow> string" where
  "base64 (a # b # c # s) =
     (let x = of_char a :: nat; y = of_char b; z = of_char c in
      b64_char (x div 4) # b64_char (x mod 4 * 16 + y div 16) # b64_char (y mod 16 * 4 + z div 64) # b64_char (z mod 64)
        # base64 s)"
| "base64 [a, b] =
     (let x = of_char a :: nat; y = of_char b in
      [b64_char (x div 4), b64_char (x mod 4 * 16 + y div 16), b64_char (y mod 16 * 4), CHR ''=''])"
| "base64 [a] =
     (let x = of_char a :: nat in [b64_char (x div 4), b64_char (x mod 4 * 16), CHR ''='', CHR ''=''])"
| "base64 [] = []"

lemma length_base64: "length (base64 s) = 4 * ((length s + 2) div 3)"
proof (induction s rule: base64.induct)
  case (1 a b c s)
  then show ?case using div_add_self1 [of 3 "length s + 2"] by (simp add: Let_def)
qed (simp_all add: Let_def)

section \<open>The content of a result\<close>

record ResourceLink =
  rl_URI :: string
  rl_Name :: string
  rl_Title :: string
  rl_Description :: string
  rl_MIMEType :: string

record ResourceContents =
  rc_URI :: string
  rc_MIMEType :: string
  rc_Text :: string
  rc_Blob :: string

datatype McpContent =
    TextContent string
  | ImageContent string string
  | AudioContent string string
  | ResourceLinkContent ResourceLink
  | EmbeddedResource "ResourceContents option"
  | OtherContent string

record CallToolResult =
  cr_Content :: "McpContent option list"
  cr_StructuredContent :: "gov option"
  cr_IsError :: bool

definition maxInlinedBase64Runes :: nat where
  "maxInlinedBase64Runes = 512 * 1024"

definition mcpImageContentToLLMPlaceholder :: "(string \<Rightarrow> string) \<Rightarrow> string \<Rightarrow> nat \<Rightarrow> string" where
  "mcpImageContentToLLMPlaceholder quote mime0 n =
     (let mime = TrimSpace mime0;
          head = ''['' @ utf8 [1048, 1079, 1086, 1073, 1088, 1072, 1078, 1077, 1085, 1080, 1077, 32,
              1080, 1079, 32, 1080, 1085, 1089, 1090, 1088, 1091, 1084, 1077, 1085, 1090, 1072,
              32] @ ''mime='' @ quote mime
      in if n = 0 then head @ '': '' @ utf8 [1087, 1091, 1089, 1090, 1099, 1077, 32, 1076, 1072, 1085, 1085, 1099,
              1077] @ '']''
         else head @ '' size_bytes='' @ itoa (int n)
           @ '' - '' @ utf8 [1087, 1080, 1082, 1089, 1077, 1083, 1080, 32, 1085, 1077, 32, 1087,
              1077, 1088, 1077, 1076, 1072, 1085, 1099, 32, 1074, 32, 1090, 1077, 1082, 1089,
              1090, 32, 1082, 1086, 1085, 1090, 1077, 1082, 1089, 1090, 1072] @ ''; '' @ utf8
              [1086, 1087, 1080, 1088, 1072, 1081, 1090, 1077, 1089, 1100, 32, 1085, 1072, 32,
              1074, 1083, 1086, 1078, 1077, 1085, 1080, 1077, 32, 1087, 1086, 1083, 1100, 1079,
              1086, 1074, 1072, 1090, 1077, 1083, 1103, 32, 1074, 32, 1095, 1072, 1090, 1077, 32,
              1087, 1088, 1080, 32, 1072, 1085, 1072, 1083, 1080, 1079, 1077, 32, 1082, 1072,
              1076, 1088, 1072] @ '']'')"

definition imageAudioToLLMString :: "(string \<Rightarrow> string) \<Rightarrow> string \<Rightarrow> string \<Rightarrow> string \<Rightarrow> string" where
  "imageAudioToLLMString quote kind mime0 data =
     (let mime = TrimSpace mime0; head = ''['' @ kind @ '' mime='' @ quote mime in
      if data = [] then head @ '': '' @ utf8 [1087, 1091, 1089, 1090, 1099, 1077, 32, 1076, 1072, 1085, 1085, 1099,
              1077] @ '']''
      else
        let b64 = base64 data in
        if maxInlinedBase64Runes < length b64
        then head @ '' base64_len='' @ itoa (int (length b64))
          @ '' - '' @ utf8 [1076, 1072, 1085, 1085, 1099, 1077, 32, 1086, 1073, 1088, 1077,
              1079, 1072, 1085, 1099, 32, 1074, 32, 1074, 1099, 1076, 1072, 1095, 1077] @ ''; '' @
              utf8 [1087, 1086, 1083, 1085, 1099, 1081, 32] @ ''base64 '' @ utf8 [1089, 1083,
              1080, 1096, 1082, 1086, 1084, 32, 1074, 1077, 1083, 1080, 1082, 32, 1076, 1083,
              1103, 32, 1082, 1086, 1085, 1090, 1077, 1082, 1089, 1090, 1072] @ '']''
        else head @ '' base64]'' @ [CHR 0x0A] @ b64)"

definition resourceLinkToString :: "(string \<Rightarrow> string) \<Rightarrow> ResourceLink \<Rightarrow> string" where
  "resourceLinkToString quote l =
     (let part = (\<lambda>name v. if v \<noteq> [] then name @ quote v else []) in
      ''[resource_link uri='' @ quote (rl_URI l) @ part '' name='' (rl_Name l) @ part '' title='' (rl_Title l)
        @ part '' description='' (rl_Description l) @ part '' mime='' (rl_MIMEType l) @ '']'')"

definition embeddedResourceToString :: "(string \<Rightarrow> string) \<Rightarrow> ResourceContents \<Rightarrow> string" where
  "embeddedResourceToString quote rc =
     (let head = ''[embedded resource uri='' @ quote (rc_URI rc)
                 @ (if rc_MIMEType rc \<noteq> [] then '' mime='' @ quote (rc_MIMEType rc) else [])
      in
        if rc_Text rc \<noteq> [] then head @ '']'' @ [CHR 0x0A] @ rc_Text rc
        else if rc_Blob rc \<noteq> [] then
          if HasPrefix (ToLower (TrimSpace (rc_MIMEType rc))) ''image/''
          then head @ '' image_bytes='' @ itoa (int (length (rc_Blob rc)))
            @ '' - '' @ utf8 [1087, 1080, 1082, 1089, 1077, 1083, 1080, 32, 1085, 1077, 32, 1074,
              1082, 1083, 1102, 1095, 1077, 1085, 1099, 32, 1074, 32, 1082, 1086, 1085, 1090,
              1077, 1082, 1089, 1090, 32] @ ''LLM]''
          else
            let b64 = base64 (rc_Blob rc) in
            if maxInlinedBase64Runes < length b64
            then head @ '' blob_bytes='' @ itoa (int (length (rc_Blob rc)))
              @ '' - base64 '' @ utf8 [1086, 1073, 1088, 1077, 1079, 1072, 1085, 32, 1074, 32, 1074,
              1099, 1076, 1072, 1095, 1077] @ '']''
            else head @ '' base64]'' @ [CHR 0x0A] @ b64
        else head @ '']'')"

definition contentToLLMString :: "(string \<Rightarrow> string) \<Rightarrow> McpContent \<Rightarrow> string" where
  "contentToLLMString quote c =
     (case c of
        TextContent t \<Rightarrow> TrimSpace t
      | ImageContent mime data \<Rightarrow> mcpImageContentToLLMPlaceholder quote mime (length data)
      | AudioContent mime data \<Rightarrow> imageAudioToLLMString quote (utf8 [1040, 1091, 1076, 1080, 1086]) mime data
      | ResourceLinkContent l \<Rightarrow> resourceLinkToString quote l
      | EmbeddedResource None \<Rightarrow> []
      | EmbeddedResource (Some rc) \<Rightarrow> embeddedResourceToString quote rc
      | OtherContent json \<Rightarrow> json)"

definition empty_tool_error :: string where
  "empty_tool_error = ''error '' @ utf8 [1080, 1085, 1089, 1090, 1088, 1091, 1084, 1077, 1085, 1090, 1072,
              32] @ ''(empty response)''"

definition content_text :: "(string \<Rightarrow> string) \<Rightarrow> McpContent option \<Rightarrow> string list" where
  "content_text quote c =
     (case c of
        None \<Rightarrow> []
      | Some c' \<Rightarrow> (let s = contentToLLMString quote c' in if TrimSpace s \<noteq> [] then [s] else []))"

definition CallToolResultString :: "(string \<Rightarrow> string) \<Rightarrow> CallToolResult option \<Rightarrow> string" where
  "CallToolResultString quote r =
     (case r of
        None \<Rightarrow> []
      | Some res \<Rightarrow>
          let texts = concat (map (content_text quote) (cr_Content res));
              structured = (case cr_StructuredContent res of None \<Rightarrow> [] | Some g \<Rightarrow> [Marshal g]);
              parts = texts @ structured
          in if parts = [] \<and> cr_IsError res then empty_tool_error else str_join parts [CHR 0x0A])"

section \<open>Which servers, how much of an answer, which tools with an image\<close>

fun positive_distinct :: "int list \<Rightarrow> int list \<Rightarrow> int list" where
  "positive_distinct [] seen = []"
| "positive_distinct (sid # ids) seen =
     (if sid \<le> 0 \<or> sid \<in> set seen then positive_distinct ids seen
      else sid # positive_distinct ids (sid # seen))"

definition EffectiveServerIDs :: "int list \<Rightarrow> int list \<Rightarrow> int list" where
  "EffectiveServerIDs explicit fallbackIDs =
     (let source = (if explicit \<noteq> [] then explicit else fallbackIDs) in
      if source = [] then [] else sort (positive_distinct source []))"

definition cut_mark :: string where
  "cut_mark = [CHR 0x0A, CHR 0x0A] @ ''[Coder: '' @ utf8 [1086, 1090, 1074, 1077, 1090, 32, 1086, 1073, 1088, 1077, 1079,
              1072, 1085, 32, 1087, 1086, 32, 1083, 1080, 1084, 1080, 1090, 1091, 32, 1082, 1086,
              1085, 1090, 1077, 1082, 1089, 1090, 1072] @ '']''"

definition TruncateLLMReply :: "string \<Rightarrow> int \<Rightarrow> string" where
  "TruncateLLMReply s maxRunes =
     (if maxRunes \<le> 0 \<or> length (chunks s) \<le> nat maxRunes then s
      else concat (take (nat maxRunes) (chunks s)) @ cut_mark)"

definition ToolAllowedWhenUserHasImage :: "string list \<Rightarrow> int \<Rightarrow> string \<Rightarrow> bool" where
  "ToolAllowedWhenUserHasImage allowlist serverID toolName0 =
     (let toolName = TrimSpace toolName0 in
      if allowlist = [] then True
      else if toolName = [] then False
      else list_ex (\<lambda>e. TrimSpace e \<noteq> [] \<and> TrimSpace e = itoa serverID @ '':'' @ toolName) allowlist)"

section \<open>The bytes of images stay out of the text\<close>

text \<open>The same result with every byte of an image replaced.\<close>

definition blank_content :: "McpContent \<Rightarrow> McpContent" where
  "blank_content c =
     (case c of
        ImageContent mime data \<Rightarrow> ImageContent mime (map (\<lambda>_. CHR 0x00) data)
      | EmbeddedResource (Some rc) \<Rightarrow>
          if HasPrefix (ToLower (TrimSpace (rc_MIMEType rc))) ''image/''
          then EmbeddedResource (Some (rc\<lparr>rc_Blob := map (\<lambda>_. CHR 0x00) (rc_Blob rc)\<rparr>)) else c
      | _ \<Rightarrow> c)"

definition blank_images :: "CallToolResult \<Rightarrow> CallToolResult" where
  "blank_images res = res\<lparr>cr_Content := map (map_option blank_content) (cr_Content res)\<rparr>"

lemma embeddedResourceToString_blank:
  assumes "HasPrefix (ToLower (TrimSpace (rc_MIMEType rc))) ''image/''"
  shows "embeddedResourceToString quote (rc\<lparr>rc_Blob := map (\<lambda>_. CHR 0x00) (rc_Blob rc)\<rparr>) = embeddedResourceToString quote rc"
  using assms by (simp add: embeddedResourceToString_def Let_def)

lemma contentToLLMString_blank: "contentToLLMString quote (blank_content c) = contentToLLMString quote c"
  by (cases c) (auto simp: contentToLLMString_def blank_content_def embeddedResourceToString_blank split: option.split)

lemma content_text_blank [simp]: "content_text quote \<circ> map_option blank_content = content_text quote"
  by (simp add: fun_eq_iff content_text_def contentToLLMString_blank split: option.split)

text \<open>The text a model gets from the answer of a tool does not depend on the bytes of the images in it:
  with every image blanked, sizes kept, the text is the same. This holds for pictures and for embedded
  resources whose type is an image, whatever else the answer holds.\<close>

theorem tool_result_hides_images:
  "CallToolResultString quote (Some (blank_images res)) = CallToolResultString quote (Some res)"
  by (simp add: CallToolResultString_def blank_images_def content_text_blank)

end
