(* ===== verification/McpClient.thy ===== *)
theory McpClient
  imports McpContent
begin

text \<open>
  The client of the MCP servers, \<open>pkg/mcpclient\<close>: which failures are worth another attempt
  (\<open>retry_policy.go\<close>), the counters (\<open>stats.go\<close>, \<open>duration_hist.go\<close>), transports
  and sessions (\<open>client.go\<close>, \<open>http_policy.go\<close>, \<open>session_pool.go\<close>), the listing of what
  a server declares (\<open>client.go\<close>, \<open>resources_prompts.go\<close>) and the call of a tool.

  A session lives in a world \<open>'w\<close> of which the functions of the record \<open>mcp_net\<close> are what the
  SDK, the network and the clock do. The function a session is used with also has the variables the code's
  closure captures, \<open>'l\<close>; \<open>None\<close> is a use that never returns. An error is its text and
  what \<open>errors.Is\<close> and \<open>errors.As\<close> say of it. The context's cancellation is what
  \<open>net_done\<close> says of the world.
\<close>

section \<open>Errors and retries\<close>

record rpc_error =
  re_Text :: string
  re_Canceled :: bool
  re_DeadlineExceeded :: bool
  re_NetTimeout :: bool

definition errors_New :: "string \<Rightarrow> rpc_error" where
  "errors_New t = \<lparr>re_Text = t, re_Canceled = False, re_DeadlineExceeded = False, re_NetTimeout = False\<rparr>"

definition retry_hints :: "string list" where
  "retry_hints =
     [''timeout'', ''deadline exceeded'', ''i/o timeout'', ''broken pipe'', ''connection reset'', ''connection aborted'',
      (utf8 [1085, 1077, 1086, 1078, 1080, 1076, 1072, 1085, 1085, 1099, 1081, 32] @ ''eof''),
      ''stream closed'', ''transport is closing'', ''http2: client connection lost'']"

definition isRetryableTransportError :: "bool \<Rightarrow> rpc_error option \<Rightarrow> bool" where
  "isRetryableTransportError parent_done err =
     (case err of
        None \<Rightarrow> False
      | Some e \<Rightarrow>
          if parent_done then False
          else if re_Canceled e then False
          else if re_DeadlineExceeded e then True
          else if re_NetTimeout e then True
          else
            let msg = ToLower (TrimSpace (re_Text e)) in
            if msg = [] then False else list_ex (str_contains msg) retry_hints)"

definition callToolAllowsTransportRetry :: "bool \<Rightarrow> string \<Rightarrow> bool" where
  "callToolAllowsTransportRetry enabled toolName =
     (if \<not> enabled then False
      else
        let name = ToLower (TrimSpace toolName) in
        if name = [] then False else ParseToolAlias name \<noteq> None)"

section \<open>Counters\<close>

record mcpRPCStats =
  rs_listToolsOK :: nat
  rs_listToolsFail :: nat
  rs_listResourcesOK :: nat
  rs_listResourcesFail :: nat
  rs_listPromptsOK :: nat
  rs_listPromptsFail :: nat
  rs_callToolOK :: nat
  rs_callToolFail :: nat
  rs_callToolMCPError :: nat
  rs_callToolRetry :: nat
  rs_listCacheHit :: nat
  rs_listCacheMiss :: nat
  rs_pooledSessionRetry :: nat

record callToolServerStat =
  ss_ok :: nat
  ss_transportErr :: nat
  ss_mcpError :: nat

datatype call_outcome = CallOk | CallTransportErr | CallMcpError

record mcp_stats =
  mst_rpc :: mcpRPCStats
  mst_byServer :: "(int \<times> callToolServerStat) list"
  mst_distinct :: nat
  mst_maxTracked :: int
  mst_durationSum :: int
  mst_durationCount :: nat
  mst_buckets :: "nat list"

definition bump_outcome :: "call_outcome \<Rightarrow> callToolServerStat \<Rightarrow> callToolServerStat" where
  "bump_outcome outcome st =
     (case outcome of
        CallOk \<Rightarrow> st\<lparr>ss_ok := ss_ok st + 1\<rparr>
      | CallTransportErr \<Rightarrow> st\<lparr>ss_transportErr := ss_transportErr st + 1\<rparr>
      | CallMcpError \<Rightarrow> st\<lparr>ss_mcpError := ss_mcpError st + 1\<rparr>)"

text \<open>The test of the limit and the counting are two steps; calls of other goroutines can come between.\<close>

definition stat_admitted :: "int \<Rightarrow> mcp_stats \<Rightarrow> bool" where
  "stat_admitted serverID s =
     (0 < serverID \<and>
      \<not> (0 < mst_maxTracked s \<and> map_of (mst_byServer s) serverID = None \<and> mst_maxTracked s \<le> int (mst_distinct s)))"

definition stat_count :: "int \<Rightarrow> call_outcome \<Rightarrow> mcp_stats \<Rightarrow> mcp_stats" where
  "stat_count serverID outcome s =
     (case map_of (mst_byServer s) serverID of
        Some st \<Rightarrow> s\<lparr>mst_byServer := AList.update serverID (bump_outcome outcome st) (mst_byServer s)\<rparr>
      | None \<Rightarrow>
          s\<lparr>mst_byServer := AList.update serverID
              (bump_outcome outcome \<lparr>ss_ok = 0, ss_transportErr = 0, ss_mcpError = 0\<rparr>) (mst_byServer s),
            mst_distinct := mst_distinct s + 1\<rparr>)"

definition recordCallToolServer :: "int \<Rightarrow> call_outcome \<Rightarrow> mcp_stats \<Rightarrow> mcp_stats" where
  "recordCallToolServer serverID outcome s = (if stat_admitted serverID s then stat_count serverID outcome s else s)"

definition recordCallTool :: "call_outcome \<Rightarrow> mcp_stats \<Rightarrow> mcp_stats" where
  "recordCallTool outcome s =
     s\<lparr>mst_rpc :=
         (case outcome of
            CallOk \<Rightarrow> mst_rpc s\<lparr>rs_callToolOK := rs_callToolOK (mst_rpc s) + 1\<rparr>
          | CallTransportErr \<Rightarrow> mst_rpc s\<lparr>rs_callToolFail := rs_callToolFail (mst_rpc s) + 1\<rparr>
          | CallMcpError \<Rightarrow> mst_rpc s\<lparr>rs_callToolMCPError := rs_callToolMCPError (mst_rpc s) + 1\<rparr>)\<rparr>"

definition recordListTools :: "bool \<Rightarrow> mcpRPCStats \<Rightarrow> mcpRPCStats" where
  "recordListTools failed s =
     (if failed then s\<lparr>rs_listToolsFail := rs_listToolsFail s + 1\<rparr> else s\<lparr>rs_listToolsOK := rs_listToolsOK s + 1\<rparr>)"

definition recordListResources :: "bool \<Rightarrow> mcpRPCStats \<Rightarrow> mcpRPCStats" where
  "recordListResources failed s =
     (if failed then s\<lparr>rs_listResourcesFail := rs_listResourcesFail s + 1\<rparr>
      else s\<lparr>rs_listResourcesOK := rs_listResourcesOK s + 1\<rparr>)"

definition recordListPrompts :: "bool \<Rightarrow> mcpRPCStats \<Rightarrow> mcpRPCStats" where
  "recordListPrompts failed s =
     (if failed then s\<lparr>rs_listPromptsFail := rs_listPromptsFail s + 1\<rparr>
      else s\<lparr>rs_listPromptsOK := rs_listPromptsOK s + 1\<rparr>)"

text \<open>
  The limits of the histogram are 0.05, 0.2, 1 and 5 seconds. The division that makes seconds of
  nanoseconds is rounded to the nearest double and the limits are the doubles nearest to them, so the
  comparison of the doubles is that of the nanoseconds.
\<close>

definition duration_limits :: "duration list" where
  "duration_limits = [50000000, 200000000, 1000000000, 5000000000]"

definition recordCallToolDuration :: "duration \<Rightarrow> mcp_stats \<Rightarrow> mcp_stats" where
  "recordCallToolDuration d0 s =
     (let d = max 0 d0 in
      s\<lparr>mst_durationSum := mst_durationSum s + d, mst_durationCount := mst_durationCount s + 1,
        mst_buckets := map2 (\<lambda>limit n. if d \<le> limit then n + 1 else n) duration_limits (mst_buckets s)\<rparr>)"

section \<open>Transports\<close>

record mcp_env =
  me_jsonError :: "string \<Rightarrow> string"
  me_parseURL :: "string \<Rightarrow> string + string \<times> string"
  me_hostPolicy :: "(string \<Rightarrow> bool) option"
  me_number :: "string \<Rightarrow> string option"
  me_quote :: "string \<Rightarrow> string"
  me_hash :: "string \<Rightarrow> string"
  me_roots :: bool
  me_sampling :: "string option"
  me_logMessages :: bool
  me_notify :: bool
  me_reuse :: bool
  me_maxIdle :: duration
  me_callRetry :: bool

fun string_members :: "(string \<times> string \<times> jv) list \<Rightarrow> (string \<times> string) list \<Rightarrow> (string \<times> string) list option" where
  "string_members [] acc = Some acc"
| "string_members ((k, raw, v) # ms) acc =
     (case v of
        JStr s \<Rightarrow> string_members ms (map_set k s acc)
      | JNull \<Rightarrow> string_members ms (map_set k [] acc)
      | _ \<Rightarrow> None)"

definition parseStringMapJSON :: "(string \<Rightarrow> string) \<Rightarrow> string \<Rightarrow> string + (string \<times> string) list" where
  "parseStringMapJSON json_error raw0 =
     (let raw = TrimSpace raw0 in
      if raw = [] then Inr []
      else case json_parse raw of
        Some JNull \<Rightarrow> Inr []
      | Some (JObj ms) \<Rightarrow> (case string_members ms [] of None \<Rightarrow> Inl (json_error raw) | Some m \<Rightarrow> Inr m)
      | _ \<Rightarrow> Inl (json_error raw))"

text \<open>The headers every request of the session carries besides the transport's own.\<close>

definition sent_headers :: "(string \<times> string) list \<Rightarrow> (string \<times> string) list" where
  "sent_headers h = filter (\<lambda>(k, v). TrimSpace k \<noteq> [] \<and> v \<noteq> []) h"

record mcp_transport =
  tr_kind :: string
  tr_Endpoint :: string
  tr_headers :: "(string \<times> string) list"

definition checkHTTPHostAllowed :: "(string \<Rightarrow> bool) option \<Rightarrow> string \<Rightarrow> bool" where
  "checkHTTPHostAllowed policy host = (case policy of None \<Rightarrow> True | Some p \<Rightarrow> p host)"

definition validateHTTPMCPURL :: "mcp_env \<Rightarrow> string \<Rightarrow> string \<Rightarrow> string option" where
  "validateHTTPMCPURL env label raw =
     (case me_parseURL env raw of
        Inl e \<Rightarrow> Some (label @ '': url: '' @ e)
      | Inr (scheme, host) \<Rightarrow>
          if scheme \<noteq> ''http'' \<and> scheme \<noteq> ''https''
          then Some (label @ '': url: '' @ utf8 [1086, 1078, 1080, 1076, 1072, 1077, 1090, 1089, 1103, 32] @ ''http
            '' @ utf8 [1080, 1083, 1080, 32] @ ''https'')
          else if host = [] then Some (label @ '': url: '' @ utf8 [1087, 1091, 1089, 1090, 1086, 1081, 32, 1093, 1086, 1089, 1090])
          else if \<not> checkHTTPHostAllowed (me_hostPolicy env) host
          then Some (label @ '': '' @ utf8 [1093, 1086, 1089, 1090, 32] @ me_quote env host
            @ '' '' @ utf8 [1085, 1077, 32, 1088, 1072, 1079, 1088, 1077, 1096, 1105, 1085, 32,
            1087, 1086, 1083, 1080, 1090, 1080, 1082, 1086, 1081, 32] @ ''MCP'')
          else None)"

definition transportFor :: "mcp_env \<Rightarrow> MCPServer option \<Rightarrow> string + mcp_transport" where
  "transportFor env s =
     (case s of
        None \<Rightarrow> Inl ''nil mcp server''
      | Some srv \<Rightarrow>
          let tr = ToLower (TrimSpace (ms_Transport srv)) in
          case parseStringMapJSON (me_jsonError env) (ms_HeadersJSON srv) of
            Inl e \<Rightarrow> Inl (''headers_json: '' @ e)
          | Inr headers \<Rightarrow>
              if tr = ''sse'' \<or> tr = ''streamable'' then
                let raw = TrimSpace (ms_URL srv) in
                if raw = [] then Inl (tr @ '': '' @ utf8 [1087, 1091, 1089, 1090, 1086, 1081, 32] @ ''url'')
                else case validateHTTPMCPURL env tr raw of
                  Some e \<Rightarrow> Inl e
                | None \<Rightarrow> Inr \<lparr>tr_kind = tr, tr_Endpoint = raw, tr_headers = sent_headers headers\<rparr>
              else Inl (utf8 [1085, 1077, 1080, 1079, 1074, 1077, 1089, 1090, 1085, 1099, 1081, 32] @
            ''transport '' @ me_quote env tr))"

definition timeoutFor :: "MCPServer \<Rightarrow> duration" where
  "timeoutFor srv =
     (let sec = ms_TimeoutSeconds srv;
          sec = (if sec \<le> 0 then 120 else sec);
          sec = (if 600 < sec then 600 else sec)
      in sec * go_second)"

text \<open>
  What the client announces and handles: roots, requests for sampling, log messages, and for which server
  a notice that a list has changed empties the cache. \<open>me_notify\<close> says that the process has a cache
  for notices, \<open>me_sampling\<close> is the fingerprint of the sampling runner, if there is one.
\<close>

record client_options =
  co_roots :: bool
  co_sampling :: bool
  co_listChanged :: "int option"
  co_logging :: bool

definition buildMCPClientOptions :: "mcp_env \<Rightarrow> bool \<Rightarrow> MCPServer \<Rightarrow> client_options" where
  "buildMCPClientOptions env notify srv =
     \<lparr>co_roots = me_roots env, co_sampling = me_sampling env \<noteq> None,
      co_listChanged = (if (notify \<or> me_notify env) \<and> 0 < ms_ID srv then Some (ms_ID srv) else None),
      co_logging = me_logMessages env\<rparr>"

section \<open>Sessions\<close>

record ('s, 'w) mcp_net =
  net_connect :: "mcp_transport \<Rightarrow> client_options \<Rightarrow> time \<Rightarrow> 'w \<Rightarrow> (rpc_error + 's) \<times> 'w"
  net_close :: "'s \<Rightarrow> 'w \<Rightarrow> 'w"
  net_now :: "'w \<Rightarrow> time"
  net_done :: "'w \<Rightarrow> bool"

type_synonym ('s, 'w, 'l) session_use = "time \<Rightarrow> 's \<Rightarrow> 'w \<times> 'l \<Rightarrow> (rpc_error option \<times> 'w \<times> 'l) option"

definition withEphemeralSession ::
  "mcp_env \<Rightarrow> ('s, 'w, 'z) mcp_net_scheme \<Rightarrow> bool \<Rightarrow> MCPServer option \<Rightarrow> ('s, 'w, 'l) session_use \<Rightarrow> 'w \<times> 'l
     \<Rightarrow> (rpc_error option \<times> 'w \<times> 'l) option" where
  "withEphemeralSession env net notify s fn wl =
     (case (transportFor env s, s, wl) of
        (Inr tr, Some srv, w, l) \<Rightarrow>
          (let deadline = net_now net w + timeoutFor srv in
           case net_connect net tr (buildMCPClientOptions env notify srv) deadline w of
             (Inl e, w1) \<Rightarrow> Some (Some e, w1, l)
           | (Inr ses, w1) \<Rightarrow>
               (case fn deadline ses (w1, l) of
                  None \<Rightarrow> None
                | Some (err, w2, l2) \<Rightarrow> Some (err, net_close net ses w2, l2)))
      | (Inl e, _, w, l) \<Rightarrow> Some (Some (errors_New e), w, l)
      | (_, _, w, l) \<Rightarrow> Some (None, w, l))"

record 's pooledServerConn =
  pc_fp :: string
  pc_session :: "'s option"
  pc_lastUsed :: time

text \<open>The map holds pointers: a connection taken out of the map may still be in the hands of a caller.\<close>

record 's httpSessionPool =
  hp_byID :: "(int \<times> nat) list"
  hp_conns :: "'s pooledServerConn list"

definition serverConfigFingerprint :: "(string \<Rightarrow> string) \<Rightarrow> MCPServer option \<Rightarrow> string" where
  "serverConfigFingerprint hash s =
     (case s of
        None \<Rightarrow> []
      | Some srv \<Rightarrow>
          let uid = (case ms_UserID srv of None \<Rightarrow> [] | Some u \<Rightarrow> itoa u) in
          hash (str_join [uid, ms_Transport srv, ms_Command srv, ms_ArgsJSON srv, ms_EnvJSON srv, ms_URL srv,
                          ms_HeadersJSON srv, itoa (ms_TimeoutSeconds srv)] ''|''))"

definition poolSessionFingerprint :: "mcp_env \<Rightarrow> MCPServer \<Rightarrow> string" where
  "poolSessionFingerprint env srv =
     (let base = serverConfigFingerprint (me_hash env) (Some srv) in
      case me_sampling env of None \<Rightarrow> base | Some runtime \<Rightarrow> if runtime = [] then base else base @ ''|'' @ runtime)"

definition useHTTPSessionPool :: "mcp_env \<Rightarrow> MCPServer option \<Rightarrow> bool" where
  "useHTTPSessionPool env s =
     (case s of
        None \<Rightarrow> False
      | Some srv \<Rightarrow>
          me_reuse env \<and> 0 < ms_ID srv \<and>
          (let tr = ToLower (TrimSpace (ms_Transport srv)) in tr = ''sse'' \<or> tr = ''streamable''))"

definition SetHTTPSessionMaxIdleSec :: "int \<Rightarrow> duration" where
  "SetHTTPSessionMaxIdleSec sec0 =
     (let sec = (if sec0 \<le> 0 then 180 else sec0); sec = (if 600 < sec then 600 else sec) in sec * go_second)"

definition pool_get :: "int \<Rightarrow> 's httpSessionPool \<Rightarrow> nat \<times> 's httpSessionPool" where
  "pool_get i p =
     (case map_of (hp_byID p) i of
        Some a \<Rightarrow> (a, p)
      | None \<Rightarrow> (length (hp_conns p),
          p\<lparr>hp_byID := AList.update i (length (hp_conns p)) (hp_byID p),
            hp_conns := hp_conns p @ [\<lparr>pc_fp = [], pc_session = None, pc_lastUsed = 0\<rparr>]\<rparr>))"

text \<open>One attempt on a connection, under its lock: drop a stale session, connect if there is none, use it.\<close>

datatype attempt_end = Served | NotConnected rpc_error | UseFailed bool rpc_error

definition drop_stale ::
  "mcp_env \<Rightarrow> ('s, 'w, 'z) mcp_net_scheme \<Rightarrow> string \<Rightarrow> 's pooledServerConn \<times> 'w \<Rightarrow> 's pooledServerConn \<times> 'w" where
  "drop_stale env net fp cw =
     (case cw of (pc, w) \<Rightarrow>
        (case pc_session pc of
           Some ses \<Rightarrow>
             if pc_fp pc \<noteq> fp \<or> me_maxIdle env < net_now net w - pc_lastUsed pc
             then (pc\<lparr>pc_session := None\<rparr>, net_close net ses w) else (pc, w)
         | None \<Rightarrow> (pc, w)))"

definition pool_connect ::
  "mcp_env \<Rightarrow> ('s, 'w, 'z) mcp_net_scheme \<Rightarrow> bool \<Rightarrow> MCPServer \<Rightarrow> string \<Rightarrow> time \<Rightarrow> 's pooledServerConn \<times> 'w
     \<Rightarrow> (rpc_error + 's) \<times> 's pooledServerConn \<times> 'w" where
  "pool_connect env net notify srv fp deadline cw =
     (case cw of (pc, w) \<Rightarrow>
        (case pc_session pc of
           Some ses \<Rightarrow> (Inr ses, pc, w)
         | None \<Rightarrow>
             (case transportFor env (Some srv) of
                Inl e \<Rightarrow> (Inl (errors_New e), pc, w)
              | Inr tr \<Rightarrow>
                  (case net_connect net tr (buildMCPClientOptions env notify srv) deadline w of
                     (Inl e, w1) \<Rightarrow> (Inl e, pc, w1)
                   | (Inr ses, w1) \<Rightarrow> (Inr ses, pc\<lparr>pc_session := Some ses, pc_fp := fp\<rparr>, w1)))))"

definition pool_attempt ::
  "mcp_env \<Rightarrow> ('s, 'w, 'z) mcp_net_scheme \<Rightarrow> bool \<Rightarrow> MCPServer \<Rightarrow> ('s, 'w, 'l) session_use \<Rightarrow> 's pooledServerConn \<times> 'w \<times> 'l
     \<Rightarrow> (attempt_end \<times> 's pooledServerConn \<times> 'w \<times> 'l) option" where
  "pool_attempt env net notify srv fn st =
     (case st of (pc0, w0, l) \<Rightarrow>
        let fp = poolSessionFingerprint env srv;
            (pc, w) = drop_stale env net fp (pc0, w0);
            reused = (pc_session pc \<noteq> None);
            deadline = net_now net w + timeoutFor srv
        in case pool_connect env net notify srv fp deadline (pc, w) of
             (Inl e, pc1, w1) \<Rightarrow> Some (NotConnected e, pc1, w1, l)
           | (Inr ses, pc1, w1) \<Rightarrow>
               (case fn deadline ses (w1, l) of
                  None \<Rightarrow> None
                | Some (err, w2, l2) \<Rightarrow>
                    let pc2 = pc1\<lparr>pc_lastUsed := net_now net w2\<rparr> in
                    (case err of
                       None \<Rightarrow> Some (Served, pc2, w2, l2)
                     | Some e \<Rightarrow> Some (UseFailed reused e, pc2\<lparr>pc_session := None\<rparr>, net_close net ses w2, l2))))"

text \<open>The flag of the result says that \<open>recordPooledSessionRetry\<close> was called.\<close>

definition pool_run_conn ::
  "mcp_env \<Rightarrow> ('s, 'w, 'z) mcp_net_scheme \<Rightarrow> bool \<Rightarrow> MCPServer \<Rightarrow> ('s, 'w, 'l) session_use \<Rightarrow> 's pooledServerConn \<times> 'w \<times> 'l
     \<Rightarrow> (rpc_error option \<times> bool \<times> 's pooledServerConn \<times> 'w \<times> 'l) option" where
  "pool_run_conn env net notify srv fn st =
     (case pool_attempt env net notify srv fn st of
        None \<Rightarrow> None
      | Some (Served, st1) \<Rightarrow> Some (None, False, st1)
      | Some (NotConnected e, st1) \<Rightarrow> Some (Some e, False, st1)
      | Some (UseFailed reused e, pc1, w1, l1) \<Rightarrow>
          if reused \<and> isRetryableTransportError (net_done net w1) (Some e) then
            (case pool_attempt env net notify srv fn (pc1, w1, l1) of
               None \<Rightarrow> None
             | Some (Served, st2) \<Rightarrow> Some (None, True, st2)
             | Some (NotConnected e2, st2) \<Rightarrow> Some (Some e2, True, st2)
             | Some (UseFailed _ e2, st2) \<Rightarrow> Some (Some e2, True, st2))
          else Some (Some e, False, pc1, w1, l1))"

definition pool_run_at ::
  "mcp_env \<Rightarrow> ('s, 'w, 'z) mcp_net_scheme \<Rightarrow> bool \<Rightarrow> MCPServer \<Rightarrow> ('s, 'w, 'l) session_use \<Rightarrow> nat
     \<Rightarrow> 's httpSessionPool \<times> 'w \<times> 'l \<Rightarrow> (rpc_error option \<times> bool \<times> 's httpSessionPool \<times> 'w \<times> 'l) option" where
  "pool_run_at env net notify srv fn a st =
     (case st of (p, w, l) \<Rightarrow>
        (case pool_run_conn env net notify srv fn (hp_conns p ! a, w, l) of
           None \<Rightarrow> None
         | Some (err, retried, pc, w1, l1) \<Rightarrow> Some (err, retried, p\<lparr>hp_conns := (hp_conns p)[a := pc]\<rparr>, w1, l1)))"

definition session_pool_run ::
  "mcp_env \<Rightarrow> ('s, 'w, 'z) mcp_net_scheme \<Rightarrow> bool \<Rightarrow> MCPServer \<Rightarrow> ('s, 'w, 'l) session_use
     \<Rightarrow> 's httpSessionPool \<times> 'w \<times> 'l \<Rightarrow> (rpc_error option \<times> bool \<times> 's httpSessionPool \<times> 'w \<times> 'l) option" where
  "session_pool_run env net notify srv fn st =
     (case st of (p, w, l) \<Rightarrow> let (a, p1) = pool_get (ms_ID srv) p in pool_run_at env net notify srv fn a (p1, w, l))"

text \<open>\<open>closeServer\<close> in its two steps: out of the map, then the session under the connection's lock.\<close>

definition pool_forget :: "int \<Rightarrow> 's httpSessionPool \<Rightarrow> nat option \<times> 's httpSessionPool" where
  "pool_forget i p =
     (if i \<le> 0 then (None, p) else (map_of (hp_byID p) i, p\<lparr>hp_byID := AList.delete i (hp_byID p)\<rparr>))"

definition pool_close_conn ::
  "('s, 'w, 'z) mcp_net_scheme \<Rightarrow> nat option \<Rightarrow> 's httpSessionPool \<times> 'w \<Rightarrow> 's httpSessionPool \<times> 'w" where
  "pool_close_conn net addr st =
     (case (addr, st) of
        (None, st) \<Rightarrow> st
      | (Some a, p, w) \<Rightarrow>
          (case pc_session (hp_conns p ! a) of
             None \<Rightarrow> (p, w)
           | Some ses \<Rightarrow> (p\<lparr>hp_conns := (hp_conns p)[a := (hp_conns p ! a)\<lparr>pc_session := None\<rparr>]\<rparr>, net_close net ses w)))"

definition closeServer ::
  "('s, 'w, 'z) mcp_net_scheme \<Rightarrow> int \<Rightarrow> 's httpSessionPool \<times> 'w \<Rightarrow> 's httpSessionPool \<times> 'w" where
  "closeServer net i st =
     (case st of (p, w) \<Rightarrow> let (addr, p1) = pool_forget i p in pool_close_conn net addr (p1, w))"

definition withSession ::
  "mcp_env \<Rightarrow> ('s, 'w, 'z) mcp_net_scheme \<Rightarrow> bool \<Rightarrow> MCPServer option \<Rightarrow> ('s, 'w, 'l) session_use
     \<Rightarrow> 's httpSessionPool \<times> 'w \<times> 'l \<Rightarrow> (rpc_error option \<times> bool \<times> 's httpSessionPool \<times> 'w \<times> 'l) option" where
  "withSession env net notify s fn st =
     (case (s, st) of
        (Some srv, p, w, l) \<Rightarrow>
          if useHTTPSessionPool env s then session_pool_run env net notify srv fn st
          else map_option (\<lambda>(err, w1, l1). (err, False, p, w1, l1)) (withEphemeralSession env net notify s fn (w, l))
      | (None, p, w, l) \<Rightarrow>
          map_option (\<lambda>(err, w1, l1). (err, False, p, w1, l1)) (withEphemeralSession env net notify s fn (w, l)))"

section \<open>What a server declares\<close>

record DeclaredResource =
  dr_URI :: string
  dr_Name :: string
  dr_Title :: string
  dr_Description :: string
  dr_MIMEType :: string

record DeclaredPrompt =
  dp_Name :: string
  dp_Title :: string
  dp_Description :: string
  dp_ArgumentsJSON :: string

text \<open>The SDK's types. A resource has the fields of its declaration.\<close>

record SdkTool =
  kt_Name :: string
  kt_Description :: string
  kt_InputSchema :: "gov option"

record SdkPrompt =
  kp_Name :: string
  kp_Title :: string
  kp_Description :: string
  kp_Arguments :: "gov list"

type_synonym ('s, 'w, 'i) page_request = "time \<Rightarrow> 's \<Rightarrow> string \<Rightarrow> 'w \<Rightarrow> (rpc_error + 'i option list \<times> string) \<times> 'w"

record ('s, 'w) mcp_sdk = "('s, 'w) mcp_net" +
  net_listTools :: "('s, 'w, SdkTool) page_request"
  net_listResources :: "('s, 'w, DeclaredResource) page_request"
  net_listPrompts :: "('s, 'w, SdkPrompt) page_request"
  net_callTool :: "time \<Rightarrow> 's \<Rightarrow> string \<Rightarrow> gov \<Rightarrow> 'w \<Rightarrow> (rpc_error + CallToolResult option) \<times> 'w"

definition empty_schema :: string where
  "empty_schema = ''{\"type\":\"object\",\"properties\":{}}''"

definition inputSchemaToParametersJSON :: "gov option \<Rightarrow> string" where
  "inputSchemaToParametersJSON schema =
     (case schema of
        None \<Rightarrow> empty_schema
      | Some g \<Rightarrow> let b = Marshal g in if b = [] \<or> b = ''null'' then empty_schema else b)"

definition declare_tool :: "SdkTool option \<Rightarrow> DeclaredTool list" where
  "declare_tool t =
     (case t of
        None \<Rightarrow> []
      | Some t' \<Rightarrow>
          if TrimSpace (kt_Name t') = [] then []
          else [\<lparr>dt_Name = kt_Name t', dt_Description = TrimSpace (kt_Description t'),
                 dt_ParametersJSON = inputSchemaToParametersJSON (kt_InputSchema t')\<rparr>])"

definition declare_resource :: "DeclaredResource option \<Rightarrow> DeclaredResource list" where
  "declare_resource r =
     (case r of None \<Rightarrow> [] | Some r' \<Rightarrow> if TrimSpace (dr_URI r') = [] then [] else [r'])"

definition declare_prompt :: "SdkPrompt option \<Rightarrow> DeclaredPrompt list" where
  "declare_prompt p =
     (case p of
        None \<Rightarrow> []
      | Some p' \<Rightarrow>
          if TrimSpace (kp_Name p') = [] then []
          else [\<lparr>dp_Name = kp_Name p', dp_Title = kp_Title p', dp_Description = kp_Description p',
                 dp_ArgumentsJSON = (if kp_Arguments p' = [] then ''[]'' else Marshal (GArr (kp_Arguments p')))\<rparr>])"

text \<open>
  The loop over the pages; a server whose cursors never end would keep it forever, if no request failed.
  What is collected is a variable of the caller: a use repeated on a new session adds to it.
\<close>

partial_function (option) list_pages ::
  "('s, 'w, 'i) page_request \<Rightarrow> ('i option \<Rightarrow> 'd list) \<Rightarrow> string \<Rightarrow> time \<Rightarrow> 's \<Rightarrow> 'w \<times> 'd list
     \<Rightarrow> (rpc_error option \<times> 'w \<times> 'd list) option" where
  "list_pages request keep cursor deadline ses wl =
     (case wl of (w, out) \<Rightarrow>
        (case request deadline ses cursor w of
           (Inl e, w1) \<Rightarrow> Some (Some e, w1, out)
         | (Inr (items, next_cursor), w1) \<Rightarrow>
             let out1 = out @ concat (map keep items); c = TrimSpace next_cursor in
             if c = [] then Some (None, w1, out1)
             else list_pages request keep c deadline ses (w1, out1)))"

record 's mcp_client =
  mc_pool :: "'s httpSessionPool"
  mc_stats :: mcp_stats

definition count_pool_retry :: "bool \<Rightarrow> mcp_stats \<Rightarrow> mcp_stats" where
  "count_pool_retry retried s =
     (if retried then s\<lparr>mst_rpc := mst_rpc s\<lparr>rs_pooledSessionRetry := rs_pooledSessionRetry (mst_rpc s) + 1\<rparr>\<rparr> else s)"

definition list_declared ::
  "(bool \<Rightarrow> mcpRPCStats \<Rightarrow> mcpRPCStats) \<Rightarrow> ('s, 'w, 'i) page_request \<Rightarrow> ('i option \<Rightarrow> 'd list)
     \<Rightarrow> mcp_env \<Rightarrow> ('s, 'w) mcp_sdk \<Rightarrow> bool \<Rightarrow> MCPServer option \<Rightarrow> 's mcp_client \<times> 'w
     \<Rightarrow> (('d list \<times> rpc_error option) \<times> 's mcp_client \<times> 'w) option" where
  "list_declared record_end request keep env net notify s cw =
     (case cw of (c, w) \<Rightarrow>
        (case withSession env net notify s (list_pages request keep []) (mc_pool c, w, []) of
           None \<Rightarrow> None
         | Some (err, retried, p, w1, out) \<Rightarrow>
             let st = count_pool_retry retried (mc_stats c) in
             Some ((out, err), c\<lparr>mc_pool := p, mc_stats := st\<lparr>mst_rpc := record_end (err \<noteq> None) (mst_rpc st)\<rparr>\<rparr>, w1)))"

definition listTools ::
  "mcp_env \<Rightarrow> ('s, 'w) mcp_sdk \<Rightarrow> bool \<Rightarrow> MCPServer option \<Rightarrow> 's mcp_client \<times> 'w
     \<Rightarrow> ((DeclaredTool list \<times> rpc_error option) \<times> 's mcp_client \<times> 'w) option" where
  "listTools env net = list_declared recordListTools (net_listTools net) declare_tool env net"

definition listResources ::
  "mcp_env \<Rightarrow> ('s, 'w) mcp_sdk \<Rightarrow> bool \<Rightarrow> MCPServer option \<Rightarrow> 's mcp_client \<times> 'w
     \<Rightarrow> ((DeclaredResource list \<times> rpc_error option) \<times> 's mcp_client \<times> 'w) option" where
  "listResources env net = list_declared recordListResources (net_listResources net) declare_resource env net"

definition listPrompts ::
  "mcp_env \<Rightarrow> ('s, 'w) mcp_sdk \<Rightarrow> bool \<Rightarrow> MCPServer option \<Rightarrow> 's mcp_client \<times> 'w
     \<Rightarrow> ((DeclaredPrompt list \<times> rpc_error option) \<times> 's mcp_client \<times> 'w) option" where
  "listPrompts env net = list_declared recordListPrompts (net_listPrompts net) declare_prompt env net"

section \<open>The call of a tool\<close>

definition bad_arguments :: string where
  "bad_arguments = utf8 [1072, 1088, 1075, 1091, 1084, 1077, 1085, 1090, 1099, 32, 1080, 1085, 1089, 1090, 1088,
    1091, 1084, 1077, 1085, 1090, 1072] @ '': ''"

definition tool_arguments :: "(string \<Rightarrow> string option) \<Rightarrow> string \<Rightarrow> gov option" where
  "tool_arguments num arguments =
     (if arguments = [] then Some (GMap [])
      else map_option (\<lambda>g. if g = GNull then GMap [] else g) (Option.bind (json_parse arguments) (to_any num)))"

text \<open>The captured variables are the text of the result and the error the tool reported.\<close>

definition call_use ::
  "mcp_env \<Rightarrow> ('s, 'w) mcp_sdk \<Rightarrow> string \<Rightarrow> string \<Rightarrow> ('s, 'w, string \<times> string option) session_use" where
  "call_use env net name arguments deadline ses wl =
     (case wl of (w, l) \<Rightarrow>
        (case tool_arguments (me_number env) arguments of
           None \<Rightarrow> Some (Some (errors_New (bad_arguments @ me_jsonError env arguments)), w, l)
         | Some args \<Rightarrow>
             (case net_callTool net deadline ses name args w of
                (Inl e, w1) \<Rightarrow> Some (Some e, w1, l)
              | (Inr res, w1) \<Rightarrow>
                  let result = CallToolResultString (me_quote env) res;
                      failed = (case res of None \<Rightarrow> False | Some r \<Rightarrow> cr_IsError r)
                  in Some (None, w1, (result, if failed then Some (TrimSpace result) else snd l)))))"

type_synonym ('s, 'w) call_state = "'s mcp_client \<times> 'w \<times> string \<times> string option"

definition call_once ::
  "mcp_env \<Rightarrow> ('s, 'w) mcp_sdk \<Rightarrow> bool \<Rightarrow> MCPServer option \<Rightarrow> string \<Rightarrow> string \<Rightarrow> ('s, 'w) call_state
     \<Rightarrow> (rpc_error option \<times> ('s, 'w) call_state) option" where
  "call_once env net notify s name arguments st =
     (case st of (c, w, l) \<Rightarrow>
        (case withSession env net notify s (call_use env net name arguments) (mc_pool c, w, l) of
           None \<Rightarrow> None
         | Some (err, retried, p, w1, l1) \<Rightarrow>
             Some (err, c\<lparr>mc_pool := p, mc_stats := count_pool_retry retried (mc_stats c)\<rparr>, w1, l1)))"

definition recordCallToolRetry :: "mcp_stats \<Rightarrow> mcp_stats" where
  "recordCallToolRetry s = s\<lparr>mst_rpc := mst_rpc s\<lparr>rs_callToolRetry := rs_callToolRetry (mst_rpc s) + 1\<rparr>\<rparr>"

text \<open>The loop over the attempts that are left. An error that is not worth a retry is not counted as one, and
  the loop goes on all the same.\<close>

fun call_attempts ::
  "(('s, 'w) call_state \<Rightarrow> (rpc_error option \<times> ('s, 'w) call_state) option) \<Rightarrow> ('w \<Rightarrow> bool) \<Rightarrow> nat \<Rightarrow> ('s, 'w) call_state
     \<Rightarrow> (rpc_error option \<times> ('s, 'w) call_state) option" where
  "call_attempts run parent_done 0 st = Some (None, st)"
| "call_attempts run parent_done (Suc left) st =
     (case run st of
        None \<Rightarrow> None
      | Some (None, st1) \<Rightarrow> Some (None, st1)
      | Some (Some e, c1, w1, l1) \<Rightarrow>
          if left = 0 then Some (Some e, c1, w1, l1)
          else if isRetryableTransportError (parent_done w1) (Some e)
          then call_attempts run parent_done left (c1\<lparr>mc_stats := recordCallToolRetry (mc_stats c1)\<rparr>, w1, l1)
          else call_attempts run parent_done left (c1, w1, l1))"

definition empty_tool_name :: string where
  "empty_tool_name = utf8 [1087, 1091, 1089, 1090, 1086, 1077, 32, 1080, 1084, 1103, 32, 1080, 1085, 1089, 1090,
    1088, 1091, 1084, 1077, 1085, 1090, 1072, 32] @ ''MCP''"

datatype call_failure = TransportFailure rpc_error | ToolReported string

definition finish_call :: "int \<Rightarrow> call_outcome \<Rightarrow> mcp_stats \<Rightarrow> mcp_stats" where
  "finish_call serverID outcome s = recordCallToolServer serverID outcome (recordCallTool outcome s)"

definition server_id :: "MCPServer option \<Rightarrow> int" where
  "server_id s = (case s of None \<Rightarrow> 0 | Some srv \<Rightarrow> ms_ID srv)"

definition call_max_attempts :: "mcp_env \<Rightarrow> string \<Rightarrow> nat" where
  "call_max_attempts env name = (if callToolAllowsTransportRetry (me_callRetry env) name then 2 else 1)"

definition CallTool ::
  "mcp_env \<Rightarrow> ('s, 'w) mcp_sdk \<Rightarrow> bool \<Rightarrow> MCPServer option \<Rightarrow> string \<Rightarrow> string \<Rightarrow> 's mcp_client \<times> 'w
     \<Rightarrow> ((string \<times> call_failure option) \<times> 's mcp_client \<times> 'w) option" where
  "CallTool env net notify s name arguments cw =
     (case cw of (c, w) \<Rightarrow>
        let started = net_now net w; serverID = server_id s;
            finish = (\<lambda>outcome c1 w1.
              c1\<lparr>mc_stats := recordCallToolDuration (net_now net w1 - started) (finish_call serverID outcome (mc_stats c1))\<rparr>)
        in
          if TrimSpace name = []
          then Some (([], Some (TransportFailure (errors_New empty_tool_name))), finish CallTransportErr c w, w)
          else
            (case call_attempts (call_once env net notify s name arguments) (net_done net)
                    (call_max_attempts env name) (c, w, [], None) of
               None \<Rightarrow> None
             | Some (Some e, c1, w1, l1) \<Rightarrow> Some (([], Some (TransportFailure e)), finish CallTransportErr c1 w1, w1)
             | Some (None, c1, w1, result, Some e) \<Rightarrow>
                 Some ((result, Some (ToolReported e)), finish CallMcpError c1 w1, w1)
             | Some (None, c1, w1, result, None) \<Rightarrow> Some ((result, None), finish CallOk c1 w1, w1)))"

end
