(* ===== verification/McpCalls.thy ===== *)
theory McpCalls
  imports McpClient
begin

text \<open>
  What the client of the MCP servers guarantees: it connects only where the policy allows, counts every
  call of a tool once, calls a tool a bounded number of times, and its listings end. The last section holds
  a network for sample runs.
\<close>

section \<open>Only allowed hosts are connected to\<close>

definition transport_allowed :: "mcp_env \<Rightarrow> mcp_transport \<Rightarrow> bool" where
  "transport_allowed env t =
     ((case me_parseURL env (tr_Endpoint t) of
         Inl _ \<Rightarrow> False
       | Inr (scheme, host) \<Rightarrow>
           (scheme = ''http'' \<or> scheme = ''https'') \<and> host \<noteq> [] \<and> checkHTTPHostAllowed (me_hostPolicy env) host) \<and>
      list_all (\<lambda>(k, v). TrimSpace k \<noteq> [] \<and> v \<noteq> []) (tr_headers t))"

lemma validateHTTPMCPURL_None:
  "validateHTTPMCPURL env label raw = None \<Longrightarrow>
   \<exists>scheme host. me_parseURL env raw = Inr (scheme, host) \<and> (scheme = ''http'' \<or> scheme = ''https'') \<and> host \<noteq> [] \<and>
     checkHTTPHostAllowed (me_hostPolicy env) host"
  by (auto simp: validateHTTPMCPURL_def split: sum.splits prod.splits if_splits)

lemma list_all_sent_headers: "list_all (\<lambda>(k, v). TrimSpace k \<noteq> [] \<and> v \<noteq> []) (sent_headers h)"
  by (auto simp: sent_headers_def list_all_iff)

lemma transportFor_allowed:
  assumes "transportFor env s = Inr t"
  shows "transport_allowed env t"
proof -
  from assms obtain tr h raw where v: "validateHTTPMCPURL env tr raw = None"
    and t: "t = \<lparr>tr_kind = tr, tr_Endpoint = raw, tr_headers = sent_headers h\<rparr>"
    by (auto simp: transportFor_def Let_def split: option.splits sum.splits if_splits)
  then show ?thesis
    using validateHTTPMCPURL_None [OF v] list_all_sent_headers [of h] by (auto simp: transport_allowed_def)
qed

text \<open>A network that does anything at all when asked to connect to what is not allowed.\<close>

definition unguarded ::
  "mcp_env \<Rightarrow> (mcp_transport \<Rightarrow> client_options \<Rightarrow> time \<Rightarrow> 'w \<Rightarrow> (rpc_error + 's) \<times> 'w) \<Rightarrow> ('s, 'w, 'z) mcp_net_scheme
     \<Rightarrow> ('s, 'w, 'z) mcp_net_scheme" where
  "unguarded env other net =
     net\<lparr>net_connect := \<lambda>t opts deadline w.
       if transport_allowed env t then net_connect net t opts deadline w else other t opts deadline w\<rparr>"

lemma unguarded_simps [simp]:
  "net_close (unguarded env other net) = net_close net" "net_now (unguarded env other net) = net_now net"
  "net_done (unguarded env other net) = net_done net"
  by (simp_all add: unguarded_def)

lemma unguarded_sdk_simps [simp]:
  "net_listTools (unguarded env other net) = net_listTools net" "net_callTool (unguarded env other net) = net_callTool net"
  by (simp_all add: unguarded_def)

lemma unguarded_connect:
  "transport_allowed env t \<Longrightarrow> net_connect (unguarded env other net) t = net_connect net t"
  by (simp add: unguarded_def)

lemma withEphemeralSession_unguarded:
  "withEphemeralSession env (unguarded env other net) = withEphemeralSession env net"
  by (intro ext) (simp add: withEphemeralSession_def Let_def transportFor_allowed unguarded_connect split: sum.splits option.splits prod.splits)

lemma drop_stale_unguarded: "drop_stale env (unguarded env other net) = drop_stale env net"
  by (intro ext) (simp only: drop_stale_def unguarded_simps)

lemma pool_connect_unguarded: "pool_connect env (unguarded env other net) = pool_connect env net"
  by (intro ext) (simp add: pool_connect_def Let_def transportFor_allowed unguarded_connect split: sum.splits option.splits prod.splits)

lemma pool_attempt_unguarded: "pool_attempt env (unguarded env other net) = pool_attempt env net"
  by (intro ext) (simp only: pool_attempt_def drop_stale_unguarded pool_connect_unguarded unguarded_simps)

lemma pool_run_conn_unguarded: "pool_run_conn env (unguarded env other net) = pool_run_conn env net"
  by (intro ext) (simp only: pool_run_conn_def pool_attempt_unguarded unguarded_simps)

lemma withSession_unguarded: "withSession env (unguarded env other net) = withSession env net"
  by (intro ext)
    (simp only: withSession_def session_pool_run_def pool_run_at_def pool_run_conn_unguarded withEphemeralSession_unguarded)

lemma call_once_unguarded: "call_once env (unguarded env other net) = call_once env net"
  by (intro ext) (simp only: call_once_def call_use_def [abs_def] withSession_unguarded unguarded_sdk_simps)

text \<open>C20: the client of the MCP servers connects only to an address with scheme http or https and a host
  that the policy allows, with no blank header: whatever the network would do on any other connection,
  a call of a tool and a listing of tools go the same way, on fresh sessions and on pooled ones.\<close>

theorem connects_only_where_allowed:
  "CallTool env (unguarded env other net) notify s name arguments cw = CallTool env net notify s name arguments cw \<and>
   listTools env (unguarded env other net) notify s cw = listTools env net notify s cw"
  by (simp only: CallTool_def listTools_def list_declared_def call_once_unguarded withSession_unguarded unguarded_simps
      unguarded_sdk_simps simp_thms)

section \<open>Every call is counted once\<close>

definition outcome_count :: "call_outcome \<Rightarrow> mcpRPCStats \<Rightarrow> nat" where
  "outcome_count outcome s =
     (case outcome of CallOk \<Rightarrow> rs_callToolOK s | CallTransportErr \<Rightarrow> rs_callToolFail s | CallMcpError \<Rightarrow> rs_callToolMCPError s)"

definition server_count :: "int \<Rightarrow> call_outcome \<Rightarrow> mcp_stats \<Rightarrow> nat" where
  "server_count i outcome s =
     (case map_of (mst_byServer s) i of
        None \<Rightarrow> 0
      | Some st \<Rightarrow>
          (case outcome of CallOk \<Rightarrow> ss_ok st | CallTransportErr \<Rightarrow> ss_transportErr st | CallMcpError \<Rightarrow> ss_mcpError st))"

definition same_calls :: "mcp_stats \<Rightarrow> mcp_stats \<Rightarrow> bool" where
  "same_calls s s' \<longleftrightarrow>
     rs_callToolOK (mst_rpc s) = rs_callToolOK (mst_rpc s') \<and> rs_callToolFail (mst_rpc s) = rs_callToolFail (mst_rpc s') \<and>
     rs_callToolMCPError (mst_rpc s) = rs_callToolMCPError (mst_rpc s') \<and>
     mst_byServer s = mst_byServer s' \<and> mst_distinct s = mst_distinct s' \<and> mst_maxTracked s = mst_maxTracked s' \<and>
     mst_durationCount s = mst_durationCount s'"

lemma same_calls_refl [simp]: "same_calls s s"
  by (simp add: same_calls_def)

lemma same_calls_trans: "same_calls a b \<Longrightarrow> same_calls b c \<Longrightarrow> same_calls a c"
  by (simp add: same_calls_def)

lemma same_calls_retries [simp]:
  "same_calls (count_pool_retry b s) s" "same_calls (recordCallToolRetry s) s"
  by (simp_all add: same_calls_def count_pool_retry_def recordCallToolRetry_def)

lemma call_once_same_calls:
  "call_once env net notify s name arguments (c, w, l) = Some (err, c1, w1, l1) \<Longrightarrow> same_calls (mc_stats c1) (mc_stats c)"
  by (auto simp: call_once_def split: option.splits)

lemma call_attempts_same_calls:
  assumes "call_attempts (call_once env net notify s name arguments) parent_done n (c, w, l) = Some (err, c1, w1, l1)"
  shows "same_calls (mc_stats c1) (mc_stats c)"
  using assms
proof (induction n arbitrary: c w l)
  case (Suc n)
  let ?run = "call_once env net notify s name arguments"
  from Suc.prems obtain err0 c0 w0 l0 where run: "?run (c, w, l) = Some (err0, c0, w0, l0)"
    by (cases "?run (c, w, l)") auto
  have c0: "same_calls (mc_stats c0) (mc_stats c)" by (rule call_once_same_calls [OF run])
  show ?case
  proof (cases "err0 = None \<or> n = 0")
    case True
    then show ?thesis using Suc.prems run c0 by (auto split: option.splits)
  next
    case False
    then obtain e where e: "err0 = Some e" and n: "n \<noteq> 0" by auto
    from Suc.prems run e n consider
        "call_attempts ?run parent_done n (c0\<lparr>mc_stats := recordCallToolRetry (mc_stats c0)\<rparr>, w0, l0) = Some (err, c1, w1, l1)"
      | "call_attempts ?run parent_done n (c0, w0, l0) = Some (err, c1, w1, l1)"
      by (auto split: if_splits)
    then show ?thesis
    proof cases
      case 1
      from Suc.IH [OF 1] have "same_calls (mc_stats c1) (recordCallToolRetry (mc_stats c0))" by simp
      then show ?thesis using c0 same_calls_retries(2) same_calls_trans by blast
    next
      case 2
      from Suc.IH [OF 2] c0 show ?thesis by (rule same_calls_trans)
    qed
  qed
qed simp

lemma duration_keeps_calls [simp]:
  "outcome_count outcome (mst_rpc (recordCallToolDuration d s)) = outcome_count outcome (mst_rpc s)"
  "server_count i outcome (recordCallToolDuration d s) = server_count i outcome s"
  "mst_durationCount (recordCallToolDuration d s) = mst_durationCount s + 1"
  by (simp_all add: recordCallToolDuration_def Let_def server_count_def)

lemma finish_call_counts:
  assumes "same_calls s' s"
  shows "outcome_count o' (mst_rpc (finish_call i outcome s')) = outcome_count o' (mst_rpc s) + (if o' = outcome then 1 else 0)"
    and "mst_durationCount (finish_call i outcome s') = mst_durationCount s"
    and "server_count j o' (finish_call i outcome s')
      = server_count j o' s + (if j = i \<and> o' = outcome \<and> stat_admitted i s then 1 else 0)"
  using assms
  by (auto simp: finish_call_def recordCallToolServer_def recordCallTool_def stat_admitted_def stat_count_def outcome_count_def
      server_count_def same_calls_def bump_outcome_def update_conv split: call_outcome.split option.split)

text \<open>How a call ended, as its results say.\<close>

definition outcome_of :: "call_failure option \<Rightarrow> call_outcome" where
  "outcome_of err =
     (case err of
        None \<Rightarrow> CallOk | Some (TransportFailure _) \<Rightarrow> CallTransportErr | Some (ToolReported _) \<Rightarrow> CallMcpError)"

text \<open>C22: a call of a tool that returns is counted exactly once, whatever was retried inside it: the counter
  of the way it ended goes up by one and no other, its duration is recorded once, and of the counters by
  server only that of the called server moves, by one, if the server is tracked or may still be.\<close>

theorem CallTool_counted:
  assumes "CallTool env net notify s name arguments (c, w) = Some ((text, err), c', w')"
  shows "outcome_count o' (mst_rpc (mc_stats c'))
           = outcome_count o' (mst_rpc (mc_stats c)) + (if o' = outcome_of err then 1 else 0) \<and>
         mst_durationCount (mc_stats c') = mst_durationCount (mc_stats c) + 1 \<and>
         server_count j o' (mc_stats c')
           = server_count j o' (mc_stats c)
             + (if j = server_id s \<and> o' = outcome_of err \<and> stat_admitted (server_id s) (mc_stats c) then 1 else 0)"
proof -
  have "\<exists>s1 d. same_calls s1 (mc_stats c) \<and>
      mc_stats c' = recordCallToolDuration d (finish_call (server_id s) (outcome_of err) s1)"
  proof (cases "TrimSpace name = []")
    case True
    with assms show ?thesis
      by (intro exI [of _ "mc_stats c"] exI [of _ 0]) (auto simp: CallTool_def Let_def outcome_of_def)
  next
    case False
    let ?run = "call_attempts (call_once env net notify s name arguments) (net_done net) (call_max_attempts env name) (c, w, [], None)"
    from assms False obtain e0 c1 w1 result r where run: "?run = Some (e0, c1, w1, result, r)"
      by (cases ?run) (auto simp: CallTool_def Let_def)
    from call_attempts_same_calls [OF run] have "same_calls (mc_stats c1) (mc_stats c)" .
    moreover from assms False run have
      "mc_stats c' = recordCallToolDuration (net_now net w1 - net_now net w) (finish_call (server_id s) (outcome_of err) (mc_stats c1))"
      by (auto simp: CallTool_def Let_def outcome_of_def split: option.splits)
    ultimately show ?thesis by blast
  qed
  then show ?thesis by (auto simp: finish_call_counts)
qed

text \<open>At most as many servers are tracked as the limit allows, when calls end one after the other.\<close>

definition stats_inv :: "mcp_stats \<Rightarrow> bool" where
  "stats_inv s \<longleftrightarrow>
     mst_distinct s = length (mst_byServer s) \<and> (0 < mst_maxTracked s \<longrightarrow> int (mst_distinct s) \<le> mst_maxTracked s)"

lemma length_update_present: "map_of m k = Some v \<Longrightarrow> length (AList.update k v' m) = length m"
  by (induction m) auto

lemma length_update_absent: "map_of m k = None \<Longrightarrow> length (AList.update k v' m) = Suc (length m)"
  by (induction m) auto

lemma recordCallToolServer_inv [inv_intros]: "stats_inv s \<Longrightarrow> stats_inv (recordCallToolServer i outcome s)"
  by (auto simp: stats_inv_def recordCallToolServer_def stat_admitted_def stat_count_def length_update_present
      length_update_absent split: option.split)

section \<open>How often the tool is called\<close>

text \<open>\<open>cnt\<close> counts what reached the server in a world.\<close>

definition counts_calls :: "('w \<Rightarrow> nat) \<Rightarrow> ('s, 'w) mcp_sdk \<Rightarrow> bool" where
  "counts_calls cnt net \<longleftrightarrow>
     (\<forall>t opts d w. cnt (snd (net_connect net t opts d w)) = cnt w) \<and>
     (\<forall>ses w. cnt (net_close net ses w) = cnt w) \<and>
     (\<forall>d ses name args w. cnt (snd (net_callTool net d ses name args w)) = cnt w + 1)"

lemma counts_connect: "counts_calls cnt net \<Longrightarrow> net_connect net t opts d w = (r, w1) \<Longrightarrow> cnt w1 = cnt w"
  by (metis counts_calls_def snd_conv)

lemma counts_close: "counts_calls cnt net \<Longrightarrow> cnt (net_close net ses w) = cnt w"
  by (simp add: counts_calls_def)

lemma counts_call: "counts_calls cnt net \<Longrightarrow> net_callTool net d ses name args w = (r, w1) \<Longrightarrow> cnt w1 = cnt w + 1"
  by (metis counts_calls_def snd_conv)

lemma call_use_count:
  "counts_calls cnt net \<Longrightarrow> call_use env net name arguments d ses (w, l) = Some (err, w1, l1) \<Longrightarrow> cnt w1 \<le> cnt w + 1"
  by (auto simp: call_use_def Let_def dest: counts_call split: option.splits prod.splits sum.splits)

lemma withEphemeralSession_count:
  assumes "counts_calls cnt net"
    and "\<And>d ses w l err w1 l1. fn d ses (w, l) = Some (err, w1, l1) \<Longrightarrow> cnt w1 \<le> cnt w + 1"
    and "withEphemeralSession env net notify s fn (w, l) = Some (err, w1, l1)"
  shows "cnt w1 \<le> cnt w + 1"
proof (cases "transportFor env s")
  case (Inr tr)
  obtain r w0 where c: "net_connect net tr (buildMCPClientOptions env notify (the s)) (net_now net w + timeoutFor (the s)) w = (r, w0)"
    by (cases "net_connect net tr (buildMCPClientOptions env notify (the s)) (net_now net w + timeoutFor (the s)) w")
  from counts_connect [OF assms(1) c] have "cnt w0 = cnt w" .
  with assms(3) Inr c show ?thesis
    by (cases r) (auto simp: withEphemeralSession_def Let_def counts_close [OF assms(1)] dest!: assms(2) split: option.splits)
qed (use assms(3) in \<open>auto simp: withEphemeralSession_def\<close>)

lemma pool_attempt_count:
  assumes "counts_calls cnt net"
    and "\<And>d ses w l err w1 l1. fn d ses (w, l) = Some (err, w1, l1) \<Longrightarrow> cnt w1 \<le> cnt w + 1"
    and "pool_attempt env net notify srv fn (pc, w, l) = Some (r, pc1, w1, l1)"
  shows "cnt w1 \<le> cnt w + 1"
proof -
  let ?fp = "poolSessionFingerprint env srv"
  obtain pc0 w0 where d: "drop_stale env net ?fp (pc, w) = (pc0, w0)" by force
  then have w0: "cnt w0 = cnt w"
    by (auto simp: drop_stale_def counts_close [OF assms(1)] split: option.splits if_splits)
  obtain r2 pc2 w2 where c: "pool_connect env net notify srv ?fp (net_now net w0 + timeoutFor srv) (pc0, w0) = (r2, pc2, w2)"
    by (cases "pool_connect env net notify srv ?fp (net_now net w0 + timeoutFor srv) (pc0, w0)")
  then have w2: "cnt w2 = cnt w0"
    by (auto simp: pool_connect_def dest: counts_connect [OF assms(1)] split: option.splits sum.splits prod.splits)
  show ?thesis using assms(3) d c w0 w2
    by (cases r2) (auto simp: pool_attempt_def Let_def counts_close [OF assms(1)] dest!: assms(2) split: option.splits)
qed

lemma pool_run_conn_count:
  assumes "counts_calls cnt net"
    and "\<And>d ses w l err w1 l1. fn d ses (w, l) = Some (err, w1, l1) \<Longrightarrow> cnt w1 \<le> cnt w + 1"
    and "pool_run_conn env net notify srv fn (pc, w, l) = Some (err, b, pc1, w1, l1)"
  shows "cnt w1 \<le> cnt w + 2"
proof -
  have step: "cnt w2 \<le> cnt w1 + 1"
    if "pool_attempt env net notify srv fn (pc1, w1, l1) = Some (r, pc2, w2, l2)" for pc1 w1 l1 r pc2 w2 l2
    using assms(1) assms(2) that by (rule pool_attempt_count)
  from assms(3) obtain r0 pc0 w0 l0 where a: "pool_attempt env net notify srv fn (pc, w, l) = Some (r0, pc0, w0, l0)"
    by (cases "pool_attempt env net notify srv fn (pc, w, l)") (auto simp: pool_run_conn_def)
  from step [OF a] have w0: "cnt w0 \<le> cnt w + 1" by blast
  show ?thesis
  proof (cases "w1 = w0")
    case False
    with assms(3) a obtain r where "pool_attempt env net notify srv fn (pc0, w0, l0) = Some (r, pc1, w1, l1)"
      by (auto simp: pool_run_conn_def split: option.splits attempt_end.splits if_splits)
    from step [OF this] w0 show ?thesis by fastforce
  qed (use w0 in simp)
qed

definition calls_per_attempt :: "mcp_env \<Rightarrow> MCPServer option \<Rightarrow> nat" where
  "calls_per_attempt env s = (if useHTTPSessionPool env s then 2 else 1)"

lemma withSession_count:
  assumes "counts_calls cnt net"
    and fn: "\<And>d ses w l err w1 l1. fn d ses (w, l) = Some (err, w1, l1) \<Longrightarrow> cnt w1 \<le> cnt w + 1"
    and "withSession env net notify s fn (p, w, l) = Some (err, b, p1, w1, l1)"
  shows "cnt w1 \<le> cnt w + calls_per_attempt env s"
proof (cases "useHTTPSessionPool env s")
  case True
  then obtain srv where s: "s = Some srv" by (cases s) (auto simp: useHTTPSessionPool_def)
  obtain a p2 where g: "pool_get (ms_ID srv) p = (a, p2)" by force
  from assms(3) True s g obtain pc where
    "pool_run_conn env net notify srv fn (hp_conns p2 ! a, w, l) = Some (err, b, pc, w1, l1)"
    by (auto simp: withSession_def session_pool_run_def pool_run_at_def split: option.splits)
  from pool_run_conn_count [OF assms(1) fn this] True show ?thesis by (simp add: calls_per_attempt_def)
next
  case False
  with assms(3) have "withEphemeralSession env net notify s fn (w, l) = Some (err, w1, l1)"
    by (auto simp: withSession_def split: option.splits)
  from withEphemeralSession_count [OF assms(1) fn this] False show ?thesis by (simp add: calls_per_attempt_def)
qed

lemma call_once_count:
  assumes "counts_calls cnt net"
    and "call_once env net notify s name arguments (c, w, l) = Some (err, c1, w1, l1)"
  shows "cnt w1 \<le> cnt w + calls_per_attempt env s"
proof -
  from assms(2) obtain b p where
    "withSession env net notify s (call_use env net name arguments) (mc_pool c, w, l) = Some (err, b, p, w1, l1)"
    by (auto simp: call_once_def split: option.splits)
  from withSession_count [OF assms(1) call_use_count [OF assms(1)] this] show ?thesis .
qed

lemma call_attempts_count:
  assumes "counts_calls cnt net"
    and "call_attempts (call_once env net notify s name arguments) parent_done n (c, w, l) = Some (err, c1, w1, l1)"
  shows "cnt w1 \<le> cnt w + n * calls_per_attempt env s"
  using assms(2)
proof (induction n arbitrary: c w l)
  case (Suc n)
  let ?run = "call_once env net notify s name arguments"
  from Suc.prems obtain err0 c0 w0 l0 where run: "?run (c, w, l) = Some (err0, c0, w0, l0)"
    by (cases "?run (c, w, l)") auto
  from call_once_count [OF assms(1) run] have w0: "cnt w0 \<le> cnt w + calls_per_attempt env s" .
  from Suc.prems run have "w1 = w0 \<or> (\<exists>c2. call_attempts ?run parent_done n (c2, w0, l0) = Some (err, c1, w1, l1))"
    by (auto split: option.splits if_splits)
  then show ?case using w0 Suc.IH by fastforce
qed simp

text \<open>C21: one call of a tool reaches its server at most as often as attempts are allowed, and on the pool of
  sessions at most twice as often. With fresh sessions, as the server runs them, that is once, unless
  retries are enabled and the name of the tool itself has the form of an alias; then it is twice.\<close>

theorem tool_called_at_most:
  assumes "counts_calls cnt net"
    and "CallTool env net notify s name arguments (c, w) = Some (r, c', w')"
  shows "cnt w' \<le> cnt w + call_max_attempts env name * calls_per_attempt env s"
proof (cases "TrimSpace name = []")
  case True
  with assms(2) show ?thesis by (simp add: CallTool_def Let_def)
next
  case False
  let ?run = "call_attempts (call_once env net notify s name arguments) (net_done net) (call_max_attempts env name) (c, w, [], None)"
  from assms(2) False obtain e0 c1 l1 where run: "?run = Some (e0, c1, w', l1)"
    by (cases ?run) (auto simp: CallTool_def Let_def split: option.splits)
  from call_attempts_count [OF assms(1) run] show ?thesis .
qed

section \<open>Listing ends\<close>

text \<open>
  What a deadline and a clock promise of the requests for a page: after the deadline they fail, and each
  takes at least a nanosecond.
\<close>

definition obeys_deadline :: "('w \<Rightarrow> time) \<Rightarrow> ('s, 'w, 'i) page_request \<Rightarrow> bool" where
  "obeys_deadline now request \<longleftrightarrow>
     (\<forall>d ses cursor w. d \<le> now w \<longrightarrow> isl (fst (request d ses cursor w))) \<and>
     (\<forall>d ses cursor w. now w < now (snd (request d ses cursor w)))"

lemma list_pages_returns:
  assumes "obeys_deadline now request"
  shows "\<exists>r. list_pages request keep cursor d ses (w, out) = Some r"
proof (induction "nat (d - now w)" arbitrary: cursor w out rule: less_induct)
  case less
  obtain x w1 where r: "request d ses cursor w = (x, w1)" by force
  show ?case
  proof (cases x)
    case (Inr y)
    obtain items next_cursor where y: "y = (items, next_cursor)" by force
    from assms r have "now w < now w1" by (metis obeys_deadline_def snd_conv)
    moreover from assms r Inr have "\<not> d \<le> now w" by (metis obeys_deadline_def fst_conv sum.disc(2))
    ultimately have "nat (d - now w1) < nat (d - now w)" by simp
    from less [OF this] r Inr y show ?thesis by (subst list_pages.simps) (simp add: Let_def)
  qed (use r in \<open>simp add: list_pages.simps\<close>)
qed

definition returns_always :: "('s, 'w, 'l) session_use \<Rightarrow> bool" where
  "returns_always fn \<longleftrightarrow> (\<forall>d ses st. fn d ses st \<noteq> None)"

lemma returns_alwaysD: "returns_always fn \<Longrightarrow> fn d ses st = None \<Longrightarrow> False"
  unfolding returns_always_def by blast

lemma withEphemeralSession_returns:
  "returns_always fn \<Longrightarrow> withEphemeralSession env net notify s fn (w, l) = None \<Longrightarrow> False"
  by (auto simp: withEphemeralSession_def Let_def dest: returns_alwaysD split: sum.splits option.splits prod.splits)

lemma pool_attempt_returns: "returns_always fn \<Longrightarrow> pool_attempt env net notify srv fn st = None \<Longrightarrow> False"
  by (auto simp: pool_attempt_def Let_def dest: returns_alwaysD split: sum.splits option.splits prod.splits)

lemma pool_run_conn_returns: "returns_always fn \<Longrightarrow> pool_run_conn env net notify srv fn st = None \<Longrightarrow> False"
  by (auto simp: pool_run_conn_def dest: pool_attempt_returns split: option.splits attempt_end.splits if_splits)

lemma withSession_returns:
  "returns_always fn \<Longrightarrow> withSession env net notify s fn (p, w, l) = None \<Longrightarrow> False"
  by (auto simp: withSession_def session_pool_run_def pool_run_at_def dest: withEphemeralSession_returns pool_run_conn_returns
      split: option.splits prod.splits if_splits)

text \<open>C38: the listing of a server's tools returns, even from a server whose pages never end, because a request
  after the deadline of the session fails and no request takes no time.\<close>

theorem listTools_returns:
  assumes "obeys_deadline now (net_listTools net)"
  shows "\<exists>r. listTools env net notify s (c, w) = Some r"
proof -
  have "returns_always (list_pages (net_listTools net) declare_tool [])"
    using list_pages_returns [OF assms] by (auto simp: returns_always_def)
  from withSession_returns [OF this, of env net notify s "mc_pool c" w "[]"] show ?thesis
    by (cases "withSession env net notify s (list_pages (net_listTools net) declare_tool []) (mc_pool c, w, [])")
      (auto simp: listTools_def list_declared_def Let_def)
qed

section \<open>Sample runs\<close>

text \<open>
  A network for samples. The world is the clock and the number of calls that reached the server; a listing
  has always another page, until the deadline; a call is answered, or fails with the given error.
\<close>

definition sample_net :: "rpc_error option \<Rightarrow> (unit, int \<times> nat) mcp_sdk" where
  "sample_net failure =
     \<lparr>net_connect = \<lambda>t opts d w. (Inr (), w), net_close = \<lambda>ses w. w, net_now = fst, net_done = \<lambda>w. False,
      net_listTools = \<lambda>d ses cursor w.
        (if d \<le> fst w then Inl (errors_New ''timeout'') else Inr ([None], ''more''), fst w + go_minute, snd w),
      net_listResources = \<lambda>d ses cursor w. (Inr ([], []), w), net_listPrompts = \<lambda>d ses cursor w. (Inr ([], []), w),
      net_callTool = \<lambda>d ses name args w.
        (case failure of
           Some e \<Rightarrow> Inl e
         | None \<Rightarrow> Inr (Some \<lparr>cr_Content = [Some (TextContent ''pong'')], cr_StructuredContent = None, cr_IsError = False\<rparr>),
         fst w + go_second, snd w + 1)\<rparr>"

definition sample_mcp :: mcp_env where
  "sample_mcp =
     \<lparr>me_jsonError = id, me_parseURL = \<lambda>u. Inr (''http'', ''host''), me_hostPolicy = None, me_number = Some, me_quote = id,
      me_hash = id, me_roots = False, me_sampling = None, me_logMessages = False, me_notify = True, me_reuse = False,
      me_maxIdle = 0, me_callRetry = True\<rparr>"

definition sample_server :: MCPServer where
  "sample_server =
     \<lparr>ms_ID = 7, ms_UserID = None, ms_Name = ''fs'', ms_Enabled = True, ms_Transport = ''sse'', ms_Command = [], ms_ArgsJSON = [],
      ms_EnvJSON = [], ms_URL = ''http://host/'', ms_HeadersJSON = [], ms_TimeoutSeconds = 0\<rparr>"

definition sample_client :: "unit mcp_client" where
  "sample_client =
     \<lparr>mc_pool = \<lparr>hp_byID = [], hp_conns = []\<rparr>,
      mc_stats = \<lparr>mst_rpc = \<lparr>rs_listToolsOK = 0, rs_listToolsFail = 0, rs_listResourcesOK = 0, rs_listResourcesFail = 0,
          rs_listPromptsOK = 0, rs_listPromptsFail = 0, rs_callToolOK = 0, rs_callToolFail = 0, rs_callToolMCPError = 0,
          rs_callToolRetry = 0, rs_listCacheHit = 0, rs_listCacheMiss = 0, rs_pooledSessionRetry = 0\<rparr>,
        mst_byServer = [], mst_distinct = 0, mst_maxTracked = 0, mst_durationSum = 0, mst_durationCount = 0,
        mst_buckets = [0, 0, 0, 0]\<rparr>\<rparr>"

definition sample_canceled :: rpc_error where
  "sample_canceled = \<lparr>re_Text = ''context canceled'', re_Canceled = True, re_DeadlineExceeded = False, re_NetTimeout = False\<rparr>"

lemma sample_transport:
  "transportFor sample_mcp (Some sample_server) = Inr \<lparr>tr_kind = ''sse'', tr_Endpoint = ''http://host/'', tr_headers = []\<rparr>"
proof -
  have "TrimSpace ''sse'' = ''sse''" "TrimSpace ''http://host/'' = ''http://host/''"
    by (rule TrimSpace_solid; simp add: IsSpace_def)+
  moreover have "ToLower ''sse'' = ''sse''" by (rule ToLower_lower) simp
  ultimately show ?thesis
    by (simp add: transportFor_def Let_def sample_server_def sample_mcp_def parseStringMapJSON_def validateHTTPMCPURL_def
        checkHTTPHostAllowed_def sent_headers_def)
qed

lemma sample_fresh_sessions: "useHTTPSessionPool sample_mcp s = False" "calls_per_attempt sample_mcp s = 1"
  by (simp_all add: useHTTPSessionPool_def calls_per_attempt_def sample_mcp_def split: option.split)

lemma sample_call_once:
  "call_once sample_mcp (sample_net failure) notify (Some sample_server) name [] (c, (t, k), l) =
     (case failure of
        Some e \<Rightarrow> Some (Some e, c, (t + go_second, k + 1), l)
      | None \<Rightarrow> Some (None, c, (t + go_second, k + 1), ''pong'', snd l))"
proof -
  have "TrimSpace ''pong'' = ''pong''" by (rule TrimSpace_solid) (simp add: IsSpace_def)
  then show ?thesis
    by (simp add: call_once_def withSession_def sample_fresh_sessions withEphemeralSession_def sample_transport call_use_def
        sample_net_def tool_arguments_def count_pool_retry_def CallToolResultString_def content_text_def contentToLLMString_def
        Let_def split: option.split)
qed

lemma counts_calls_sample: "counts_calls snd (sample_net failure)"
  by (simp add: counts_calls_def sample_net_def)

lemma sample_attempts: "call_max_attempts sample_mcp ''ping'' = 1" "call_max_attempts sample_mcp (ToolAlias 7 ''x'') = 2"
proof -
  have "TrimSpace ''ping'' = ''ping''" by (rule TrimSpace_solid) (simp add: IsSpace_def)
  moreover have "ToLower ''ping'' = ''ping''" by (rule ToLower_lower) simp
  moreover have "ParseToolAlias ''ping'' = None"
    using \<open>TrimSpace ''ping'' = ''ping''\<close> by (simp add: ParseToolAlias_def mcp_alias_submatch_def Let_def HasPrefix_def)
  ultimately show "call_max_attempts sample_mcp ''ping'' = 1"
    by (simp add: call_max_attempts_def callToolAllowsTransportRetry_def sample_mcp_def Let_def)
  have a: "ToolAlias 7 ''x'' = ''mcp_7_h78''"
    by (simp add: ToolAlias_def itoa_def nat_digits.simps [of 7] hex_bytes_def hex_digit_def char_of_def bit_0)
  have "TrimSpace (ToolAlias 7 ''x'') = ToolAlias 7 ''x''" by (rule TrimSpace_ToolAlias) simp
  moreover have "ToLower (ToolAlias 7 ''x'') = ToolAlias 7 ''x''" unfolding a by (rule ToLower_lower) simp
  moreover have "ParseToolAlias (ToolAlias 7 ''x'') = Some (7, ''x'')" by (rule ParseToolAlias_ToolAlias) simp_all
  ultimately show "call_max_attempts sample_mcp (ToolAlias 7 ''x'') = 2"
    by (simp add: call_max_attempts_def callToolAllowsTransportRetry_def sample_mcp_def Let_def a)
qed

theorem CallTool_counted_witness:
  "\<exists>c' :: unit mcp_client. CallTool sample_mcp (sample_net None) True (Some sample_server) ''ping'' [] (sample_client, 0, 0)
     = Some ((''pong'', None), c', go_second, 1) \<and>
     outcome_count CallOk (mst_rpc (mc_stats c')) = 1 \<and> outcome_count CallTransportErr (mst_rpc (mc_stats c')) = 0 \<and>
     server_count 7 CallOk (mc_stats c') = 1 \<and> mst_durationCount (mc_stats c') = 1"
proof -
  have "TrimSpace ''ping'' = ''ping''" by (rule TrimSpace_solid) (simp add: IsSpace_def)
  then have "\<exists>c' :: unit mcp_client. CallTool sample_mcp (sample_net None) True (Some sample_server) ''ping'' [] (sample_client, 0, 0)
     = Some ((''pong'', None), c', go_second, 1)"
    by (simp add: CallTool_def sample_attempts sample_call_once Let_def numeral_eq_Suc)
  then obtain c' :: "unit mcp_client" where
    run: "CallTool sample_mcp (sample_net None) True (Some sample_server) ''ping'' [] (sample_client, 0, 0)
      = Some ((''pong'', None), c', go_second, 1)" by blast
  have id: "server_id (Some sample_server) = 7" by (simp add: server_id_def sample_server_def)
  have s: "outcome_count o' (mst_rpc (mc_stats sample_client)) = 0" "server_count 7 o' (mc_stats sample_client) = 0"
    "mst_durationCount (mc_stats sample_client) = 0" "stat_admitted 7 (mc_stats sample_client)" for o'
    by (simp_all add: sample_client_def outcome_count_def server_count_def stat_admitted_def split: call_outcome.split)
  note counted = CallTool_counted [OF run, unfolded id]
  show ?thesis
    using run counted [of CallOk 7] counted [of CallTransportErr 7] s by (auto simp: outcome_of_def)
qed

text \<open>The bound is reached by an error that no policy retries: the context of the call was canceled.\<close>

theorem tool_called_at_most_witness:
  "\<exists>r c' t. CallTool sample_mcp (sample_net (Some sample_canceled)) True (Some sample_server) (ToolAlias 7 ''x'') [] (sample_client, 0, 0)
     = Some (r, c', t, 2) \<and> \<not> isRetryableTransportError False (Some sample_canceled) \<and>
     2 \<le> (0 :: nat) + call_max_attempts sample_mcp (ToolAlias 7 ''x'') * calls_per_attempt sample_mcp (Some sample_server)"
proof -
  let ?net = "sample_net (Some sample_canceled)"
  have trim: "TrimSpace (ToolAlias 7 ''x'') = ToolAlias 7 ''x''" by (rule TrimSpace_ToolAlias) simp
  have "ToolAlias 7 ''x'' \<noteq> []" by (simp add: ToolAlias_def)
  then have name: "TrimSpace (ToolAlias 7 ''x'') \<noteq> []" by (simp only: trim not_False_eq_True)
  have nr: "\<not> isRetryableTransportError False (Some sample_canceled)"
    by (simp add: isRetryableTransportError_def sample_canceled_def)
  have live: "net_done ?net = (\<lambda>w. False)" by (simp add: sample_net_def)
  have "\<exists>r c' t. CallTool sample_mcp ?net True (Some sample_server) (ToolAlias 7 ''x'') [] (sample_client, 0, 0) = Some (r, c', t, 2)"
    using name nr by (simp add: CallTool_def sample_attempts sample_call_once Let_def numeral_2_eq_2 live)
  then obtain r c' t where
    run: "CallTool sample_mcp ?net True (Some sample_server) (ToolAlias 7 ''x'') [] (sample_client, 0, 0) = Some (r, c', t, 2)"
    by blast
  from tool_called_at_most [OF counts_calls_sample run] nr run show ?thesis by (auto simp: snd_def)
qed

theorem listTools_returns_witness:
  "obeys_deadline fst (net_listTools (sample_net None)) \<and>
   (\<exists>r. listTools sample_mcp (sample_net None) True (Some sample_server) (sample_client, 0, 0) = Some r)"
proof -
  have "obeys_deadline fst (net_listTools (sample_net None))" by (simp add: obeys_deadline_def sample_net_def)
  then show ?thesis using listTools_returns [of fst "sample_net None"] by blast
qed

end
