(* ===== verification/McpListCache.thy ===== *)
theory McpListCache
  imports McpCalls
begin

text \<open>
  The cache of what the MCP servers declare, \<open>pkg/mcpclient/tools_list_cache.go\<close>, and the refresh of
  the registry that reads through it. The three maps of the cache have the same operations, written once
  here and used at tools, resources and prompts. The lock is held for each look-up, for each store and for
  each removal, and not while a list is fetched: the notices that come in the meantime are an argument.
  Requests for the same list that come together are one in the code; each caller then sees the same answer,
  as if the fetch had been its own. The copies the code makes of its slices are the lists themselves.
\<close>

section \<open>One map of the cache\<close>

type_synonym list_key = "int \<times> string"

record 'd list_entry =
  le_items :: "'d list"
  le_until :: time

type_synonym 'd list_entries = "list_key \<Rightarrow> 'd list_entry option"

definition list_lookup :: "time \<Rightarrow> list_key \<Rightarrow> 'd list_entries \<Rightarrow> 'd list option" where
  "list_lookup now key m =
     (case m key of None \<Rightarrow> None | Some e \<Rightarrow> if now < le_until e then Some (le_items e) else None)"

definition drop_expired_lists :: "time \<Rightarrow> 'd list_entries \<Rightarrow> 'd list_entries" where
  "drop_expired_lists now m = (\<lambda>k. case m k of None \<Rightarrow> None | Some e \<Rightarrow> if \<not> now < le_until e then None else Some e)"

definition drop_other_configs :: "list_key \<Rightarrow> 'd list_entries \<Rightarrow> 'd list_entries" where
  "drop_other_configs key m = (\<lambda>k. if fst k = fst key \<and> snd k \<noteq> snd key then None else m k)"

definition list_store :: "time \<Rightarrow> duration \<Rightarrow> list_key \<Rightarrow> 'd list \<Rightarrow> 'd list_entries \<Rightarrow> 'd list_entries" where
  "list_store now ttl key items m =
     (drop_other_configs key (drop_expired_lists now m))(key \<mapsto> \<lparr>le_items = items, le_until = now + ttl\<rparr>)"

definition list_invalidate :: "int \<Rightarrow> 'd list_entries \<Rightarrow> 'd list_entries" where
  "list_invalidate i m = (\<lambda>k. if fst k = i then None else m k)"

section \<open>The cache\<close>

record ToolsListCache =
  tc_toolEntries :: "DeclaredTool list_entries"
  tc_resEntries :: "DeclaredResource list_entries"
  tc_promptsEntries :: "DeclaredPrompt list_entries"

definition NewToolsListCache :: ToolsListCache where
  "NewToolsListCache = \<lparr>tc_toolEntries = Map.empty, tc_resEntries = Map.empty, tc_promptsEntries = Map.empty\<rparr>"

definition InvalidateServerTools :: "int \<Rightarrow> ToolsListCache option \<Rightarrow> ToolsListCache option" where
  "InvalidateServerTools i c =
     (if i \<le> 0 then c else map_option (tc_toolEntries_update (list_invalidate i)) c)"

definition InvalidateServerResources :: "int \<Rightarrow> ToolsListCache option \<Rightarrow> ToolsListCache option" where
  "InvalidateServerResources i c =
     (if i \<le> 0 then c else map_option (tc_resEntries_update (list_invalidate i)) c)"

definition InvalidateServerPrompts :: "int \<Rightarrow> ToolsListCache option \<Rightarrow> ToolsListCache option" where
  "InvalidateServerPrompts i c =
     (if i \<le> 0 then c else map_option (tc_promptsEntries_update (list_invalidate i)) c)"

definition InvalidateServerID ::
  "('s, 'w, 'z) mcp_net_scheme \<Rightarrow> int \<Rightarrow> ToolsListCache option \<times> 's httpSessionPool \<times> 'w
     \<Rightarrow> ToolsListCache option \<times> 's httpSessionPool \<times> 'w" where
  "InvalidateServerID net i st =
     (case st of (c, pw) \<Rightarrow>
        if i \<le> 0 then (c, pw)
        else (InvalidateServerPrompts i (InvalidateServerResources i (InvalidateServerTools i c)), closeServer net i pw))"

text \<open>What the handlers of \<open>buildMCPClientOptions\<close> do with a notice of a server, by its id.\<close>

datatype list_notice = ToolListChanged int | ResourceListChanged int | PromptListChanged int

definition handle_notice :: "list_notice \<Rightarrow> ToolsListCache option \<Rightarrow> ToolsListCache option" where
  "handle_notice n c =
     (case n of
        ToolListChanged i \<Rightarrow> InvalidateServerTools i c
      | ResourceListChanged i \<Rightarrow> InvalidateServerResources i c
      | PromptListChanged i \<Rightarrow> InvalidateServerPrompts i c)"

definition DefaultToolsListCacheTTL :: duration where
  "DefaultToolsListCacheTTL = 2 * go_minute"

definition effective_ttl :: "duration \<Rightarrow> duration" where
  "effective_ttl ttl = (if ttl \<le> 0 then DefaultToolsListCacheTTL else ttl)"

definition recordListCacheHit :: "mcpRPCStats \<Rightarrow> mcpRPCStats" where
  "recordListCacheHit s = s\<lparr>rs_listCacheHit := rs_listCacheHit s + 1\<rparr>"

definition recordListCacheMiss :: "mcpRPCStats \<Rightarrow> mcpRPCStats" where
  "recordListCacheMiss s = s\<lparr>rs_listCacheMiss := rs_listCacheMiss s + 1\<rparr>"

definition count_rpc :: "(mcpRPCStats \<Rightarrow> mcpRPCStats) \<Rightarrow> 's mcp_client \<Rightarrow> 's mcp_client" where
  "count_rpc f c = c\<lparr>mc_stats := mc_stats c\<lparr>mst_rpc := f (mst_rpc (mc_stats c))\<rparr>\<rparr>"

type_synonym ('s, 'w) cached_state = "ToolsListCache option \<times> 's mcp_client \<times> 'w"

type_synonym ('s, 'w, 'd) fetcher =
  "bool \<Rightarrow> MCPServer option \<Rightarrow> 's mcp_client \<times> 'w \<Rightarrow> (('d list \<times> rpc_error option) \<times> 's mcp_client \<times> 'w) option"

definition list_cached ::
  "(ToolsListCache \<Rightarrow> 'd list_entries) \<Rightarrow> (('d list_entries \<Rightarrow> 'd list_entries) \<Rightarrow> ToolsListCache \<Rightarrow> ToolsListCache)
     \<Rightarrow> (string \<Rightarrow> string) \<Rightarrow> ('w \<Rightarrow> time) \<Rightarrow> ('s, 'w, 'd) fetcher \<Rightarrow> list_notice list \<Rightarrow> MCPServer option \<Rightarrow> duration
     \<Rightarrow> ('s, 'w) cached_state \<Rightarrow> (('d list \<times> rpc_error option) \<times> ('s, 'w) cached_state) option" where
  "list_cached entries update hash clock fetch notices s ttl st =
     (case st of
        (None, cw) \<Rightarrow> map_option (\<lambda>(r, cw1). (r, None, cw1)) (fetch False s cw)
      | (Some cache, c, w) \<Rightarrow>
          (case s of
             None \<Rightarrow> Some (([], Some (errors_New ''nil mcp server'')), st)
           | Some srv \<Rightarrow>
               if ms_ID srv \<le> 0
               then map_option (\<lambda>(r, cw1). (r, fold handle_notice notices (Some cache), cw1)) (fetch False s (c, w))
               else
                 let key = (ms_ID srv, serverConfigFingerprint hash s); now = clock w in
                 case list_lookup now key (entries cache) of
                   Some items \<Rightarrow> Some ((items, None), Some cache, count_rpc recordListCacheHit c, w)
                 | None \<Rightarrow>
                     (case fetch True s (count_rpc recordListCacheMiss c, w) of
                        None \<Rightarrow> None
                      | Some ((out, Some e), cw1) \<Rightarrow> Some (([], Some e), fold handle_notice notices (Some cache), cw1)
                      | Some ((out, None), cw1) \<Rightarrow>
                          Some ((out, None),
                            map_option (update (list_store now (effective_ttl ttl) key out)) (fold handle_notice notices (Some cache)),
                            cw1))))"

definition ListToolsCached ::
  "mcp_env \<Rightarrow> ('s, 'w) mcp_sdk \<Rightarrow> list_notice list \<Rightarrow> MCPServer option \<Rightarrow> duration \<Rightarrow> ('s, 'w) cached_state
     \<Rightarrow> ((DeclaredTool list \<times> rpc_error option) \<times> ('s, 'w) cached_state) option" where
  "ListToolsCached env net =
     list_cached tc_toolEntries tc_toolEntries_update (me_hash env) (net_now net) (listTools env net)"

definition ListResourcesCached ::
  "mcp_env \<Rightarrow> ('s, 'w) mcp_sdk \<Rightarrow> list_notice list \<Rightarrow> MCPServer option \<Rightarrow> duration \<Rightarrow> ('s, 'w) cached_state
     \<Rightarrow> ((DeclaredResource list \<times> rpc_error option) \<times> ('s, 'w) cached_state) option" where
  "ListResourcesCached env net =
     list_cached tc_resEntries tc_resEntries_update (me_hash env) (net_now net) (listResources env net)"

definition ListPromptsCached ::
  "mcp_env \<Rightarrow> ('s, 'w) mcp_sdk \<Rightarrow> list_notice list \<Rightarrow> MCPServer option \<Rightarrow> duration \<Rightarrow> ('s, 'w) cached_state
     \<Rightarrow> ((DeclaredPrompt list \<times> rpc_error option) \<times> ('s, 'w) cached_state) option" where
  "ListPromptsCached env net =
     list_cached tc_promptsEntries tc_promptsEntries_update (me_hash env) (net_now net) (listPrompts env net)"

text \<open>\<open>Registry.Refresh\<close> with the cache it really reads through, server by server.\<close>

fun refresh_cached ::
  "(MCPServer \<Rightarrow> 'st \<Rightarrow> ((DeclaredTool list \<times> rpc_error option) \<times> 'st) option) \<Rightarrow> MCPServer list \<Rightarrow> 'st
     \<Rightarrow> (ToolInfo list \<times> 'st) option" where
  "refresh_cached list_tools [] st = Some ([], st)"
| "refresh_cached list_tools (srv # srvs) st =
     (case list_tools srv st of
        None \<Rightarrow> None
      | Some ((declared, err), st1) \<Rightarrow>
          map_option (\<lambda>(infos, st2). ((if err = None then tool_infos srv declared else []) @ infos, st2))
            (refresh_cached list_tools srvs st1))"

definition registry_Refresh ::
  "(MCPServer list \<Rightarrow> MCPServer list) \<Rightarrow> mcp_env \<Rightarrow> ('s, 'w) mcp_sdk \<Rightarrow> McpRegistry \<Rightarrow> ('s, 'w) cached_state
     \<Rightarrow> (McpRegistry \<times> ('s, 'w) cached_state) option" where
  "registry_Refresh order env net reg st =
     map_option (\<lambda>(infos, st1). (reg\<lparr>rg_tools := infos\<rparr>, st1))
       (refresh_cached (\<lambda>srv. ListToolsCached env net [] (Some srv) DefaultToolsListCacheTTL)
          (order (map snd (rg_servers reg))) st)"

section \<open>A cell for each server\<close>

text \<open>
  What may happen to a map of the cache, and the cell that a server has by its last event: the
  configuration, the list and the time it lives until.
\<close>

datatype 'd list_event = ListStored int string "'d list" time duration | ListChanged int

definition list_step :: "'d list_event \<Rightarrow> 'd list_entries \<Rightarrow> 'd list_entries" where
  "list_step ev m =
     (case ev of
        ListStored i fp items now ttl \<Rightarrow> list_store now ttl (i, fp) items m
      | ListChanged i \<Rightarrow> list_invalidate i m)"

definition cell_step :: "int \<Rightarrow> 'd list_event \<Rightarrow> (string \<times> 'd list \<times> time) option \<Rightarrow> (string \<times> 'd list \<times> time) option" where
  "cell_step i ev cell =
     (case ev of
        ListStored j fp items now ttl \<Rightarrow> if j = i then Some (fp, items, now + ttl) else cell
      | ListChanged j \<Rightarrow> if j = i then None else cell)"

fun event_by :: "time \<Rightarrow> 'd list_event \<Rightarrow> bool" where
  "event_by now (ListStored i fp items t ttl) = (t \<le> now)"
| "event_by now (ListChanged i) = True"

definition read_cell :: "time \<Rightarrow> string \<Rightarrow> (string \<times> 'd list \<times> time) option \<Rightarrow> 'd list option" where
  "read_cell now fp cell =
     (case cell of None \<Rightarrow> None | Some (fp', items, until) \<Rightarrow> if fp' = fp \<and> now < until then Some items else None)"

definition entries_match :: "time \<Rightarrow> int \<Rightarrow> 'd list_entries \<Rightarrow> (string \<times> 'd list \<times> time) option \<Rightarrow> bool" where
  "entries_match now i m cell \<longleftrightarrow> (\<forall>fp. list_lookup now (i, fp) m = read_cell now fp cell)"

lemma list_lookup_store:
  "t \<le> now \<Longrightarrow> list_lookup now (i, fp) (list_store t ttl (j, fp') items m)
     = (if i = j then if fp = fp' \<and> now < t + ttl then Some items else None else list_lookup now (i, fp) m)"
  by (auto simp: list_lookup_def list_store_def drop_other_configs_def drop_expired_lists_def split: option.splits)

lemma list_lookup_invalidate:
  "list_lookup now (i, fp) (list_invalidate j m) = (if i = j then None else list_lookup now (i, fp) m)"
  by (simp add: list_lookup_def list_invalidate_def)

lemma entries_match_step [inv_intros]:
  "entries_match now i m cell \<Longrightarrow> event_by now ev \<Longrightarrow> entries_match now i (list_step ev m) (cell_step i ev cell)"
  by (cases ev) (auto simp: entries_match_def list_step_def cell_step_def list_lookup_store list_lookup_invalidate read_cell_def)

lemma entries_match_run:
  "entries_match now i m cell \<Longrightarrow> \<forall>ev\<in>set events. event_by now ev
   \<Longrightarrow> entries_match now i (fold list_step events m) (fold (cell_step i) events cell)"
  by (induction events arbitrary: m cell) (auto intro: entries_match_step)

text \<open>C23: the cache of lists is a cell for each server. After any sequence of stores and changes, a look-up for a
  server and a configuration gives the list stored last for that server, and only if it was stored for the
  same configuration, has not expired, and the server has not said since that the list changed.\<close>

theorem list_cache_exact:
  assumes "\<forall>ev\<in>set events. event_by now ev"
  shows "list_lookup now (i, fp) (fold list_step events Map.empty) = read_cell now fp (fold (cell_step i) events None)"
proof -
  have "entries_match now i Map.empty None" by (simp add: entries_match_def list_lookup_def read_cell_def)
  from entries_match_run [OF this assms] show ?thesis by (simp add: entries_match_def)
qed

theorem list_cache_exact_witness:
  "list_lookup 5 (7, ''b'') (fold list_step [ListStored 7 ''a'' [1 :: nat] 0 10, ListChanged 8, ListStored 7 ''b'' [2] 3 10] Map.empty)
     = Some [2] \<and>
   list_lookup 5 (7, ''a'') (fold list_step [ListStored 7 ''a'' [1 :: nat] 0 10, ListChanged 8, ListStored 7 ''b'' [2] 3 10] Map.empty)
     = None"
proof -
  let ?evs = "[ListStored 7 ''a'' [1 :: nat] 0 10, ListChanged 8, ListStored 7 ''b'' [2] 3 10]"
  have "\<forall>ev\<in>set ?evs. event_by 5 ev" by simp
  from list_cache_exact [OF this] show ?thesis by (simp add: cell_step_def read_cell_def)
qed

section \<open>Listing through the cache\<close>

lemma fold_handle_notice_Some: "\<exists>cache'. fold handle_notice notices (Some cache) = Some cache'"
  by (induction notices arbitrary: cache)
    (auto simp: handle_notice_def InvalidateServerTools_def InvalidateServerResources_def InvalidateServerPrompts_def
      split: list_notice.split)

lemma ListToolsCached_hit:
  assumes "0 < ms_ID srv"
    and "list_lookup (net_now net w) (ms_ID srv, serverConfigFingerprint (me_hash env) (Some srv)) (tc_toolEntries cache) = Some items"
  shows "ListToolsCached env net notices (Some srv) ttl (Some cache, c, w)
    = Some ((items, None), Some cache, count_rpc recordListCacheHit c, w)"
  using assms by (simp add: ListToolsCached_def list_cached_def Let_def)

lemma ListToolsCached_miss:
  assumes "0 < ms_ID srv"
    and "list_lookup (net_now net w) (ms_ID srv, serverConfigFingerprint (me_hash env) (Some srv)) (tc_toolEntries cache) = None"
    and "ListToolsCached env net notices (Some srv) ttl (Some cache, c, w) = Some ((out, None), cache1, cw1)"
  shows "\<exists>cache0. cache1 = Some (tc_toolEntries_update
      (list_store (net_now net w) (effective_ttl ttl) (ms_ID srv, serverConfigFingerprint (me_hash env) (Some srv)) out) cache0)"
proof -
  obtain cache0 where "fold handle_notice notices (Some cache) = Some cache0" using fold_handle_notice_Some by blast
  with assms show ?thesis by (auto simp: ListToolsCached_def list_cached_def Let_def split: option.splits)
qed


text \<open>A refresh when the cache has a live list for every server.\<close>

lemma refresh_cached_hits:
  assumes "\<forall>srv\<in>set srvs. 0 < ms_ID srv \<and>
      list_lookup (net_now net w) (ms_ID srv, serverConfigFingerprint (me_hash env) (Some srv)) (tc_toolEntries cache) = Some (items srv)"
  shows "\<exists>c'. refresh_cached (\<lambda>srv. ListToolsCached env net [] (Some srv) ttl) srvs (Some cache, c, w)
    = Some (concat (map (\<lambda>srv. tool_infos srv (items srv)) srvs), Some cache, c', w)"
  using assms
proof (induction srvs arbitrary: c)
  case (Cons srv srvs)
  then obtain c' where "refresh_cached (\<lambda>srv. ListToolsCached env net [] (Some srv) ttl) srvs (Some cache, count_rpc recordListCacheHit c, w)
      = Some (concat (map (\<lambda>srv. tool_infos srv (items srv)) srvs), Some cache, c', w)" by fastforce
  with Cons.prems show ?case by (simp add: ListToolsCached_hit)
qed simp

text \<open>When the cache has a live list for every server of the registry, a refresh asks no server: the world and
  the cache stay as they are, and the registry then has the tools it would have if every server had answered
  with its cached list.\<close>

theorem refresh_from_cache:
  assumes "set (order (map snd (rg_servers reg))) = set (map snd (rg_servers reg))"
    and "\<forall>srv\<in>set (map snd (rg_servers reg)). 0 < ms_ID srv \<and>
      list_lookup (net_now net w) (ms_ID srv, serverConfigFingerprint (me_hash env) (Some srv)) (tc_toolEntries cache) = Some (items srv)"
  shows "\<exists>reg' c'. registry_Refresh order env net reg (Some cache, c, w) = Some (reg', Some cache, c', w) \<and>
    mcp_Refresh order (\<lambda>srv. Inr (items srv)) (Some reg) = Some reg'"
proof -
  from assms have "\<forall>srv\<in>set (order (map snd (rg_servers reg))). 0 < ms_ID srv \<and>
      list_lookup (net_now net w) (ms_ID srv, serverConfigFingerprint (me_hash env) (Some srv)) (tc_toolEntries cache) = Some (items srv)"
    by blast
  from refresh_cached_hits [OF this, of DefaultToolsListCacheTTL c] show ?thesis
    by (auto simp: registry_Refresh_def mcp_Refresh_def)
qed

text \<open>A server that fails is left out of a refresh, and one that was asked is not asked again within two minutes.\<close>

definition sample_lister :: "(unit, int \<times> nat) mcp_sdk" where
  "sample_lister =
     (sample_net None)\<lparr>net_listTools := \<lambda>d ses cursor w.
        (Inr ([Some \<lparr>kt_Name = ''ls'', kt_Description = [], kt_InputSchema = None\<rparr>], []), fst w + go_second, snd w + 1)\<rparr>"

definition sample_listed :: "DeclaredTool list" where
  "sample_listed = [\<lparr>dt_Name = ''ls'', dt_Description = [], dt_ParametersJSON = empty_schema\<rparr>]"

lemma sample_listTools:
  "\<exists>c'. listTools sample_mcp sample_lister notify (Some sample_server) (c, t, k) = Some ((sample_listed, None), c', t + go_second, k + 1)"
proof -
  have "TrimSpace ''ls'' = ''ls''" by (rule TrimSpace_solid) (simp add: IsSpace_def)
  then show ?thesis
    by (simp add: listTools_def list_declared_def withSession_def sample_fresh_sessions withEphemeralSession_def sample_transport
        list_pages.simps sample_lister_def sample_net_def declare_tool_def inputSchemaToParametersJSON_def sample_listed_def Let_def)
qed


theorem refresh_from_cache_witness:
  "\<exists>reg' c' cache. cache \<noteq> NewToolsListCache \<and>
     registry_Refresh id sample_mcp sample_lister \<lparr>rg_servers = [(7, sample_server)], rg_tools = []\<rparr> (Some cache, sample_client, go_minute, 5)
       = Some (reg', Some cache, c', go_minute, 5) \<and> map ti_Name (rg_tools reg') = [''ls'']"
proof -
  let ?reg = "\<lparr>rg_servers = [(7, sample_server)], rg_tools = []\<rparr>"
  let ?k = "(ms_ID sample_server, serverConfigFingerprint (me_hash sample_mcp) (Some sample_server))"
  let ?c = "NewToolsListCache\<lparr>tc_toolEntries := list_store 0 (2 * go_minute) ?k sample_listed Map.empty\<rparr>"
  have now: "net_now sample_lister = fst" by (simp add: sample_lister_def sample_net_def)
  have look: "list_lookup go_minute ?k (tc_toolEntries ?c) = Some sample_listed" by (simp add: list_lookup_store)
  have "tc_toolEntries ?c ?k \<noteq> None" by (simp add: list_store_def)
  then have "tc_toolEntries ?c \<noteq> tc_toolEntries NewToolsListCache" by (auto simp: NewToolsListCache_def)
  then have ne: "?c \<noteq> NewToolsListCache" by (rule contrapos_nn) (rule arg_cong [where f = tc_toolEntries])
  have "\<exists>reg' c'. registry_Refresh id sample_mcp sample_lister ?reg (Some ?c, sample_client, go_minute, 5)
      = Some (reg', Some ?c, c', go_minute, 5) \<and> mcp_Refresh id (\<lambda>srv. Inr ((\<lambda>_. sample_listed) srv)) (Some ?reg) = Some reg'"
    by (rule refresh_from_cache) (use look now in \<open>auto simp: sample_server_def\<close>)
  then show ?thesis using ne by (fastforce simp: mcp_Refresh_def tool_infos_def sample_listed_def)
qed

end
