(* ===== verification/AppConfig.thy ===== *)
theory AppConfig
  imports GoNumbers AgentGuard McpRegistry ContextBudget LlmClient
begin

text \<open>
  The configuration of the server, \<open>internal/config/config.go\<close>: the structure read from YAML, its
  loading and the values the services ask it for. Fields that may be absent are options. The file system
  (whether the file is there, what reading it gives, the home directory) and the YAML library are
  arguments. A nil configuration is \<open>None\<close>.
\<close>

section \<open>The structure\<close>

record GenerateConfig =
  gc_MaxTokens :: int
  gc_Temperature :: float64

record ChatConfig =
  ch_TimeoutSeconds :: int
  ch_HistoryMaxMessages :: int
  ch_Generate :: GenerateConfig

record AgentConfig =
  ac_MaxTokens :: int
  ac_Temperature :: float64
  ac_MaxSteps :: int
  ac_AllowedPaths :: "string list"
  ac_BlockedCommands :: "string list"
  ac_AllowedCommands :: "string list"
  ac_Sandbox :: AgentSandboxConfig

record RunnerHintsConfig =
  rh_MaxContextTokens :: int
  rh_LLMHistoryMaxMessages :: int
  rh_MaxToolInvocationRounds :: int

record RunnerConfig =
  rc_Addr :: string
  rc_Name :: string
  rc_SelectedModel :: string
  rc_Enabled :: "bool option"
  rc_Hints :: RunnerHintsConfig

record ContextConfig =
  xc_TokenBudget :: int
  xc_ScanSecrets :: "bool option"

record ReliabilityConfig =
  lc_RunnerRetries :: int
  lc_CircuitBreakerFailures :: int
  lc_CircuitBreakerCooldownSecs :: int
  lc_MaxConcurrentRequests :: int
  lc_QueueWaitSeconds :: int
  lc_PersistentQueuePath :: string
  lc_PersistentQueueMax :: int

record QdrantConfig =
  qc_URL :: string
  qc_CollectionPrefix :: string
  qc_APIKey :: string

record IndexConfig =
  ic_MaxChunksPerWorkspace :: int
  ic_SearchWorkers :: int
  ic_Qdrant :: QdrantConfig

record AppConfig =
  c_Host :: string
  c_Port :: int
  c_Runners :: "RunnerConfig list"
  c_APIKey :: string
  c_Chat :: ChatConfig
  c_Agent :: AgentConfig
  c_Context :: ContextConfig
  c_Reliability :: ReliabilityConfig
  c_RequestsPerMinute :: int
  c_BufferTTLSeconds :: int
  c_Structured :: "bool option"
  c_MaxTokensPerDay :: int
  c_Index :: IndexConfig
  c_IdempotencyTTLSeconds :: int
  c_ModerationEnabled :: "bool option"
  c_PromptPrefixEntries :: int
  c_MCPServers :: "ServerConfig list"
  c_listenOverride :: string

definition no_config :: AppConfig where
  "no_config =
     \<lparr>c_Host = [], c_Port = 0, c_Runners = [], c_APIKey = [],
      c_Chat = \<lparr>ch_TimeoutSeconds = 0, ch_HistoryMaxMessages = 0, ch_Generate = \<lparr>gc_MaxTokens = 0, gc_Temperature = 0\<rparr>\<rparr>,
      c_Agent = \<lparr>ac_MaxTokens = 0, ac_Temperature = 0, ac_MaxSteps = 0, ac_AllowedPaths = [], ac_BlockedCommands = [],
        ac_AllowedCommands = [],
        ac_Sandbox = \<lparr>sb_Enabled = None, sb_WorkspaceRoot = [], sb_MaxOutputBytes = 0, sb_CommandTimeoutSec = 0\<rparr>\<rparr>,
      c_Context = \<lparr>xc_TokenBudget = 0, xc_ScanSecrets = None\<rparr>,
      c_Reliability = \<lparr>lc_RunnerRetries = 0, lc_CircuitBreakerFailures = 0, lc_CircuitBreakerCooldownSecs = 0,
        lc_MaxConcurrentRequests = 0, lc_QueueWaitSeconds = 0, lc_PersistentQueuePath = [], lc_PersistentQueueMax = 0\<rparr>,
      c_RequestsPerMinute = 0, c_BufferTTLSeconds = 0, c_Structured = None, c_MaxTokensPerDay = 0,
      c_Index = \<lparr>ic_MaxChunksPerWorkspace = 0, ic_SearchWorkers = 0,
        ic_Qdrant = \<lparr>qc_URL = [], qc_CollectionPrefix = [], qc_APIKey = []\<rparr>\<rparr>,
      c_IdempotencyTTLSeconds = 0, c_ModerationEnabled = None, c_PromptPrefixEntries = 0, c_MCPServers = [], c_listenOverride = []\<rparr>"

section \<open>Loading\<close>

definition expandHome :: "string option \<Rightarrow> string \<Rightarrow> string" where
  "expandHome home path0 =
     (let path = TrimSpace path0 in
      if path = [] \<or> \<not> HasPrefix path ''~'' then path
      else
        case home of
          None \<Rightarrow> path
        | Some h \<Rightarrow>
            if path = ''~'' then h
            else if HasPrefix path ''~/'' then filepath_Join [h, drop 2 path]
            else path)"

definition expandPaths :: "string option \<Rightarrow> AppConfig \<Rightarrow> AppConfig" where
  "expandPaths home c =
     c\<lparr>c_Agent := (c_Agent c)\<lparr>ac_Sandbox := (ac_Sandbox (c_Agent c))
           \<lparr>sb_WorkspaceRoot := expandHome home (sb_WorkspaceRoot (ac_Sandbox (c_Agent c)))\<rparr>\<rparr>,
       c_Reliability := (c_Reliability c)\<lparr>lc_PersistentQueuePath := expandHome home (lc_PersistentQueuePath (c_Reliability c))\<rparr>\<rparr>"

datatype load_error = ConfigUnreadable string | ConfigUnparsable string

definition config_Load ::
  "bool \<Rightarrow> string + string \<Rightarrow> (string \<Rightarrow> AppConfig \<Rightarrow> string + AppConfig) \<Rightarrow> string option \<Rightarrow> load_error + AppConfig" where
  "config_Load there read unmarshal home =
     (if \<not> there then Inr (expandPaths home no_config)
      else
        case read of
          Inl e \<Rightarrow> Inl (ConfigUnreadable e)
        | Inr data \<Rightarrow>
            (case unmarshal data no_config of
               Inl e \<Rightarrow> Inl (ConfigUnparsable e)
             | Inr c \<Rightarrow> Inr (expandPaths home c)))"

section \<open>What the services ask\<close>

definition ChatTimeoutSeconds :: "AppConfig option \<Rightarrow> int" where
  "ChatTimeoutSeconds c = (case c of None \<Rightarrow> 0 | Some cfg \<Rightarrow> go_int32 (ch_TimeoutSeconds (c_Chat cfg)))"

definition ContextTokenBudget :: "AppConfig option \<Rightarrow> int" where
  "ContextTokenBudget c = (case c of None \<Rightarrow> 0 | Some cfg \<Rightarrow> xc_TokenBudget (c_Context cfg))"

definition EffectiveContextTokenBudget :: "int \<Rightarrow> AppConfig option \<Rightarrow> int" where
  "EffectiveContextTokenBudget runnerMax c =
     (case c of None \<Rightarrow> DefaultTokenBudget | Some cfg \<Rightarrow> EffectiveBudget (xc_TokenBudget (c_Context cfg)) runnerMax)"

definition ContextScanSecrets :: "AppConfig option \<Rightarrow> bool" where
  "ContextScanSecrets c = (case c of None \<Rightarrow> False | Some cfg \<Rightarrow> (case xc_ScanSecrets (c_Context cfg) of None \<Rightarrow> False | Some b \<Rightarrow> b))"

definition SSEBufferTTL :: "AppConfig option \<Rightarrow> duration" where
  "SSEBufferTTL c = (case c of None \<Rightarrow> 0 | Some cfg \<Rightarrow> c_BufferTTLSeconds cfg * go_second)"

definition CircuitBreakerCooldown :: "AppConfig option \<Rightarrow> duration" where
  "CircuitBreakerCooldown c = (case c of None \<Rightarrow> 0 | Some cfg \<Rightarrow> lc_CircuitBreakerCooldownSecs (c_Reliability cfg) * go_second)"

definition QueueWaitTimeout :: "AppConfig option \<Rightarrow> duration" where
  "QueueWaitTimeout c = (case c of None \<Rightarrow> 0 | Some cfg \<Rightarrow> lc_QueueWaitSeconds (c_Reliability cfg) * go_second)"

text \<open>\<open>net.JoinHostPort\<close>: an address with a colon is put in brackets.\<close>

definition ListenAddr :: "AppConfig \<Rightarrow> string" where
  "ListenAddr c =
     (if c_listenOverride c \<noteq> [] then c_listenOverride c
      else
        let host = TrimSpace (c_Host c); port = itoa (c_Port c)
        in if CHR '':'' \<in> set host then ''['' @ host @ '']:'' @ port else host @ '':'' @ port)"

text \<open>The fields of \<open>RunnerCoreHints\<close> that the configuration does not name keep Go's zero values.\<close>

definition runner_hints :: "RunnerHintsConfig \<Rightarrow> RunnerCoreHints option" where
  "runner_hints h =
     (if 0 < rh_MaxContextTokens h \<or> 0 < rh_LLMHistoryMaxMessages h \<or> 0 < rh_MaxToolInvocationRounds h
      then Some \<lparr>MaxContextTokens = rh_MaxContextTokens h, LLMHistoryMaxMessages = rh_LLMHistoryMaxMessages h,
                 LLMHistorySummarizeDropped = False, SummaryMaxInputRunes = 0, SummaryModel = [],
                 SummaryRunnerListenAddress = [], SummaryCacheEntries = 0,
                 MaxToolInvocationRounds = rh_MaxToolInvocationRounds h\<rparr>
      else None)"

definition runner_enabled :: "RunnerConfig \<Rightarrow> bool" where
  "runner_enabled r = (case rc_Enabled r of None \<Rightarrow> True | Some e \<Rightarrow> e)"

definition RunnerStates :: "AppConfig option \<Rightarrow> RunnerState list" where
  "RunnerStates c =
     (case c of
        None \<Rightarrow> []
      | Some cfg \<Rightarrow>
          concat (map (\<lambda>r. let addr = TrimSpace (rc_Addr r) in
            if addr = [] then []
            else
              let name = TrimSpace (rc_Name r)
              in [\<lparr>rs_ID = 0, rs_Address = addr, rs_Host = [], rs_Port = 0, rs_Name = (if name = [] then addr else name),
                   rs_Enabled = runner_enabled r, rs_SelectedModel = TrimSpace (rc_SelectedModel r),
                   rs_Hints = runner_hints (rc_Hints r)\<rparr>]) (c_Runners cfg)))"

record LLMClientOptions =
  lo_RunnerStates :: "RunnerState list"
  lo_Reliability :: ReliabilityOptions
  lo_SSEBufferTTL :: duration

definition LLMClientOptions_of :: "AppConfig \<Rightarrow> LLMClientOptions" where
  "LLMClientOptions_of cfg =
     \<lparr>lo_RunnerStates = RunnerStates (Some cfg),
      lo_Reliability = \<lparr>ro_RunnerRetries = lc_RunnerRetries (c_Reliability cfg),
        ro_CircuitBreakerFailures = lc_CircuitBreakerFailures (c_Reliability cfg),
        ro_CircuitBreakerCooldown = CircuitBreakerCooldown (Some cfg),
        ro_MaxConcurrentRequests = lc_MaxConcurrentRequests (c_Reliability cfg),
        ro_QueueWaitTimeout = QueueWaitTimeout (Some cfg)\<rparr>,
      lo_SSEBufferTTL = SSEBufferTTL (Some cfg)\<rparr>"

definition NewClientService :: "AppConfig option \<Rightarrow> (llm_error + Service) option" where
  "NewClientService c =
     (case c of
        None \<Rightarrow> None
      | Some cfg \<Rightarrow>
          let opts = LLMClientOptions_of cfg
          in Some (llm_New (lo_RunnerStates opts) (lo_Reliability opts) (lo_SSEBufferTTL opts)))"

text \<open>The servers are copied field by field, in \<open>MCPServerConfigs\<close> and in \<open>NewMCPRegistry\<close>.\<close>

definition MCPServerConfigs :: "AppConfig option \<Rightarrow> ServerConfig list" where
  "MCPServerConfigs c = (case c of None \<Rightarrow> [] | Some cfg \<Rightarrow> c_MCPServers cfg)"

definition NewMCPRegistry :: "ServerConfig list \<Rightarrow> McpRegistry" where
  "NewMCPRegistry servers = mcp_New servers"

definition AuthEnabled :: "AppConfig option \<Rightarrow> bool" where
  "AuthEnabled c = (case c of None \<Rightarrow> False | Some cfg \<Rightarrow> TrimSpace (c_APIKey cfg) \<noteq> [])"

definition RateLimitEnabled :: "AppConfig option \<Rightarrow> bool" where
  "RateLimitEnabled c = (case c of None \<Rightarrow> False | Some cfg \<Rightarrow> 0 < c_RequestsPerMinute cfg)"

definition MaxIndexChunks :: "AppConfig option \<Rightarrow> int" where
  "MaxIndexChunks c = (case c of None \<Rightarrow> 0 | Some cfg \<Rightarrow> ic_MaxChunksPerWorkspace (c_Index cfg))"

definition IdempotencyTTL :: "AppConfig option \<Rightarrow> duration" where
  "IdempotencyTTL c = (case c of None \<Rightarrow> 0 | Some cfg \<Rightarrow> c_IdempotencyTTLSeconds cfg * go_second)"

definition ModerationEnabled :: "AppConfig option \<Rightarrow> bool" where
  "ModerationEnabled c = (case c of None \<Rightarrow> False | Some cfg \<Rightarrow> (case c_ModerationEnabled cfg of None \<Rightarrow> False | Some b \<Rightarrow> b))"

definition PromptCacheEntries :: "AppConfig option \<Rightarrow> int" where
  "PromptCacheEntries c = (case c of None \<Rightarrow> 0 | Some cfg \<Rightarrow> c_PromptPrefixEntries cfg)"

definition SearchWorkers :: "AppConfig option \<Rightarrow> int" where
  "SearchWorkers c = (case c of None \<Rightarrow> 0 | Some cfg \<Rightarrow> ic_SearchWorkers (c_Index cfg))"

fun first_history_limit :: "RunnerConfig list \<Rightarrow> int \<Rightarrow> int" where
  "first_history_limit [] d = d"
| "first_history_limit (r # rs) d =
     (if runner_enabled r \<and> 0 < rh_LLMHistoryMaxMessages (rc_Hints r) then rh_LLMHistoryMaxMessages (rc_Hints r)
      else first_history_limit rs d)"

definition HistoryMaxMessages :: "AppConfig option \<Rightarrow> int" where
  "HistoryMaxMessages c =
     (case c of None \<Rightarrow> 0 | Some cfg \<Rightarrow> first_history_limit (c_Runners cfg) (ch_HistoryMaxMessages (c_Chat cfg)))"

definition PersistentQueueEnabled :: "AppConfig option \<Rightarrow> bool" where
  "PersistentQueueEnabled c = (case c of None \<Rightarrow> False | Some cfg \<Rightarrow> TrimSpace (lc_PersistentQueuePath (c_Reliability cfg)) \<noteq> [])"

definition QdrantEnabled :: "AppConfig option \<Rightarrow> bool" where
  "QdrantEnabled c = (case c of None \<Rightarrow> False | Some cfg \<Rightarrow> TrimSpace (qc_URL (ic_Qdrant (c_Index cfg))) \<noteq> [])"

definition SandboxEnabled :: "AppConfig option \<Rightarrow> bool" where
  "SandboxEnabled c =
     (case c of
        None \<Rightarrow> False
      | Some cfg \<Rightarrow>
          (case sb_Enabled (ac_Sandbox (c_Agent cfg)) of None \<Rightarrow> True | Some b \<Rightarrow> b)
          \<and> TrimSpace (sb_WorkspaceRoot (ac_Sandbox (c_Agent cfg))) \<noteq> [])"

definition StructuredLogging :: "AppConfig option \<Rightarrow> bool" where
  "StructuredLogging c = (case c of None \<Rightarrow> False | Some cfg \<Rightarrow> (case c_Structured cfg of None \<Rightarrow> False | Some b \<Rightarrow> b))"

section \<open>Lemmas\<close>

lemma sandbox_enabled_iff:
  "SandboxEnabled (Some cfg) \<longleftrightarrow> NewCommandSandbox (ac_Sandbox (c_Agent cfg)) allowed \<noteq> None"
  by (auto simp: SandboxEnabled_def NewCommandSandbox_def split: option.splits)

lemma first_history_limit_pos: "0 \<le> d \<Longrightarrow> 0 \<le> first_history_limit rs d"
  by (induction rs) auto

lemma llm_New_config:
  "(\<exists>s. NewClientService (Some cfg) = Some (Inr s)) \<longleftrightarrow> (\<exists>r\<in>set (c_Runners cfg). TrimSpace (rc_Addr r) \<noteq> [])"
proof -
  have "RunnerStates (Some cfg) = [] \<longleftrightarrow> (\<forall>r\<in>set (c_Runners cfg). TrimSpace (rc_Addr r) = [])"
    by (auto simp: RunnerStates_def Let_def)
  then show ?thesis by (simp add: NewClientService_def LLMClientOptions_of_def llm_New_def Let_def)
qed

end
