(* ===== verification/ChatSessions.thy ===== *)
theory ChatSessions
  imports AppConfig ContextBuilder
begin

text \<open>
  The requests of the chat, \<open>internal/domain\<close>, and the conversations the server keeps for them,
  \<open>service/chat_session_store.go\<close>: a client that names a session may send only its new message and is
  answered with the whole conversation before the model. A nil store is \<open>None\<close>; the lock makes each
  operation one step, and the uuid of a new session is an argument.
\<close>

section \<open>Requests\<close>

record ChatMessage =
  dm_Role :: string
  dm_Content :: string

record ChatSearch =
  se_WorkspaceID :: string
  se_Query :: string
  se_Limit :: int
  se_Mode :: string

record ChatSession =
  sn_SessionID :: string
  sn_StopSequences :: "string list"
  sn_Temperature :: "float64 option"
  sn_MCPEnabled :: "bool option"
  sn_MCPServerIDs :: "int list"
  sn_TimeoutSeconds :: "int option"

record GenerateParams =
  gn_MaxTokens :: "int option"
  gn_Temperature :: "float64 option"

record ChatRequest =
  rq_RequestID :: "string option"
  rq_Stream :: "bool option"
  rq_System :: "string option"
  rq_Messages :: "ChatMessage list"
  rq_Editor :: "EditorContext option"
  rq_Context :: "ChatContext option"
  rq_Search :: "ChatSearch option"
  rq_Session :: "ChatSession option"
  rq_Generate :: "GenerateParams option"

record TokenUsage =
  tu_PromptTokens :: int
  tu_CompletionTokens :: int
  tu_TotalTokens :: int

record HttpChatResponse =
  hr_SessionID :: string
  hr_Message :: ChatMessage
  hr_Reasoning :: string
  hr_Finish :: string
  hr_Usage :: "TokenUsage option"

section \<open>The store\<close>

record ChatSessionRecord =
  cr_Messages :: "ChatMessage list"
  cr_UpdatedAt :: time

record ChatSessionStore =
  ct_sessions :: "string \<rightharpoonup> ChatSessionRecord"
  ct_maxMessages :: int

definition NewChatSessionStore :: "int \<Rightarrow> ChatSessionStore" where
  "NewChatSessionStore maxMessages =
     \<lparr>ct_sessions = Map.empty, ct_maxMessages = (if maxMessages \<le> 0 then 200 else maxMessages)\<rparr>"

definition ResolveSessionID :: "string \<Rightarrow> ChatRequest option \<Rightarrow> string" where
  "ResolveSessionID uuid req =
     (case req of
        None \<Rightarrow> []
      | Some r \<Rightarrow>
          let given = (case rq_Session r of None \<Rightarrow> [] | Some s \<Rightarrow> TrimSpace (sn_SessionID s))
          in if given \<noteq> [] then given else ''chat-'' @ uuid)"

definition trimChatSessionMessages :: "'a list \<Rightarrow> int \<Rightarrow> 'a list" where
  "trimChatSessionMessages ms mx =
     (if mx \<le> 0 \<or> int (length ms) \<le> mx then ms else drop (length ms - nat mx) ms)"

definition session_Merge :: "string \<Rightarrow> ChatMessage list \<Rightarrow> ChatSessionStore option \<Rightarrow> ChatMessage list" where
  "session_Merge sid incoming store =
     (case store of
        None \<Rightarrow> incoming
      | Some st \<Rightarrow>
          if sid = [] then incoming
          else
            case ct_sessions st sid of
              None \<Rightarrow> incoming
            | Some rec \<Rightarrow>
                let stored = cr_Messages rec in
                if stored = [] \<or> length stored \<le> length incoming then incoming
                else if incoming = [] then stored
                else
                  let l = last incoming in
                  if dm_Role l \<noteq> ''user'' then stored
                  else if dm_Role (last stored) = ''user'' \<and> dm_Content (last stored) = dm_Content l then stored
                  else trimChatSessionMessages (stored @ [l]) (ct_maxMessages st))"

definition session_Record :: "time \<Rightarrow> string \<Rightarrow> ChatMessage list \<Rightarrow> ChatSessionStore option \<Rightarrow> ChatSessionStore option" where
  "session_Record now sid ms store =
     (case store of
        None \<Rightarrow> None
      | Some st \<Rightarrow>
          if sid = [] \<or> ms = [] then store
          else Some (st\<lparr>ct_sessions := (ct_sessions st)
            (sid \<mapsto> \<lparr>cr_Messages = trimChatSessionMessages ms (ct_maxMessages st), cr_UpdatedAt = now\<rparr>)\<rparr>))"

definition session_Get :: "string \<Rightarrow> ChatSessionStore option \<Rightarrow> ChatMessage list option" where
  "session_Get sid store =
     (case store of
        None \<Rightarrow> None
      | Some st \<Rightarrow>
          if sid = [] then None
          else
            case ct_sessions st sid of
              None \<Rightarrow> None
            | Some rec \<Rightarrow> if cr_Messages rec = [] then None else Some (cr_Messages rec))"

section \<open>Lemmas\<close>

definition session_store_inv :: "ChatSessionStore \<Rightarrow> bool" where
  "session_store_inv st \<longleftrightarrow> 0 < ct_maxMessages st \<and>
     (\<forall>sid rec. ct_sessions st sid = Some rec \<longrightarrow>
        sid \<noteq> [] \<and> cr_Messages rec \<noteq> [] \<and> int (length (cr_Messages rec)) \<le> ct_maxMessages st)"

lemma trimChatSessionMessages_props:
  assumes "0 < mx"
  shows "int (length (trimChatSessionMessages ms mx)) \<le> mx"
    and "ms \<noteq> [] \<Longrightarrow> trimChatSessionMessages ms mx \<noteq> [] \<and> last (trimChatSessionMessages ms mx) = last ms"
    and "\<exists>n. trimChatSessionMessages ms mx = drop n ms"
proof -
  show "int (length (trimChatSessionMessages ms mx)) \<le> mx"
    using assms by (simp add: trimChatSessionMessages_def)
  show "\<exists>n. trimChatSessionMessages ms mx = drop n ms"
    unfolding trimChatSessionMessages_def by (metis drop0)
  show "ms \<noteq> [] \<Longrightarrow> trimChatSessionMessages ms mx \<noteq> [] \<and> last (trimChatSessionMessages ms mx) = last ms"
    using assms by (auto simp: trimChatSessionMessages_def intro!: last_drop)
qed

lemma session_store_inv_New [inv_intros]: "session_store_inv (NewChatSessionStore m)"
  by (simp add: session_store_inv_def NewChatSessionStore_def)

lemma session_store_inv_Record [inv_intros]:
  assumes "session_store_inv st"
  shows "\<exists>st'. session_Record now sid ms (Some st) = Some st' \<and> session_store_inv st' \<and> ct_maxMessages st' = ct_maxMessages st"
  using assms trimChatSessionMessages_props(1,2) [of "ct_maxMessages st" ms]
  by (auto simp: session_Record_def session_store_inv_def)

lemma session_Get_Record:
  assumes "sid \<noteq> []" and "ms \<noteq> []" and "0 < ct_maxMessages st"
  shows "session_Get k (session_Record now sid ms (Some st))
    = (if k = sid then Some (trimChatSessionMessages ms (ct_maxMessages st)) else session_Get k (Some st))"
  using assms trimChatSessionMessages_props(2) [OF assms(3,2)] by (auto simp: session_Get_def session_Record_def)

lemma session_Get_Some:
  "session_store_inv st \<Longrightarrow> session_Get sid (Some st) = Some ms \<longleftrightarrow> (\<exists>rec. ct_sessions st sid = Some rec \<and> cr_Messages rec = ms)"
  by (auto simp: session_Get_def session_store_inv_def split: option.split)

text \<open>The one branch of \<open>Merge\<close> that adds to what is stored, and what every branch does with a question.\<close>

lemma session_Merge_question:
  assumes "session_store_inv st" and "sid \<noteq> []" and "incoming \<noteq> []" and "dm_Role (last incoming) = ''user''"
  shows "session_Merge sid incoming (Some st) \<noteq> [] \<and>
    dm_Role (last (session_Merge sid incoming (Some st))) = ''user'' \<and>
    dm_Content (last (session_Merge sid incoming (Some st))) = dm_Content (last incoming)"
  using assms trimChatSessionMessages_props(2) [of "ct_maxMessages st"]
  by (auto simp: session_Merge_def session_store_inv_def Let_def split: option.split)

lemma session_Merge_continues:
  assumes "session_store_inv st" and "session_Get sid (Some st) = Some stored" and "length incoming < length stored"
    and "incoming \<noteq> []" and "dm_Role (last incoming) = ''user''" and "dm_Role (last stored) \<noteq> ''user''"
  shows "session_Merge sid incoming (Some st) = trimChatSessionMessages (stored @ [last incoming]) (ct_maxMessages st)"
  using assms by (auto simp: session_Merge_def session_Get_def Let_def split: option.splits if_splits)

end
