(* ===== verification/ChatService.thy ===== *)
theory ChatService
  imports ChatSessions BoundedCaches JobStore
begin

text \<open>
  What turns a request into a call of the runner client: \<open>internal/mapper\<close>, the context from a search
  and the chat of the jobs of \<open>service/chat_service.go\<close>, and the completions and edits of
  \<open>service/editor_ai.go\<close>. The search of the index is an argument, since it is not modelled: it may use
  the client. \<open>sha256\<close> of the JSON of a context, the key of the prompt cache, is an argument too.
\<close>

section \<open>Messages for the runner\<close>

type_synonym prefix_key = "string \<Rightarrow> EditorContext option \<Rightarrow> ChatContext option \<Rightarrow> int \<Rightarrow> bool \<Rightarrow> string"

definition runner_message :: "time \<Rightarrow> string \<Rightarrow> string \<Rightarrow> Message" where
  "runner_message now role content =
     \<lparr>msg_Id = 0, msg_SessionId = 0, msg_Content = content, msg_Role = role, msg_AttachmentName = [],
      msg_AttachmentMime = [], msg_AttachmentFileID = None, msg_AttachmentContent = [], msg_ToolCallID = [],
      msg_ToolName = [], msg_ToolCallsJSON = [], msg_CreatedAt = now, msg_UpdatedAt = 0, msg_DeletedAt = None\<rparr>"

text \<open>The context prompt, from the cache if there is one and it has the key.\<close>

definition context_prompt ::
  "prefix_key \<Rightarrow> string \<Rightarrow> EditorContext option \<Rightarrow> ChatContext option \<Rightarrow> int \<Rightarrow> bool \<Rightarrow> PrefixCache option \<Rightarrow> string \<times> PrefixCache option" where
  "context_prompt key system editor ctx tokenBudget scan cache =
     (let build = builder_Build system editor ctx (builder_New tokenBudget scan) in
      if cache = None then (build, cache)
      else
        let k = key system editor ctx tokenBudget scan in
        case prefix_Get k cache of
          Some cached \<Rightarrow> (cached, cache)
        | None \<Rightarrow> (build, if build \<noteq> [] then prefix_Put k build cache else cache))"

definition RunnerMessages ::
  "prefix_key \<Rightarrow> time \<Rightarrow> string \<Rightarrow> ChatMessage list \<Rightarrow> EditorContext option \<Rightarrow> ChatContext option \<Rightarrow> int \<Rightarrow> bool
     \<Rightarrow> PrefixCache option \<Rightarrow> messages \<times> PrefixCache option" where
  "RunnerMessages key now system input editor ctx tokenBudget scan cache =
     (let systemPrompt = TrimSpace system; (ctxPrompt, cache1) = context_prompt key system editor ctx tokenBudget scan cache in
      ((if systemPrompt \<noteq> [] then [Some (runner_message now MessageRoleSystem systemPrompt)] else [])
       @ (if ctxPrompt \<noteq> [] then [Some (runner_message now MessageRoleSystem ctxPrompt)] else [])
       @ map (\<lambda>m. Some (runner_message now (FromProtoRole (dm_Role m)) (dm_Content m))) input,
       cache1))"

definition mapGenerateParams :: "GenerateParams option \<Rightarrow> GenerateConfig \<Rightarrow> GenerationParams" where
  "mapGenerateParams inp defaults =
     (let maxTokens = (case inp of None \<Rightarrow> gc_MaxTokens defaults
                         | Some g \<Rightarrow> (case gn_MaxTokens g of None \<Rightarrow> gc_MaxTokens defaults | Some n \<Rightarrow> n));
          temp = (case inp of None \<Rightarrow> go_float32 (gc_Temperature defaults)
                    | Some g \<Rightarrow> (case gn_Temperature g of None \<Rightarrow> go_float32 (gc_Temperature defaults) | Some t \<Rightarrow> go_float32 t))
      in empty_params\<lparr>gp_MaxTokens := (if 0 < maxTokens then Some (go_int32 maxTokens) else None),
                      gp_Temperature := (if float32_pos temp then Some temp else None)\<rparr>)"

definition mapTokenUsage :: "StreamTokenUsage option \<Rightarrow> TokenUsage option" where
  "mapTokenUsage u =
     map_option (\<lambda>v. \<lparr>tu_PromptTokens = su_PromptTokens v, tu_CompletionTokens = su_CompletionTokens v, tu_TotalTokens = su_TotalTokens v\<rparr>) u"

section \<open>Context from a search\<close>

record SearchRequest =
  sr_WorkspaceID :: string
  sr_Query :: string
  sr_Limit :: int
  sr_Mode :: string

record SearchHit =
  sh_Path :: string
  sh_Language :: string
  sh_Symbol :: string
  sh_Snippet :: string

type_synonym repo_index = "SearchRequest \<Rightarrow> Service \<Rightarrow> (string + SearchHit list) \<times> Service"

definition search_request :: "ChatRequest \<Rightarrow> SearchRequest option" where
  "search_request req =
     (case rq_Search req of
        None \<Rightarrow> None
      | Some s \<Rightarrow>
          let ws = TrimSpace (se_WorkspaceID s); q0 = TrimSpace (se_Query s);
              query = (if q0 = [] \<and> rq_Messages req \<noteq> [] then TrimSpace (dm_Content (last (rq_Messages req))) else q0);
              mode = TrimSpace (se_Mode s)
          in if ws = [] \<or> query = [] then None
             else Some \<lparr>sr_WorkspaceID = ws, sr_Query = query, sr_Limit = (if se_Limit s \<le> 0 then 8 else se_Limit s),
                        sr_Mode = (if mode = [] then ''hybrid'' else mode)\<rparr>)"

definition hit_snippet :: "SearchHit \<Rightarrow> ContextSnippet" where
  "hit_snippet h =
     \<lparr>sn_Path = sh_Path h, sn_Language = sh_Language h,
      sn_Content = (if sh_Symbol h \<noteq> [] then ''// '' @ sh_Symbol h @ nl @ sh_Snippet h else sh_Snippet h),
      sn_Source = ''codebase''\<rparr>"

definition EnrichContextFromSearch :: "repo_index option \<Rightarrow> ChatRequest \<Rightarrow> Service \<Rightarrow> ChatRequest \<times> Service" where
  "EnrichContextFromSearch index req s =
     (case (search_request req, index) of
        (Some sr, Some search) \<Rightarrow>
          (case search sr s of
             (Inl e, s1) \<Rightarrow> (req, s1)
           | (Inr hits, s1) \<Rightarrow>
               if hits = [] then (req, s1)
               else
                 let ctx = (case rq_Context req of
                              Some c \<Rightarrow> c
                            | None \<Rightarrow> \<lparr>cc_Workspace = None, cc_Selection = None, cc_Snippets = [], cc_Tree = []\<rparr>)
                 in (req\<lparr>rq_Context := Some (ctx\<lparr>cc_Snippets := cc_Snippets ctx @ map hit_snippet hits\<rparr>)\<rparr>, s1))
      | _ \<Rightarrow> (req, s))"

section \<open>The chat of the jobs\<close>

definition trimMessages :: "'a list \<Rightarrow> int \<Rightarrow> 'a list" where
  "trimMessages ms mx = (if mx \<le> 0 \<or> int (length ms) \<le> mx then ms else drop (length ms - nat mx) ms)"

definition stopSequences :: "ChatRequest \<Rightarrow> string list" where
  "stopSequences req = (case rq_Session req of None \<Rightarrow> [] | Some s \<Rightarrow> sn_StopSequences s)"

definition chatTimeout :: "ChatRequest \<Rightarrow> AppConfig \<Rightarrow> int" where
  "chatTimeout req cfg =
     (case rq_Session req of
        Some s \<Rightarrow>
          (case sn_TimeoutSeconds s of
             Some t \<Rightarrow> if 0 < t then go_int32 t else ChatTimeoutSeconds (Some cfg)
           | None \<Rightarrow> ChatTimeoutSeconds (Some cfg))
      | None \<Rightarrow> ChatTimeoutSeconds (Some cfg))"

definition mergeGenerateParams :: "ChatRequest \<Rightarrow> AppConfig \<Rightarrow> GenerationParams" where
  "mergeGenerateParams req cfg =
     (let gen = mapGenerateParams (rq_Generate req) (ch_Generate (c_Chat cfg)) in
      case rq_Session req of
        None \<Rightarrow> gen
      | Some s \<Rightarrow> (case sn_Temperature s of None \<Rightarrow> gen | Some t \<Rightarrow> gen\<lparr>gp_Temperature := Some (go_float32 t)\<rparr>))"

text \<open>A call of the client: what is sent and with what parameters.\<close>

record runner_call =
  rcl_messages :: messages
  rcl_stop :: "string list"
  rcl_timeout :: int
  rcl_params :: GenerationParams

text \<open>\<open>answer\<close> is the stream of a runner that took the call; the environment is that of the client.\<close>

record client_world =
  cl_env :: "runner_call \<Rightarrow> send_env"
  cl_answer :: "runner_call \<Rightarrow> LLMStreamChunk list"

definition client_collect ::
  "client_world \<Rightarrow> runner_call \<Rightarrow> Service \<Rightarrow> CollectResult send_result \<times> started_stream option \<times> Service" where
  "client_collect w call s = CollectMessage (cl_env w call) (cl_answer w call) s"

definition chat_Complete ::
  "prefix_key \<Rightarrow> time \<Rightarrow> repo_index option \<Rightarrow> client_world \<Rightarrow> AppConfig \<Rightarrow> ChatRequest \<Rightarrow> Service \<Rightarrow> PrefixCache option
     \<Rightarrow> (HttpChatResponse send_result) option \<times> Service \<times> PrefixCache option" where
  "chat_Complete key now index w cfg req s cache =
     (case rq_System req of
        None \<Rightarrow> (None, s, cache)
      | Some system \<Rightarrow>
          let (req1, s1) = EnrichContextFromSearch index req s;
              ms = trimMessages (rq_Messages req1) (HistoryMaxMessages (Some cfg));
              (messages, cache1) = RunnerMessages key now system ms (rq_Editor req1) (rq_Context req1)
                (ContextTokenBudget (Some cfg)) (ContextScanSecrets (Some cfg)) cache;
              call = \<lparr>rcl_messages = messages, rcl_stop = stopSequences req1, rcl_timeout = chatTimeout req1 cfg,
                      rcl_params = mergeGenerateParams req1 cfg\<rparr>
          in case client_collect w call s1 of
               (Waiting, st, s2) \<Rightarrow> (Some Waiting, s2, cache1)
             | (Failed e, st, s2) \<Rightarrow> (Some (Failed e), s2, cache1)
             | (Streaming r, st, s2) \<Rightarrow>
                 (Some (Streaming \<lparr>hr_SessionID = [], hr_Message = \<lparr>dm_Role = ''assistant'', dm_Content = cr_Content r\<rparr>,
                     hr_Reasoning = cr_Reasoning r, hr_Finish = ''stop'', hr_Usage = mapTokenUsage (cr_Usage r)\<rparr>), s2, cache1))"

section \<open>Completions and edits\<close>

definition inlineCompleteSystemPrompt :: string where
  "inlineCompleteSystemPrompt = ''You are an inline code completion engine. Continue the code at <CURSOR>. Return ONLY the text to insert after the cursor. No markdown fences, no explanation, no repetition of existing code.''"

definition editSelectionSystemPrompt :: string where
  "editSelectionSystemPrompt = ''You are a code editing assistant. The user selected a fragment of source code and gave an instruction. Return ONLY the replacement text for the selection - no markdown fences, no explanation, no surrounding context.''"

datatype editor_error =
    PathRequired | PrefixOrSuffixRequired | SelectionRequired | InstructionRequired
  | Moderated | SecretsFound | EditorClient llm_error | EditorWaits

definition scanEditorAIInput :: "AppConfig option \<Rightarrow> string list \<Rightarrow> editor_error option" where
  "scanEditorAIInput cfg parts =
     (if ModerationEnabled cfg \<and> ScanMessages parts then Some Moderated
      else if ContextScanSecrets cfg \<and> list_ex ContainsSecrets parts then Some SecretsFound
      else None)"

definition inlineCompleteGenParams :: "GenerateParams option \<Rightarrow> AppConfig \<Rightarrow> GenerationParams" where
  "inlineCompleteGenParams inp cfg =
     (let gen = mapGenerateParams inp (ch_Generate (c_Chat cfg));
          maxTokens = (case inp of None \<Rightarrow> 96
             | Some g \<Rightarrow> (case gn_MaxTokens g of None \<Rightarrow> 96 | Some n \<Rightarrow> if 0 < n then go_int32 n else 96));
          temp = (case inp of None \<Rightarrow> 0x3DCCCCCD
             | Some g \<Rightarrow> (case gn_Temperature g of None \<Rightarrow> 0x3DCCCCCD
                 | Some t \<Rightarrow> if 0 < unat t \<and> unat t \<le> 2047 * 2 ^ 52 then go_float32 t else 0x3DCCCCCD))
      in gen\<lparr>gp_MaxTokens := Some maxTokens, gp_Temperature := Some temp\<rparr>)"

definition editSelectionGenParams :: "GenerateParams option \<Rightarrow> AppConfig \<Rightarrow> GenerationParams" where
  "editSelectionGenParams inp cfg =
     (let gen = mapGenerateParams inp (ch_Generate (c_Chat cfg));
          maxDefault = (case gp_MaxTokens gen of Some n \<Rightarrow> n | None \<Rightarrow> 1024);
          tempDefault = (case gp_Temperature gen of Some t \<Rightarrow> t | None \<Rightarrow> 0x3E4CCCCD);
          maxTokens = (case inp of None \<Rightarrow> maxDefault
             | Some g \<Rightarrow> (case gn_MaxTokens g of None \<Rightarrow> maxDefault | Some n \<Rightarrow> if 0 < n then go_int32 n else maxDefault));
          temp = (case inp of None \<Rightarrow> tempDefault
             | Some g \<Rightarrow> (case gn_Temperature g of None \<Rightarrow> tempDefault
                 | Some t \<Rightarrow> if 0 < unat t \<and> unat t \<le> 2047 * 2 ^ 52 then go_float32 t else tempDefault))
      in gen\<lparr>gp_MaxTokens := Some maxTokens, gp_Temperature := Some temp\<rparr>)"

definition inlineCompleteTimeout :: "AppConfig option \<Rightarrow> int" where
  "inlineCompleteTimeout cfg =
     (case cfg of
        None \<Rightarrow> 30
      | Some c \<Rightarrow>
          let timeout = ChatTimeoutSeconds cfg
          in if 60 < timeout then 60 else if timeout < 10 then 10 else timeout)"

definition editSelectionTimeout :: "AppConfig option \<Rightarrow> int" where
  "editSelectionTimeout cfg = (case cfg of None \<Rightarrow> 120 | Some c \<Rightarrow> ChatTimeoutSeconds cfg)"

text \<open>The lines between the first and the last of an answer in a fence.\<close>

definition unfence :: "string \<Rightarrow> string option" where
  "unfence s =
     (if HasPrefix s fence then
        let lines = split_on (CHR 0x0A) s
        in if 2 < length lines then Some (str_join (butlast (tl lines)) nl) else None
      else Some s)"

definition sanitizeInlineCompletion :: "string \<Rightarrow> string" where
  "sanitizeInlineCompletion txt =
     (case unfence (TrimSpace txt) of
        None \<Rightarrow> []
      | Some s0 \<Rightarrow>
          if HasPrefix s0 ''<SUFFIX>'' \<or> HasPrefix s0 ''<PREFIX>'' then []
          else let s = TrimSpace s0 in if 2048 < length s then take 2048 s else s)"

definition sanitizeEditReplacement :: "string \<Rightarrow> string" where
  "sanitizeEditReplacement txt =
     (case unfence (TrimSpace txt) of
        None \<Rightarrow> []
      | Some s \<Rightarrow> if HasPrefix s ''<SELECTION>'' then [] else TrimSpace s)"

record CompleteRequest =
  cp_Path :: string
  cp_Language :: string
  cp_Prefix :: string
  cp_Suffix :: string
  cp_CursorLine :: "int option"
  cp_CursorColumn :: "int option"
  cp_Generate :: "GenerateParams option"

record EditRequest =
  ep_Path :: string
  ep_Language :: string
  ep_Selection :: string
  ep_Instruction :: string
  ep_SelectionStartLine :: "int option"
  ep_SelectionStartCol :: "int option"
  ep_Generate :: "GenerateParams option"

definition editor_answer ::
  "(string \<Rightarrow> string) \<Rightarrow> CollectResult send_result \<times> started_stream option \<times> Service \<Rightarrow> (editor_error + string) \<times> Service" where
  "editor_answer sanitize r =
     (case r of
        (Waiting, st, s) \<Rightarrow> (Inl EditorWaits, s)
      | (Failed e, st, s) \<Rightarrow> (Inl (EditorClient e), s)
      | (Streaming c, st, s) \<Rightarrow> (Inr (sanitize (cr_Content c)), s))"

definition complete_user :: "string \<Rightarrow> string \<Rightarrow> CompleteRequest \<Rightarrow> string" where
  "complete_user path language req =
     ''File: '' @ path @ nl @ ''Language: '' @ language @ nl @ nl @ ''<PREFIX>'' @ nl @ cp_Prefix req @ nl @ ''<CURSOR>'' @ nl
     @ ''<SUFFIX>'' @ nl @ cp_Suffix req @ nl"

definition InlineComplete ::
  "prefix_key \<Rightarrow> time \<Rightarrow> client_world \<Rightarrow> AppConfig \<Rightarrow> CompleteRequest \<Rightarrow> Service \<Rightarrow> (editor_error + string) \<times> Service" where
  "InlineComplete key now w cfg req s =
     (let path = TrimSpace (cp_Path req) in
      if path = [] then (Inl PathRequired, s)
      else if TrimSpace (cp_Prefix req) = [] \<and> TrimSpace (cp_Suffix req) = [] then (Inl PrefixOrSuffixRequired, s)
      else
        case scanEditorAIInput (Some cfg) [cp_Prefix req, cp_Suffix req] of
          Some e \<Rightarrow> (Inl e, s)
        | None \<Rightarrow>
            let language = TrimSpace (cp_Language req);
                editor = (if cp_CursorLine req \<noteq> None \<or> cp_CursorColumn req \<noteq> None
                          then Some \<lparr>ed_Path = path, ed_Language = language, ed_Snippet = cp_Prefix req,
                                     ed_CursorLine = cp_CursorLine req, ed_CursorColumn = cp_CursorColumn req\<rparr>
                          else None);
                call = \<lparr>rcl_messages = fst (RunnerMessages key now inlineCompleteSystemPrompt
                          [\<lparr>dm_Role = ''user'', dm_Content = complete_user path language req\<rparr>] editor None
                          (ContextTokenBudget (Some cfg)) (ContextScanSecrets (Some cfg)) None),
                        rcl_stop = [], rcl_timeout = inlineCompleteTimeout (Some cfg),
                        rcl_params = inlineCompleteGenParams (cp_Generate req) cfg\<rparr>
            in editor_answer sanitizeInlineCompletion (client_collect w call s))"

definition edit_user :: "string \<Rightarrow> string \<Rightarrow> string \<Rightarrow> EditRequest \<Rightarrow> string" where
  "edit_user path language instruction req =
     ''File: '' @ path @ nl @ ''Language: '' @ language @ nl @ ''Instruction: '' @ instruction @ nl @ nl
     @ ''<SELECTION>'' @ nl @ ep_Selection req @ nl @ ''</SELECTION>'' @ nl"

definition EditSelection ::
  "prefix_key \<Rightarrow> time \<Rightarrow> client_world \<Rightarrow> AppConfig \<Rightarrow> EditRequest \<Rightarrow> Service \<Rightarrow> (editor_error + string) \<times> Service" where
  "EditSelection key now w cfg req s =
     (let path = TrimSpace (ep_Path req); selection = TrimSpace (ep_Selection req); instruction = TrimSpace (ep_Instruction req) in
      if path = [] then (Inl PathRequired, s)
      else if selection = [] then (Inl SelectionRequired, s)
      else if instruction = [] then (Inl InstructionRequired, s)
      else
        case scanEditorAIInput (Some cfg) [selection, instruction] of
          Some e \<Rightarrow> (Inl e, s)
        | None \<Rightarrow>
            let language = TrimSpace (ep_Language req);
                editor = \<lparr>ed_Path = path, ed_Language = language, ed_Snippet = ep_Selection req,
                          ed_CursorLine = ep_SelectionStartLine req, ed_CursorColumn = ep_SelectionStartCol req\<rparr>;
                call = \<lparr>rcl_messages = fst (RunnerMessages key now editSelectionSystemPrompt
                          [\<lparr>dm_Role = ''user'', dm_Content = edit_user path language instruction req\<rparr>] (Some editor) None
                          (ContextTokenBudget (Some cfg)) (ContextScanSecrets (Some cfg)) None),
                        rcl_stop = [], rcl_timeout = editSelectionTimeout (Some cfg),
                        rcl_params = editSelectionGenParams (ep_Generate req) cfg\<rparr>
            in editor_answer sanitizeEditReplacement (client_collect w call s))"

section \<open>The cache of prompts is not seen\<close>

context bounded_cache begin

text \<open>What holds of everything that is put in holds of everything that is read.\<close>

lemma sound_put:
  assumes "invar c" and "\<And>k v. get c k = Some v \<Longrightarrow> P k v" and "good k v \<Longrightarrow> P k v" and "get (put k v c) k' = Some v'"
  shows "P k' v'"
proof (cases "good k v")
  case True
  then show ?thesis
    using assms get_put_same [OF assms(1) True] get_put_other [OF assms(1), of k' k v]
    by (cases "k' = k") simp_all
next
  case False
  then show ?thesis using assms put_bad by simp
qed

end

type_synonym prompt_args = "string \<times> EditorContext option \<times> ChatContext option \<times> int \<times> bool"

fun key_of :: "prefix_key \<Rightarrow> prompt_args \<Rightarrow> string" where
  "key_of key (s, e, x, b, c) = key s e x b c"

fun prompt_of :: "prompt_args \<Rightarrow> string" where
  "prompt_of (s, e, x, b, c) = builder_Build s e x (builder_New b c)"

definition prompts_sound :: "prefix_key \<Rightarrow> prompt_args set \<Rightarrow> PrefixCache \<Rightarrow> bool" where
  "prompts_sound key A c \<longleftrightarrow> prefix_inv c \<and> (\<forall>k v. prefix_get c k = Some v \<longrightarrow> (\<exists>a\<in>A. key_of key a = k \<and> prompt_of a = v))"

lemma prefix_Put_put: "prefix_Put k v (Some c) = Some (prefix_put k v c)"
  by (simp add: prefix_put_def prefix_Put_def Let_def case_prod_beta)

lemma context_prompt_sound:
  assumes "prompts_sound key A c" and "inj_on (key_of key) (insert (s, e, x, b, sc) A)"
  shows "\<exists>c'. context_prompt key s e x b sc (Some c) = (prompt_of (s, e, x, b, sc), Some c')
    \<and> prompts_sound key (insert (s, e, x, b, sc) A) c'"
proof (cases "prefix_Get (key s e x b sc) (Some c)")
  case (Some v)
  then have "\<exists>a\<in>A. key_of key a = key s e x b sc \<and> prompt_of a = v"
    using assms(1) by (simp add: prompts_sound_def prefix_get_def del: key_of.simps prompt_of.simps)
  then obtain a where a: "a \<in> A" "key_of key a = key_of key (s, e, x, b, sc)" "prompt_of a = v" by auto
  then have "a = (s, e, x, b, sc)" using assms(2) by (meson inj_onD insert_iff)
  with a Some show ?thesis using assms(1) by (auto simp: context_prompt_def prompts_sound_def)
next
  case None
  let ?a = "(s, e, x, b, sc)"
  have inv: "prefix_inv c" using assms(1) by (simp add: prompts_sound_def)
  have "prompts_sound key (insert ?a A) (prefix_put (key_of key ?a) (prompt_of ?a) c)"
    unfolding prompts_sound_def
  proof (intro conjI allI impI)
    show "prefix_inv (prefix_put (key_of key ?a) (prompt_of ?a) c)" using inv by (rule prefix_put_inv)
    fix k v
    assume "prefix_get (prefix_put (key_of key ?a) (prompt_of ?a) c) k = Some v"
    from prefix_cache.sound_put [OF inv _ _ this, of "\<lambda>k v. \<exists>a\<in>insert ?a A. key_of key a = k \<and> prompt_of a = v"]
    show "\<exists>a\<in>insert ?a A. key_of key a = k \<and> prompt_of a = v"
      using assms(1) by (auto simp: prompts_sound_def)
  qed
  moreover have "prompts_sound key (insert ?a A) c" using assms(1) by (auto simp: prompts_sound_def)
  ultimately show ?thesis using None by (auto simp: context_prompt_def prefix_Put_put Let_def)
qed

fun prompt_run :: "prefix_key \<Rightarrow> prompt_args list \<Rightarrow> PrefixCache option \<Rightarrow> PrefixCache option" where
  "prompt_run key [] c = c"
| "prompt_run key ((s, e, x, b, sc) # as) c = prompt_run key as (snd (RunnerMessages key 0 s [] e x b sc c))"

lemma prompt_run_sound:
  "prompts_sound key A c \<Longrightarrow> inj_on (key_of key) (A \<union> set as) \<Longrightarrow>
     \<exists>c'. prompt_run key as (Some c) = Some c' \<and> prompts_sound key (A \<union> set as) c'"
proof (induction as arbitrary: A c)
  case (Cons a as)
  obtain s e x b sc where a: "a = (s, e, x, b, sc)" by (cases a)
  have "inj_on (key_of key) (insert a A)" by (rule inj_on_subset [OF Cons.prems(2)]) auto
  then obtain c1 where "snd (context_prompt key s e x b sc (Some c)) = Some c1" "prompts_sound key (insert a A) c1"
    using context_prompt_sound [OF Cons.prems(1)] unfolding a by fastforce
  then show ?case using Cons.IH [of "insert a A" c1] Cons.prems(2)
    by (simp add: a RunnerMessages_def Let_def case_prod_unfold)
qed auto



section \<open>Answers in a fence\<close>

text \<open>
  Of an answer that is a fence, code and a last line, exactly the code is kept, trimmed, and its text is
  not altered; the last line is dropped whatever it is, so an answer whose fence is not closed loses the
  last line of its code.
\<close>

theorem fenced_answer_code:
  assumes "CHR 0x0A \<notin> set lang" and "CHR 0x0A \<notin> set lst"
    and "TrimSpace (fence @ lang @ nl @ code @ nl @ lst) = fence @ lang @ nl @ code @ nl @ lst"
  shows "sanitizeEditReplacement (fence @ lang @ nl @ code @ nl @ lst) = (if HasPrefix code ''<SELECTION>'' then [] else TrimSpace code)"
proof -
  have "CHR 0x0A \<notin> set (fence @ lang)" using assms(1) by (simp add: fence_def)
  then have "split_on (CHR 0x0A) ((fence @ lang) @ CHR 0x0A # code @ CHR 0x0A # lst) = (fence @ lang) # split_on (CHR 0x0A) code @ [lst]"
    by (simp only: split_on_two split_on_word [OF assms(2)] split_on_word [OF \<open>CHR 0x0A \<notin> set (fence @ lang)\<close>] append_Cons append_Nil)
  then have lines: "split_on (CHR 0x0A) (fence @ lang @ nl @ code @ nl @ lst) = (fence @ lang) # split_on (CHR 0x0A) code @ [lst]"
    by simp
  have "unfence (fence @ lang @ nl @ code @ nl @ lst) = Some code"
    unfolding unfence_def lines Let_def by (simp add: join_split_on)
  then show ?thesis unfolding sanitizeEditReplacement_def assms(3) by simp
qed

theorem fenced_answer_code_witness:
  "sanitizeEditReplacement (fence @ ''go'' @ nl @ ''x := 1'' @ nl @ ''y := 2'') = ''x := 1''"
proof -
  have "TrimSpace (fence @ ''go'' @ nl @ ''x := 1'' @ nl @ ''y := 2'') = fence @ ''go'' @ nl @ ''x := 1'' @ nl @ ''y := 2''"
    "TrimSpace ''x := 1'' = ''x := 1''"
    by (simp_all add: fence_def TrimSpace_eval numeral_eq_Suc)
  then show ?thesis
    using fenced_answer_code [of "''go''" "''y := 2''" "''x := 1''"] by (simp add: HasPrefix_def)
qed

end
