(* ===== verification/ChatHandler.thy ===== *)
theory ChatHandler
  imports ChatService ChatMcpLoop IdempotencyStore TokenQuota
begin

text \<open>
  The chat of the HTTP interface, \<open>internal/delivery\<close>: \<open>handleChat\<close> with everything it calls -
  validation, moderation, the replay of finished requests, readiness, the quota, the conversation of the
  session, the context from a search, trimming, the prompt, the call of the runner or of the tool loop,
  and what it records afterwards - the writer of the event stream, and the middleware before it. The
  world of a request is its environment: readings of the clock, the runners, the search, the body of the
  request as \<open>encoding/json\<close> decoded it, and what the client sees of the stream. The goroutines that
  forward a stream end by the steps of \<open>LlmClient\<close>.
\<close>

section \<open>The handler\<close>

record Metrics =
  mt_ChatRequests :: int
  mt_ChatErrors :: int
  mt_AgentSteps :: int
  mt_AgentErrors :: int
  mt_TokensPrompt :: int
  mt_TokensCompletion :: int
  mt_LatencyTotalMs :: int
  mt_RequestCount :: int

definition NewMetrics :: Metrics where
  "NewMetrics = \<lparr>mt_ChatRequests = 0, mt_ChatErrors = 0, mt_AgentSteps = 0, mt_AgentErrors = 0, mt_TokensPrompt = 0,
     mt_TokensCompletion = 0, mt_LatencyTotalMs = 0, mt_RequestCount = 0\<rparr>"

definition RecordRequest :: "int \<Rightarrow> Metrics option \<Rightarrow> Metrics option" where
  "RecordRequest durationMs m =
     map_option (\<lambda>mt. mt\<lparr>mt_RequestCount := mt_RequestCount mt + 1, mt_LatencyTotalMs := mt_LatencyTotalMs mt + durationMs\<rparr>) m"

definition RecordTokens :: "int \<Rightarrow> int \<Rightarrow> Metrics option \<Rightarrow> Metrics option" where
  "RecordTokens prompt completion m =
     map_option (\<lambda>mt. mt
       \<lparr>mt_TokensPrompt := (if 0 < prompt then mt_TokensPrompt mt + prompt else mt_TokensPrompt mt),
        mt_TokensCompletion := (if 0 < completion then mt_TokensCompletion mt + completion else mt_TokensCompletion mt)\<rparr>) m"

record Handler =
  h_cfg :: AppConfig
  h_llm :: Service
  h_chatSessions :: "ChatSessionStore option"
  h_maxRounds :: int
  h_mcp :: "McpRegistry option"
  h_quota :: "Quota option"
  h_idempotency :: "IdempotencyStore option"
  h_prefixCache :: "PrefixCache option"
  h_jobs :: "JobStore option"
  h_metrics :: "Metrics option"

definition recordChatOK :: "Handler \<Rightarrow> Handler" where
  "recordChatOK h = h\<lparr>h_metrics := map_option (\<lambda>m. m\<lparr>mt_ChatRequests := mt_ChatRequests m + 1\<rparr>) (h_metrics h)\<rparr>"

definition recordChatErr :: "Handler \<Rightarrow> Handler" where
  "recordChatErr h =
     h\<lparr>h_metrics := map_option (\<lambda>m. m\<lparr>mt_ChatRequests := mt_ChatRequests m + 1, mt_ChatErrors := mt_ChatErrors m + 1\<rparr>) (h_metrics h)\<rparr>"

definition checkTokenQuota :: "int \<Rightarrow> time \<Rightarrow> int64 \<Rightarrow> Handler \<Rightarrow> bool \<times> Handler" where
  "checkTokenQuota off now estimate h =
     (if h_quota h = None then (True, h)
      else let (ok, q) = quota_WouldAllow off now estimate (h_quota h) in (ok, h\<lparr>h_quota := q\<rparr>))"

definition recordTokenUsage :: "int \<Rightarrow> time \<Rightarrow> int \<Rightarrow> int \<Rightarrow> Handler \<Rightarrow> Handler" where
  "recordTokenUsage off now prompt completion h =
     h\<lparr>h_metrics := RecordTokens prompt completion (h_metrics h),
       h_quota := (if h_quota h = None then None else quota_Record off now (word_of_int (prompt + completion)) (h_quota h))\<rparr>"

definition persistChatSession :: "time \<Rightarrow> string \<Rightarrow> ChatMessage list \<Rightarrow> string \<Rightarrow> Handler \<Rightarrow> Handler" where
  "persistChatSession now sessionID prior assistant h =
     (if h_chatSessions h = None \<or> sessionID = [] then h
      else
        let out = prior @ (if TrimSpace assistant \<noteq> [] then [\<lparr>dm_Role = ''assistant'', dm_Content = assistant\<rparr>] else [])
        in h\<lparr>h_chatSessions := session_Record now sessionID out (h_chatSessions h)\<rparr>)"

section \<open>Before the runner\<close>

datatype chat_reply =
    ErrorReply int string string
  | Replayed int string
  | Answered HttpChatResponse
  | Queued string string string
  | StreamReply "SseEvent list"
  | Stuck
  | Panicked

definition resolveRequestID :: "string \<Rightarrow> string option \<Rightarrow> string" where
  "resolveRequestID ctxID bodyID =
     (case bodyID of
        Some b \<Rightarrow> let i = TrimSpace b in if i \<noteq> [] then i else ctxID
      | None \<Rightarrow> ctxID)"

definition validateChatRequest :: "ChatRequest \<Rightarrow> string option" where
  "validateChatRequest req =
     (if rq_Stream req = None then Some (utf8 [1087, 1086, 1083, 1077, 32, 115, 116, 114, 101, 97, 109, 32, 1086, 1073, 1103, 1079,
     1072, 1090, 1077, 1083, 1100, 1085, 1086])
      else if rq_System req = None then Some (utf8 [1087, 1086, 1083, 1077, 32, 115, 121, 115, 116, 101, 109, 32, 1086, 1073, 1103, 1079,
     1072, 1090, 1077, 1083, 1100, 1085, 1086])
      else if rq_Messages req = [] then Some (utf8 [1084, 1072, 1089, 1089, 1080, 1074, 32, 109, 101, 115, 115, 97, 103, 101, 115, 32,
     1085, 1077, 32, 1076, 1086, 1083, 1078, 1077, 1085, 32, 1073, 1099, 1090, 1100, 32,
     1087, 1091, 1089, 1090, 1099, 1084])
      else if dm_Role (last (rq_Messages req)) \<noteq> ''user''
      then Some (utf8 [1087, 1086, 1089, 1083, 1077, 1076, 1085, 1077, 1077, 32, 1089, 1086, 1086, 1073, 1097,
     1077, 1085, 1080, 1077, 32, 1074, 32, 109, 101, 115, 115, 97, 103, 101, 115, 32, 1076,
     1086, 1083, 1078, 1085, 1086, 32, 1080, 1084, 1077, 1090, 1100, 32, 114, 111, 108, 101,
     32, 34, 117, 115, 101, 114, 34])
      else None)"

definition moderated_texts :: "ChatRequest \<Rightarrow> string list" where
  "moderated_texts req = (case rq_System req of None \<Rightarrow> [] | Some s \<Rightarrow> [s]) @ map dm_Content (rq_Messages req)"

definition estimateChatTokens :: "ChatRequest \<Rightarrow> int" where
  "estimateChatTokens req =
     (let n = (case rq_System req of None \<Rightarrow> 0 | Some s \<Rightarrow> length s)
            + sum_list (map (\<lambda>m. length (dm_Content m)) (rq_Messages req))
            + (case rq_Editor req of None \<Rightarrow> 0 | Some e \<Rightarrow> length (ed_Snippet e));
          est = int (n div 4)
      in if est < 256 then 256 else est)"

definition trimChatHistory :: "'a list \<Rightarrow> int \<Rightarrow> 'a list" where
  "trimChatHistory ms mx = (if mx \<le> 0 \<or> int (length ms) \<le> mx then ms else drop (length ms - nat mx) ms)"

definition generateMaxTokens :: "ChatRequest \<Rightarrow> AppConfig option \<Rightarrow> int" where
  "generateMaxTokens req cfg =
     (let dflt = (case cfg of None \<Rightarrow> 0
                    | Some c \<Rightarrow> if 0 < gc_MaxTokens (ch_Generate (c_Chat c)) then gc_MaxTokens (ch_Generate (c_Chat c)) else 0)
      in case rq_Generate req of
           None \<Rightarrow> dflt
         | Some g \<Rightarrow> (case gn_MaxTokens g of None \<Rightarrow> dflt | Some n \<Rightarrow> if 0 < n then n else dflt))"

definition estimateContextTokens :: "EditorContext option \<Rightarrow> ChatContext option \<Rightarrow> nat" where
  "estimateContextTokens editor ctx =
     (case editor of
        None \<Rightarrow> 0
      | Some e \<Rightarrow> EstimateTokens (ed_Path e) + EstimateTokens (ed_Language e) + EstimateTokens (ed_Snippet e))
     + (case ctx of
          None \<Rightarrow> 0
        | Some c \<Rightarrow>
            (case cc_Selection c of None \<Rightarrow> 0 | Some s \<Rightarrow> EstimateTokens (sel_Text s) + EstimateTokens (sel_Path s))
            + sum_list (map (\<lambda>sn. EstimateTokens (sn_Content sn) + EstimateTokens (sn_Path sn)) (cc_Snippets c))
            + (case cc_Workspace c of None \<Rightarrow> 0
                 | Some w \<Rightarrow> EstimateTokens (ws_Name w) + EstimateTokens (ws_Root w) + EstimateTokens (ws_Branch w)))"

definition trimChatHistoryByTokens :: "ChatRequest \<Rightarrow> int \<Rightarrow> int \<Rightarrow> ChatMessage list" where
  "trimChatHistoryByTokens req tokenBudget generateMax =
     (if rq_Messages req = [] then rq_Messages req
      else
        let systemTokens = (case rq_System req of None \<Rightarrow> 0 | Some s \<Rightarrow> EstimateTokens (TrimSpace s));
            contextTokens = estimateContextTokens (rq_Editor req) (rq_Context req);
            historyBudget = HistoryTokenBudget tokenBudget (int systemTokens) (int contextTokens) generateMax;
            (trimmed, changed) = TrimChatLines (map (\<lambda>m. \<lparr>cl_Role = dm_Role m, cl_Content = dm_Content m\<rparr>) (rq_Messages req)) historyBudget
        in if \<not> changed then rq_Messages req
           else map (\<lambda>l. \<lparr>dm_Role = cl_Role l, dm_Content = cl_Content l\<rparr>) trimmed)"

text \<open>The environment of a request.\<close>

record chat_env =
  ce_requestID :: string
  ce_uuid :: string
  ce_off :: int
  ce_now_get :: time
  ce_now_quota :: time
  ce_now_messages :: time
  ce_now_usage :: "nat \<Rightarrow> time"
  ce_now_record :: time
  ce_now_put :: time
  ce_conn :: "string \<Rightarrow> backend"
  ce_ready_now :: "nat \<Rightarrow> time"
  ce_ready :: "nat \<Rightarrow> backend"
  ce_index :: "repo_index option"
  ce_key :: prefix_key
  ce_quote :: "string \<Rightarrow> string"
  ce_order :: "nat \<Rightarrow> MCPServer list \<Rightarrow> MCPServer list"
  ce_list_tools :: "nat \<Rightarrow> MCPServer \<Rightarrow> string + DeclaredTool list"
  ce_send :: "runner_call \<Rightarrow> send_env"
  ce_stream :: "runner_call \<Rightarrow> LLMStreamChunk list"
  ce_gone :: bool
  ce_loop :: "runner_call \<Rightarrow> chat_world"
  ce_loop_llm :: "Service \<Rightarrow> Service"
  ce_loop_events :: "(string \<times> string) list"
  ce_loop_error :: "chat_error \<Rightarrow> bool \<times> bool \<times> string"
  ce_error_text :: "llm_error \<Rightarrow> string"
  ce_job :: job_env
  ce_job_uuid :: string
  ce_job_body :: "ChatRequest \<Rightarrow> string option"
  ce_job_error_text :: "job_error \<Rightarrow> string"

definition runner_unavailable :: string where
  "runner_unavailable = utf8 [108, 109, 45, 114, 117, 110, 110, 101, 114, 32, 1085, 1077, 1076, 1086, 1089, 1090,
     1091, 1087, 1077, 1085]"

definition not_loaded_text :: string where
  "not_loaded_text = utf8 [1084, 1086, 1076, 1077, 1083, 1100, 32, 1085, 1077, 32, 1079, 1072, 1075, 1088, 1091,
     1078, 1077, 1085, 1072, 32, 1085, 1072, 32, 108, 109, 45, 114, 117, 110, 110, 101, 114]"

definition is_not_loaded :: "llm_error \<Rightarrow> bool" where
  "is_not_loaded e \<longleftrightarrow> e = RunnerModelNotLoaded \<or> e = PoolFailed ErrRunnerModelNotLoaded"

definition ensureRunnerReady :: "chat_env \<Rightarrow> Service \<Rightarrow> chat_reply option \<times> Service" where
  "ensureRunnerReady env s =
     (let (ok, s1) = llm_CheckConnection (ce_conn env) s in
      if \<not> ok then (Some (ErrorReply 503 ''service_unavailable'' runner_unavailable), s1)
      else
        case ModelReady (ce_ready_now env) (ce_ready env) s1 of
          (None, s2) \<Rightarrow> (None, s2)
        | (Some e, s2) \<Rightarrow>
            (Some (ErrorReply 503 ''service_unavailable'' (if is_not_loaded e then not_loaded_text else ce_error_text env e)), s2))"

text \<open>The checks of \<open>handleChat\<close> that come before the request is worked on: a reply, or it goes on.\<close>

definition chat_admit :: "chat_env \<Rightarrow> ChatRequest \<Rightarrow> Handler \<Rightarrow> chat_reply option \<times> Handler" where
  "chat_admit env req h =
     (let rid = resolveRequestID (ce_requestID env) (rq_RequestID req) in
      case validateChatRequest req of
        Some msg \<Rightarrow> (Some (ErrorReply 400 ''bad_request'' msg), h)
      | None \<Rightarrow>
          if ModerationEnabled (Some (h_cfg h)) \<and> ScanMessages (moderated_texts req)
          then (Some (ErrorReply 400 ''prompt_injection'' (utf8 [1079, 1072, 1087, 1088, 1086, 1089, 32, 1086, 1090, 1082, 1083, 1086, 1085, 1105, 1085,
     32, 109, 111, 100, 101, 114, 97, 116, 105, 111, 110, 32, 108, 97, 121, 101, 114])), recordChatErr h)
          else
            let (status, body, hit) =
                  (if \<not> the (rq_Stream req) \<and> rid \<noteq> [] \<and> h_idempotency h \<noteq> None
                   then idem_Get (ce_now_get env) (''chat:'' @ rid) (h_idempotency h) else (0, [], False))
            in if hit then (Some (Replayed status body), h)
            else
              let (refused, s) = ensureRunnerReady env (h_llm h); h1 = h\<lparr>h_llm := s\<rparr> in
              if refused \<noteq> None then (refused, recordChatErr h1)
              else
                let (ok, h2) = checkTokenQuota (ce_off env) (ce_now_quota env) (word_of_int (estimateChatTokens req)) h1 in
                if \<not> ok then (Some (ErrorReply 429 ''quota_exceeded'' (utf8 [1087, 1088, 1077, 1074, 1099, 1096, 1077, 1085, 32, 1076, 1085, 1077, 1074, 1085, 1086,
     1081, 32, 1083, 1080, 1084, 1080, 1090, 32, 1090, 1086, 1082, 1077, 1085, 1086, 1074])), recordChatErr h2)
                else (None, h2))"

section \<open>What the runner is asked\<close>

definition mcp_wanted :: "ChatRequest \<Rightarrow> bool" where
  "mcp_wanted req = (case rq_Session req of None \<Rightarrow> False | Some s \<Rightarrow> sn_MCPEnabled s = Some True)"

definition mcp_ids :: "ChatRequest \<Rightarrow> int list" where
  "mcp_ids req = (case rq_Session req of None \<Rightarrow> [] | Some s \<Rightarrow> sn_MCPServerIDs s)"

text \<open>\<open>ChatMCPLoop.Enabled\<close>, which lists the tools of the servers anew.\<close>

definition loop_Enabled :: "chat_env \<Rightarrow> ChatRequest \<Rightarrow> Handler \<Rightarrow> bool \<times> Handler" where
  "loop_Enabled env req h =
     (if \<not> mcp_Enabled (h_mcp h) \<or> \<not> mcp_wanted req then (False, h)
      else
        let (r, reg) = GenerationTools (ce_order env 0) (ce_list_tools env 0) (mcp_ids req) (h_mcp h)
        in ((case r of Inl e \<Rightarrow> False | Inr tools \<Rightarrow> tools \<noteq> []), h\<lparr>h_mcp := reg\<rparr>))"

definition chatSystemPrompt :: "(string \<Rightarrow> string) \<Rightarrow> ChatRequest \<Rightarrow> bool \<Rightarrow> McpRegistry option \<Rightarrow> string" where
  "chatSystemPrompt quote req realMCPTools mcp =
     (let system = (case rq_System req of None \<Rightarrow> [] | Some s \<Rightarrow> TrimSpace s) in
      if realMCPTools then system
      else if \<not> mcp_Enabled mcp \<or> \<not> mcp_wanted req then system
      else
        let block = ToolsPromptBlockForServers quote (mcp_ids req) mcp
        in if block = [] then system else if system = [] then block else system @ nl @ nl @ block)"

record prepared_chat =
  pr_req :: ChatRequest
  pr_sessionID :: string
  pr_mcp :: bool
  pr_call :: runner_call

text \<open>The history of a request: the conversation of its session, cut to the limits.\<close>

definition chat_history :: "AppConfig \<Rightarrow> int \<Rightarrow> ChatRequest \<Rightarrow> ChatRequest" where
  "chat_history cfg tokenBudget req =
     (let req1 = req\<lparr>rq_Messages := trimChatHistory (rq_Messages req) (HistoryMaxMessages (Some cfg))\<rparr>
      in req1\<lparr>rq_Messages := trimChatHistoryByTokens req1 tokenBudget (generateMaxTokens req1 (Some cfg))\<rparr>)"

definition chat_prepare :: "chat_env \<Rightarrow> ChatRequest \<Rightarrow> Handler \<Rightarrow> prepared_chat \<times> Handler" where
  "chat_prepare env req0 h =
     (let cfg = h_cfg h;
          sessionID = (if h_chatSessions h = None then [] else ResolveSessionID (ce_uuid env) (Some req0));
          req1 = (if h_chatSessions h = None then req0
                  else req0\<lparr>rq_Messages := session_Merge sessionID (rq_Messages req0) (h_chatSessions h)\<rparr>);
          (req2, s) = EnrichContextFromSearch (ce_index env) req1 (h_llm h);
          tokenBudget = EffectiveContextTokenBudget (MaxContextTokens (ChatHints s)) (Some cfg);
          req = chat_history cfg tokenBudget req2;
          (useMCP, h1) = loop_Enabled env req (h\<lparr>h_llm := s\<rparr>);
          systemPrompt = chatSystemPrompt (ce_quote env) req useMCP (h_mcp h1);
          (messages, cache) = RunnerMessages (ce_key env) (ce_now_messages env) systemPrompt (rq_Messages req) (rq_Editor req)
            (rq_Context req) tokenBudget (ContextScanSecrets (Some cfg)) (h_prefixCache h1)
      in (\<lparr>pr_req = req, pr_sessionID = sessionID, pr_mcp = useMCP,
           pr_call = \<lparr>rcl_messages = messages, rcl_stop = stopSequences req, rcl_timeout = chatTimeout req cfg,
                      rcl_params = mergeGenerateParams req cfg\<rparr>\<rparr>,
          h1\<lparr>h_prefixCache := cache\<rparr>))"

section \<open>Errors of the runner\<close>

definition mapRunnerError :: "bool \<times> bool \<times> string \<Rightarrow> chat_reply" where
  "mapRunnerError e =
     (case e of (queue_timeout, not_loaded, msg) \<Rightarrow>
       if not_loaded then ErrorReply 503 ''service_unavailable'' not_loaded_text
       else if queue_timeout then ErrorReply 503 ''overloaded'' (utf8 [1089, 1077, 1088, 1074, 1077, 1088, 32, 1087, 1077, 1088, 1077, 1075, 1088, 1091, 1078,
     1077, 1085, 44, 32, 1087, 1086, 1074, 1090, 1086, 1088, 1080, 1090, 1077, 32, 1087,
     1086, 1079, 1078, 1077])
       else if str_contains msg (utf8 [1084, 1086, 1076, 1077, 1083, 1100, 32, 1085, 1077, 32, 1079, 1072, 1075, 1088, 1091,
     1078, 1077, 1085, 1072]) then ErrorReply 503 ''service_unavailable'' msg
       else if str_contains msg ''lm-runner'' \<or> str_contains msg (utf8 [1088, 1072, 1085, 1085, 1077, 1088])
       then ErrorReply 503 ''service_unavailable'' runner_unavailable
       else ErrorReply 500 ''internal_error'' (utf8 [1086, 1096, 1080, 1073, 1082, 1072, 32, 1075, 1077, 1085, 1077, 1088, 1072, 1094, 1080,
     1080]))"

definition tryEnqueueOnOverload :: "chat_env \<Rightarrow> string \<Rightarrow> string \<Rightarrow> ChatRequest \<Rightarrow> Handler \<Rightarrow> chat_reply option \<times> Handler" where
  "tryEnqueueOnOverload env kind rid req h =
     (if h_jobs h = None then (None, h)
      else
        case Enqueue (ce_job env) (ce_job_uuid env) kind rid (ce_job_body env req) (h_jobs h) of
          (Inl e, jobs) \<Rightarrow> (Some (ErrorReply 503 ''overloaded'' (ce_job_error_text env e)), h\<lparr>h_jobs := jobs\<rparr>)
        | (Inr jobID, jobs) \<Rightarrow> (Some (Queued jobID kind rid), h\<lparr>h_jobs := jobs\<rparr>))"

definition mapRunnerErrorWithQueue ::
  "chat_env \<Rightarrow> bool \<times> bool \<times> string \<Rightarrow> string \<Rightarrow> string \<Rightarrow> ChatRequest \<Rightarrow> Handler \<Rightarrow> chat_reply \<times> Handler" where
  "mapRunnerErrorWithQueue env e kind rid req h =
     (case (if fst e then tryEnqueueOnOverload env kind rid req h else (None, h)) of
        (Some r, h1) \<Rightarrow> (r, h1)
      | (None, h1) \<Rightarrow> (mapRunnerError e, h1))"

definition llm_error_view :: "chat_env \<Rightarrow> llm_error \<Rightarrow> bool \<times> bool \<times> string" where
  "llm_error_view env e = (e = QueueTimedOut, is_not_loaded e, ce_error_text env e)"

section \<open>The event stream\<close>

text \<open>
  \<open>writeRunnerSSE\<close>: the number of the last event, the session for resuming, what was sent, and what the
  chunks have brought so far. The counter of active streams goes up before and down after, and is left out. A send to a closed channel of a subscriber is a panic, \<open>None\<close>.
\<close>

record sse_writer =
  sw_id :: int
  sw_session :: "Session option"
  sw_sent :: "SseEvent list"
  sw_usage :: "StreamTokenUsage option"
  sw_full :: string

definition sse_open :: "Session option \<Rightarrow> sse_writer" where
  "sse_open sess = \<lparr>sw_id = 0, sw_session = sess, sw_sent = [], sw_usage = None, sw_full = []\<rparr>"

definition sse_emit :: "string \<Rightarrow> string \<Rightarrow> sse_writer \<Rightarrow> sse_writer option" where
  "sse_emit event data w =
     (let i = sw_id w + 1; ev = \<lparr>ev_id = i, ev_event = event, ev_data = data\<rparr> in
      case sw_session w of
        None \<Rightarrow> Some (w\<lparr>sw_id := i, sw_sent := sw_sent w @ [ev]\<rparr>)
      | Some sess \<Rightarrow>
          (case session_Append ev sess of
             None \<Rightarrow> None
           | Some sess1 \<Rightarrow> Some (w\<lparr>sw_id := i, sw_session := Some sess1, sw_sent := sw_sent w @ [ev]\<rparr>)))"

definition text_data :: "string \<Rightarrow> string" where
  "text_data s = Marshal (GMap [(''text'', GStr s)])"

fun sse_chunks :: "LLMStreamChunk list \<Rightarrow> sse_writer \<Rightarrow> sse_writer option" where
  "sse_chunks [] w = Some w"
| "sse_chunks (c # cs) w =
     (let w1 = (if ch_Usage c \<noteq> None then w\<lparr>sw_usage := ch_Usage c\<rparr> else w) in
      case (if ch_ReasoningContent c \<noteq> [] then sse_emit ''reasoning'' (text_data (ch_ReasoningContent c)) w1 else Some w1) of
        None \<Rightarrow> None
      | Some w2 \<Rightarrow>
          (if ch_Content c = [] then sse_chunks cs w2
           else
             case sse_emit ''delta'' (text_data (ch_Content c)) (w2\<lparr>sw_full := sw_full w2 @ ch_Content c\<rparr>) of
               None \<Rightarrow> None
             | Some w3 \<Rightarrow> sse_chunks cs w3))"

definition int32_json :: "int \<Rightarrow> gov" where
  "int32_json n = GNum (itoa n)"

definition status_data :: "StreamMeta \<Rightarrow> string" where
  "status_data m =
     Marshal (GMap [(''attempt'', int32_json (int (RunnerAttempts m) + 1)), (''phase'', GStr ''retrying''), (''runner'', GStr (RunnerAddr m))])"

definition end_data :: "string \<Rightarrow> StreamTokenUsage option \<Rightarrow> string" where
  "end_data sessionID usage =
     Marshal (GMap ([(''finish'', GStr ''stop'')]
       @ (if sessionID \<noteq> [] then [(''session_id'', GStr sessionID)] else [])
       @ (case usage of None \<Rightarrow> []
          | Some u \<Rightarrow> [(''usage'', GMap [(''completion_tokens'', int32_json (su_CompletionTokens u)),
              (''prompt_tokens'', int32_json (su_PromptTokens u)), (''total_tokens'', int32_json (su_TotalTokens u))])])))"

text \<open>What the end of a stream records: its last usage.\<close>

definition record_stream_usage :: "chat_env \<Rightarrow> StreamTokenUsage option \<Rightarrow> Handler \<Rightarrow> Handler" where
  "record_stream_usage env usage h =
     (case usage of None \<Rightarrow> h
      | Some u \<Rightarrow> recordTokenUsage (ce_off env) (ce_now_usage env 0) (su_PromptTokens u) (su_CompletionTokens u) h)"

definition put_session :: "string \<Rightarrow> Session option \<Rightarrow> Service \<Rightarrow> Service" where
  "put_session rid sess s =
     (case sess of None \<Rightarrow> s | Some st \<Rightarrow> s\<lparr>ll_streams := (ll_streams s)\<lparr>sessions := (sessions (ll_streams s))(rid \<mapsto> st)\<rparr>\<rparr>)"

definition start_session :: "string \<Rightarrow> Service \<Rightarrow> Session option \<times> Service" where
  "start_session rid s =
     (let (sess, reg) = sse_Start rid (Some (ll_streams s)) in (sess, s\<lparr>ll_streams := the reg\<rparr>))"

definition writeRunnerSSE ::
  "chat_env \<Rightarrow> string \<Rightarrow> string \<Rightarrow> StreamMeta \<Rightarrow> LLMStreamChunk list \<Rightarrow> Session option \<Rightarrow> ChatMessage list \<Rightarrow> Handler \<Rightarrow> chat_reply \<times> Handler" where
  "writeRunnerSSE env rid sessionID meta cks sess prior h =
     (let w0 = sse_open sess;
          w1 = (if 0 < RunnerAttempts meta then sse_emit ''status'' (status_data meta) w0 else Some w0)
      in case (case w1 of None \<Rightarrow> None | Some w \<Rightarrow> sse_chunks cks w) of
           None \<Rightarrow> (Panicked, h)
         | Some w \<Rightarrow>
             if ce_gone env
             then (StreamReply (sw_sent w), h\<lparr>h_llm := put_session rid (map_option session_MarkDone (sw_session w)) (h_llm h)\<rparr>)
             else
               let h1 = record_stream_usage env (sw_usage w) h in
               case sse_emit ''end'' (end_data sessionID (sw_usage w)) w of
                 None \<Rightarrow> (Panicked, h1)
               | Some w2 \<Rightarrow>
                   let h2 = persistChatSession (ce_now_record env) sessionID prior (sw_full w2) h1
                   in (StreamReply (sw_sent w2), h2\<lparr>h_llm := put_session rid (map_option session_MarkDone (sw_session w2)) (h_llm h2)\<rparr>))"

section \<open>The answer\<close>

definition usage_json :: "TokenUsage \<Rightarrow> gov" where
  "usage_json u =
     GMap ((if tu_PromptTokens u \<noteq> 0 then [(''prompt_tokens'', int32_json (tu_PromptTokens u))] else [])
       @ (if tu_CompletionTokens u \<noteq> 0 then [(''completion_tokens'', int32_json (tu_CompletionTokens u))] else [])
       @ (if tu_TotalTokens u \<noteq> 0 then [(''total_tokens'', int32_json (tu_TotalTokens u))] else []))"

definition response_json :: "HttpChatResponse \<Rightarrow> string" where
  "response_json r =
     Marshal (GMap ((if hr_SessionID r \<noteq> [] then [(''session_id'', GStr (hr_SessionID r))] else [])
       @ [(''message'', GMap [(''role'', GStr (dm_Role (hr_Message r))), (''content'', GStr (dm_Content (hr_Message r)))])]
       @ (if hr_Reasoning r \<noteq> [] then [(''reasoning'', GStr (hr_Reasoning r))] else [])
       @ [(''finish'', GStr (hr_Finish r))]
       @ (case hr_Usage r of None \<Rightarrow> [] | Some u \<Rightarrow> [(''usage'', usage_json u)])))"

definition chat_response :: "string \<Rightarrow> string \<Rightarrow> string \<Rightarrow> StreamTokenUsage option \<Rightarrow> HttpChatResponse" where
  "chat_response sessionID content reasoning usage =
     \<lparr>hr_SessionID = sessionID, hr_Message = \<lparr>dm_Role = ''assistant'', dm_Content = content\<rparr>, hr_Reasoning = reasoning,
      hr_Finish = ''stop'', hr_Usage = mapTokenUsage usage\<rparr>"

text \<open>The loop over the stream of a request that is not streamed: every usage is recorded as it comes.\<close>

fun collect_answer :: "chat_env \<Rightarrow> nat \<Rightarrow> LLMStreamChunk list \<Rightarrow> CollectResult \<Rightarrow> Handler \<Rightarrow> CollectResult \<times> Handler" where
  "collect_answer env i [] r h = (r, h)"
| "collect_answer env i (c # cs) r h =
     collect_answer env (Suc i) cs
       \<lparr>cr_Content = (if ch_Content c \<noteq> [] then cr_Content r @ ch_Content c else cr_Content r),
        cr_Reasoning = (if ch_ReasoningContent c \<noteq> [] then cr_Reasoning r @ ch_ReasoningContent c else cr_Reasoning r),
        cr_Usage = (if ch_Usage c \<noteq> None then ch_Usage c else cr_Usage r)\<rparr>
       (case ch_Usage c of
          None \<Rightarrow> h
        | Some u \<Rightarrow> recordTokenUsage (ce_off env) (ce_now_usage env i) (su_PromptTokens u) (su_CompletionTokens u) h)"

definition no_answer :: CollectResult where
  "no_answer = \<lparr>cr_Content = [], cr_Reasoning = [], cr_Usage = None\<rparr>"

definition put_idempotent :: "chat_env \<Rightarrow> string \<Rightarrow> HttpChatResponse \<Rightarrow> Handler \<Rightarrow> Handler" where
  "put_idempotent env rid resp h =
     (if rid \<noteq> [] \<and> h_idempotency h \<noteq> None
      then h\<lparr>h_idempotency := idem_Put (ce_now_put env) (''chat:'' @ rid) 200 (response_json resp) (h_idempotency h)\<rparr> else h)"

definition answer_chat :: "chat_env \<Rightarrow> string \<Rightarrow> string \<Rightarrow> ChatMessage list \<Rightarrow> LLMStreamChunk list \<Rightarrow> Handler \<Rightarrow> chat_reply \<times> Handler" where
  "answer_chat env rid sessionID prior cks h =
     (let (r, h1) = collect_answer env 0 cks no_answer h;
          h2 = persistChatSession (ce_now_record env) sessionID prior (cr_Content r) h1;
          resp = chat_response sessionID (cr_Content r) (cr_Reasoning r) (cr_Usage r)
      in (Answered resp, put_idempotent env rid resp (recordChatOK h2)))"

section \<open>With tools\<close>

text \<open>
  The end \<open>ChatGoesOn\<close> of a round is not an end of the loop. The events of the tools and the chunks that
  reach the client, in the order in which they are emitted, are an argument; \<open>emit_by\<close> is how they are numbered.
\<close>

definition run_loop :: "chat_env \<Rightarrow> prepared_chat \<Rightarrow> Handler \<Rightarrow> (chat_end \<times> chat_state) \<times> Handler" where
  "run_loop env p h =
     (let (r, reg) = GenerationTools (ce_order env 1) (ce_list_tools env 1) (mcp_ids (pr_req p)) (h_mcp h);
          w = (ce_loop env (pr_call p))\<lparr>cx_tools := (case r of Inl e \<Rightarrow> Inl [] | Inr tools \<Rightarrow> Inr tools)\<rparr>
      in (ChatMCPLoop_Run w (h_maxRounds h) (rcl_messages (pr_call p)) (rcl_timeout (pr_call p)) (rcl_params (pr_call p)),
          h\<lparr>h_mcp := reg, h_llm := ce_loop_llm env (h_llm h)\<rparr>))"

fun emit_all :: "(string \<times> string) list \<Rightarrow> sse_writer \<Rightarrow> sse_writer option" where
  "emit_all [] w = Some w"
| "emit_all ((event, data) # evs) w = (case sse_emit event data w of None \<Rightarrow> None | Some w1 \<Rightarrow> emit_all evs w1)"

definition writeChatMCPLoopSSE ::
  "chat_env \<Rightarrow> string \<Rightarrow> string \<Rightarrow> chat_end \<times> chat_state \<Rightarrow> Session option \<Rightarrow> ChatMessage list \<Rightarrow> Handler \<Rightarrow> chat_reply \<times> Handler" where
  "writeChatMCPLoopSSE env rid sessionID result sess prior h =
     (let finish = (\<lambda>w hd. (StreamReply (sw_sent w), hd\<lparr>h_llm := put_session rid (map_option session_MarkDone (sw_session w)) (h_llm hd)\<rparr>)) in
      case emit_all (ce_loop_events env) (sse_open sess) of
        None \<Rightarrow> (Panicked, h)
      | Some w \<Rightarrow>
          if ce_gone env then finish w h
          else
            case result of
              (ChatAnswer content, st) \<Rightarrow>
                let h1 = record_stream_usage env (cm_usage st) h;
                    h2 = (if TrimSpace content \<noteq> [] then persistChatSession (ce_now_record env) sessionID prior content h1 else h1)
                in (case sse_emit ''end'' (end_data sessionID (cm_usage st)) w of
                      None \<Rightarrow> (Panicked, h2)
                    | Some w2 \<Rightarrow> finish w2 h2)
            | (ChatFailed e, st) \<Rightarrow>
                (case sse_emit ''error'' (Marshal (GMap [(''message'', GStr (snd (snd (ce_loop_error env e))))])) w of
                   None \<Rightarrow> (Panicked, h)
                 | Some w2 \<Rightarrow> finish w2 h)
            | (ChatGoesOn _, st) \<Rightarrow> finish w h)"

definition runChatWithMCPTools :: "chat_env \<Rightarrow> string \<Rightarrow> prepared_chat \<Rightarrow> Handler \<Rightarrow> chat_reply \<times> Handler" where
  "runChatWithMCPTools env rid p h =
     (let prior = rq_Messages (pr_req p); sessionID = pr_sessionID p in
      if the (rq_Stream (pr_req p)) then
        let (sess, s) = start_session rid (h_llm h);
            (result, h1) = run_loop env p (recordChatOK (h\<lparr>h_llm := s\<rparr>))
        in writeChatMCPLoopSSE env rid sessionID result sess prior h1
      else
        case run_loop env p h of
          ((ChatAnswer content, st), h1) \<Rightarrow>
            let h2 = persistChatSession (ce_now_record env) sessionID prior content h1;
                resp = chat_response sessionID content (cm_reasoning st) (cm_usage st);
                h3 = record_stream_usage env (cm_usage st) h2
            in (Answered resp, put_idempotent env rid resp (recordChatOK h3))
        | ((ChatFailed e, st), h1) \<Rightarrow> mapRunnerErrorWithQueue env (ce_loop_error env e) ''chat'' rid (pr_req p) (recordChatErr h1)
        | ((ChatGoesOn _, st), h1) \<Rightarrow> (Stuck, h1))"

section \<open>The handler of the chat\<close>

definition chat_send :: "chat_env \<Rightarrow> string \<Rightarrow> prepared_chat \<Rightarrow> Handler \<Rightarrow> chat_reply \<times> Handler" where
  "chat_send env rid p h =
     (let stream = the (rq_Stream (pr_req p)); prior = rq_Messages (pr_req p) in
      case SendMessageWithMeta (ce_send env (pr_call p)) (h_llm h) of
        (Waiting, s) \<Rightarrow> (Stuck, h\<lparr>h_llm := s\<rparr>)
      | (Failed e, s) \<Rightarrow>
          let h1 = recordChatErr (h\<lparr>h_llm := s\<rparr>)
          in if \<not> stream then mapRunnerErrorWithQueue env (llm_error_view env e) ''chat'' rid (pr_req p) h1
             else (mapRunnerError (llm_error_view env e), h1)
      | (Streaming (meta, st), s) \<Rightarrow>
          if stream then
            let (sess, s1) = start_session rid s
            in writeRunnerSSE env rid (pr_sessionID p) meta (ce_stream env (pr_call p)) sess prior (recordChatOK (h\<lparr>h_llm := s1\<rparr>))
          else answer_chat env rid (pr_sessionID p) prior (ce_stream env (pr_call p)) (h\<lparr>h_llm := s\<rparr>))"

definition handleChat :: "chat_env \<Rightarrow> string \<Rightarrow> ChatRequest option \<Rightarrow> Handler \<Rightarrow> chat_reply \<times> runner_call option \<times> Handler" where
  "handleChat env meth body h =
     (if meth \<noteq> ''POST'' then (ErrorReply 405 ''method_not_allowed'' (utf8 [1086, 1078, 1080, 1076, 1072, 1077, 1090, 1089, 1103, 32, 1084, 1077, 1090, 1086, 1076,
     32, 80, 79, 83, 84]), None, h)
      else
        case body of
          None \<Rightarrow> (ErrorReply 400 ''bad_request'' (utf8 [1085, 1077, 1082, 1086, 1088, 1088, 1077, 1082, 1090, 1085, 1086, 1077, 32, 1090, 1077,
     1083, 1086, 32, 74, 83, 79, 78]), None, h)
        | Some req \<Rightarrow>
            (case chat_admit env req h of
               (Some r, h1) \<Rightarrow> (r, None, h1)
             | (None, h1) \<Rightarrow>
                 let rid = resolveRequestID (ce_requestID env) (rq_RequestID req);
                     (p, h2) = chat_prepare env req h1;
                     (r, h3) = (if pr_mcp p then runChatWithMCPTools env rid p h2 else chat_send env rid p h2)
                 in (r, Some (pr_call p), h3)))"

end
