(* ===== verification/ChatProperties.thy ===== *)
theory ChatProperties
  imports ChatHandler
begin

text \<open>
  What the handler of the chat guarantees: how much of a conversation reaches the runner, what a refused
  request leaves alone, when an answer is replayed, how a conversation goes on, what is charged for it,
  and which events a stream sends.
\<close>

section \<open>The checks before the runner\<close>

lemma model_ready_streams: "ll_streams (snd (model_ready_from now be j addrs s)) = ll_streams s"
proof (induction addrs arbitrary: j s)
  case (Cons addr addrs)
  obtain ok cb where al: "breaker_Allow (now j) addr (ll_breaker s) = (ok, cb)" by (cases "breaker_Allow (now j) addr (ll_breaker s)")
  obtain e p where rq: "RequireChatModelLoaded (be j) addr (ll_pool s) = (e, p)" by (cases "RequireChatModelLoaded (be j) addr (ll_pool s)")
  show ?case using Cons.IH by (simp add: al rq Let_def split: option.split)
qed simp

lemma ensureRunnerReady_frame:
  "ll_queue (snd (ensureRunnerReady env s)) = ll_queue s \<and> ll_streams (snd (ensureRunnerReady env s)) = ll_streams s"
proof -
  obtain ok s1 where c: "llm_CheckConnection (ce_conn env) s = (ok, s1)" by (cases "llm_CheckConnection (ce_conn env) s")
  then have s1: "ll_queue s1 = ll_queue s" "ll_streams s1 = ll_streams s"
    by (auto simp: llm_CheckConnection_def on_pool_def Let_def split_beta)
  moreover have "ll_queue (snd (ModelReady now be s1)) = ll_queue s1" for now be
    using ModelReady_quiet by (simp add: quiet_def)
  moreover have "ll_streams (snd (ModelReady now be s1)) = ll_streams s1" for now be
    by (simp add: ModelReady_def Let_def model_ready_streams)
  ultimately show ?thesis
    by (auto simp: ensureRunnerReady_def c split: prod.splits option.splits) (metis snd_conv)+
qed

text \<open>What of the handler the checks leave as it is.\<close>

definition same_chats :: "Handler \<Rightarrow> Handler \<Rightarrow> bool" where
  "same_chats h h' \<longleftrightarrow> h_cfg h' = h_cfg h \<and> h_chatSessions h' = h_chatSessions h \<and> h_idempotency h' = h_idempotency h
     \<and> h_prefixCache h' = h_prefixCache h \<and> h_jobs h' = h_jobs h \<and> h_mcp h' = h_mcp h \<and> h_maxRounds h' = h_maxRounds h
     \<and> ll_queue (h_llm h') = ll_queue (h_llm h) \<and> ll_streams (h_llm h') = ll_streams (h_llm h)"

lemma same_chats_refl [simp]: "same_chats h h"
  by (simp add: same_chats_def)

lemma same_chats_recordChatErr [simp]: "same_chats h (recordChatErr h') \<longleftrightarrow> same_chats h h'"
  by (simp add: same_chats_def recordChatErr_def)

lemma chat_admit_frame: "same_chats h (snd (chat_admit env req h))"
proof -
  obtain refused s where e: "ensureRunnerReady env (h_llm h) = (refused, s)" by (cases "ensureRunnerReady env (h_llm h)")
  then have s: "ll_queue s = ll_queue (h_llm h)" "ll_streams s = ll_streams (h_llm h)"
    using ensureRunnerReady_frame [of env "h_llm h"] by auto
  define h1 where "h1 = h\<lparr>h_llm := s\<rparr>"
  obtain ok h2 where q: "checkTokenQuota (ce_off env) (ce_now_quota env) (word_of_int (estimateChatTokens req)) h1 = (ok, h2)"
    by (cases "checkTokenQuota (ce_off env) (ce_now_quota env) (word_of_int (estimateChatTokens req)) h1")
  have "same_chats h h1" by (simp add: same_chats_def h1_def s)
  moreover have "same_chats h h2" using q by (auto simp: checkTokenQuota_def same_chats_def h1_def s split: if_splits prod.splits)
  ultimately show ?thesis
    by (simp add: chat_admit_def Let_def e q h1_def [symmetric] split: prod.split option.split)
qed

section \<open>The conversation of a request\<close>

text \<open>The conversation before it is cut: the messages of the request, merged into what its session holds.\<close>

definition conversation :: "chat_env \<Rightarrow> ChatRequest \<Rightarrow> Handler \<Rightarrow> ChatMessage list" where
  "conversation env req h =
     (if h_chatSessions h = None then rq_Messages req
      else session_Merge (ResolveSessionID (ce_uuid env) (Some req)) (rq_Messages req) (h_chatSessions h))"

definition sessions_inv :: "Handler \<Rightarrow> bool" where
  "sessions_inv h \<longleftrightarrow> (\<forall>st. h_chatSessions h = Some st \<longrightarrow> session_store_inv st)"

text \<open>What a conversation becomes: its end, or only its last message, cut to at least 252 tokens.\<close>

definition cut_of :: "ChatMessage list \<Rightarrow> ChatMessage list \<Rightarrow> bool" where
  "cut_of conv hist \<longleftrightarrow> hist \<noteq> [] \<and>
     ((\<exists>n. hist = drop n conv) \<or>
      (\<exists>b\<ge>252. hist = [(last conv)\<lparr>dm_Content := TrimToTokenBudget (dm_Content (last conv)) b\<rparr>]))"

lemma cut_of_drop: "drop n conv \<noteq> [] \<Longrightarrow> cut_of (drop n conv) hist \<Longrightarrow> cut_of conv hist"
  by (auto simp: cut_of_def last_drop)

lemma cut_of_last: "cut_of conv hist \<Longrightarrow> dm_Role (last hist) = dm_Role (last conv)"
  by (auto simp: cut_of_def last_drop)

lemma HistoryTokenBudget_min: "256 \<le> HistoryTokenBudget tot s c g"
  by (simp add: HistoryTokenBudget_def Let_def budget_consts)

lemma TrimChatLines_cut:
  assumes "256 \<le> b" and "lines \<noteq> []"
  shows "fst (TrimChatLines lines b) \<noteq> [] \<and> ((\<exists>n. fst (TrimChatLines lines b) = drop n lines) \<or>
    (\<exists>c\<ge>252. fst (TrimChatLines lines b) = [(last lines)\<lparr>cl_Content := TrimToTokenBudget (cl_Content (last lines)) c\<rparr>]))"
proof -
  obtain n where n: "drop_oldest b lines False = (drop n lines, 0 < n)" "n = 0 \<or> n < length lines"
    using drop_oldest_spec [of b lines False] by auto
  have ne: "drop n lines \<noteq> []" using n(2) assms(2) by auto
  have one: "length (drop n lines) = 1 \<Longrightarrow> hd (drop n lines) = last lines"
    using ne by (metis One_nat_def last_drop length_0_conv length_Suc_conv last_ConsL list.sel(1) length_drop drop_eq_Nil not_le)
  show ?thesis
    using n(1) ne one assms
    by (auto simp: TrimChatLines_def Let_def perMessageOverheadTokens_def intro: exI [of _ 0] exI [of _ "b - 4"])
qed

lemma chat_message_eta: "(\<lambda>m. \<lparr>dm_Role = dm_Role m, dm_Content = dm_Content m\<rparr>) = (\<lambda>m :: ChatMessage. m)"
  by (rule ext) simp

lemma trimChatHistoryByTokens_cut:
  assumes "rq_Messages req \<noteq> []"
  shows "cut_of (rq_Messages req) (trimChatHistoryByTokens req tot g)"
proof -
  define budget where "budget = HistoryTokenBudget tot
      (int (case rq_System req of None \<Rightarrow> 0 | Some s \<Rightarrow> EstimateTokens (TrimSpace s)))
      (int (estimateContextTokens (rq_Editor req) (rq_Context req))) g"
  let ?f = "\<lambda>m. \<lparr>cl_Role = dm_Role m, cl_Content = dm_Content m\<rparr>"
  let ?g = "\<lambda>l. \<lparr>dm_Role = cl_Role l, dm_Content = cl_Content l\<rparr>"
  obtain out ch where t: "TrimChatLines (map ?f (rq_Messages req)) budget = (out, ch)"
    by (cases "TrimChatLines (map ?f (rq_Messages req)) budget")
  have eq: "trimChatHistoryByTokens req tot g = (if \<not> ch then rq_Messages req else map ?g out)"
    using assms t by (simp add: trimChatHistoryByTokens_def Let_def budget_def split_beta)
  have out: "out \<noteq> []" "(\<exists>n. out = drop n (map ?f (rq_Messages req))) \<or>
      (\<exists>c\<ge>252. out = [(last (map ?f (rq_Messages req)))\<lparr>cl_Content := TrimToTokenBudget (cl_Content (last (map ?f (rq_Messages req)))) c\<rparr>])"
    using TrimChatLines_cut [of budget "map ?f (rq_Messages req)"] assms t HistoryTokenBudget_min by (simp_all add: budget_def)
  have "cut_of (rq_Messages req) (map ?g out)"
    using out(2)
  proof
    assume "\<exists>n. out = drop n (map ?f (rq_Messages req))"
    then obtain n where "out = drop n (map ?f (rq_Messages req))" by blast
    then have "map ?g out = drop n (rq_Messages req)" by (simp add: drop_map comp_def chat_message_eta)
    then show ?thesis using out(1) by (auto simp: cut_of_def)
  next
    assume "\<exists>c\<ge>252. out = [(last (map ?f (rq_Messages req)))\<lparr>cl_Content := TrimToTokenBudget (cl_Content (last (map ?f (rq_Messages req)))) c\<rparr>]"
    then show ?thesis using assms by (auto simp: cut_of_def last_map)
  qed
  moreover have "cut_of (rq_Messages req) (rq_Messages req)" using assms by (auto simp: cut_of_def intro: exI [of _ 0])
  ultimately show ?thesis by (simp add: eq)
qed

lemma trimChatHistory_cut: "conv \<noteq> [] \<Longrightarrow> \<exists>n. trimChatHistory conv mx = drop n conv \<and> drop n conv \<noteq> []"
  by (auto simp: trimChatHistory_def intro: exI [of _ 0])

lemma chat_history_cut:
  assumes "rq_Messages req \<noteq> []"
  shows "cut_of (rq_Messages req) (rq_Messages (chat_history cfg budget req))"
proof -
  obtain n where n: "trimChatHistory (rq_Messages req) (HistoryMaxMessages (Some cfg)) = drop n (rq_Messages req)" "drop n (rq_Messages req) \<noteq> []"
    using trimChatHistory_cut [OF assms] by blast
  then show ?thesis
    using trimChatHistoryByTokens_cut [of "req\<lparr>rq_Messages := drop n (rq_Messages req)\<rparr>"] cut_of_drop [OF n(2)]
    by (simp add: chat_history_def Let_def)
qed

lemma EnrichContext_messages: "EnrichContextFromSearch index req s = (req', s') \<Longrightarrow> rq_Messages req' = rq_Messages req \<and> rq_Stream req' = rq_Stream req \<and> rq_Session req' = rq_Session req"
  by (auto simp: EnrichContextFromSearch_def Let_def split: option.splits sum.splits prod.splits if_splits)

lemma chat_history_fields [simp]:
  "rq_Stream (chat_history cfg b req) = rq_Stream req" "rq_Session (chat_history cfg b req) = rq_Session req"
  by (simp_all add: chat_history_def Let_def)

lemma conversation_question:
  assumes "sessions_inv h" and "rq_Messages req \<noteq> []" and "dm_Role (last (rq_Messages req)) = ''user''"
  shows "conversation env req h \<noteq> [] \<and> dm_Role (last (conversation env req h)) = ''user''
    \<and> dm_Content (last (conversation env req h)) = dm_Content (last (rq_Messages req))"
proof (cases "h_chatSessions h")
  case (Some st)
  have "ResolveSessionID (ce_uuid env) (Some req) \<noteq> []"
    by (simp add: ResolveSessionID_def Let_def split: option.split)
  then show ?thesis
    using session_Merge_question [of st "ResolveSessionID (ce_uuid env) (Some req)" "rq_Messages req"] assms Some
    by (simp add: conversation_def sessions_inv_def)
qed (use assms in \<open>simp add: conversation_def\<close>)

text \<open>The messages of the handler: at most two of the system, then the history.\<close>

definition asked :: "time \<Rightarrow> ChatMessage list \<Rightarrow> messages \<Rightarrow> bool" where
  "asked now hist ms \<longleftrightarrow> (\<exists>sys. length sys \<le> 2 \<and> (\<forall>c\<in>set sys. c \<noteq> []) \<and>
     ms = map (\<lambda>c. Some (runner_message now MessageRoleSystem c)) sys
        @ map (\<lambda>m. Some (runner_message now (FromProtoRole (dm_Role m)) (dm_Content m))) hist)"

lemma RunnerMessages_asked: "asked now hist (fst (RunnerMessages key now system hist editor ctx b scan cache))"
proof -
  obtain p c where "context_prompt key system editor ctx b scan cache = (p, c)" by (cases "context_prompt key system editor ctx b scan cache")
  then show ?thesis
    by (auto simp: RunnerMessages_def Let_def asked_def
        intro: exI [of _ "(if TrimSpace system \<noteq> [] then [TrimSpace system] else []) @ (if p \<noteq> [] then [p] else [])"])
qed

lemma chat_prepare_asks:
  assumes "chat_prepare env req h = (p, h1)"
  shows "asked (ce_now_messages env) (rq_Messages (pr_req p)) (rcl_messages (pr_call p))
    \<and> (\<exists>req' budget. rq_Messages req' = conversation env req h \<and> pr_req p = chat_history (h_cfg h) budget req')
    \<and> pr_sessionID p = (if h_chatSessions h = None then [] else ResolveSessionID (ce_uuid env) (Some req))
    \<and> rq_Stream (pr_req p) = rq_Stream req"
proof -
  define sid where "sid = (if h_chatSessions h = None then [] else ResolveSessionID (ce_uuid env) (Some req))"
  define req1 where "req1 = (if h_chatSessions h = None then req
      else req\<lparr>rq_Messages := session_Merge sid (rq_Messages req) (h_chatSessions h)\<rparr>)"
  obtain req2 s where e: "EnrichContextFromSearch (ce_index env) req1 (h_llm h) = (req2, s)"
    by (cases "EnrichContextFromSearch (ce_index env) req1 (h_llm h)")
  define r where "r = chat_history (h_cfg h) (EffectiveContextTokenBudget (MaxContextTokens (ChatHints s)) (Some (h_cfg h))) req2"
  obtain useMCP h2 where l: "loop_Enabled env r (h\<lparr>h_llm := s\<rparr>) = (useMCP, h2)" by (cases "loop_Enabled env r (h\<lparr>h_llm := s\<rparr>)")
  obtain ms cache where m: "RunnerMessages (ce_key env) (ce_now_messages env) (chatSystemPrompt (ce_quote env) r useMCP (h_mcp h2)) (rq_Messages r)
      (rq_Editor r) (rq_Context r) (EffectiveContextTokenBudget (MaxContextTokens (ChatHints s)) (Some (h_cfg h)))
      (ContextScanSecrets (Some (h_cfg h))) (h_prefixCache h2) = (ms, cache)" by fastforce
  have "asked (ce_now_messages env) (rq_Messages r) ms" using RunnerMessages_asked m by (metis fst_conv)
  moreover have "rq_Messages req2 = conversation env req h" "rq_Stream req2 = rq_Stream req"
    using EnrichContext_messages [OF e] by (simp_all add: req1_def sid_def conversation_def)
  moreover have "pr_req p = r" "rcl_messages (pr_call p) = ms"
      "pr_sessionID p = sid"
    using assms e l m by (simp_all add: chat_prepare_def Let_def flip: sid_def req1_def r_def) auto
  ultimately show ?thesis by (auto simp: r_def sid_def)
qed

section \<open>The way of a request\<close>

lemma validateChatRequest_None:
  "validateChatRequest req = None \<longleftrightarrow>
     rq_Stream req \<noteq> None \<and> rq_System req \<noteq> None \<and> rq_Messages req \<noteq> [] \<and> dm_Role (last (rq_Messages req)) = ''user''"
  by (simp add: validateChatRequest_def)

lemma chat_admit_valid: "chat_admit env req h = (None, h1) \<Longrightarrow> validateChatRequest req = None"
  by (simp add: chat_admit_def Let_def split: option.splits)

text \<open>What follows the preparation of an admitted request.\<close>

definition chat_run :: "chat_env \<Rightarrow> string \<Rightarrow> prepared_chat \<Rightarrow> Handler \<Rightarrow> chat_reply \<times> Handler" where
  "chat_run env rid p h = (if pr_mcp p then runChatWithMCPTools env rid p h else chat_send env rid p h)"

lemma handleChat_refused:
  assumes "handleChat env meth body h = (r, None, h')"
  shows "same_chats h h' \<and>
    ((\<exists>status code msg. r = ErrorReply status code msg \<and> 400 \<le> status) \<or> (\<exists>status text. r = Replayed status text))"
proof (cases "meth = ''POST'' \<and> body \<noteq> None")
  case True
  then obtain req where body: "body = Some req" by auto
  obtain a h1 where ad: "chat_admit env req h = (a, h1)" by (cases "chat_admit env req h")
  obtain x where a: "a = Some x" "r = x" "h' = h1"
    using assms True by (auto simp: handleChat_def body ad Let_def split: option.splits prod.splits)
  obtain refused s where e: "ensureRunnerReady env (h_llm h) = (refused, s)" by (cases "ensureRunnerReady env (h_llm h)")
  have "refused = None \<or> (\<exists>msg. refused = Some (ErrorReply 503 ''service_unavailable'' msg))"
    using e by (auto simp: ensureRunnerReady_def split: prod.splits option.splits if_splits)
  then have "(\<exists>status code msg. x = ErrorReply status code msg \<and> 400 \<le> status) \<or> (\<exists>status text. x = Replayed status text)"
    using ad a(1) by (auto simp: chat_admit_def Let_def e split: prod.splits option.splits if_splits)
  then show ?thesis using chat_admit_frame [of h env req] ad a by simp
qed (use assms in \<open>auto simp: handleChat_def split: option.splits if_splits prod.splits\<close>)

lemma handleChat_asked:
  assumes "handleChat env meth body h = (r, Some call, h')"
  obtains req h1 p h2 where "body = Some req" "meth = ''POST''" "validateChatRequest req = None"
    "chat_admit env req h = (None, h1)" "same_chats h h1"
    "chat_prepare env req h1 = (p, h2)" "call = pr_call p"
    "chat_run env (resolveRequestID (ce_requestID env) (rq_RequestID req)) p h2 = (r, h')"
proof -
  obtain req where req: "body = Some req" "meth = ''POST''"
    using assms by (auto simp: handleChat_def split: option.splits if_splits)
  obtain a h1 where ad: "chat_admit env req h = (a, h1)" by (cases "chat_admit env req h")
  then have a: "a = None" using assms req by (auto simp: handleChat_def split: option.splits)
  obtain p h2 where p: "chat_prepare env req h1 = (p, h2)" by (cases "chat_prepare env req h1")
  obtain r1 h3 where r1: "chat_run env (resolveRequestID (ce_requestID env) (rq_RequestID req)) p h2 = (r1, h3)"
    by (cases "chat_run env (resolveRequestID (ce_requestID env) (rq_RequestID req)) p h2")
  have "r1 = r \<and> call = pr_call p \<and> h3 = h'"
    using assms r1 by (simp add: handleChat_def req ad a p chat_run_def [symmetric] Let_def)
  then show ?thesis
    using that [OF req _ _ _ p] chat_admit_valid ad a chat_admit_frame [of h env req] r1 by simp
qed

lemma same_chats_conversation: "same_chats h h1 \<Longrightarrow> conversation env req h1 = conversation env req h"
  by (simp add: same_chats_def conversation_def)

section \<open>What reaches the runner\<close>



section \<open>What an answered request leaves\<close>

text \<open>The conversations, the stored answers and the configuration of a handler.\<close>

definition kept :: "Handler \<Rightarrow> AppConfig \<times> ChatSessionStore option \<times> IdempotencyStore option" where
  "kept h = (h_cfg h, h_chatSessions h, h_idempotency h)"

lemma kept_simps [simp]:
  "kept (recordChatOK h) = kept h" "kept (recordChatErr h) = kept h" "kept (recordTokenUsage off now pt ct h) = kept h"
  "kept (record_stream_usage env u h) = kept h" "kept (h\<lparr>h_llm := s\<rparr>) = kept h" "kept (h\<lparr>h_mcp := r\<rparr>) = kept h"
  "kept (h\<lparr>h_prefixCache := c\<rparr>) = kept h" "kept (h\<lparr>h_jobs := j\<rparr>) = kept h"
  by (simp_all add: kept_def recordChatOK_def recordChatErr_def recordTokenUsage_def record_stream_usage_def split: option.split)

lemma collect_answer_kept [simp]: "kept (snd (collect_answer env i cks r h)) = kept h"
  by (induction cks arbitrary: i r h) (simp_all split: option.split)

lemma collect_answer_content: "cr_Content (fst (collect_answer env i cks r h)) = cr_Content r @ concat (map ch_Content cks)"
  by (induction cks arbitrary: i r h) simp_all

lemma run_loop_kept: "run_loop env p h = (x, h1) \<Longrightarrow> kept h1 = kept h"
  by (auto simp: run_loop_def Let_def kept_def split: prod.splits)

lemma mapRunnerErrorWithQueue_Answered: "fst (mapRunnerErrorWithQueue env e kind rid req h) \<noteq> Answered resp"
  by (auto simp: mapRunnerErrorWithQueue_def mapRunnerError_def tryEnqueueOnOverload_def split: prod.split option.split sum.split)

lemma chat_prepare_kept: "chat_prepare env req h = (p, h1) \<Longrightarrow> kept h1 = kept h"
  by (auto simp: chat_prepare_def loop_Enabled_def Let_def kept_def split: prod.splits if_splits)

text \<open>Both ways to an answer store it for the session and for the id of the request.\<close>

definition chat_answered :: "chat_env \<Rightarrow> string \<Rightarrow> prepared_chat \<Rightarrow> HttpChatResponse \<Rightarrow> Handler \<Rightarrow> Handler \<Rightarrow> bool" where
  "chat_answered env rid p resp h h' \<longleftrightarrow>
     hr_SessionID resp = pr_sessionID p \<and> dm_Role (hr_Message resp) = ''assistant'' \<and>
     kept h' = kept (put_idempotent env rid resp
       (persistChatSession (ce_now_record env) (pr_sessionID p) (rq_Messages (pr_req p)) (dm_Content (hr_Message resp)) h))"

lemma kept_put_idempotent: "kept h = kept h' \<Longrightarrow> kept (put_idempotent env rid resp h) = kept (put_idempotent env rid resp h')"
  by (auto simp: put_idempotent_def kept_def)

lemma kept_persist: "kept h = kept h' \<Longrightarrow> kept (persistChatSession now sid prior a h) = kept (persistChatSession now sid prior a h')"
  by (auto simp: persistChatSession_def kept_def Let_def)

lemma answer_chat_answered:
  assumes "answer_chat env rid (pr_sessionID p) (rq_Messages (pr_req p)) cks h = (Answered resp, h')"
  shows "chat_answered env rid p resp h h'"
proof -
  obtain r h1 where c: "collect_answer env 0 cks no_answer h = (r, h1)" by (cases "collect_answer env 0 cks no_answer h")
  then have "kept h1 = kept h" by (metis collect_answer_kept snd_conv)
  then show ?thesis
    using assms c
    by (auto simp: answer_chat_def Let_def chat_answered_def chat_response_def intro!: kept_put_idempotent intro: kept_persist)
qed

lemma chat_run_answered:
  assumes "chat_run env rid p h = (Answered resp, h')"
  shows "chat_answered env rid p resp h h'"
proof (cases "pr_mcp p")
  case True
  obtain e st h1 where l: "run_loop env p h = ((e, st), h1)" by (cases "run_loop env p h") auto
  have "\<not> the (rq_Stream (pr_req p))"
  proof
    assume "the (rq_Stream (pr_req p))"
    then show False using assms True
      by (auto simp: chat_run_def runChatWithMCPTools_def writeChatMCPLoopSSE_def Let_def split: prod.splits option.splits chat_end.splits if_splits)
  qed
  then show ?thesis
    using assms True l run_loop_kept [OF l]
    by (cases e) (auto simp: chat_run_def runChatWithMCPTools_def Let_def chat_answered_def chat_response_def
        dest: arg_cong [of _ _ fst] simp: mapRunnerErrorWithQueue_Answered intro!: kept_put_idempotent intro: kept_persist)
next
  case False
  obtain o1 s where sm: "SendMessageWithMeta (ce_send env (pr_call p)) (h_llm h) = (o1, s)" by (cases "SendMessageWithMeta (ce_send env (pr_call p)) (h_llm h)")
  have k: "kept (h\<lparr>h_llm := s\<rparr>) = kept h" by simp
  show ?thesis
  proof (cases o1)
    case (Streaming x)
    then show ?thesis
      using assms False sm answer_chat_answered [of env rid p "ce_stream env (pr_call p)" "h\<lparr>h_llm := s\<rparr>" resp h']
        kept_put_idempotent [OF kept_persist [OF k]]
      by (auto simp: chat_run_def chat_send_def Let_def writeRunnerSSE_def chat_answered_def split: prod.splits option.splits if_splits)
  next
    case (Failed e)
    then show ?thesis using assms False sm mapRunnerErrorWithQueue_Answered [of env "llm_error_view env e" "''chat''" rid "pr_req p" _ resp]
      by (auto simp: chat_run_def chat_send_def Let_def mapRunnerError_def split: prod.splits if_splits dest: arg_cong [of _ _ fst])
  next
    case Waiting
    then show ?thesis using assms False sm by (simp add: chat_run_def chat_send_def)
  qed
qed

section \<open>A sample server\<close>

text \<open>One runner that is known and has a model loaded, and a request for it.\<close>

definition warm_llm :: Service where
  "warm_llm = \<lparr>ll_pool = (NewPool [(''a'', sample_runner 1 ''a'' True None)])
       \<lparr>pl_clients := [''a''], pl_inflight := [''a'' \<mapsto> 0], pl_counters := [0]\<rparr>,
     ll_breaker = None, ll_retries = 2, ll_streams = sse_NewRegistry 0, ll_queue = None\<rparr>"

definition warm_send :: send_env where
  "warm_send = \<lparr>se_wait = live_env, se_now = (\<lambda>_. 0), se_backend = (\<lambda>_. sample_backend True 0), se_sent = (\<lambda>_. None),
     se_fail1 = (\<lambda>_. 1), se_fail2 = (\<lambda>_. 1), se_ended = (\<lambda>_. False), se_pick = sample_env True 0, se_pick_sent = (\<lambda>_. None)\<rparr>"

definition text_chunk :: "string \<Rightarrow> LLMStreamChunk" where
  "text_chunk t = \<lparr>ch_Content = t, ch_ReasoningContent = [], ch_Usage = None\<rparr>"

definition idle_world :: chat_world where
  "idle_world = \<lparr>cx_tools = Inr [], cx_runner = Inr [], cx_gone = (\<lambda>_. None),
     cx_rounds = (\<lambda>_. \<lparr>cw_answer = Inl [], cw_begin = id, cw_length = id, cw_ended = (\<lambda>_. False), cw_sees_abort = (\<lambda>_. False),
        cw_execute = (\<lambda>_ _ _. ([], None))\<rparr>), cx_ctx_error = ([], False), cx_takes = (\<lambda>_. True), cx_num = (\<lambda>_. None)\<rparr>"

definition warm_env :: chat_env where
  "warm_env = \<lparr>ce_requestID = ''r'', ce_uuid = ''u'', ce_off = 0, ce_now_get = 0, ce_now_quota = 0, ce_now_messages = 0,
     ce_now_usage = (\<lambda>_. 0), ce_now_record = 0, ce_now_put = 0, ce_conn = (\<lambda>_. sample_backend True 0), ce_ready_now = (\<lambda>_. 0),
     ce_ready = (\<lambda>_. sample_backend True 0), ce_index = None, ce_key = (\<lambda>s e x b c. s), ce_quote = (\<lambda>t. t),
     ce_order = (\<lambda>_ ms. ms), ce_list_tools = (\<lambda>_ _. Inr []), ce_send = (\<lambda>_. warm_send),
     ce_stream = (\<lambda>_. [text_chunk ''hi '', text_chunk ''you'']), ce_gone = False, ce_loop = (\<lambda>_. idle_world),
     ce_loop_llm = id, ce_loop_events = [], ce_loop_error = (\<lambda>_. (False, False, [])), ce_error_text = (\<lambda>_. []),
     ce_job = good_env 0, ce_job_uuid = ''j'', ce_job_body = (\<lambda>_. Some []), ce_job_error_text = (\<lambda>_. [])\<rparr>"

definition warm_handler :: Handler where
  "warm_handler = \<lparr>h_cfg = no_config\<lparr>c_ModerationEnabled := Some False\<rparr>, h_llm = warm_llm, h_chatSessions = Some (NewChatSessionStore 0), h_maxRounds = 5, h_mcp = None,
     h_quota = None, h_idempotency = Some (idem_New 0), h_prefixCache = None, h_jobs = None, h_metrics = Some NewMetrics\<rparr>"

definition ask :: "string \<Rightarrow> ChatRequest" where
  "ask q = \<lparr>rq_RequestID = None, rq_Stream = Some False, rq_System = Some ''s'', rq_Messages = [\<lparr>dm_Role = ''user'', dm_Content = q\<rparr>],
     rq_Editor = None, rq_Context = None, rq_Search = None, rq_Session = None, rq_Generate = None\<rparr>"

lemma warm_trims: "TrimSpace ''a'' = ''a''" "TrimSpace ''hi you'' \<noteq> []" "TrimSpace ''chat-u'' = ''chat-u''"
  by (simp_all add: TrimSpace_eval)

lemmas warm_defs = warm_llm_def NewPool_def GetEnabledAddresses_def sample_runner_def getClient_def sample_backend_def warm_trims(1)

lemma warm_sends: "(case SendMessageWithMeta warm_send warm_llm of (Streaming x, s) \<Rightarrow> RunnerAttempts (fst x) = 0 | _ \<Rightarrow> False)"
  by (simp add: SendMessageWithMeta_def with_slot_def warm_defs queue_Acquire_def sendMessageWithRetry_def eligibleRunners_def
      breaker_Allow_def attempts_of_def warm_send_def SendMessageOnRunner_def start_request_def getOrCreateInflight_def Let_def
      RequireChatModelLoaded_def svc_GetLoadedModel_def rpc_def is_loaded_def numeral_eq_Suc)

lemma warm_ready: "ensureRunnerReady warm_env warm_llm = (None, warm_llm)"
  by (simp add: ensureRunnerReady_def llm_CheckConnection_def on_pool_def pool_CheckConnection_def warm_defs warm_env_def
      svc_CheckConnection_def svc_RunnerProbe_def rpc_def ModelReady_def RequireChatModelLoaded_def svc_GetLoadedModel_def
      is_loaded_def breaker_Allow_def Let_def)

lemma warm_fields:
  "h_llm warm_handler = warm_llm" "h_quota warm_handler = None" "h_cfg warm_handler = no_config\<lparr>c_ModerationEnabled := Some False\<rparr>"
  "h_idempotency warm_handler = Some (idem_New 0)" "h_chatSessions warm_handler = Some (NewChatSessionStore 0)"
  "h_mcp warm_handler = None" "h_prefixCache warm_handler = None" "warm_handler\<lparr>h_llm := warm_llm\<rparr> = warm_handler"
  "ce_requestID warm_env = ''r''" "ce_now_get warm_env = 0" "ce_uuid warm_env = ''u''" "ce_index warm_env = None" "ce_gone warm_env = False"
  "ce_send warm_env c = warm_send" "ce_stream warm_env c = [text_chunk ''hi '', text_chunk ''you'']"
  by (simp_all add: warm_handler_def warm_env_def)

lemma warm_admits: "chat_admit warm_env (ask ''q'') warm_handler = (None, warm_handler)"
proof -
  have "validateChatRequest (ask ''q'') = None" by (simp add: validateChatRequest_def ask_def)
  moreover have "idem_Get 0 k (Some (idem_New 0)) = (0, [], False)" for k by (simp add: idem_Get_def idem_New_def)
  ultimately show ?thesis
    by (simp add: chat_admit_def Let_def ModerationEnabled_def warm_fields warm_ready checkTokenQuota_def)
qed

lemma warm_inv: "sessions_inv warm_handler"
  by (simp add: sessions_inv_def warm_fields session_store_inv_New)

text \<open>The request is answered by what the stream brought.\<close>

lemma warm_answer:
  obtains call resp h1 where "handleChat warm_env ''POST'' (Some (ask ''q'')) warm_handler = (Answered resp, Some call, h1)"
    "hr_SessionID resp = ''chat-u''" "dm_Content (hr_Message resp) = ''hi you''"
proof -
  obtain p h2 where p: "chat_prepare warm_env (ask ''q'') warm_handler = (p, h2)" by (cases "chat_prepare warm_env (ask ''q'') warm_handler")
  have f: "pr_mcp p = False" "h_llm h2 = warm_llm" "pr_sessionID p = ''chat-u''" "the (rq_Stream (pr_req p)) = False"
    using p chat_prepare_asks [OF p]
    by (auto simp: chat_prepare_def Let_def warm_fields loop_Enabled_def mcp_Enabled_def EnrichContextFromSearch_def
        ResolveSessionID_def ask_def split: prod.splits option.splits)
  obtain x s where sm: "SendMessageWithMeta warm_send warm_llm = (Streaming x, s)"
    using warm_sends by (auto split: prod.splits send_result.splits)
  obtain meta st where x: "x = (meta, st)" by (cases x)
  obtain r h3 where c: "collect_answer warm_env 0 [text_chunk ''hi '', text_chunk ''you''] no_answer (h2\<lparr>h_llm := s\<rparr>) = (r, h3)"
    by (cases "collect_answer warm_env 0 [text_chunk ''hi '', text_chunk ''you''] no_answer (h2\<lparr>h_llm := s\<rparr>)")
  then have "cr_Content r = ''hi you''"
    using collect_answer_content [of warm_env 0 "[text_chunk ''hi '', text_chunk ''you'']" no_answer "h2\<lparr>h_llm := s\<rparr>"]
    by (simp add: no_answer_def text_chunk_def)
  then show ?thesis
    using that [of "chat_response ''chat-u'' ''hi you'' (cr_Reasoning r) (cr_Usage r)" "pr_call p"] p f sm x c
    by (simp add: handleChat_def warm_admits chat_send_def Let_def warm_fields answer_chat_def chat_response_def del: collect_answer.simps)
qed



section \<open>Replay\<close>



section \<open>A conversation goes on\<close>

lemma trimChatSessionMessages_again:
  "0 < m \<Longrightarrow> trimChatSessionMessages (trimChatSessionMessages xs m @ [q]) m = trimChatSessionMessages (xs @ [q]) m"
  by (auto simp: trimChatSessionMessages_def nat_le_iff Suc_diff_le)

text \<open>
  C3: After an answer the session holds what the runner was shown, followed by the answer, cut to the newest
  messages, and no other session has changed; a next request that names the session and brings only its new
  question is therefore worked on with exactly that conversation and the question.
\<close>

theorem session_continues:
  assumes "handleChat env meth (Some req) h = (Answered resp, Some call, h1)" and "sessions_inv h"
    and "h_chatSessions h = Some st" and "2 \<le> ct_maxMessages st" and "TrimSpace (dm_Content (hr_Message resp)) \<noteq> []"
    and "rq_Messages req2 = [q]" and "dm_Role q = ''user''" and "ResolveSessionID (ce_uuid env2) (Some req2) = hr_SessionID resp"
  shows "\<exists>hist. asked (ce_now_messages env) hist (rcl_messages call) \<and>
     session_Get (hr_SessionID resp) (h_chatSessions h1) = Some (trimChatSessionMessages (hist @ [hr_Message resp]) (ct_maxMessages st)) \<and>
     conversation env2 req2 h1 = trimChatSessionMessages (hist @ [hr_Message resp, q]) (ct_maxMessages st) \<and>
     (\<forall>k. k \<noteq> hr_SessionID resp \<longrightarrow> session_Get k (h_chatSessions h1) = session_Get k (h_chatSessions h))"
proof -
  obtain h0 p h2 where w: "validateChatRequest req = None" "same_chats h h0" "chat_prepare env req h0 = (p, h2)" "call = pr_call p"
      "chat_run env (resolveRequestID (ce_requestID env) (rq_RequestID req)) p h2 = (Answered resp, h1)"
    using handleChat_asked [OF assms(1)] by (metis option.inject)
  define hist where "hist = rq_Messages (pr_req p)"
  obtain req' budget where r: "rq_Messages req' = conversation env req h0" "pr_req p = chat_history (h_cfg h0) budget req'"
      "asked (ce_now_messages env) hist (rcl_messages call)" "pr_sessionID p = ResolveSessionID (ce_uuid env) (Some req)"
    using chat_prepare_asks [OF w(3)] w(2,4) assms(3) by (auto simp: hist_def same_chats_def)
  have "conversation env req h \<noteq> []"
    using conversation_question [OF assms(2), of req env] w(1) by (auto simp: validateChatRequest_None)
  then have ne: "hist \<noteq> []"
    using chat_history_cut [of req'] r(1,2) by (auto simp: hist_def cut_of_def same_chats_conversation [OF w(2)])
  have an: "hr_SessionID resp = pr_sessionID p" "dm_Role (hr_Message resp) = ''assistant''"
      "h_chatSessions h1 = session_Record (ce_now_record env) (hr_SessionID resp) (hist @ [hr_Message resp]) (Some st)"
  proof -
    have sid: "pr_sessionID p \<noteq> []" by (simp add: r(4) ResolveSessionID_def Let_def split: option.split)
    have st: "h_chatSessions h2 = Some st"
      using chat_prepare_kept [OF w(3)] w(2) assms(3) by (simp add: kept_def same_chats_def)
    have c: "chat_answered env (resolveRequestID (ce_requestID env) (rq_RequestID req)) p resp h2 h1" by (rule chat_run_answered [OF w(5)])
    then show 1: "hr_SessionID resp = pr_sessionID p" and 2: "dm_Role (hr_Message resp) = ''assistant''" by (simp_all add: chat_answered_def)
    have "hr_Message resp = \<lparr>dm_Role = ''assistant'', dm_Content = dm_Content (hr_Message resp)\<rparr>" using 2 by simp
    then show "h_chatSessions h1 = session_Record (ce_now_record env) (hr_SessionID resp) (hist @ [hr_Message resp]) (Some st)"
      using c sid st assms(5) 1
      by (simp add: chat_answered_def kept_def put_idempotent_def persistChatSession_def Let_def hist_def split: if_splits)
  qed
  have inv: "session_store_inv st" using assms(2,3) by (simp add: sessions_inv_def)
  then have pos: "0 < ct_maxMessages st" by (simp add: session_store_inv_def)
  have sid: "hr_SessionID resp \<noteq> []" by (simp add: an(1) r(4) ResolveSessionID_def Let_def split: option.split)
  have get: "session_Get k (h_chatSessions h1) = (if k = hr_SessionID resp
      then Some (trimChatSessionMessages (hist @ [hr_Message resp]) (ct_maxMessages st)) else session_Get k (h_chatSessions h))" for k
    unfolding an(3) using session_Get_Record [OF sid, of "hist @ [hr_Message resp]" st k] pos assms(3) by simp
  obtain st1 where st1: "h_chatSessions h1 = Some st1" "session_store_inv st1" "ct_maxMessages st1 = ct_maxMessages st"
    using session_store_inv_Record [OF inv] an(3) by metis
  define stored where "stored = trimChatSessionMessages (hist @ [hr_Message resp]) (ct_maxMessages st)"
  have l: "1 < length stored" "last stored = hr_Message resp"
    using ne assms(4) trimChatSessionMessages_props(2) [OF pos, of "hist @ [hr_Message resp]"]
    by (cases hist, auto simp: stored_def trimChatSessionMessages_def)
  have "session_Merge (hr_SessionID resp) [q] (Some st1) = trimChatSessionMessages (stored @ [last [q]]) (ct_maxMessages st1)"
    using session_Merge_continues [OF st1(2), of "hr_SessionID resp" stored "[q]"] get [of "hr_SessionID resp"] l assms(7) an(2) st1(1)
    by (simp add: stored_def)
  also have "\<dots> = trimChatSessionMessages (hist @ [hr_Message resp, q]) (ct_maxMessages st)"
    using trimChatSessionMessages_again [OF pos, of "hist @ [hr_Message resp]" q] by (simp add: stored_def st1(3))
  finally have "conversation env2 req2 h1 = \<dots>" using assms(6,8) st1(1) by (simp add: conversation_def)
  then show ?thesis using r(3) get by auto
qed

theorem session_continues_witness:
  "\<exists>hist (resp :: HttpChatResponse) h1. dm_Content (hr_Message resp) = ''hi you'' \<and>
     conversation warm_env ((ask ''so?'')\<lparr>rq_Session := Some \<lparr>sn_SessionID = ''chat-u'', sn_StopSequences = [], sn_Temperature = None,
         sn_MCPEnabled = None, sn_MCPServerIDs = [], sn_TimeoutSeconds = None\<rparr>\<rparr>) h1
       = trimChatSessionMessages (hist @ [hr_Message resp, \<lparr>dm_Role = ''user'', dm_Content = ''so?''\<rparr>]) 200"
proof -
  let ?req2 = "(ask ''so?'')\<lparr>rq_Session := Some \<lparr>sn_SessionID = ''chat-u'', sn_StopSequences = [], sn_Temperature = None,
         sn_MCPEnabled = None, sn_MCPServerIDs = [], sn_TimeoutSeconds = None\<rparr>\<rparr>"
  obtain call resp h1 where w: "handleChat warm_env ''POST'' (Some (ask ''q'')) warm_handler = (Answered resp, Some call, h1)"
      "hr_SessionID resp = ''chat-u''" "dm_Content (hr_Message resp) = ''hi you''"
    by (rule warm_answer) blast
  have "\<exists>hist. asked (ce_now_messages warm_env) hist (rcl_messages call) \<and>
     session_Get (hr_SessionID resp) (h_chatSessions h1) = Some (trimChatSessionMessages (hist @ [hr_Message resp]) (ct_maxMessages (NewChatSessionStore 0))) \<and>
     conversation warm_env ?req2 h1 = trimChatSessionMessages (hist @ [hr_Message resp, \<lparr>dm_Role = ''user'', dm_Content = ''so?''\<rparr>]) (ct_maxMessages (NewChatSessionStore 0)) \<and>
     (\<forall>k. k \<noteq> hr_SessionID resp \<longrightarrow> session_Get k (h_chatSessions h1) = session_Get k (h_chatSessions warm_handler))"
    by (rule session_continues [OF w(1) warm_inv warm_fields(5)])
      (use warm_trims w in \<open>simp_all add: NewChatSessionStore_def ask_def ResolveSessionID_def\<close>)
  then obtain hist where hist: "conversation warm_env ?req2 h1
      = trimChatSessionMessages (hist @ [hr_Message resp, \<lparr>dm_Role = ''user'', dm_Content = ''so?''\<rparr>]) (ct_maxMessages (NewChatSessionStore 0))"
    by blast
  have m: "ct_maxMessages (NewChatSessionStore 0) = 200" by (simp add: NewChatSessionStore_def)
  show ?thesis using hist [unfolded m] w(3) by blast
qed

section \<open>What a chat is charged\<close>

text \<open>The usages of a stream, with the number of the reading of the clock at which each is recorded.\<close>

fun usages :: "nat \<Rightarrow> LLMStreamChunk list \<Rightarrow> (nat \<times> StreamTokenUsage) list" where
  "usages i [] = []"
| "usages i (c # cs) = (case ch_Usage c of None \<Rightarrow> [] | Some u \<Rightarrow> [(i, u)]) @ usages (Suc i) cs"

definition charged :: "chat_env \<Rightarrow> chat_reply \<Rightarrow> LLMStreamChunk list \<Rightarrow> (nat \<times> StreamTokenUsage) list" where
  "charged env r cks =
     (case r of
        Answered resp \<Rightarrow> usages 0 cks
      | StreamReply evs \<Rightarrow> if ce_gone env \<or> usages 0 cks = [] then [] else [(0, snd (last (usages 0 cks)))]
      | _ \<Rightarrow> [])"

text \<open>What has been charged: the quota and the counters of tokens.\<close>

definition account :: "Handler \<Rightarrow> Quota option \<times> (int \<times> int) option" where
  "account h = (h_quota h, map_option (\<lambda>m. (mt_TokensPrompt m, mt_TokensCompletion m)) (h_metrics h))"

text \<open>A usage is added to the counters and recorded in the quota, at the given reading of the clock.\<close>

definition account_add ::
  "chat_env \<Rightarrow> nat \<times> StreamTokenUsage \<Rightarrow> Quota option \<times> (int \<times> int) option \<Rightarrow> Quota option \<times> (int \<times> int) option" where
  "account_add env iu a =
     (let pt = su_PromptTokens (snd iu); ct = su_CompletionTokens (snd iu) in
      (quota_Record (ce_off env) (ce_now_usage env (fst iu)) (word_of_int (pt + ct)) (fst a),
       map_option (\<lambda>(p, c). (p + max 0 pt, c + max 0 ct)) (snd a)))"

lemma account_simps [simp]:
  "account (recordChatOK h) = account h" "account (recordChatErr h) = account h" "account (h\<lparr>h_llm := s\<rparr>) = account h"
  "account (h\<lparr>h_jobs := j\<rparr>) = account h" "account (put_idempotent env rid resp h) = account h"
  "account (persistChatSession now sid prior a h) = account h"
  by (auto simp: account_def recordChatOK_def recordChatErr_def put_idempotent_def persistChatSession_def Let_def
      option.map_comp comp_def)

lemma account_record:
  "account (recordTokenUsage (ce_off env) (ce_now_usage env i) (su_PromptTokens u) (su_CompletionTokens u) h) = account_add env (i, u) (account h)"
proof -
  have "h_quota h = None \<Longrightarrow> quota_Record off now n (h_quota h) = None" for off now n by (simp add: quota_Record_def)
  then show ?thesis
    by (cases "h_metrics h") (auto simp: account_def account_add_def recordTokenUsage_def RecordTokens_def Let_def)
qed

lemma collect_answer_charges: "account (snd (collect_answer env i cks r h)) = fold (account_add env) (usages i cks) (account h)"
  by (induction cks arbitrary: i r h) (simp_all add: account_record split: option.split)

text \<open>A stream of chunks is a list of events, beside what it collects.\<close>

definition chunk_events :: "LLMStreamChunk list \<Rightarrow> (string \<times> string) list" where
  "chunk_events cks = concat (map (\<lambda>c.
     (if ch_ReasoningContent c \<noteq> [] then [(''reasoning'', text_data (ch_ReasoningContent c))] else []) @
     (if ch_Content c \<noteq> [] then [(''delta'', text_data (ch_Content c))] else [])) cks)"

lemma sse_emit_other:
  "sse_emit e d (w\<lparr>sw_usage := u\<rparr>) = map_option (\<lambda>w. w\<lparr>sw_usage := u\<rparr>) (sse_emit e d w)"
  "sse_emit e d (w\<lparr>sw_full := f\<rparr>) = map_option (\<lambda>w. w\<lparr>sw_full := f\<rparr>) (sse_emit e d w)"
  "sse_emit e d w = Some w1 \<Longrightarrow> sw_usage w1 = sw_usage w \<and> sw_full w1 = sw_full w"
  by (auto simp: sse_emit_def Let_def split: option.splits)

lemma emit_all_other:
  "emit_all evs (w\<lparr>sw_usage := u\<rparr>) = map_option (\<lambda>w. w\<lparr>sw_usage := u\<rparr>) (emit_all evs w)"
  "emit_all evs (w\<lparr>sw_full := f\<rparr>) = map_option (\<lambda>w. w\<lparr>sw_full := f\<rparr>) (emit_all evs w)"
  by (induction evs w rule: emit_all.induct) (simp_all add: sse_emit_other(1,2) option.case_eq_if option.map_sel)

lemma emit_all_append: "emit_all (as @ bs) w = (case emit_all as w of None \<Rightarrow> None | Some w1 \<Rightarrow> emit_all bs w1)"
  by (induction as w rule: emit_all.induct) (auto split: option.split)

definition last_usage :: "StreamTokenUsage option \<Rightarrow> LLMStreamChunk list \<Rightarrow> StreamTokenUsage option" where
  "last_usage u cks = (if usages 0 cks = [] then u else Some (snd (last (usages 0 cks))))"

lemma usages_shift: "map snd (usages i cks) = map snd (usages j cks)"
  by (induction cks arbitrary: i j) (simp_all split: option.split)

lemma last_usage_Cons: "last_usage u (c # cks) = last_usage (if ch_Usage c = None then u else ch_Usage c) cks"
proof -
  have "usages (Suc 0) cks = [] \<longleftrightarrow> usages 0 cks = []" using usages_shift [of "Suc 0" cks 0] by (metis map_is_Nil_conv)
  moreover have "usages 0 cks \<noteq> [] \<Longrightarrow> snd (last (usages (Suc 0) cks)) = snd (last (usages 0 cks))"
    using usages_shift [of "Suc 0" cks 0] calculation by (metis last_map)
  ultimately show ?thesis by (auto simp: last_usage_def split: option.split)
qed

lemma sse_chunks_emit_all:
  "sse_chunks cks w = map_option (\<lambda>w1. w1\<lparr>sw_usage := last_usage (sw_usage w) cks, sw_full := sw_full w @ concat (map ch_Content cks)\<rparr>)
     (emit_all (chunk_events cks) w)"
proof (induction cks arbitrary: w)
  case Nil
  then show ?case by (simp add: last_usage_def chunk_events_def)
next
  case (Cons c cs)
  define w0 where "w0 = (if ch_Usage c \<noteq> None then w\<lparr>sw_usage := ch_Usage c\<rparr> else w)"
  have w0: "w0 = w\<lparr>sw_usage := if ch_Usage c = None then sw_usage w else ch_Usage c\<rparr>" by (simp add: w0_def)
  have ev: "chunk_events (c # cs) =
     (if ch_ReasoningContent c \<noteq> [] then [(''reasoning'', text_data (ch_ReasoningContent c))] else []) @
     (if ch_Content c \<noteq> [] then [(''delta'', text_data (ch_Content c))] else []) @ chunk_events cs" by (simp add: chunk_events_def)
  obtain x where x: "x = (if ch_ReasoningContent c \<noteq> [] then sse_emit ''reasoning'' (text_data (ch_ReasoningContent c)) w else Some w)" by blast
  have x0: "(if ch_ReasoningContent c \<noteq> [] then sse_emit ''reasoning'' (text_data (ch_ReasoningContent c)) w0 else Some w0)
      = map_option (\<lambda>v. v\<lparr>sw_usage := if ch_Usage c = None then sw_usage w else ch_Usage c\<rparr>) x"
    by (simp add: w0 x sse_emit_other(1))
  show ?case
  proof (cases x)
    case None
    then show ?thesis using x by (simp add: ev Let_def sse_emit_other(1) split: if_splits)
  next
    case (Some v)
    then have v: "sw_usage v = sw_usage w" "sw_full v = sw_full w" using x sse_emit_other(3) by (auto split: if_splits)
    have all: "emit_all (chunk_events (c # cs)) w
        = (if ch_Content c = [] then emit_all (chunk_events cs) v
           else case sse_emit ''delta'' (text_data (ch_Content c)) v of None \<Rightarrow> None | Some v1 \<Rightarrow> emit_all (chunk_events cs) v1)"
      using x Some by (auto simp: ev split: if_splits option.split)
    have one: "sse_chunks (c # cs) w
        = (if ch_Content c = [] then sse_chunks cs (v\<lparr>sw_usage := if ch_Usage c = None then sw_usage w else ch_Usage c\<rparr>)
           else case sse_emit ''delta'' (text_data (ch_Content c)) v of None \<Rightarrow> None
             | Some v1 \<Rightarrow> sse_chunks cs (v1\<lparr>sw_usage := if ch_Usage c = None then sw_usage w else ch_Usage c, sw_full := sw_full w @ ch_Content c\<rparr>))"
    proof -
      have "sse_chunks (c # cs) w = (case map_option (\<lambda>v. v\<lparr>sw_usage := if ch_Usage c = None then sw_usage w else ch_Usage c\<rparr>) x of
          None \<Rightarrow> None
        | Some w2 \<Rightarrow>
            (if ch_Content c = [] then sse_chunks cs w2
             else
               case sse_emit ''delta'' (text_data (ch_Content c)) (w2\<lparr>sw_full := sw_full w2 @ ch_Content c\<rparr>) of
                 None \<Rightarrow> None
               | Some w3 \<Rightarrow> sse_chunks cs w3))"
        by (simp only: sse_chunks.simps Let_def w0_def [symmetric] x0)
      then show ?thesis using Some v by (simp add: sse_emit_other(1,2) option.case_eq_if option.map_sel)
    qed
    show ?thesis
      unfolding all one
      by (auto simp: Cons.IH emit_all_other option.map_comp comp_def last_usage_Cons v split: option.split)
  qed
qed



section \<open>What an event stream sends\<close>

fun numbered :: "int \<Rightarrow> (string \<times> string) list \<Rightarrow> SseEvent list" where
  "numbered i [] = []"
| "numbered i ((e, d) # evs) = \<lparr>ev_id = i + 1, ev_event = e, ev_data = d\<rparr> # numbered (i + 1) evs"

lemma map_ev_id_numbered: "map ev_id (numbered i evs) = [i + 1..i + int (length evs)]"
  by (induction i evs rule: numbered.induct) (simp_all add: upto_rec1 add.assoc)

lemma length_numbered [simp]: "length (numbered i evs) = length evs"
  by (induction i evs rule: numbered.induct) simp_all

lemma map_data_numbered: "map (\<lambda>e. (ev_event e, ev_data e)) (numbered i evs) = evs"
  by (induction i evs rule: numbered.induct) simp_all

lemma numbered_append: "numbered i (as @ bs) = numbered i as @ numbered (i + int (length as)) bs"
  by (induction i as rule: numbered.induct) (simp_all add: add.assoc add.left_commute)

text \<open>The session of a writer is sound and has recorded what was sent, after what it held.\<close>

definition writer_inv :: "SseEvent list \<Rightarrow> sse_writer \<Rightarrow> bool" where
  "writer_inv old w \<longleftrightarrow> (\<forall>ss. sw_session w = Some ss \<longrightarrow> session_inv ss \<and> events ss = old @ sw_sent w)"

lemma sse_emit_ok:
  assumes "writer_inv old w"
  shows "\<exists>w1. sse_emit e d w = Some w1 \<and> writer_inv old w1 \<and> sw_id w1 = sw_id w + 1
    \<and> sw_sent w1 = sw_sent w @ [\<lparr>ev_id = sw_id w + 1, ev_event = e, ev_data = d\<rparr>] \<and> (sw_session w1 = None \<longleftrightarrow> sw_session w = None)"
proof (cases "sw_session w")
  case None
  then show ?thesis by (simp add: sse_emit_def Let_def writer_inv_def)
next
  case (Some ss)
  then obtain s1 where "session_Append \<lparr>ev_id = sw_id w + 1, ev_event = e, ev_data = d\<rparr> ss = Some s1"
      "events s1 = events ss @ [\<lparr>ev_id = sw_id w + 1, ev_event = e, ev_data = d\<rparr>]" "session_inv s1"
    using session_Append_ok [of ss] assms by (auto simp: writer_inv_def)
  then show ?thesis using Some assms by (simp add: sse_emit_def Let_def writer_inv_def)
qed

lemma emit_all_ok:
  assumes "writer_inv old w"
  shows "\<exists>w1. emit_all evs w = Some w1 \<and> writer_inv old w1 \<and> sw_id w1 = sw_id w + int (length evs)
    \<and> sw_sent w1 = sw_sent w @ numbered (sw_id w) evs \<and> (sw_session w1 = None \<longleftrightarrow> sw_session w = None)"
  using assms
proof (induction evs arbitrary: w)
  case (Cons ed evs)
  obtain e d where ed: "ed = (e, d)" by (cases ed)
  obtain w1 where w1: "sse_emit e d w = Some w1" "writer_inv old w1" "sw_id w1 = sw_id w + 1"
      "sw_sent w1 = sw_sent w @ [\<lparr>ev_id = sw_id w + 1, ev_event = e, ev_data = d\<rparr>]" "sw_session w1 = None \<longleftrightarrow> sw_session w = None"
    using sse_emit_ok [OF Cons.prems, of e d] by auto
  then show ?case using Cons.IH [OF w1(2)] by (auto simp: ed)
qed (simp add: assms)

text \<open>Everything an event stream of a runner sends, as events without numbers.\<close>

definition stream_events :: "chat_env \<Rightarrow> string \<Rightarrow> StreamMeta \<Rightarrow> LLMStreamChunk list \<Rightarrow> (string \<times> string) list" where
  "stream_events env sessionID meta cks =
     (if 0 < RunnerAttempts meta then [(''status'', status_data meta)] else []) @ chunk_events cks
     @ (if ce_gone env then [] else [(''end'', end_data sessionID (last_usage None cks))])"



end
