(* ===== verification/Diagnostics.thy ===== *)
theory Diagnostics
  imports GoRegexp AgentGuard
begin

text \<open>
  What the agent tells the model of the tools it has called: \<open>service/diagnostics.go\<close> and
  \<open>service/traceback.go\<close>. Each expression of the code begins at a line (\<open>(?m)^\<close>) and cannot
  leave it, so it is matched against the lines. The printing of a value by \<open>%v\<close> is an argument.
\<close>

section \<open>Lines of errors\<close>

definition any_rune :: regex where
  "any_rune = RRune (\<lambda>r. r \<noteq> 10)"

definition re_word :: regex where
  "re_word = RRune word_rune"

definition re_digits :: regex where
  "re_digits = re_plus (RRune (\<lambda>r. 48 \<le> r \<and> r \<le> 57))"

definition colon_text :: regex where
  "colon_text = RSeq (re_lit '': '') (re_plus any_rune)"

definition re_alts :: "regex list \<Rightarrow> regex" where
  "re_alts rs = foldr RAlt (butlast rs) (last rs)"

definition rustErrorLine :: regex where
  "rustErrorLine =
     RSeq (re_lit ''error'')
       (RSeq (re_opt (RSeq (re_lit ''['') (RSeq (re_plus (RRune (\<lambda>r. word_rune r \<or> r = 45))) (re_lit '']'')))) colon_text)"

definition rustPanicLine :: regex where
  "rustPanicLine =
     RAlt (RSeq (re_lit ''panicked at '') (re_plus any_rune))
       (RSeq (re_lit (''thread '' @ [CHR 0x27])) (RSeq (re_plus any_rune)
         (RSeq (re_lit ([CHR 0x27] @ '' panicked at '')) (re_plus any_rune))))"

definition pyTraceLine :: regex where
  "pyTraceLine =
     RSeq (re_alts [RSeq (re_plus re_word) (re_lit ''Error''), re_lit ''SyntaxError'', re_lit ''IndentationError'', re_lit ''AssertionError''])
       colon_text"

definition pyFileLine :: regex where
  "pyFileLine =
     RSeq (re_lit (''  File '' @ [CHR 0x22])) (RSeq (re_plus any_rune) (RSeq (re_lit ([CHR 0x22] @ '', line '')) re_digits))"

definition tsErrorLine :: regex where
  "tsErrorLine =
     RSeq (RStar any_rune)
       (RSeq (re_alts [RSeq (re_lit ''TS'') re_digits, re_lit ''SyntaxError'', re_lit ''TypeError'', re_lit ''ReferenceError'']) colon_text)"

definition tsStackLine :: regex where
  "tsStackLine =
     RSeq (re_plus (RRune space_class)) (RSeq (re_lit ''at '') (RSeq (re_plus any_rune) (RSeq (re_lit '' ('') (RSeq (re_plus any_rune)
       (RSeq (re_lit '':'') (RSeq re_digits (RSeq (re_lit '':'') (RSeq re_digits (re_lit '')'')))))))))"

text \<open>The text of the match at the beginning of a line.\<close>

definition line_match :: "regex \<Rightarrow> string \<Rightarrow> string option" where
  "line_match re line =
     (case re_match re (None, chunks line) of
        [] \<Rightarrow> None
      | q # _ \<Rightarrow> Some (concat (take (length (chunks line) - length (snd q)) (chunks line))))"

fun first_match :: "regex \<Rightarrow> string list \<Rightarrow> string option" where
  "first_match re [] = None"
| "first_match re (l # ls) = (case line_match re l of None \<Rightarrow> first_match re ls | Some m \<Rightarrow> Some m)"

definition FindString_lines :: "regex \<Rightarrow> string \<Rightarrow> string" where
  "FindString_lines re s = (case first_match re (split_on (CHR 0x0A) s) of None \<Rightarrow> [] | Some m \<Rightarrow> m)"

definition truncate_bytes :: "string \<Rightarrow> nat \<Rightarrow> string" where
  "truncate_bytes s mx = (if length s \<le> mx then s else take mx s @ ''...'')"

text \<open>The two loops from the last line to the first; empty lines are skipped.\<close>

fun file_line :: "string list \<Rightarrow> string option" where
  "file_line [] = None"
| "file_line (l # ls) =
     (let line = TrimSpace l in
      if line = [] then file_line ls
      else if line_match pyFileLine line \<noteq> None \<or> line_match tsStackLine line \<noteq> None then Some (truncate_bytes line 300)
      else file_line ls)"

definition error_like :: "string \<Rightarrow> bool" where
  "error_like line \<longleftrightarrow>
     str_contains (ToLower line) ''error'' \<or> HasPrefix line ''panic:'' \<or> str_contains line ''Exception'' \<or>
     str_contains line ''SyntaxError'' \<or> str_contains line ''Compil''"

fun error_line :: "string list \<Rightarrow> string" where
  "error_line [] = []"
| "error_line (l # ls) =
     (let line = TrimSpace l in
      if line = [] then error_line ls
      else if error_like line then truncate_bytes line 300
      else error_line ls)"

definition extractTracebackLine :: "string \<Rightarrow> string" where
  "extractTracebackLine stderr = error_line (rev (split_on (CHR 0x0A) stderr))"

definition ParseTraceback :: "string \<Rightarrow> string" where
  "ParseTraceback stderr0 =
     (let stderr = TrimSpace stderr0 in
      if stderr = [] then []
      else
        case find (\<lambda>m. m \<noteq> []) (map (\<lambda>re. FindString_lines re stderr) [rustErrorLine, rustPanicLine, pyTraceLine, tsErrorLine]) of
          Some m \<Rightarrow> truncate_bytes m 300
        | None \<Rightarrow>
            (case file_line (rev (split_on (CHR 0x0A) stderr)) of
               Some l \<Rightarrow> l
             | None \<Rightarrow> extractTracebackLine stderr))"

section \<open>Observations\<close>

record AgentStepObservation =
  ob_CallID :: string
  ob_Tool :: string
  ob_OK :: bool
  ob_Result :: call_args
  ob_Error :: string

definition string_value :: "call_args \<Rightarrow> string \<Rightarrow> string" where
  "string_value r key = (case r of None \<Rightarrow> [] | Some m \<Rightarrow> (case map_of m key of Some (GStr s) \<Rightarrow> s | _ \<Rightarrow> []))"

definition failed_call :: string where
  "failed_call = utf8 [1074, 1099, 1079, 1086, 1074, 32, 1080, 1085, 1089, 1090, 1088, 1091, 1084, 1077, 1085,
    1090, 1072, 32, 1079, 1072, 1074, 1077, 1088, 1096, 1080, 1083, 1089, 1103, 32, 1086, 1096,
    1080, 1073, 1082, 1086, 1081]"

definition failed_call_bare :: string where
  "failed_call_bare = utf8 [1074, 1099, 1079, 1086, 1074, 32, 1080, 1085, 1089, 1090, 1088, 1091, 1084, 1077, 1085,
    1090, 1072, 32, 1079, 1072, 1074, 1077, 1088, 1096, 1080, 1083, 1089, 1103, 32, 1086, 1096,
    1080, 1073, 1082, 1086, 1081, 32, 1073, 1077, 1079, 32, 1076, 1077, 1090, 1072, 1083, 1077,
    1081]"

definition SummarizeFailure :: "AgentStepObservation \<Rightarrow> string" where
  "SummarizeFailure o' =
     (if ob_Error o' \<noteq> [] then ob_Error o'
      else if ob_Result o' = None then failed_call
      else
        let stderr = string_value (ob_Result o') ''stderr''; msg = string_value (ob_Result o') ''message'' in
        if stderr \<noteq> [] then
          let line = ParseTraceback stderr in if line \<noteq> [] then line else truncate_bytes (TrimSpace stderr) 300
        else if msg \<noteq> [] then truncate_bytes msg 300
        else failed_call_bare)"

definition observationLine :: "(gov \<Rightarrow> string) \<Rightarrow> AgentStepObservation \<Rightarrow> string" where
  "observationLine sprint o' =
     (let stderr = string_value (ob_Result o') ''stderr'' in
      str_join ([ob_Tool o']
        @ (if ob_CallID o' \<noteq> [] then [''id='' @ ob_CallID o'] else [])
        @ (if \<not> ob_OK o' then [''ok=false''] else [])
        @ (if ob_Error o' \<noteq> [] then [''error='' @ ob_Error o'] else [])
        @ (if stderr \<noteq> [] then [''stderr='' @ truncate_bytes stderr 500] else [])
        @ (case ob_Result o' of
             None \<Rightarrow> []
           | Some m \<Rightarrow> (case map_of m ''exit_code'' of None \<Rightarrow> [] | Some v \<Rightarrow> [''exit_code='' @ sprint v]))) '' '')"

definition observation_text :: "(gov \<Rightarrow> string) \<Rightarrow> AgentStepObservation \<Rightarrow> string" where
  "observation_text sprint o' =
     (if \<not> ob_OK o' \<or> ob_Error o' \<noteq> [] then
        ''FAILED: '' @ (let hint = SummarizeFailure o' in if hint \<noteq> [] then hint @ [CHR 0x0A] else [])
      else []) @ observationLine sprint o' @ [CHR 0x0A]"

definition FormatObservations :: "(gov \<Rightarrow> string) \<Rightarrow> AgentStepObservation list \<Rightarrow> string" where
  "FormatObservations sprint obs =
     (if obs = [] then []
      else ''Observations from previous tool calls:'' @ [CHR 0x0A] @ concat (map (observation_text sprint) obs))"

section \<open>The loop over the lines of files\<close>

text \<open>The loop trims every line, and both expressions want white space in front: it finds nothing.\<close>

lemma TrimSpace_first_chunk:
  assumes "chunks (TrimSpace s) = x # xs"
  shows "\<not> space_chunk x"
proof -
  let ?ys = "dropWhile space_chunk (chunks s)"
  have "?ys = rev (dropWhile space_chunk (rev ?ys)) @ rev (takeWhile space_chunk (rev ?ys))"
    by (metis rev_append rev_rev_ident takeWhile_dropWhile_id)
  moreover from assms have "rev (dropWhile space_chunk (rev ?ys)) = x # xs"
    unfolding chunks_TrimSpace trim_chunks_def .
  ultimately have "\<exists>zs. ?ys = x # zs" by (metis append_Cons)
  then show ?thesis by (metis hd_dropWhile list.discI list.sel(1))
qed

lemma no_space_first:
  assumes "chunks (TrimSpace s) = x # xs"
  shows "\<not> space_class (chunk_rune x)"
  using TrimSpace_first_chunk [OF assms] by (auto simp: space_chunk_def chunk_rune_def space_class_def IsSpace_def)

lemma no_file_match: "line_match pyFileLine (TrimSpace s) = None" "line_match tsStackLine (TrimSpace s) = None"
proof -
  have "re_match pyFileLine (None, chunks (TrimSpace s)) = []"
    using no_space_first [of s]
    by (cases "chunks (TrimSpace s)") (auto simp: pyFileLine_def re_lit_def space_class_def)
  then show "line_match pyFileLine (TrimSpace s) = None" by (simp add: line_match_def)
  have "re_match tsStackLine (None, chunks (TrimSpace s)) = []"
    using no_space_first [of s]
    by (cases "chunks (TrimSpace s)") (auto simp: tsStackLine_def re_plus_def)
  then show "line_match tsStackLine (TrimSpace s) = None" by (simp add: line_match_def)
qed

lemma file_line_None: "file_line ls = None"
  by (induction ls) (simp_all add: no_file_match Let_def)

text \<open>So the place in a file is never what the model is told: it is the line of the error, or the last line like one.\<close>

lemma ParseTraceback_eq:
  assumes "TrimSpace stderr \<noteq> []"
  shows "ParseTraceback stderr =
     (case find (\<lambda>m. m \<noteq> []) (map (\<lambda>re. FindString_lines re (TrimSpace stderr)) [rustErrorLine, rustPanicLine, pyTraceLine, tsErrorLine]) of
        Some m \<Rightarrow> truncate_bytes m 300 | None \<Rightarrow> extractTracebackLine (TrimSpace stderr))"
  using assms by (simp add: ParseTraceback_def file_line_None Let_def del: map_map split: option.split)

lemma length_truncate_bytes: "length (truncate_bytes s n) \<le> n + 3"
  by (simp add: truncate_bytes_def)

end
