(* ===== verification/AgentService.thy ===== *)
theory AgentService
  imports ChatHandler Diagnostics
begin

text \<open>
  The agent of the editor: a step of \<open>service/agent.go\<close>, the handlers \<open>handleAgentStep\<close> and
  \<open>handleAgentRun\<close> of \<open>internal/delivery\<close>, and the suggestion of tests of
  \<open>service/test_suggest.go\<close>. The registry and the client of the runners are those of the server, so a
  step works on the handler's. What \<open>%v\<close> prints of a value and what \<open>encoding/json\<close> makes of the text
  of a number are arguments.
\<close>

section \<open>The service\<close>

record AgentService =
  ag_cfg :: AgentConfig
  ag_timeoutSeconds :: int
  ag_tokenBudget :: int
  ag_scanSecrets :: bool
  ag_sessions :: "AgentSessionStore option"
  ag_policy :: "AgentPolicy option"

definition NewAgentService :: "AppConfig \<Rightarrow> AgentService" where
  "NewAgentService cfg =
     \<lparr>ag_cfg = c_Agent cfg, ag_timeoutSeconds = ChatTimeoutSeconds (Some cfg), ag_tokenBudget = ContextTokenBudget (Some cfg),
      ag_scanSecrets = ContextScanSecrets (Some cfg),
      ag_sessions = Some (NewAgentSessionStore (ac_MaxSteps (c_Agent cfg))),
      ag_policy = Some (NewAgentPolicy (ac_AllowedPaths (c_Agent cfg)) (ac_BlockedCommands (c_Agent cfg)) (ac_AllowedCommands (c_Agent cfg)))\<rparr>"

record AgentStepRequest =
  aq_RequestID :: string
  aq_SessionID :: string
  aq_Goal :: string
  aq_Context :: "(string \<times> gov) list"
  aq_Observations :: "AgentStepObservation list"

record agent_env =
  ae_chat :: chat_env
  ae_now :: time
  ae_client :: client_world
  ae_sprint :: "gov \<Rightarrow> string"
  ae_number :: "string \<Rightarrow> string option"
  ae_job_body :: "AgentStepRequest \<Rightarrow> string option"

section \<open>The prompt\<close>

definition agentStepSystemPromptText :: string where
  "agentStepSystemPromptText = ''You are an autonomous coding agent for the Coder editor.'' @ nl @
     ''Respond with a single JSON object only (no markdown fences):'' @ nl @
     ''{'' @ [CHR 0x22] @ ''finish'' @ [CHR 0x22] @ '':boolean,'' @ [CHR 0x22] @ ''summary'' @ [CHR 0x22] @ '':string,'' @ [CHR 0x22] @ ''calls'' @ [CHR 0x22] @ '':[{'' @ [CHR 0x22] @ ''tool'' @ [CHR 0x22] @ '':string,'' @ [CHR 0x22] @ ''id'' @ [CHR 0x22] @ '':string,'' @ [CHR 0x22] @ ''args'' @ [CHR 0x22] @ '':object}]}'' @ nl @
     ''Available tools: list_dir, read_file, glob_search, search_content, apply_patch, create_file, run_command.'' @ nl @
     ''If the goal is complete, set finish=true and calls=[].'' @ nl @
     ''If more work is needed, set finish=false and list tool calls with unique id fields like '' @ [CHR 0x22] @ ''call-1'' @ [CHR 0x22] @ ''.'' @ nl @
     ''When a previous tool call failed (stderr, non-zero exit code), analyze the error and retry with a corrected approach.''"

definition agent_systemPrompt :: "(string \<Rightarrow> string) \<Rightarrow> McpRegistry option \<Rightarrow> string" where
  "agent_systemPrompt quote mcp =
     (let block = ToolsPromptBlock quote mcp
      in if mcp \<noteq> None \<and> block \<noteq> [] then agentStepSystemPromptText @ nl @ nl @ block else agentStepSystemPromptText)"

definition agentGenerationParams :: "AgentService \<Rightarrow> GenerationParams" where
  "agentGenerationParams s =
     empty_params\<lparr>gp_MaxTokens := Some (go_int32 (ac_MaxTokens (ag_cfg s))),
       gp_Temperature := Some (go_float32 (ac_Temperature (ag_cfg s))),
       gp_ResponseFormat := Some \<lparr>rf_Type = ''json_object'', rf_Schema = None\<rparr>\<rparr>"

definition buildAgentStepUserPrompt :: "(gov \<Rightarrow> string) \<Rightarrow> AgentService \<Rightarrow> AgentStepRequest \<Rightarrow> string" where
  "buildAgentStepUserPrompt sprint s req =
     (let g = TrimSpace (aq_Goal req); sid = TrimSpace (aq_SessionID req); hint = ContextHint sid (ag_sessions s);
          text = (if g \<noteq> [] then ''Goal: '' @ g @ nl else [])
            @ (if sid \<noteq> [] then ''Session: '' @ sid @ nl @ (if hint \<noteq> [] then hint @ nl else []) else [])
            @ (if aq_Context req \<noteq> [] then ''Context: '' @ Marshal (GMap (aq_Context req)) @ nl else [])
            @ FormatObservations sprint (aq_Observations req)
      in if text = [] then ''Continue the agent session.'' else text)"

section \<open>The answer of the model\<close>

text \<open>
  \<open>json.Unmarshal\<close> into the answer. A member is decoded over what an earlier member of the same name left;
  null leaves a value as it is and makes slices and maps nil.
\<close>

definition decode_string :: "jv \<Rightarrow> string \<Rightarrow> string option" where
  "decode_string v cur = (case v of JStr d \<Rightarrow> Some d | JNull \<Rightarrow> Some cur | _ \<Rightarrow> None)"

definition decode_bool :: "jv \<Rightarrow> bool \<Rightarrow> bool option" where
  "decode_bool v cur = (case v of JBool b \<Rightarrow> Some b | JNull \<Rightarrow> Some cur | _ \<Rightarrow> None)"

definition decode_int :: "jv \<Rightarrow> int \<Rightarrow> int option" where
  "decode_int v cur =
     (case v of
        JNull \<Rightarrow> Some cur
      | JNum t \<Rightarrow>
          (let neg = HasPrefix t ''-''; ds = TrimPrefix t ''-''; n = int (digits_value ds); i = (if neg then - n else n) in
           if ds \<noteq> [] \<and> list_all digit ds \<and> - (2 ^ 63) \<le> i \<and> i < 2 ^ 63 then Some i else None)
      | _ \<Rightarrow> None)"

definition decode_args :: "(string \<Rightarrow> string option) \<Rightarrow> jv \<Rightarrow> call_args \<Rightarrow> call_args option" where
  "decode_args num v cur =
     (case v of
        JNull \<Rightarrow> Some None
      | JObj ms \<Rightarrow> map_option Some (to_any_members num ms (case cur of None \<Rightarrow> [] | Some m \<Rightarrow> m))
      | _ \<Rightarrow> None)"

fun decode_list :: "(jv \<Rightarrow> 'a \<Rightarrow> 'a option) \<Rightarrow> 'a \<Rightarrow> (string \<times> jv) list \<Rightarrow> 'a list \<Rightarrow> 'a list option" where
  "decode_list dec zero [] cur = Some []"
| "decode_list dec zero ((raw, v) # es) cur =
     (case dec v (case cur of [] \<Rightarrow> zero | x # _ \<Rightarrow> x) of
        None \<Rightarrow> None
      | Some x \<Rightarrow> map_option ((#) x) (decode_list dec zero es (tl cur)))"

definition decode_slice :: "(jv \<Rightarrow> 'a \<Rightarrow> 'a option) \<Rightarrow> 'a \<Rightarrow> jv \<Rightarrow> 'a list \<Rightarrow> 'a list option" where
  "decode_slice dec zero v cur =
     (case v of JNull \<Rightarrow> Some [] | JArr es \<Rightarrow> decode_list dec zero es cur | _ \<Rightarrow> None)"

definition empty_call :: AgentToolCall where
  "empty_call = \<lparr>tc_Tool = [], tc_ID = [], tc_Args = None\<rparr>"

definition decode_call_member :: "(string \<Rightarrow> string option) \<Rightarrow> string \<times> string \<times> jv \<Rightarrow> AgentToolCall \<Rightarrow> AgentToolCall option" where
  "decode_call_member num member c =
     (case member of (k, raw, v) \<Rightarrow>
        if name_matches ''tool'' k then map_option (\<lambda>x. c\<lparr>tc_Tool := x\<rparr>) (decode_string v (tc_Tool c))
        else if name_matches ''id'' k then map_option (\<lambda>x. c\<lparr>AgentToolCall.tc_ID := x\<rparr>) (decode_string v (AgentToolCall.tc_ID c))
        else if name_matches ''args'' k then map_option (\<lambda>x. c\<lparr>tc_Args := x\<rparr>) (decode_args num v (tc_Args c))
        else Some c)"

fun decode_members :: "(string \<times> string \<times> jv \<Rightarrow> 'a \<Rightarrow> 'a option) \<Rightarrow> (string \<times> string \<times> jv) list \<Rightarrow> 'a \<Rightarrow> 'a option" where
  "decode_members dec [] r = Some r"
| "decode_members dec (m # ms) r = (case dec m r of None \<Rightarrow> None | Some r1 \<Rightarrow> decode_members dec ms r1)"

definition decode_call :: "(string \<Rightarrow> string option) \<Rightarrow> jv \<Rightarrow> AgentToolCall \<Rightarrow> AgentToolCall option" where
  "decode_call num v c =
     (case v of JNull \<Rightarrow> Some c | JObj ms \<Rightarrow> decode_members (decode_call_member num) ms c | _ \<Rightarrow> None)"

definition decode_step_member :: "(string \<Rightarrow> string option) \<Rightarrow> string \<times> string \<times> jv \<Rightarrow> AgentStepResponse \<Rightarrow> AgentStepResponse option" where
  "decode_step_member num member r =
     (case member of (k, raw, v) \<Rightarrow>
        if name_matches ''finish'' k then map_option (\<lambda>x. r\<lparr>ar_Finish := x\<rparr>) (decode_bool v (ar_Finish r))
        else if name_matches ''summary'' k then map_option (\<lambda>x. r\<lparr>ar_Summary := x\<rparr>) (decode_string v (ar_Summary r))
        else if name_matches ''calls'' k then map_option (\<lambda>x. r\<lparr>ar_Calls := x\<rparr>) (decode_slice (decode_call num) empty_call v (ar_Calls r))
        else if name_matches ''step'' k then map_option (\<lambda>x. r\<lparr>ar_Step := x\<rparr>) (decode_int v (ar_Step r))
        else if name_matches ''blocked'' k then map_option (\<lambda>x. r\<lparr>ar_Blocked := x\<rparr>) (decode_slice decode_string [] v (ar_Blocked r))
        else Some r)"

definition unfenced_answer :: "string \<Rightarrow> string" where
  "unfenced_answer raw = TrimSpace (TrimSuffix (TrimPrefix (TrimPrefix (TrimSpace raw) (fence @ ''json'')) fence) fence)"

definition parseAgentStepLLMOutput :: "(string \<Rightarrow> string option) \<Rightarrow> string \<Rightarrow> AgentStepResponse option" where
  "parseAgentStepLLMOutput num raw =
     (case json_parse (unfenced_answer raw) of
        Some JNull \<Rightarrow> Some no_response
      | Some (JObj ms) \<Rightarrow> decode_members (decode_step_member num) ms no_response
      | _ \<Rightarrow> None)"

section \<open>A step\<close>

text \<open>How a step ends: at the limit of the session, with an answer that is no JSON, with calls, or without an answer.\<close>

datatype step_end = StepLimited AgentStepResponse | StepText AgentStepResponse | StepCalls AgentStepResponse | StepFailed llm_error | StepWaits

definition registry_view :: "McpRegistry option \<Rightarrow> mcp_view option" where
  "registry_view mcp =
     map_option (\<lambda>reg. \<lparr>mv_ServerExistsByAlias = \<lambda>n. ServerExistsByAlias n reg, mv_HasTool = \<lambda>n. HasTool n reg\<rparr>) mcp"

definition agent_call :: "agent_env \<Rightarrow> AgentStepRequest \<Rightarrow> McpRegistry option \<Rightarrow> AgentService \<Rightarrow> runner_call" where
  "agent_call env req mcp s =
     \<lparr>rcl_messages = fst (RunnerMessages (ce_key (ae_chat env)) (ae_now env) (agent_systemPrompt (ce_quote (ae_chat env)) mcp)
        [\<lparr>dm_Role = ''user'', dm_Content = buildAgentStepUserPrompt (ae_sprint env) s req\<rparr>] None None (ag_tokenBudget s) (ag_scanSecrets s) None),
      rcl_stop = [], rcl_timeout = ag_timeoutSeconds s, rcl_params = agentGenerationParams s\<rparr>"

definition step_answer :: "agent_env \<Rightarrow> string \<Rightarrow> int \<Rightarrow> string \<Rightarrow> McpRegistry option \<Rightarrow> AgentService \<Rightarrow> step_end \<times> AgentService" where
  "step_answer env sessionID step content mcp s =
     (case parseAgentStepLLMOutput (ae_number env) content of
        None \<Rightarrow>
          (StepText \<lparr>ar_Finish = True, ar_Summary = TrimSpace content, ar_Calls = [], ar_Step = step, ar_Blocked = []\<rparr>,
           s\<lparr>ag_sessions := session_Reset sessionID (ag_sessions s)\<rparr>)
      | Some parsed \<Rightarrow>
          let known = filterAgentToolCalls (registry_view mcp) (ar_Calls parsed);
              (calls, blocked) = FilterCalls (ae_sprint env) (ag_policy s) known;
              resp = parsed\<lparr>ar_Calls := calls, ar_Blocked := blocked, ar_Step := step\<rparr>;
              s1 = s\<lparr>ag_sessions := SetSummary sessionID (ar_Summary resp) (ag_sessions s)\<rparr>;
              s2 = (if ar_Finish resp then s1\<lparr>ag_sessions := session_Reset sessionID (ag_sessions s1)\<rparr> else s1)
          in (StepCalls resp, s2))"

definition agent_Step ::
  "agent_env \<Rightarrow> AgentStepRequest \<Rightarrow> McpRegistry option \<Rightarrow> AgentService \<times> Service \<Rightarrow> step_end \<times> AgentService \<times> Service" where
  "agent_Step env req mcp st =
     (case st of (s, llm) \<Rightarrow>
        let sessionID = TrimSpace (aq_SessionID req);
            ((step, limited, stop), sessions) =
              (if sessionID \<noteq> [] then BeginStep sessionID (aq_Goal req) (ag_sessions s) else ((0, no_response, False), ag_sessions s));
            s1 = s\<lparr>ag_sessions := sessions\<rparr>
        in if stop then (StepLimited limited, s1, llm)
           else
             case client_collect (ae_client env) (agent_call env req mcp s1) llm of
               (Waiting, _, llm1) \<Rightarrow> (StepWaits, s1, llm1)
             | (Failed e, _, llm1) \<Rightarrow> (StepFailed e, s1, llm1)
             | (Streaming r, _, llm1) \<Rightarrow>
                 (let (res, s2) = step_answer env sessionID step (cr_Content r) mcp s1 in (res, s2, llm1)))"

section \<open>The handlers\<close>

text \<open>The handler of the server with what only the agent uses.\<close>

record AgentHandler =
  ah_handler :: Handler
  ah_agent :: AgentService
  ah_sandbox :: "CommandSandbox option"

datatype agent_reply =
    AgentError int string string
  | AgentReplayed int string
  | AgentAnswered AgentStepResponse
  | AgentQueued string string string
  | AgentRan string string int
  | AgentStuck

definition recordAgentOK :: "Handler \<Rightarrow> Handler" where
  "recordAgentOK h = h\<lparr>h_metrics := map_option (\<lambda>m. m\<lparr>mt_AgentSteps := mt_AgentSteps m + 1\<rparr>) (h_metrics h)\<rparr>"

definition recordAgentErr :: "Handler \<Rightarrow> Handler" where
  "recordAgentErr h =
     h\<lparr>h_metrics := map_option (\<lambda>m. m\<lparr>mt_AgentSteps := mt_AgentSteps m + 1, mt_AgentErrors := mt_AgentErrors m + 1\<rparr>) (h_metrics h)\<rparr>"

definition agent_call_json :: "AgentToolCall \<Rightarrow> gov" where
  "agent_call_json c =
     GMap [(''tool'', GStr (tc_Tool c)), (''id'', GStr (AgentToolCall.tc_ID c)), (''args'', case tc_Args c of None \<Rightarrow> GNull | Some m \<Rightarrow> GMap m)]"

text \<open>The answer to a text has nil for its calls, which is null in JSON.\<close>

definition step_json :: "bool \<Rightarrow> AgentStepResponse \<Rightarrow> string" where
  "step_json nil_calls r =
     Marshal (GMap ([(''finish'', GBool (ar_Finish r)), (''summary'', GStr (ar_Summary r)),
         (''calls'', if nil_calls then GNull else GArr (map agent_call_json (ar_Calls r)))]
       @ (if ar_Step r \<noteq> 0 then [(''step'', GNum (itoa (ar_Step r)))] else [])
       @ (if ar_Blocked r \<noteq> [] then [(''blocked'', GArr (map GStr (ar_Blocked r)))] else [])))"

definition observation_strings :: "AgentStepObservation \<Rightarrow> string list" where
  "observation_strings o' =
     (if ob_Error o' \<noteq> [] then [ob_Error o'] else [])
     @ (case ob_Result o' of None \<Rightarrow> [] | Some m \<Rightarrow> concat (map (\<lambda>(k, v). case v of GStr s \<Rightarrow> [s] | _ \<Rightarrow> []) m))"

definition agent_moderated :: "AgentStepRequest \<Rightarrow> string list" where
  "agent_moderated req = aq_Goal req # concat (map observation_strings (aq_Observations req))"

definition agent_error_reply :: "chat_reply \<Rightarrow> agent_reply" where
  "agent_error_reply r =
     (case r of ErrorReply status code msg \<Rightarrow> AgentError status code msg | Queued j k rid \<Rightarrow> AgentQueued j k rid | _ \<Rightarrow> AgentStuck)"

definition agent_runner_error :: "agent_env \<Rightarrow> llm_error \<Rightarrow> string \<Rightarrow> AgentStepRequest \<Rightarrow> Handler \<Rightarrow> agent_reply \<times> Handler" where
  "agent_runner_error env e rid req h =
     (let ce = ae_chat env; view = llm_error_view ce e in
      if fst view \<and> h_jobs h \<noteq> None then
        (case Enqueue (ce_job ce) (ce_job_uuid ce) ''agent_step'' rid (ae_job_body env req) (h_jobs h) of
           (Inl je, jobs) \<Rightarrow> (AgentError 503 ''overloaded'' (ce_job_error_text ce je), h\<lparr>h_jobs := jobs\<rparr>)
         | (Inr jobID, jobs) \<Rightarrow> (AgentQueued jobID ''agent_step'' rid, h\<lparr>h_jobs := jobs\<rparr>))
      else (agent_error_reply (mapRunnerError view), h))"

definition agent_key :: "string \<Rightarrow> string" where
  "agent_key rid = ''agent:'' @ rid"

definition put_step :: "chat_env \<Rightarrow> string \<Rightarrow> bool \<Rightarrow> AgentStepResponse \<Rightarrow> Handler \<Rightarrow> Handler" where
  "put_step ce rid nil_calls resp h =
     (if rid \<noteq> [] \<and> h_idempotency h \<noteq> None
      then h\<lparr>h_idempotency := idem_Put (ce_now_put ce) (agent_key rid) 200 (step_json nil_calls resp) (h_idempotency h)\<rparr> else h)"

definition wrong_method :: "string \<Rightarrow> agent_reply" where
  "wrong_method expected = AgentError 405 ''method_not_allowed'' (utf8 [1086, 1078, 1080, 1076, 1072, 1077, 1090, 1089, 1103, 32, 1084, 1077, 1090, 1086,
      1076, 32] @ expected)"

definition bad_json :: agent_reply where
  "bad_json = AgentError 400 ''bad_request'' (utf8 [1085, 1077, 1082, 1086, 1088, 1088, 1077, 1082, 1090, 1085, 1086, 1077, 32, 1090,
      1077, 1083, 1086, 32] @ ''JSON'')"

definition agent_answer :: "chat_env \<Rightarrow> string \<Rightarrow> step_end \<Rightarrow> Handler \<Rightarrow> (agent_reply \<times> Handler) option" where
  "agent_answer ce rid r h =
     (case r of
        StepLimited resp \<Rightarrow> Some (AgentAnswered resp, put_step ce rid False resp (recordAgentOK h))
      | StepText resp \<Rightarrow> Some (AgentAnswered resp, put_step ce rid True resp (recordAgentOK h))
      | StepCalls resp \<Rightarrow> Some (AgentAnswered resp, put_step ce rid False resp (recordAgentOK h))
      | _ \<Rightarrow> None)"

definition handleAgentStep :: "agent_env \<Rightarrow> string \<Rightarrow> AgentStepRequest option \<Rightarrow> AgentHandler \<Rightarrow> agent_reply \<times> AgentHandler" where
  "handleAgentStep env meth body ah =
     (if meth \<noteq> ''POST'' then (wrong_method ''POST'', ah)
      else
        case body of
          None \<Rightarrow> (bad_json, ah)
        | Some req \<Rightarrow>
            let ce = ae_chat env; h = ah_handler ah;
                rid = resolveRequestID (ce_requestID ce) (let i = TrimSpace (aq_RequestID req) in if i = [] then None else Some i);
                (status, stored, hit) =
                  (if rid \<noteq> [] \<and> h_idempotency h \<noteq> None then idem_Get (ce_now_get ce) (agent_key rid) (h_idempotency h) else (0, [], False))
            in if hit then (AgentReplayed status stored, ah)
            else if ModerationEnabled (Some (h_cfg h)) \<and> ScanMessages (agent_moderated req)
            then (AgentError 400 ''prompt_injection'' (utf8 [1079, 1072, 1087, 1088, 1086, 1089, 32, 1086, 1090, 1082, 1083, 1086, 1085, 1105,
      1085, 32] @ ''moderation layer''), ah\<lparr>ah_handler := recordAgentErr h\<rparr>)
            else
              case ensureRunnerReady ce (h_llm h) of
                (Some r, s) \<Rightarrow> (agent_error_reply r, ah\<lparr>ah_handler := h\<lparr>h_llm := s\<rparr>\<rparr>)
              | (None, s) \<Rightarrow>
                  (case agent_Step env req (h_mcp h) (ah_agent ah, s) of
                     (r, ag, llm) \<Rightarrow>
                       let h1 = h\<lparr>h_llm := llm\<rparr>; ah1 = ah\<lparr>ah_agent := ag\<rparr> in
                       case r of
                         StepFailed e \<Rightarrow>
                           (case agent_runner_error env e rid req (recordAgentErr h1) of (rep, h2) \<Rightarrow> (rep, ah1\<lparr>ah_handler := h2\<rparr>))
                       | _ \<Rightarrow>
                           (case agent_answer ce rid r h1 of
                              None \<Rightarrow> (AgentStuck, ah1\<lparr>ah_handler := h1\<rparr>)
                            | Some (rep, h2) \<Rightarrow> (rep, ah1\<lparr>ah_handler := h2\<rparr>))))"

record AgentRunRequest =
  rr_Command :: string
  rr_Cwd :: string

definition no_sandbox :: string where
  "no_sandbox = ''sandbox '' @ utf8 [1085, 1077, 32, 1085, 1072, 1089, 1090, 1088, 1086, 1077, 1085]"

text \<open>The command that is run comes with the reply. The text of an error of the sandbox is an argument.\<close>

definition handleAgentRun ::
  "(gov \<Rightarrow> string) \<Rightarrow> (sandbox_error \<Rightarrow> string) \<Rightarrow> (string \<Rightarrow> string + bool) \<Rightarrow> (sandbox_cmd \<Rightarrow> string \<times> string \<times> run_end)
     \<Rightarrow> string \<Rightarrow> AgentRunRequest option \<Rightarrow> AgentHandler \<Rightarrow> agent_reply \<times> sandbox_cmd option" where
  "handleAgentRun sprint error_text stat exec meth body ah =
     (if meth \<noteq> ''POST'' then (wrong_method ''POST'', None)
      else if ah_sandbox ah = None then (AgentError 503 ''service_unavailable'' no_sandbox, None)
      else
        case body of
          None \<Rightarrow> (bad_json, None)
        | Some req \<Rightarrow>
            let reason = (case ag_policy (ah_agent ah) of None \<Rightarrow> [] | Some p \<Rightarrow> ValidateRunCommand sprint p (rr_Command req)) in
            if reason \<noteq> [] then (AgentError 403 ''forbidden'' reason, None)
            else
              case sandbox_Run stat exec (ah_sandbox ah) (rr_Command req) (rr_Cwd req) of
                (cmd, stdout, stderr, code, Some e) \<Rightarrow> (AgentError 400 ''bad_request'' (error_text e), cmd)
              | (cmd, stdout, stderr, code, None) \<Rightarrow> (AgentRan stdout stderr code, cmd))"

section \<open>Tests for a source\<close>

record TestSuggestRequest =
  ts_Path :: string
  ts_Language :: string
  ts_Source :: string
  ts_Error :: string

record TestSuggestResponse =
  tr_Summary :: string
  tr_TestCode :: string

datatype suggest_error = SourceRequired | SuggestClient llm_error | SuggestWaits

definition suggest_system :: string where
  "suggest_system = ''You are a test authoring assistant.'' @ nl @
     ''Respond with a single JSON object only:'' @ nl @
     ''{'' @ [CHR 0x22] @ ''summary'' @ [CHR 0x22] @ '':string,'' @ [CHR 0x22] @ ''test_code'' @ [CHR 0x22] @ '':string}'' @ nl @
     ''Write minimal focused tests for the provided source. Use idiomatic test style for the language.''"

definition suggest_user :: "TestSuggestRequest \<Rightarrow> string" where
  "suggest_user req =
     ''Path: '' @ TrimSpace (ts_Path req) @ nl @ ''Language: '' @ TrimSpace (ts_Language req) @ nl @ ''Source:'' @ nl @ TrimSpace (ts_Source req)
     @ (let e = TrimSpace (ts_Error req) in if e \<noteq> [] then nl @ nl @ ''Failure output:'' @ nl @ e else [])"

definition suggest_params :: GenerationParams where
  "suggest_params =
     empty_params\<lparr>gp_MaxTokens := Some 1024, gp_Temperature := Some 0x3E4CCCCD,
       gp_ResponseFormat := Some \<lparr>rf_Type = ''json_object'', rf_Schema = None\<rparr>\<rparr>"

definition decode_suggest_member :: "string \<times> string \<times> jv \<Rightarrow> TestSuggestResponse \<Rightarrow> TestSuggestResponse option" where
  "decode_suggest_member member r =
     (case member of (k, raw, v) \<Rightarrow>
        if name_matches ''summary'' k then map_option (\<lambda>x. r\<lparr>tr_Summary := x\<rparr>) (decode_string v (tr_Summary r))
        else if name_matches ''test_code'' k then map_option (\<lambda>x. r\<lparr>tr_TestCode := x\<rparr>) (decode_string v (tr_TestCode r))
        else Some r)"

definition suggest_answer :: "string \<Rightarrow> TestSuggestResponse" where
  "suggest_answer content =
     (case (case json_parse (unfenced_answer content) of
              Some JNull \<Rightarrow> Some \<lparr>tr_Summary = [], tr_TestCode = []\<rparr>
            | Some (JObj ms) \<Rightarrow> decode_members decode_suggest_member ms \<lparr>tr_Summary = [], tr_TestCode = []\<rparr>
            | _ \<Rightarrow> None) of
        Some r \<Rightarrow> r
      | None \<Rightarrow> \<lparr>tr_Summary = utf8 [1089, 1099, 1088, 1086, 1081, 32, 1086, 1090, 1074, 1077, 1090, 32, 1084, 1086, 1076,
      1077, 1083, 1080], tr_TestCode = content\<rparr>)"

definition test_Suggest ::
  "prefix_key \<Rightarrow> time \<Rightarrow> client_world \<Rightarrow> int \<Rightarrow> TestSuggestRequest \<Rightarrow> Service \<Rightarrow> (suggest_error + TestSuggestResponse) \<times> Service" where
  "test_Suggest key now w timeoutSeconds req s =
     (if TrimSpace (ts_Source req) = [] then (Inl SourceRequired, s)
      else
        let call = \<lparr>rcl_messages = fst (RunnerMessages key now suggest_system
                      [\<lparr>dm_Role = ''user'', dm_Content = suggest_user req\<rparr>] None None 8192 False None),
                    rcl_stop = [], rcl_timeout = timeoutSeconds, rcl_params = suggest_params\<rparr>
        in case client_collect w call s of
             (Waiting, _, s1) \<Rightarrow> (Inl SuggestWaits, s1)
           | (Failed e, _, s1) \<Rightarrow> (Inl (SuggestClient e), s1)
           | (Streaming r, _, s1) \<Rightarrow> (Inr (suggest_answer (cr_Content r)), s1))"

end
