(* ===== verification/AgentProperties.thy ===== *)
theory AgentProperties
  imports AgentService ChatProperties
begin

text \<open>
  What holds of the agent's steps: which calls reach the editor, how the steps of a session are counted, and
  that a repeated request is answered from the store.
\<close>

section \<open>The calls of a step\<close>

definition call_admitted :: "agent_env \<Rightarrow> AgentPolicy \<Rightarrow> AgentToolCall \<Rightarrow> bool" where
  "call_admitted env p c \<longleftrightarrow> validateCall (ae_sprint env) p c = []"

definition call_known :: "McpRegistry option \<Rightarrow> AgentToolCall \<Rightarrow> bool" where
  "call_known mcp c \<longleftrightarrow> IsKnownAgentTool (tc_Tool c) (registry_view mcp)"

lemma step_answer_calls:
  assumes "step_answer env sid n content mcp s = (StepCalls resp, s')" and "ag_policy s = Some p"
  obtains parsed where "parseAgentStepLLMOutput (ae_number env) content = Some parsed" and "ar_Step resp = n"
    and "ar_Finish resp = ar_Finish parsed" and "ar_Summary resp = ar_Summary parsed"
    and "ar_Calls resp = filter (\<lambda>c. call_known mcp c \<and> call_admitted env p c) (ar_Calls parsed)"
    and "ar_Blocked resp = map (\<lambda>c. blocked_line c (validateCall (ae_sprint env) p c))
      (filter (\<lambda>c. call_known mcp c \<and> \<not> call_admitted env p c) (ar_Calls parsed))"
proof -
  from assms obtain parsed where p: "parseAgentStepLLMOutput (ae_number env) content = Some parsed"
    by (cases "parseAgentStepLLMOutput (ae_number env) content") (auto simp: step_answer_def)
  from assms p show thesis
    by (intro that [OF p])
      (auto simp: step_answer_def Let_def FilterCalls_eq filterAgentToolCalls_def call_known_def call_admitted_def conj_commute)
qed

lemma agent_Step_cases:
  assumes "agent_Step env req mcp (s, llm) = (r, s', llm')"
  defines "sid \<equiv> TrimSpace (aq_SessionID req)"
  obtains (limited) step resp store1 where "sid \<noteq> []" "BeginStep sid (aq_Goal req) (ag_sessions s) = ((step, resp, True), store1)"
      "r = StepLimited resp" "s' = s\<lparr>ag_sessions := store1\<rparr>" "llm' = llm"
  | (asked) step limited store1 x st where
      "(if sid \<noteq> [] then BeginStep sid (aq_Goal req) (ag_sessions s) else ((0, no_response, False), ag_sessions s))
        = ((step, limited, False), store1)"
      "client_collect (ae_client env) (agent_call env req mcp (s\<lparr>ag_sessions := store1\<rparr>)) llm = (x, st, llm')"
      "(case x of
          Waiting \<Rightarrow> r = StepWaits \<and> s' = s\<lparr>ag_sessions := store1\<rparr>
        | Failed e \<Rightarrow> r = StepFailed e \<and> s' = s\<lparr>ag_sessions := store1\<rparr>
        | Streaming c \<Rightarrow> step_answer env sid step (cr_Content c) mcp (s\<lparr>ag_sessions := store1\<rparr>) = (r, s'))"
proof -
  let ?b = "if sid \<noteq> [] then BeginStep sid (aq_Goal req) (ag_sessions s) else ((0, no_response, False), ag_sessions s)"
  obtain step resp stop store1 where b: "?b = ((step, resp, stop), store1)" by (metis prod.collapse)
  show thesis
  proof (cases stop)
    case True
    with b have "sid \<noteq> []" by (auto split: if_splits)
    with True b assms show thesis by (intro limited) (auto simp: agent_Step_def Let_def)
  next
    case False
    obtain x st l where c: "client_collect (ae_client env) (agent_call env req mcp (s\<lparr>ag_sessions := store1\<rparr>)) llm = (x, st, l)"
      by (metis prod.collapse)
    from assms(1) b False c have
      "(case (x, st, l) of
          (Waiting, _, llm1) \<Rightarrow> (StepWaits, s\<lparr>ag_sessions := store1\<rparr>, llm1)
        | (Failed e, _, llm1) \<Rightarrow> (StepFailed e, s\<lparr>ag_sessions := store1\<rparr>, llm1)
        | (Streaming c', _, llm1) \<Rightarrow>
            (let (res, s2) = step_answer env sid step (cr_Content c') mcp (s\<lparr>ag_sessions := store1\<rparr>) in (res, s2, llm1))) = (r, s', llm')"
      unfolding agent_Step_def sid_def by (simp add: Let_def)
    with b c False show thesis
      by (intro asked [of step resp store1 x st]) (auto split: send_result.splits prod.splits)
  qed
qed

text \<open>C13: of the calls that a model answers, a step hands the editor exactly those of tools the server knows and its
  policy admits, in their order, and reports those of known tools that the policy refuses with the reason. No
  call gets into an answer in another way.\<close>

theorem step_calls_checked:
  assumes "agent_Step env req mcp (s, llm) = (StepCalls resp, s', llm')" and "ag_policy s = Some p"
  shows "\<exists>c parsed. parseAgentStepLLMOutput (ae_number env) (cr_Content c) = Some parsed \<and>
     (\<exists>store1 st. client_collect (ae_client env) (agent_call env req mcp (s\<lparr>ag_sessions := store1\<rparr>)) llm = (Streaming c, st, llm')) \<and>
     ar_Calls resp = filter (\<lambda>c. call_known mcp c \<and> call_admitted env p c) (ar_Calls parsed) \<and>
     ar_Blocked resp = map (\<lambda>c. blocked_line c (validateCall (ae_sprint env) p c))
       (filter (\<lambda>c. call_known mcp c \<and> \<not> call_admitted env p c) (ar_Calls parsed))"
  using assms(1)
proof (cases rule: agent_Step_cases)
  case (asked step limited store1 x st)
  then obtain c where x: "x = Streaming c" by (cases x) auto
  with asked(3) have "step_answer env (TrimSpace (aq_SessionID req)) step (cr_Content c) mcp (s\<lparr>ag_sessions := store1\<rparr>) = (StepCalls resp, s')"
    by simp
  then show ?thesis by (rule step_answer_calls [where p = p]) (use asked(2) x assms(2) in auto)
qed simp

section \<open>The steps of a session\<close>

lemma BeginStep_steps:
  assumes "sid \<noteq> []" and "BeginStep sid goal (Some st) = ((n, limited, stop), store1)"
  obtains st' where "store1 = Some st'" and "n = session_steps sid st + 1" and "stop \<longleftrightarrow> at_maxSteps st < n"
    and "session_steps sid st' = n" and "at_maxSteps st' = at_maxSteps st" and "\<And>k. k \<noteq> sid \<Longrightarrow> at_sessions st' k = at_sessions st k"
proof (cases store1)
  case None
  then show thesis using assms by (auto simp: BeginStep_def Let_def split: option.splits if_splits)
next
  case (Some st')
  have "n = session_steps sid st + 1 \<and> (stop \<longleftrightarrow> at_maxSteps st < n) \<and> session_steps sid st' = n \<and> at_maxSteps st' = at_maxSteps st
      \<and> (\<forall>k. k \<noteq> sid \<longrightarrow> at_sessions st' k = at_sessions st k)"
    using assms Some by (auto simp: BeginStep_def Let_def session_steps_def no_response_def split: option.splits if_splits)
  then show thesis using Some that by blast
qed

text \<open>What a step leaves of the count of its session.\<close>

definition steps_after :: "step_end \<Rightarrow> int \<Rightarrow> int" where
  "steps_after r n =
     (case r of StepText _ \<Rightarrow> 0 | StepCalls resp \<Rightarrow> (if ar_Finish resp then 0 else n) | _ \<Rightarrow> n)"

lemma step_answer_sessions:
  assumes "step_answer env sid n content mcp s = (r, s')" and "ag_sessions s = Some st" and "sid \<noteq> []"
  shows "\<exists>st'. ag_sessions s' = Some st' \<and> session_steps sid st' = steps_after r (session_steps sid st) \<and>
    (\<forall>k. k \<noteq> sid \<longrightarrow> at_sessions st' k = at_sessions st k) \<and> at_maxSteps st' = at_maxSteps st \<and>
    (\<exists>resp. r = StepText resp \<or> r = StepCalls resp)"
proof -
  note defs = step_answer_def Let_def SetSummary_def session_Reset_def
  obtain st' where st': "ag_sessions s' = Some st'"
    using assms by (auto simp: defs split: option.splits prod.splits if_splits)
  have "session_steps sid st' = steps_after r (session_steps sid st) \<and> (\<forall>k. k \<noteq> sid \<longrightarrow> at_sessions st' k = at_sessions st k)
      \<and> at_maxSteps st' = at_maxSteps st \<and> (\<exists>resp. r = StepText resp \<or> r = StepCalls resp)"
    using assms st' by (auto simp: defs steps_after_def session_steps_def split: option.splits prod.splits if_splits)
  then show ?thesis using st' by blast
qed

lemma step_answer_step:
  "step_answer env sid n content mcp s = (StepCalls resp, s') \<Longrightarrow> ar_Step resp = n"
  by (auto simp: step_answer_def Let_def split: option.splits prod.splits if_splits)

text \<open>C25: every request for a step of a session counts, also one that the runner fails. A session whose count would
  pass the limit is answered without a runner; an answer that ends the task, or is no JSON, starts the count
  anew; and no other session is touched.\<close>

theorem agent_step_counts:
  assumes "agent_Step env req mcp (s, llm) = (r, s', llm')" and "ag_sessions s = Some st"
    and "TrimSpace (aq_SessionID req) = sid" and "sid \<noteq> []"
  shows "\<exists>st'. ag_sessions s' = Some st' \<and> session_steps sid st' = steps_after r (session_steps sid st + 1) \<and>
    (\<forall>k. k \<noteq> sid \<longrightarrow> at_sessions st' k = at_sessions st k) \<and>
    ((\<exists>resp. r = StepLimited resp) \<longleftrightarrow> at_maxSteps st < session_steps sid st + 1) \<and>
    ((\<exists>resp. r = StepLimited resp) \<longrightarrow> llm' = llm) \<and>
    (\<forall>resp. r = StepCalls resp \<longrightarrow> ar_Step resp = session_steps sid st + 1)"
  using assms(1)
proof (cases rule: agent_Step_cases)
  case (limited step resp store1)
  then have b: "BeginStep sid (aq_Goal req) (Some st) = ((step, resp, True), store1)" using assms(2,3) by simp
  show ?thesis by (rule BeginStep_steps [OF assms(4) b]) (use limited in \<open>auto simp: steps_after_def\<close>)
next
  case (asked step limited store1 x stream)
  then have b: "BeginStep sid (aq_Goal req) (Some st) = ((step, limited, False), store1)" using assms(2-4) by simp
  obtain st1 where st1: "store1 = Some st1" "step = session_steps sid st + 1" "\<not> at_maxSteps st < step"
      "session_steps sid st1 = step" "\<And>k. k \<noteq> sid \<Longrightarrow> at_sessions st1 k = at_sessions st k"
    by (rule BeginStep_steps [OF assms(4) b]) auto
  show ?thesis
  proof (cases "\<exists>c. x = Streaming c")
    case False
    with asked(3) st1 show ?thesis by (cases x) (auto simp: steps_after_def)
  next
    case True
    then obtain c where "x = Streaming c" by blast
    then have a: "step_answer env sid step (cr_Content c) mcp (s\<lparr>ag_sessions := store1\<rparr>) = (r, s')"
      using asked(3) assms(3) by simp
    have "ag_sessions (s\<lparr>ag_sessions := store1\<rparr>) = Some st1" using st1(1) by simp
    from step_answer_sessions [OF a this assms(4)] step_answer_step st1 show ?thesis
      using a by (auto dest: step_answer_step)
  qed
qed

section \<open>A repeated request\<close>


section \<open>A sample step\<close>

definition padded_object :: gov where
  "padded_object = GMap [(''calls'', GArr [GMap [(''tool'', GStr '' run_command'')]])]"

definition padded_answer :: string where
  "padded_answer = Marshal padded_object"

definition padded_call :: AgentToolCall where
  "padded_call = \<lparr>tc_Tool = '' run_command'', tc_ID = [], tc_Args = None\<rparr>"

lemma padded_text:
  "padded_answer = ''{'' @ [CHR 0x22] @ ''calls'' @ [CHR 0x22] @ '':[{'' @ [CHR 0x22] @ ''tool'' @ [CHR 0x22] @ '':''
     @ [CHR 0x22] @ '' run_command'' @ [CHR 0x22] @ ''}]}''"
  by code_simp

lemma TrimSpace_edges:
  assumes "ascii s" and "s \<noteq> []" and "\<not> IsSpace (byte (hd s))" and "\<not> IsSpace (byte (last s))"
  shows "TrimSpace s = s"
proof -
  have ch: "chunks s = map (\<lambda>c. [c]) s" using assms(1) by (induction s) (auto simp: ascii_def)
  have b: "byte (hd s) < (128::nat)" "byte (last s) < (128::nat)" using assms(1,2) by (auto simp: ascii_def)
  have "\<not> space_chunk (hd (chunks s))" "\<not> space_chunk (hd (rev (chunks s)))"
    using assms b by (simp_all add: ch hd_map last_map hd_rev space_chunk_def decode_rune_1)
  then have "dropWhile space_chunk (chunks s) = chunks s" "dropWhile space_chunk (rev (chunks s)) = rev (chunks s)"
    by (simp_all add: dropWhile_eq_self_iff)
  then show ?thesis by (simp add: TrimSpace_def trim_chunks_def ch comp_def)
qed

lemma agent_fields:
  "\<not> name_matches ''finish'' ''calls''" "\<not> name_matches ''summary'' ''calls''" "name_matches ''calls'' ''calls''"
  "name_matches ''tool'' ''tool''"
  by (simp_all add: name_matches_ascii ascii_def fold_rune_def)

lemma padded_parsed: "parseAgentStepLLMOutput num padded_answer = Some (no_response\<lparr>ar_Calls := [padded_call]\<rparr>)"
proof -
  have "json_wf padded_object" by (simp add: padded_object_def utf8_text_of_ascii ascii_def)
  from json_parse_jv_of [OF this] have p: "json_parse padded_answer = Some (jv_of padded_object)" by (simp only: padded_answer_def)
  obtain x y z where jv: "jv_of padded_object = JObj [(''calls'', x, JArr [(y, JObj [(''tool'', z, JStr '' run_command'')])])]"
    by (simp only: padded_object_def jv_of.simps list.map prod.case)
  have "TrimSpace padded_answer = padded_answer" by (rule TrimSpace_edges) (simp_all add: padded_text ascii_def IsSpace_def)
  then have u: "unfenced_answer padded_answer = padded_answer"
    by (simp add: unfenced_answer_def padded_text TrimPrefix_def TrimSuffix_def HasPrefix_def HasSuffix_def fence_def numeral_eq_Suc)
  show ?thesis
    by (simp add: parseAgentStepLLMOutput_def u p jv decode_step_member_def decode_call_member_def decode_slice_def decode_call_def
        decode_string_def agent_fields empty_call_def padded_call_def no_response_def)
qed

definition agent_world :: "string \<Rightarrow> agent_env" where
  "agent_world content = \<lparr>ae_chat = warm_env, ae_now = 0, ae_client = \<lparr>cl_env = (\<lambda>_. warm_send), cl_answer = (\<lambda>_. [text_chunk content])\<rparr>,
     ae_sprint = (\<lambda>_. []), ae_number = (\<lambda>_. None), ae_job_body = (\<lambda>_. None)\<rparr>"

lemma agent_world_fields:
  "ae_chat (agent_world c) = warm_env" "ae_number (agent_world c) = (\<lambda>_. None)" "ae_sprint (agent_world c) = (\<lambda>_. [])"
  by (simp_all add: agent_world_def)

lemma agent_world_collects:
  assumes "c \<noteq> []"
  obtains r st llm where "client_collect (ae_client (agent_world c)) call warm_llm = (Streaming r, st, llm)" and "cr_Content r = c"
proof -
  obtain x s where "SendMessageWithMeta warm_send warm_llm = (Streaming x, s)"
    using warm_sends by (auto split: prod.splits send_result.splits)
  then show thesis
    using that assms
    by (cases x) (simp add: client_collect_def agent_world_def CollectMessage_def llm_SendMessage_def collect_stream_def text_chunk_def)
qed

definition task :: "string \<Rightarrow> AgentStepRequest" where
  "task rid = \<lparr>aq_RequestID = rid, aq_SessionID = ''s'', aq_Goal = ''g'', aq_Context = [], aq_Observations = []\<rparr>"

definition new_agent :: AgentService where
  "new_agent = NewAgentService no_config"

definition agent_server :: AgentHandler where
  "agent_server = \<lparr>ah_handler = warm_handler, ah_agent = new_agent, ah_sandbox = None\<rparr>"

lemma new_agent_fields:
  "ag_policy new_agent = Some (NewAgentPolicy [] [] [])" "ag_sessions new_agent = Some (NewAgentSessionStore 0)"
  by (simp_all add: new_agent_def NewAgentService_def no_config_def)

lemma padded_admitted:
  "IsKnownAgentTool '' run_command'' None"
  "validateCall sprint (NewAgentPolicy [] [] []) padded_call = []"
  "validateCall sprint (NewAgentPolicy [] [] []) (padded_call\<lparr>tc_Tool := ''run_command''\<rparr>) = reason_empty"
proof -
  have trim: "TrimSpace '' run_command'' = ''run_command''" "TrimSpace ''run_command'' = ''run_command''"
    by (simp_all add: TrimSpace_eval)
  then have p: "ParseToolAlias '' run_command'' = None" "ParseToolAlias ''run_command'' = None"
    by (simp_all add: ParseToolAlias_def mcp_alias_submatch_def Let_def HasPrefix_def)
  show "IsKnownAgentTool '' run_command'' None" by (simp add: IsKnownAgentTool_def trim agentToolNames_def)
  show "validateCall sprint (NewAgentPolicy [] [] []) padded_call = []"
    by (simp add: validateCall_def padded_call_def p validatePathArg_def NewAgentPolicy_def)
  have "ToLower (TrimSpace []) = []" by (simp add: TrimSpace_eval ToLower_def)
  then show "validateCall sprint (NewAgentPolicy [] [] []) (padded_call\<lparr>tc_Tool := ''run_command''\<rparr>) = reason_empty"
    by (simp add: validateCall_def padded_call_def p validateCommand_def argString_def)
qed

lemma agent_steps:
  obtains resp s' llm where "agent_Step (agent_world padded_answer) (task rid) None (new_agent, warm_llm) = (StepCalls resp, s', llm)"
     "ar_Calls resp = [padded_call]" "\<not> ar_Finish resp"
proof -
  have ne: "padded_answer \<noteq> []" by (simp add: padded_text)
  have t: "TrimSpace ''s'' = ''s''" by (simp add: TrimSpace_eval)
  obtain step lim store1 where b: "BeginStep ''s'' ''g'' (Some (NewAgentSessionStore 0)) = ((step, lim, False), store1)"
    by (simp add: BeginStep_def NewAgentSessionStore_def Let_def)
  obtain r st llm where c: "client_collect (ae_client (agent_world padded_answer))
        (agent_call (agent_world padded_answer) (task rid) None (new_agent\<lparr>ag_sessions := store1\<rparr>)) warm_llm = (Streaming r, st, llm)"
      "cr_Content r = padded_answer"
    by (rule agent_world_collects [OF ne])
  have "\<exists>resp s'. step_answer (agent_world padded_answer) ''s'' step padded_answer None (new_agent\<lparr>ag_sessions := store1\<rparr>)
        = (StepCalls resp, s') \<and> ar_Calls resp = [padded_call] \<and> \<not> ar_Finish resp"
    by (simp add: step_answer_def padded_parsed new_agent_fields agent_world_fields FilterCalls_eq filterAgentToolCalls_def registry_view_def
         padded_admitted Let_def padded_call_def [symmetric] no_response_def) (simp add: padded_call_def padded_admitted)
  then show thesis using that b c by (auto simp: agent_Step_def t task_def new_agent_fields)
qed


text \<open>The step hands the editor a call that names its tool with a blank, although the policy refuses the tool's own name.\<close>

theorem step_calls_checked_witness:
  "\<exists>resp. fst (agent_Step (agent_world padded_answer) (task []) None (new_agent, warm_llm)) = StepCalls resp \<and> ar_Calls resp = [padded_call] \<and>
     validateCall (\<lambda>_. []) (NewAgentPolicy [] [] []) (padded_call\<lparr>tc_Tool := ''run_command''\<rparr>) = reason_empty"
proof -
  obtain resp s' llm where a: "agent_Step (agent_world padded_answer) (task []) None (new_agent, warm_llm) = (StepCalls resp, s', llm)"
      "ar_Calls resp = [padded_call]" by (rule agent_steps)
  show ?thesis using step_calls_checked [OF a(1) new_agent_fields(1)] a padded_admitted(3) by auto
qed

theorem agent_step_counts_witness:
  "\<exists>st'. ag_sessions (fst (snd (agent_Step (agent_world padded_answer) (task []) None (new_agent, warm_llm)))) = Some st' \<and>
     session_steps ''s'' st' = 1"
proof -
  obtain resp s' llm where a: "agent_Step (agent_world padded_answer) (task []) None (new_agent, warm_llm) = (StepCalls resp, s', llm)"
      "\<not> ar_Finish resp" by (rule agent_steps)
  have "TrimSpace (aq_SessionID (task [])) = ''s''" by (simp add: task_def TrimSpace_eval)
  from agent_step_counts [OF a(1) new_agent_fields(2) this] show ?thesis
    using a by (auto simp: steps_after_def session_steps_def NewAgentSessionStore_def)
qed


end
